(* ===== verification/Ck_Prelude.thy ===== *)
theory Ck_Prelude
  imports Main "HOL-Library.Word" "HOL-Library.Monad_Syntax"
begin

text \<open>
  Shared vocabulary of the development: the fixed-width C types as words, byte strings,
  C character arrays, little-endian (de)serialisation on lists of bytes, cursor readers,
  and the \<open>named_theorems\<close> collections the component theories add to.

  A C cursor pair \<open>(*p, end)\<close> is the list of the bytes from \<open>*p\<close> up to \<open>end\<close>; a reader
  returns \<open>None\<close> where the C function returns \<open>false\<close>, and the value with the bytes after
  the advanced cursor otherwise.  A writer is the list of bytes it stores at \<open>*p\<close>.
\<close>

unbundle bit_operations_syntax

type_synonym byte = "8 word"
type_synonym u16 = "16 word"
type_synonym u32 = "32 word"
type_synonym u64 = "64 word"
type_synonym bytes = "byte list"
type_synonym 'a reader = "bytes \<Rightarrow> ('a \<times> bytes) option"

named_theorems wire_rt "a reader applied to what the matching writer stored"
named_theorems wire_len "lengths of what writers store"
named_theorems reader_dest "what a successful read says of its input"

section \<open>Bytes of a word\<close>

lemma and_ff_take_bit: "(v :: 'a::len word) AND 0xff = take_bit 8 v"
proof -
  have "(0xff :: 'a word) = mask 8"
    by (simp add: mask_eq_exp_minus_1)
  then show ?thesis
    by (simp add: take_bit_eq_mask)
qed

lemma ucast_and_ff [simp]: "(ucast ((v :: 'a::len word) AND 0xff) :: byte) = ucast v"
  unfolding and_ff_take_bit by (rule bit_word_eqI) (auto simp: bit_simps)

lemma bit_byte_at:
  "bit (push_bit k (ucast (ucast (drop_bit k v) :: byte) :: 'a::len word)) n
    \<longleftrightarrow> k \<le> n \<and> n < k + 8 \<and> bit (v :: 'a::len word) n"
  by (auto simp: bit_simps dest: bit_imp_le_length)

lemma bit_byte_low:
  "bit (ucast (ucast v :: byte) :: 'a::len word) n \<longleftrightarrow> n < 8 \<and> bit (v :: 'a::len word) n"
  by (auto simp: bit_simps dest: bit_imp_le_length)

text \<open>
  \<open>le_word\<close> reads a byte list as a little-endian number; the C code writes the same value
  as an explicit disjunction of shifted bytes.
\<close>

fun le_word :: "bytes \<Rightarrow> 'a::len word" where
  "le_word [] = 0"
| "le_word (b # bs) = ucast b OR push_bit 8 (le_word bs)"

definition le_bytes :: "nat \<Rightarrow> 'a::len word \<Rightarrow> bytes" where
  "le_bytes n v = map (\<lambda>i. ucast (drop_bit (8 * i) v)) [0..<n]"

lemma length_le_bytes [simp, wire_len]: "length (le_bytes n v) = n"
  by (simp add: le_bytes_def)

lemma nth_le_bytes [simp]: "i < n \<Longrightarrow> le_bytes n v ! i = ucast (drop_bit (8 * i) v)"
  by (simp add: le_bytes_def)

lemma bit_le_word:
  "bit (le_word bs :: 'a::len word) n \<longleftrightarrow>
    n < LENGTH('a) \<and> n div 8 < length bs \<and> bit (bs ! (n div 8)) (n mod 8)"
proof (induction bs arbitrary: n)
  case Nil
  then show ?case by simp
next
  case (Cons b bs)
  show ?case
  proof (cases "n < 8")
    case True
    then show ?thesis
      by (auto simp: bit_or_iff bit_push_bit_iff bit_ucast_iff)
  next
    case False
    then obtain m where n: "n = 8 + m"
      by (metis add.commute le_add_diff_inverse2 not_less)
    have "\<not> bit b n"
      using False bit_imp_le_length [of b n] by auto
    moreover have "(8 + m) div 8 = Suc (m div 8)"
      by simp
    ultimately show ?thesis
      using Cons.IH [of m] by (auto simp: n bit_or_iff bit_push_bit_iff bit_ucast_iff)
  qed
qed

lemma bit_ucast_byte: "bit (ucast (b :: byte) :: 'a::len word) n \<longleftrightarrow> n < LENGTH('a) \<and> bit b n"
  by (simp add: bit_ucast_iff)

lemma le_word_le_bytes:
  "8 * n \<le> LENGTH('a) \<Longrightarrow> le_word (le_bytes n v) = take_bit (8 * n) (v :: 'a::len word)"
  by (rule bit_word_eqI)
     (auto simp: bit_le_word bit_ucast_iff bit_drop_bit_eq bit_take_bit_iff
        div_less_iff_less_mult mult.commute)

lemma take_bit_le_word:
  "8 * length bs \<le> k \<Longrightarrow> take_bit k (le_word bs :: 'a::len word) = le_word bs"
  by (rule bit_word_eqI) (auto simp: bit_le_word bit_take_bit_iff div_less_iff_less_mult)

lemma le_bytes_le_word:
  assumes "8 * n \<le> LENGTH('a)" and "length bs = n"
  shows "le_bytes n (le_word bs :: 'a::len word) = bs"
proof (rule nth_equalityI)
  show "length (le_bytes n (le_word bs :: 'a word)) = length bs"
    using assms by simp
  fix i assume "i < length (le_bytes n (le_word bs :: 'a word))"
  then have i: "i < n" by simp
  show "le_bytes n (le_word bs :: 'a word) ! i = bs ! i"
  proof (rule bit_word_eqI)
    fix k assume "k < LENGTH(8)"
    then have k: "k < 8" by simp
    have "8 * i + k < LENGTH('a)"
      using i k assms by linarith
    moreover have "(8 * i + k) div 8 = i" and "(8 * i + k) mod 8 = k"
      using k by auto
    ultimately show "bit (le_bytes n (le_word bs :: 'a word) ! i) k \<longleftrightarrow> bit (bs ! i) k"
      using i k assms by (simp add: bit_le_word bit_ucast_iff bit_drop_bit_eq)
  qed
qed

lemma unat_byte_lt: "unat (n :: byte) < 256"
  using unsigned_less [of n, where 'a = nat] by simp

lemma unat_u64_lt: "unat (n :: u64) < 2 ^ 64"
  using unsigned_less [of n, where 'a = nat] by simp

lemma unat_ucast_byte64 [simp]: "unat (ucast (n :: byte) :: u64) = unat n"
proof -
  have "take_bit 64 (unat n) = unat n"
    using unat_byte_lt [of n] by (intro take_bit_nat_eq_self) simp
  then show ?thesis by (simp add: unsigned_ucast_eq unsigned_take_bit_eq)
qed

lemma ucast_byte64_back [simp]: "ucast (ucast (n :: byte) :: u64) = n"
  using unat_byte_lt [of n]
  by (simp add: word_unat_eq_iff unsigned_ucast_eq take_bit_word_eq_self)

lemma unat_u64_rest: "unat (- 1 - v :: u64) = 2 ^ 64 - 1 - unat v"
  using unat_u64_lt [of v]
  by (simp add: unat_sub word_le_nat_alt unsigned_minus_1_eq_mask mask_eq_exp_minus_1)

section \<open>C buffers and strings\<close>

text \<open>
  A fixed array that was cleared by \<open>memset\<close> and then received \<open>bs\<close>; the C string in such an
  array is what precedes its first NUL.
\<close>

definition c_buf :: "nat \<Rightarrow> bytes \<Rightarrow> bytes" where
  "c_buf n bs = bs @ replicate (n - length bs) 0"

definition cstr :: "bytes \<Rightarrow> bytes" where
  "cstr s = takeWhile (\<lambda>b. b \<noteq> 0) s"

definition strlen :: "bytes \<Rightarrow> nat" where
  "strlen s = length (cstr s)"

text \<open>A well-formed string field: NUL-terminated inside its array, zero after the terminator.\<close>

definition str_field :: "bytes \<Rightarrow> bool" where
  "str_field s \<longleftrightarrow> strlen s \<le> 255 \<and> c_buf 256 (cstr s) = s"

lemma length_c_buf: "length bs \<le> n \<Longrightarrow> length (c_buf n bs) = n"
  by (simp add: c_buf_def)

lemma take_strlen: "take (strlen s) s = cstr s"
  by (simp add: strlen_def cstr_def) (metis takeWhile_eq_take)

lemma cstr_no_nul: "0 \<notin> set (cstr s)"
  by (auto simp: cstr_def dest: set_takeWhileD)

lemma takeWhile_replicate_zero: "takeWhile (\<lambda>b. b \<noteq> (0::byte)) (replicate k 0) = []"
  by (cases k) auto

lemma cstr_c_buf: "0 \<notin> set bs \<Longrightarrow> cstr (c_buf n bs) = bs"
  unfolding cstr_def c_buf_def
  by (subst takeWhile_append2) (auto simp: takeWhile_replicate_zero)

lemma str_field_c_buf: "0 \<notin> set bs \<Longrightarrow> length bs \<le> 255 \<Longrightarrow> str_field (c_buf 256 bs)"
  by (simp add: str_field_def strlen_def cstr_c_buf)

lemma str_field_strlen: "str_field s \<Longrightarrow> strlen s \<le> 255"
  by (simp add: str_field_def)

lemma str_field_c_buf_cstr: "str_field s \<Longrightarrow> c_buf 256 (cstr s) = s"
  by (simp add: str_field_def)

section \<open>Repeated reads\<close>

text \<open>The \<open>for (i = 0; i < n; i++)\<close> loops of the decoders, each stopping at the first failure.\<close>

fun read_seq :: "'a reader \<Rightarrow> nat \<Rightarrow> 'a list reader" where
  "read_seq rd 0 p = Some ([], p)"
| "read_seq rd (Suc n) p = do {
     (x, p) \<leftarrow> rd p;
     (xs, p) \<leftarrow> read_seq rd n p;
     Some (x # xs, p) }"

lemma read_seq_numeral [simp]:
  "read_seq rd (numeral k) p =
    do { (x, p) \<leftarrow> rd p; (xs, p) \<leftarrow> read_seq rd (pred_numeral k) p; Some (x # xs, p) }"
  by (simp add: numeral_eq_Suc)

lemma read_seq_writes:
  assumes "\<And>x r. x \<in> set xs \<Longrightarrow> rd (wr x @ r) = Some (x, r)"
  shows "read_seq rd (length xs) (concat (map wr xs) @ rest) = Some (xs, rest)"
  using assms by (induction xs) simp_all

lemma read_seq_length: "read_seq rd n p = Some (xs, q) \<Longrightarrow> length xs = n"
  by (induction n arbitrary: p xs) (auto simp: bind_eq_Some_conv)

lemma read_seq_consumes:
  assumes "\<And>p x q. rd p = Some (x, q) \<Longrightarrow> k + length q \<le> length p"
    and "read_seq rd n p = Some (xs, q)"
  shows "n * k + length q \<le> length p"
  using assms(2)
proof (induction n arbitrary: p xs)
  case 0
  then show ?case by simp
next
  case (Suc n)
  then obtain x p' ys where "rd p = Some (x, p')" and "read_seq rd n p' = Some (ys, q)"
    by (auto simp: bind_eq_Some_conv)
  from assms(1) [OF this(1)] Suc.IH [OF this(2)] show ?case by simp
qed

lemma drop_to_last: "length d = k \<Longrightarrow> drop (length (a @ d) - k) (a @ d) = d"
  by simp

lemma length_concat_const:
  "(\<And>x. x \<in> set xs \<Longrightarrow> length (f x) = k) \<Longrightarrow> length (concat (map f xs)) = k * length xs"
  by (induction xs) auto

text \<open>The bytes of a string literal, without its terminator.\<close>

definition ascii :: "string \<Rightarrow> bytes" where
  "ascii s = map of_char s"

end
