(* ===== verification/Sv2_Wire.thy ===== *)
theory Sv2_Wire
  imports Ck_Prelude
begin

text \<open>
  The primitive readers and writers of \<^verbatim>\<open>src/src/sv2_codec.c\<close> and the frame header.
  Every reader keeps the bounds check of the code before it touches the input, in the code's
  order; every writer is the bytes it stores.  The locales \<open>wire_field\<close> and
  \<open>canonical_field\<close> state the contract the message codecs rely on, and are interpreted here
  on every primitive.
\<close>

section \<open>Readers\<close>

definition have_n :: "bytes \<Rightarrow> nat \<Rightarrow> bool" where
  "have_n p n \<longleftrightarrow> n \<le> length p"

definition sv2_read_u8 :: "byte reader" where
  "sv2_read_u8 p = (if \<not> have_n p 1 then None else Some (p ! 0, drop 1 p))"

definition sv2_read_u16 :: "u16 reader" where
  "sv2_read_u16 p =
     (if \<not> have_n p 2 then None
      else Some (ucast (p ! 0) OR push_bit 8 (ucast (p ! 1)), drop 2 p))"

definition sv2_read_u24 :: "u32 reader" where
  "sv2_read_u24 p =
     (if \<not> have_n p 3 then None
      else Some (ucast (p ! 0) OR push_bit 8 (ucast (p ! 1)) OR push_bit 16 (ucast (p ! 2)),
                 drop 3 p))"

definition sv2_read_u32 :: "u32 reader" where
  "sv2_read_u32 p =
     (if \<not> have_n p 4 then None
      else Some (ucast (p ! 0) OR push_bit 8 (ucast (p ! 1)) OR
                 push_bit 16 (ucast (p ! 2)) OR push_bit 24 (ucast (p ! 3)), drop 4 p))"

definition sv2_read_u64 :: "u64 reader" where
  "sv2_read_u64 p =
     (if \<not> have_n p 8 then None
      else Some (ucast (p ! 0) OR push_bit 8 (ucast (p ! 1)) OR
                 push_bit 16 (ucast (p ! 2)) OR push_bit 24 (ucast (p ! 3)) OR
                 push_bit 32 (ucast (p ! 4)) OR push_bit 40 (ucast (p ! 5)) OR
                 push_bit 48 (ucast (p ! 6)) OR push_bit 56 (ucast (p ! 7)), drop 8 p))"

text \<open>A \<open>float\<close> is kept as its 32 bit pattern: the code only ever copies it with \<open>memcpy\<close>.\<close>

definition sv2_read_f32 :: "u32 reader" where
  "sv2_read_f32 p = sv2_read_u32 p"

definition sv2_read_u256 :: "bytes reader" where
  "sv2_read_u256 p = (if \<not> have_n p 32 then None else Some (take 32 p, drop 32 p))"

text \<open>
  The string reader checks the length against the input before it checks it against the
  destination; its value is what \<open>memcpy\<close> puts before the terminating NUL.
\<close>

definition sv2_read_str0_255 :: "nat \<Rightarrow> bytes reader" where
  "sv2_read_str0_255 outsz p = do {
     (n, p) \<leftarrow> sv2_read_u8 p;
     if \<not> have_n p (unat n) then None
     else if unat n + 1 > outsz then None
     else Some (take (unat n) p, drop (unat n) p) }"

definition SV2_MAX_B0_32 :: nat where "SV2_MAX_B0_32 = 32"
definition SV2_MAX_STR_LEN :: nat where "SV2_MAX_STR_LEN = 255"

definition sv2_read_b0_32 :: "(bytes \<times> byte) reader" where
  "sv2_read_b0_32 p = do {
     (n, p) \<leftarrow> sv2_read_u8 p;
     if unat n > SV2_MAX_B0_32 then None
     else if \<not> have_n p (unat n) then None
     else Some ((take (unat n) p, n), drop (unat n) p) }"

definition sv2_read_b0_255 :: "nat \<Rightarrow> (bytes \<times> byte) reader" where
  "sv2_read_b0_255 outsz p = do {
     (n, p) \<leftarrow> sv2_read_u8 p;
     if unat n > outsz then None
     else if \<not> have_n p (unat n) then None
     else Some ((take (unat n) p, n), drop (unat n) p) }"

definition sv2_read_b0_64k :: "(bytes \<times> u16) reader" where
  "sv2_read_b0_64k p = do {
     (n, p) \<leftarrow> sv2_read_u16 p;
     if \<not> have_n p (unat n) then None
     else Some ((take (unat n) p, n), drop (unat n) p) }"

text \<open>The zero-copy variant yields the same bytes, as a reference into the payload.\<close>

definition read_b0_64k_ref :: "(bytes \<times> u16) reader" where
  "read_b0_64k_ref p = do {
     (n, p) \<leftarrow> sv2_read_u16 p;
     if \<not> have_n p (unat n) then None
     else Some ((take (unat n) p, n), drop (unat n) p) }"

definition SV2_MAX_PAYLOAD :: u32 where "SV2_MAX_PAYLOAD = 0x00FFFFFF"
definition SV2_MAX_TX_BYTES :: u32 where "SV2_MAX_TX_BYTES = push_bit 20 4"

definition sv2_read_b0_16m :: "(bytes \<times> u32) reader" where
  "sv2_read_b0_16m p = do {
     (n, p) \<leftarrow> sv2_read_u24 p;
     if n > SV2_MAX_TX_BYTES \<or> n > SV2_MAX_PAYLOAD then None
     else if \<not> have_n p (unat n) then None
     else Some ((take (unat n) p, n), drop (unat n) p) }"

definition sv2_read_bool :: "bool reader" where
  "sv2_read_bool p = do { (b, p) \<leftarrow> sv2_read_u8 p; Some (b AND 1 \<noteq> 0, p) }"

definition sv2_read_option_u32 :: "(bool \<times> u32) reader" where
  "sv2_read_option_u32 p = do {
     (n, p) \<leftarrow> sv2_read_u8 p;
     if n > 1 then None
     else if n \<noteq> 1 then Some ((False, 0), p)
     else do { (v, p) \<leftarrow> sv2_read_u32 p; Some ((True, v), p) } }"

section \<open>Writers\<close>

definition sv2_write_u8 :: "byte \<Rightarrow> bytes" where
  "sv2_write_u8 v = [v]"

definition sv2_write_u16 :: "u16 \<Rightarrow> bytes" where
  "sv2_write_u16 v = [ucast (v AND 0xff), ucast (drop_bit 8 v AND 0xff)]"

definition sv2_write_u24 :: "u32 \<Rightarrow> bytes" where
  "sv2_write_u24 v =
     [ucast (v AND 0xff), ucast (drop_bit 8 v AND 0xff), ucast (drop_bit 16 v AND 0xff)]"

definition sv2_write_u32 :: "u32 \<Rightarrow> bytes" where
  "sv2_write_u32 v =
     [ucast (v AND 0xff), ucast (drop_bit 8 v AND 0xff),
      ucast (drop_bit 16 v AND 0xff), ucast (drop_bit 24 v AND 0xff)]"

definition sv2_write_u64 :: "u64 \<Rightarrow> bytes" where
  "sv2_write_u64 v = map (\<lambda>i. ucast (drop_bit (8 * i) v AND 0xff)) [0..<8]"

definition sv2_write_f32 :: "u32 \<Rightarrow> bytes" where
  "sv2_write_f32 v = sv2_write_u32 v"

definition sv2_write_u256 :: "bytes \<Rightarrow> bytes" where
  "sv2_write_u256 v = take 32 v"

definition sv2_write_str0_255 :: "bytes \<Rightarrow> bytes" where
  "sv2_write_str0_255 s =
     (let n = (if strlen s > SV2_MAX_STR_LEN then SV2_MAX_STR_LEN else strlen s)
      in sv2_write_u8 (of_nat n) @ take n s)"

definition sv2_write_b0_32 :: "bytes \<Rightarrow> byte \<Rightarrow> bytes" where
  "sv2_write_b0_32 data len =
     (let len = (if unat len > SV2_MAX_B0_32 then of_nat SV2_MAX_B0_32 else len)
      in sv2_write_u8 len @ take (unat len) data)"

definition sv2_write_b0_255 :: "bytes \<Rightarrow> byte \<Rightarrow> bytes" where
  "sv2_write_b0_255 data len = sv2_write_u8 len @ take (unat len) data"

definition sv2_write_b0_64k :: "bytes \<Rightarrow> u16 \<Rightarrow> bytes" where
  "sv2_write_b0_64k data len = sv2_write_u16 len @ take (unat len) data"

definition sv2_write_b0_16m :: "bytes \<Rightarrow> u32 \<Rightarrow> bytes" where
  "sv2_write_b0_16m data len = sv2_write_u24 len @ take (unat len) data"

definition sv2_write_bool :: "bool \<Rightarrow> bytes" where
  "sv2_write_bool v = sv2_write_u8 (if v then 1 else 0)"

definition sv2_write_option_u32 :: "bool \<Rightarrow> u32 \<Rightarrow> bytes" where
  "sv2_write_option_u32 present v =
     (if \<not> present then sv2_write_u8 0 else sv2_write_u8 1 @ sv2_write_u32 v)"

section \<open>Readers and writers as little-endian numbers\<close>

lemma sv2_read_u8_eq: "sv2_read_u8 p = (case p of [] \<Rightarrow> None | b # q \<Rightarrow> Some (b, q))"
  by (cases p) (auto simp: sv2_read_u8_def have_n_def)

lemma length_ge_exhaust:
  "2 \<le> length p \<Longrightarrow> \<exists>a b r. p = a # b # r"
  "3 \<le> length p \<Longrightarrow> \<exists>a b c r. p = a # b # c # r"
  "4 \<le> length p \<Longrightarrow> \<exists>a b c d r. p = a # b # c # d # r"
  "8 \<le> length p \<Longrightarrow> \<exists>a b c d e f g h r. p = a # b # c # d # e # f # g # h # r"
  by (auto simp: numeral_eq_Suc Suc_le_length_iff)

lemma le_word_explicit:
  "le_word [a, b] = (ucast a OR push_bit 8 (ucast b) :: 'a::len word)"
  "le_word [a, b, c] = (ucast a OR push_bit 8 (ucast b) OR push_bit 16 (ucast c) :: 'a::len word)"
  "le_word [a, b, c, d] =
     (ucast a OR push_bit 8 (ucast b) OR push_bit 16 (ucast c) OR push_bit 24 (ucast d) :: 'a::len word)"
  "le_word [a, b, c, d, e, f, g, h] =
     (ucast a OR push_bit 8 (ucast b) OR push_bit 16 (ucast c) OR push_bit 24 (ucast d) OR
      push_bit 32 (ucast e) OR push_bit 40 (ucast f) OR push_bit 48 (ucast g) OR
      push_bit 56 (ucast h) :: 'a::len word)"
  by (simp_all only: le_word.simps push_bit_or push_bit_push_bit push_bit_of_0 or.right_neutral)
     (simp_all add: or.assoc)

lemma sv2_read_u16_le:
  "sv2_read_u16 p = (if 2 \<le> length p then Some (le_word (take 2 p), drop 2 p) else None)"
  using length_ge_exhaust(1) [of p]
  by (auto simp: sv2_read_u16_def have_n_def le_word_explicit simp del: le_word.simps)

lemma sv2_read_u24_le:
  "sv2_read_u24 p = (if 3 \<le> length p then Some (le_word (take 3 p), drop 3 p) else None)"
  using length_ge_exhaust(2) [of p]
  by (auto simp: sv2_read_u24_def have_n_def le_word_explicit simp del: le_word.simps)

lemma sv2_read_u32_le:
  "sv2_read_u32 p = (if 4 \<le> length p then Some (le_word (take 4 p), drop 4 p) else None)"
  using length_ge_exhaust(3) [of p]
  by (auto simp: sv2_read_u32_def have_n_def le_word_explicit simp del: le_word.simps)

lemma sv2_read_u64_le:
  "sv2_read_u64 p = (if 8 \<le> length p then Some (le_word (take 8 p), drop 8 p) else None)"
  using length_ge_exhaust(4) [of p]
  by (auto simp: sv2_read_u64_def have_n_def le_word_explicit simp del: le_word.simps)

lemma sv2_write_le:
  "sv2_write_u16 v = le_bytes 2 v"
  "sv2_write_u24 w = le_bytes 3 w"
  "sv2_write_u32 w = le_bytes 4 w"
  "sv2_write_u64 x = le_bytes 8 x"
  by (simp_all add: sv2_write_u16_def sv2_write_u24_def sv2_write_u32_def sv2_write_u64_def
        le_bytes_def upt_rec)

section \<open>The contract of a wire field\<close>

text \<open>
  \<open>wire_field\<close>: a reader recovers what the writer stored and leaves the bytes after it.
  \<open>canonical_field\<close>: besides, whatever the reader accepts is what the writer would have
  stored, so the field has one encoding per value.
\<close>

locale wire_field =
  fixes wr :: "'a \<Rightarrow> bytes"
    and rd :: "'a reader"
    and ok :: "'a \<Rightarrow> bool"
  assumes rd_wr: "ok x \<Longrightarrow> rd (wr x @ r) = Some (x, r)"
begin

lemma wr_prefix_free: "ok x \<Longrightarrow> ok y \<Longrightarrow> wr x @ r = wr y @ s \<Longrightarrow> x = y \<and> r = s"
  by (metis Pair_inject option.inject rd_wr)

lemma rd_wr_all: "ok x \<Longrightarrow> rd (wr x) = Some (x, [])"
  using rd_wr [of x "[]"] by simp

lemma seq_rd_wr:
  "list_all ok xs \<Longrightarrow> read_seq rd (length xs) (concat (map wr xs) @ r) = Some (xs, r)"
  by (rule read_seq_writes) (auto simp: list_all_iff intro: rd_wr)

end

locale canonical_field = wire_field +
  assumes wr_rd: "rd p = Some (x, q) \<Longrightarrow> ok x \<and> p = wr x @ q"
begin

lemma rd_consumes: "rd p = Some (x, q) \<Longrightarrow> length p = length (wr x) + length q"
  using wr_rd [of p x q] by auto

lemma seq_wr_rd:
  "read_seq rd n p = Some (xs, q) \<Longrightarrow> list_all ok xs \<and> p = concat (map wr xs) @ q"
  by (induction n arbitrary: p xs) (auto simp: bind_eq_Some_conv dest!: wr_rd)

end

lemma canonical_le_field:
  assumes "8 * n \<le> LENGTH('a::len)"
    and "\<And>v :: 'a word. wr v = le_bytes n v"
    and "\<And>p. rd p = (if n \<le> length p then Some (le_word (take n p), drop n p) else None)"
  shows "canonical_field wr rd (\<lambda>v :: 'a word. take_bit (8 * n) v = v)"
proof
  fix v :: "'a word" and r
  assume "take_bit (8 * n) v = v"
  then show "rd (wr v @ r) = Some (v, r)"
    by (simp add: assms le_word_le_bytes)
next
  fix p q and v :: "'a word"
  assume "rd p = Some (v, q)"
  then have n: "n \<le> length p" and v: "v = le_word (take n p)" and q: "q = drop n p"
    by (auto simp: assms split: if_splits)
  have "le_bytes n v = take n p"
    unfolding v using n assms(1) by (intro le_bytes_le_word) simp_all
  then show "take_bit (8 * n) v = v \<and> p = wr v @ q"
    using n by (simp add: v q assms take_bit_le_word)
qed

interpretation w8: canonical_field sv2_write_u8 sv2_read_u8 "\<lambda>_. True"
  by unfold_locales (auto simp: sv2_write_u8_def sv2_read_u8_eq split: list.splits)

interpretation w16: canonical_field sv2_write_u16 sv2_read_u16 "\<lambda>_. True"
  using canonical_le_field [OF _ sv2_write_le(1) sv2_read_u16_le]
  by (simp add: take_bit_word_eq_self)

interpretation w24: canonical_field sv2_write_u24 sv2_read_u24 "\<lambda>v. take_bit 24 v = v"
  using canonical_le_field [OF _ sv2_write_le(2) sv2_read_u24_le] by simp

interpretation w32: canonical_field sv2_write_u32 sv2_read_u32 "\<lambda>_. True"
  using canonical_le_field [OF _ sv2_write_le(3) sv2_read_u32_le]
  by (simp add: take_bit_word_eq_self)

interpretation w64: canonical_field sv2_write_u64 sv2_read_u64 "\<lambda>_. True"
  using canonical_le_field [OF _ sv2_write_le(4) sv2_read_u64_le]
  by (simp add: take_bit_word_eq_self)

interpretation wf32: canonical_field sv2_write_f32 sv2_read_f32 "\<lambda>_. True"
  using w32.canonical_field_axioms
  by (simp add: sv2_write_f32_def [abs_def] sv2_read_f32_def [abs_def])

interpretation w256: canonical_field sv2_write_u256 sv2_read_u256 "\<lambda>v. length v = 32"
  by unfold_locales (auto simp: sv2_write_u256_def sv2_read_u256_def have_n_def split: if_splits)

section \<open>Length-prefixed blobs\<close>

lemma canonical_blob:
  fixes wn :: "'n::len word \<Rightarrow> bytes"
  assumes len: "canonical_field wn rn okn"
    and rd: "\<And>p. rd p = do {
        (n, p) \<leftarrow> rn p;
        if bad n then None
        else if \<not> have_n p (unat n) then None
        else Some ((take (unat n) p, n), drop (unat n) p) }"
    and wr: "\<And>d n. ok (d, n) \<Longrightarrow> wr (d, n) = wn n @ take (unat n) d"
    and ok: "\<And>d n. ok (d, n) \<longleftrightarrow> okn n \<and> \<not> bad n \<and> length d = unat n"
  shows "canonical_field wr rd ok"
proof
  note field = wire_field.rd_wr [OF canonical_field.axioms(1) [OF len]]
  fix x r assume "ok x"
  moreover obtain d n where x: "x = (d, n)" by (cases x)
  ultimately have "ok (d, n)" by simp
  then show "rd (wr x @ r) = Some (x, r)"
    by (simp add: x rd wr ok field have_n_def)
next
  fix p q x assume "rd p = Some (x, q)"
  then obtain n p' where n: "rn p = Some (n, p')" "\<not> bad n" "unat n \<le> length p'"
    and x: "x = (take (unat n) p', n)" and q: "q = drop (unat n) p'"
    by (auto simp: rd have_n_def bind_eq_Some_conv split: if_splits)
  from canonical_field.wr_rd [OF len n(1)] have p: "okn n" "p = wn n @ p'" by auto
  then have "ok x" using n by (simp add: x ok)
  then show "ok x \<and> p = wr x @ q"
    using wr [of "take (unat n) p'" n] by (simp add: x q p)
qed

lemma unat_of_32: "unat (of_nat SV2_MAX_B0_32 :: byte) = 32"
  by (simp add: SV2_MAX_B0_32_def)

interpretation wb32: canonical_field "\<lambda>(d, n). sv2_write_b0_32 d n" sv2_read_b0_32
    "\<lambda>(d, n). unat n \<le> SV2_MAX_B0_32 \<and> length d = unat n"
  by (rule canonical_blob [OF w8.canonical_field_axioms, where bad = "\<lambda>n. unat n > SV2_MAX_B0_32"])
     (auto simp: sv2_read_b0_32_def sv2_write_b0_32_def)

interpretation wb255: canonical_field "\<lambda>(d, n). sv2_write_b0_255 d n" "sv2_read_b0_255 outsz"
    "\<lambda>(d, n). unat n \<le> outsz \<and> length d = unat n" for outsz
  by (rule canonical_blob [OF w8.canonical_field_axioms, where bad = "\<lambda>n. unat n > outsz"])
     (auto simp: sv2_read_b0_255_def sv2_write_b0_255_def)

interpretation wb64k: canonical_field "\<lambda>(d, n). sv2_write_b0_64k d n" sv2_read_b0_64k
    "\<lambda>(d, n). length d = unat n"
  by (rule canonical_blob [OF w16.canonical_field_axioms, where bad = "\<lambda>_. False"])
     (auto simp: sv2_read_b0_64k_def sv2_write_b0_64k_def)

interpretation wref64k: canonical_field "\<lambda>(d, n). sv2_write_b0_64k d n" read_b0_64k_ref
    "\<lambda>(d, n). length d = unat n"
  by (rule canonical_blob [OF w16.canonical_field_axioms, where bad = "\<lambda>_. False"])
     (auto simp: read_b0_64k_ref_def sv2_write_b0_64k_def)

interpretation wb16m: canonical_field "\<lambda>(d, n). sv2_write_b0_16m d n" sv2_read_b0_16m
    "\<lambda>(d, n). take_bit 24 n = n \<and> \<not> (n > SV2_MAX_TX_BYTES \<or> n > SV2_MAX_PAYLOAD) \<and> length d = unat n"
  by (rule canonical_blob [OF w24.canonical_field_axioms,
        where bad = "\<lambda>n. n > SV2_MAX_TX_BYTES \<or> n > SV2_MAX_PAYLOAD"])
     (auto simp: sv2_read_b0_16m_def sv2_write_b0_16m_def)

lemma take_bit_24_tx: "n \<le> SV2_MAX_TX_BYTES \<Longrightarrow> take_bit 24 n = n"
  by (simp add: SV2_MAX_TX_BYTES_def word_le_nat_alt word_unat_eq_iff unsigned_take_bit_eq
        take_bit_nat_eq_self_iff)

lemma tx_within_payload: "n \<le> SV2_MAX_TX_BYTES \<Longrightarrow> \<not> n > SV2_MAX_PAYLOAD"
  by (simp add: SV2_MAX_TX_BYTES_def SV2_MAX_PAYLOAD_def word_le_nat_alt word_less_nat_alt)

section \<open>Strings, booleans, options\<close>

text \<open>
  These are not canonical: a string field on the wire may hold a NUL, which ends the C string,
  and the reader of a boolean looks at bit 0 only.
\<close>

lemma strlen_255: "strlen s \<le> 255 \<Longrightarrow> unat (of_nat (strlen s) :: byte) = strlen s"
  by (simp add: unat_of_nat)

lemma sv2_write_str_eq:
  "strlen s \<le> 255 \<Longrightarrow> sv2_write_str0_255 s = of_nat (strlen s) # cstr s"
  by (simp add: sv2_write_str0_255_def sv2_write_u8_def SV2_MAX_STR_LEN_def take_strlen)

lemma str_rt [wire_rt]:
  "strlen s \<le> 255 \<Longrightarrow>
    sv2_read_str0_255 256 (sv2_write_str0_255 s @ r) = Some (cstr s, r)"
  by (simp add: sv2_write_str_eq sv2_read_str0_255_def sv2_read_u8_eq have_n_def strlen_255)
     (simp add: strlen_def)

interpretation wstr: wire_field sv2_write_str0_255 "sv2_read_str0_255 256"
    "\<lambda>s. 0 \<notin> set s \<and> length s \<le> 255"
proof
  fix s r assume "0 \<notin> set s \<and> length (s :: bytes) \<le> 255"
  moreover from this have "cstr s = s"
    by (auto simp: cstr_def takeWhile_eq_all_conv)
  ultimately show "sv2_read_str0_255 256 (sv2_write_str0_255 s @ r) = Some (s, r)"
    using str_rt [of s r] by (simp add: strlen_def)
qed

interpretation wbool: wire_field sv2_write_bool sv2_read_bool "\<lambda>_. True"
  by unfold_locales (simp add: sv2_write_bool_def sv2_read_bool_def w8.rd_wr)

interpretation wopt: canonical_field "\<lambda>(b, v). sv2_write_option_u32 b v" sv2_read_option_u32
    "\<lambda>(b, v). b \<or> v = 0"
proof
  fix x :: "bool \<times> u32" and r assume "(\<lambda>(b, v). b \<or> v = 0) x"
  then show "sv2_read_option_u32 ((\<lambda>(b, v). sv2_write_option_u32 b v) x @ r) = Some (x, r)"
    by (cases x) (auto simp: sv2_write_option_u32_def sv2_read_option_u32_def w8.rd_wr w32.rd_wr)
next
  fix p q and x :: "bool \<times> u32" assume a: "sv2_read_option_u32 p = Some (x, q)"
  then obtain n p' where n: "sv2_read_u8 p = Some (n, p')" "\<not> n > 1"
    by (auto simp: sv2_read_option_u32_def bind_eq_Some_conv split: if_splits)
  from w8.wr_rd [OF n(1)] have p: "p = sv2_write_u8 n @ p'" by simp
  have "n = 0 \<or> n = 1"
    using n(2) by (simp add: word_unat_eq_iff word_less_nat_alt) linarith
  then show "(\<lambda>(b, v). b \<or> v = 0) x \<and> p = (\<lambda>(b, v). sv2_write_option_u32 b v) x @ q"
    using a n p w32.wr_rd
    by (auto simp: sv2_read_option_u32_def sv2_write_option_u32_def bind_eq_Some_conv)
qed

section \<open>Read-after-write and length collections\<close>

text \<open>An array of \<open>k\<close> bytes of which \<open>n\<close> are used, the others zero.\<close>

definition blob_field :: "nat \<Rightarrow> bytes \<Rightarrow> byte \<Rightarrow> bool" where
  "blob_field k d n \<longleftrightarrow> length d = k \<and> unat n \<le> k \<and> c_buf k (take (unat n) d) = d"

lemma blob_field_simps:
  assumes "blob_field k d n"
  shows "unat n \<le> k" "length d = k" "unat n \<le> length d" "c_buf k (take (unat n) d) = d"
  using assms by (simp_all add: blob_field_def)

lemma blob_field_c_buf:
  "length bs = unat n \<Longrightarrow> unat n \<le> k \<Longrightarrow> blob_field k (c_buf k bs) n"
  by (simp add: blob_field_def length_c_buf) (simp add: c_buf_def)

lemmas fixed_rt [wire_rt] =
  w8.rd_wr [OF TrueI] w16.rd_wr [OF TrueI] w32.rd_wr [OF TrueI] w64.rd_wr [OF TrueI]
  wf32.rd_wr [OF TrueI] w256.rd_wr w24.rd_wr wbool.rd_wr [OF TrueI]

lemma b0_32_rt [wire_rt]:
  "unat n \<le> 32 \<Longrightarrow> unat n \<le> length d \<Longrightarrow>
    sv2_read_b0_32 (sv2_write_b0_32 d n @ r) = Some ((take (unat n) d, n), r)"
  using wb32.rd_wr [of "(take (unat n) d, n)" r]
  by (simp add: SV2_MAX_B0_32_def sv2_write_b0_32_def Let_def)

lemma b0_255_rt [wire_rt]:
  "unat n \<le> outsz \<Longrightarrow> unat n \<le> length d \<Longrightarrow>
    sv2_read_b0_255 outsz (sv2_write_b0_255 d n @ r) = Some ((take (unat n) d, n), r)"
  using wb255.rd_wr [where x = "(take (unat n) d, n)" and r = r and outsz = outsz] by (simp add: sv2_write_b0_255_def)

lemma b0_64k_rt [wire_rt]:
  "unat n \<le> length d \<Longrightarrow>
    sv2_read_b0_64k (sv2_write_b0_64k d n @ r) = Some ((take (unat n) d, n), r)"
  using wb64k.rd_wr [of "(take (unat n) d, n)" r] by (simp add: sv2_write_b0_64k_def)

lemma ref_64k_rt [wire_rt]:
  "unat n \<le> length d \<Longrightarrow>
    read_b0_64k_ref (sv2_write_b0_64k d n @ r) = Some ((take (unat n) d, n), r)"
  using wref64k.rd_wr [of "(take (unat n) d, n)" r] by (simp add: sv2_write_b0_64k_def)

lemma b0_16m_rt [wire_rt]:
  "n \<le> SV2_MAX_TX_BYTES \<Longrightarrow> unat n \<le> length d \<Longrightarrow>
    sv2_read_b0_16m (sv2_write_b0_16m d n @ r) = Some ((take (unat n) d, n), r)"
  using wb16m.rd_wr [of "(take (unat n) d, n)" r] tx_within_payload [of n]
  by (simp add: sv2_write_b0_16m_def take_bit_24_tx not_less)

lemma option_u32_rt [wire_rt]:
  "b \<or> v = 0 \<Longrightarrow>
    sv2_read_option_u32 (sv2_write_option_u32 b v @ r) = Some ((b, v), r)"
  using wopt.rd_wr [of "(b, v)" r] by simp

lemma write_lengths [wire_len]:
  "length (sv2_write_u8 b) = 1"
  "length (sv2_write_u16 h) = 2"
  "length (sv2_write_u24 w) = 3"
  "length (sv2_write_u32 w) = 4"
  "length (sv2_write_u64 x) = 8"
  "length (sv2_write_f32 w) = 4"
  "length (sv2_write_bool c) = 1"
  "length (sv2_write_option_u32 c w) = (if c then 5 else 1)"
  "length v = 32 \<Longrightarrow> length (sv2_write_u256 v) = 32"
  by (simp_all add: sv2_write_u8_def sv2_write_le sv2_write_f32_def sv2_write_bool_def
        sv2_write_option_u32_def sv2_write_u256_def)

lemma write_str_length [wire_len]:
  "strlen s \<le> 255 \<Longrightarrow> length (sv2_write_str0_255 s) = 1 + strlen s"
  by (simp add: sv2_write_str_eq) (simp add: strlen_def)

lemma write_blob_lengths [wire_len]:
  "unat n \<le> 32 \<Longrightarrow> unat n \<le> length d \<Longrightarrow> length (sv2_write_b0_32 d n) = 1 + unat n"
  "unat n \<le> length d \<Longrightarrow> length (sv2_write_b0_255 d n) = 1 + unat n"
  "unat m \<le> length d \<Longrightarrow> length (sv2_write_b0_64k d m) = 2 + unat m"
  "unat k \<le> length d \<Longrightarrow> length (sv2_write_b0_16m d k) = 3 + unat k"
  by (simp_all add: sv2_write_b0_32_def sv2_write_b0_255_def sv2_write_b0_64k_def
        sv2_write_b0_16m_def SV2_MAX_B0_32_def write_lengths)

section \<open>Frames\<close>

definition SV2_FRAME_HEADER_LEN :: nat where "SV2_FRAME_HEADER_LEN = 6"

record sv2_frame =
  fr_extension_type :: u16
  fr_msg_type :: byte
  fr_msg_length :: u32
  fr_payload :: "bytes option"
  fr_owned :: "bytes option"

definition sv2_decode_header :: "bytes \<Rightarrow> sv2_frame option" where
  "sv2_decode_header buf =
     (if length buf < SV2_FRAME_HEADER_LEN then None
      else let out = \<lparr> fr_extension_type = ucast (buf ! 0) OR push_bit 8 (ucast (buf ! 1)),
                       fr_msg_type = buf ! 2,
                       fr_msg_length = ucast (buf ! 3) OR push_bit 8 (ucast (buf ! 4)) OR
                                       push_bit 16 (ucast (buf ! 5)),
                       fr_payload = None, fr_owned = None \<rparr>
           in if fr_msg_length out > SV2_MAX_PAYLOAD then None else Some out)"

definition sv2_encode_header :: "u16 \<Rightarrow> byte \<Rightarrow> u32 \<Rightarrow> bytes" where
  "sv2_encode_header extension_type msg_type msg_length =
     [ucast (extension_type AND 0xff), ucast (drop_bit 8 extension_type AND 0xff), msg_type,
      ucast (msg_length AND 0xff), ucast (drop_bit 8 msg_length AND 0xff),
      ucast (drop_bit 16 msg_length AND 0xff)]"

text \<open>
  Every caller passes a payload of \<open>payload_len\<close> bytes, or none with \<open>payload_len = 0\<close>.
\<close>

definition sv2_build_frame :: "u16 \<Rightarrow> byte \<Rightarrow> bytes \<Rightarrow> u32 \<Rightarrow> bytes option" where
  "sv2_build_frame extension_type msg_type payload payload_len =
     (if payload_len > SV2_MAX_PAYLOAD then None
      else Some (sv2_encode_header extension_type msg_type payload_len @
                 take (unat payload_len) payload))"

lemma bit_u16_header: "ucast (ucast e :: byte) OR push_bit 8 (ucast (ucast (drop_bit 8 e) :: byte)) = (e :: u16)"
  by (rule bit_word_eqI) (auto simp: bit_or_iff bit_byte_at bit_byte_low)

lemma bit_u24_header:
  "ucast (ucast n :: byte) OR push_bit 8 (ucast (ucast (drop_bit 8 n) :: byte)) OR
     push_bit 16 (ucast (ucast (drop_bit 16 n) :: byte)) = take_bit 24 (n :: u32)"
  by (rule bit_word_eqI) (auto simp: bit_or_iff bit_byte_at bit_byte_low bit_take_bit_iff)

lemma decode_encode_header:
  "sv2_decode_header (sv2_encode_header ext t n @ r) =
     (if take_bit 24 n > SV2_MAX_PAYLOAD then None
      else Some \<lparr> fr_extension_type = ext, fr_msg_type = t, fr_msg_length = take_bit 24 n,
                  fr_payload = None, fr_owned = None \<rparr>)"
  by (simp add: sv2_decode_header_def sv2_encode_header_def SV2_FRAME_HEADER_LEN_def
        bit_u16_header bit_u24_header)

lemma take_bit_24_payload: "n \<le> SV2_MAX_PAYLOAD \<longleftrightarrow> take_bit 24 n = n"
  by (auto simp: SV2_MAX_PAYLOAD_def word_le_nat_alt word_unat_eq_iff unsigned_take_bit_eq
        take_bit_nat_eq_self_iff)

lemma build_frame_decode_header:
  assumes "length bs \<le> 0x00FFFFFF"
  shows "\<exists>frame h. sv2_build_frame ext t bs (of_nat (length bs)) = Some frame \<and>
    sv2_decode_header frame = Some h \<and> fr_extension_type h = ext \<and> fr_msg_type h = t \<and>
    unat (fr_msg_length h) = length bs \<and>
    frame = sv2_encode_header ext t (of_nat (length bs)) @ bs"
proof -
  have u: "unat (of_nat (length bs) :: u32) = length bs"
    using assms by (simp add: unat_of_nat)
  then have le: "(of_nat (length bs) :: u32) \<le> SV2_MAX_PAYLOAD"
    using assms by (simp add: SV2_MAX_PAYLOAD_def word_le_nat_alt)
  then show ?thesis
    using take_bit_24_payload [of "of_nat (length bs)"]
    by (auto simp: sv2_build_frame_def decode_encode_header u not_less)
qed

end
