(* ===== verification/Sv2_Types.thy ===== *)
theory Sv2_Types
  imports Sv2_Wire
begin

text \<open>
  The message structures of \<^verbatim>\<open>src/src/sv2_types.h\<close>, one record per struct with the fields in
  the struct's order and a short prefix per struct (HOL field names are global).  A character
  array is its 256 bytes, a fixed byte array with a length field its whole array, an owned
  heap buffer the bytes it holds (empty for \<open>NULL\<close>), a \<open>float\<close> its bit pattern.  The file also
  holds the size formulas of the noise transport and the contract of a message codec.
\<close>

section \<open>Constants\<close>

definition SV2_CHANNEL_MSG_BIT :: u16 where "SV2_CHANNEL_MSG_BIT = 0x8000"
definition SV2_EXTENSION_MASK :: u16 where "SV2_EXTENSION_MASK = 0x7fff"
definition SV2_NOISE_MAX_CT_LEN :: nat where "SV2_NOISE_MAX_CT_LEN = 65535"
definition SV2_NOISE_MAC_LEN :: nat where "SV2_NOISE_MAC_LEN = 16"
definition SV2_NOISE_MAX_PT_CHUNK :: nat where
  "SV2_NOISE_MAX_PT_CHUNK = SV2_NOISE_MAX_CT_LEN - SV2_NOISE_MAC_LEN"
definition SV2_ENCRYPTED_HEADER_LEN :: nat where
  "SV2_ENCRYPTED_HEADER_LEN = SV2_FRAME_HEADER_LEN + SV2_NOISE_MAC_LEN"
definition SV2_MAX_MERKLE_PATH :: nat where "SV2_MAX_MERKLE_PATH = 32"
definition SV2_MAX_MINING_PAYLOAD :: nat where "SV2_MAX_MINING_PAYLOAD = 2 ^ 20"
definition SV2_MAX_JD_PAYLOAD :: nat where "SV2_MAX_JD_PAYLOAD = 8 * 2 ^ 20"
definition SV2_MAX_JD_TXNS :: nat where "SV2_MAX_JD_TXNS = 25000"
definition SV2_RX_READ_CHUNK :: nat where "SV2_RX_READ_CHUNK = 8192"
definition SV2_RX_CAP_INITIAL :: nat where "SV2_RX_CAP_INITIAL = 8192"

section \<open>Message structures\<close>

record sv2_setup_connection =
  sc_protocol :: byte
  sc_min_version :: u16
  sc_max_version :: u16
  sc_flags :: u32
  sc_endpoint_host :: bytes
  sc_endpoint_port :: u16
  sc_vendor :: bytes
  sc_hardware_version :: bytes
  sc_firmware :: bytes
  sc_device_id :: bytes

record sv2_setup_connection_success =
  scs_used_version :: u16
  scs_flags :: u32

record sv2_setup_connection_error =
  sce_flags :: u32
  sce_error_code :: bytes

record sv2_open_standard_channel =
  osc_request_id :: u32
  osc_user_identity :: bytes
  osc_nominal_hash_rate :: u32
  osc_max_target :: bytes

record sv2_open_standard_channel_success =
  oscs_request_id :: u32
  oscs_channel_id :: u32
  oscs_target :: bytes
  oscs_extranonce_prefix :: bytes
  oscs_extranonce_prefix_len :: byte
  oscs_group_channel_id :: u32

record sv2_open_extended_channel =
  oec_request_id :: u32
  oec_user_identity :: bytes
  oec_nominal_hash_rate :: u32
  oec_max_target :: bytes
  oec_min_extranonce_size :: u16

record sv2_open_extended_channel_success =
  oecs_request_id :: u32
  oecs_channel_id :: u32
  oecs_target :: bytes
  oecs_extranonce_size :: u16
  oecs_extranonce_prefix :: bytes
  oecs_extranonce_prefix_len :: byte
  oecs_group_channel_id :: u32

record sv2_open_channel_error =
  oce_request_id :: u32
  oce_error_code :: bytes

record sv2_new_mining_job =
  nmj_channel_id :: u32
  nmj_job_id :: u32
  nmj_min_ntime_present :: bool
  nmj_min_ntime :: u32
  nmj_version :: u32
  nmj_merkle_root :: bytes

record sv2_set_new_prev_hash =
  snp_channel_id :: u32
  snp_job_id :: u32
  snp_prev_hash :: bytes
  snp_min_ntime :: u32
  snp_nbits :: u32

record sv2_set_target =
  stg_channel_id :: u32
  stg_maximum_target :: bytes

record sv2_set_extranonce_prefix =
  sep_channel_id :: u32
  sep_extranonce_prefix :: bytes
  sep_extranonce_prefix_len :: byte

record sv2_reconnect =
  rec_new_host :: bytes
  rec_new_port :: u16

record sv2_update_channel =
  upc_channel_id :: u32
  upc_nominal_hash_rate :: u32
  upc_maximum_target :: bytes

record sv2_update_channel_error =
  upe_channel_id :: u32
  upe_error_code :: bytes

record sv2_submit_shares_standard =
  sss_channel_id :: u32
  sss_sequence_number :: u32
  sss_job_id :: u32
  sss_nonce :: u32
  sss_ntime :: u32
  sss_version :: u32

record sv2_submit_shares_extended =
  sse_base :: sv2_submit_shares_standard
  sse_extranonce :: bytes
  sse_extranonce_len :: byte

record sv2_submit_shares_success =
  ssu_channel_id :: u32
  ssu_last_sequence_number :: u32
  ssu_new_submits_accepted_count :: u32
  ssu_new_shares_sum :: u64

record sv2_submit_shares_error =
  ser_channel_id :: u32
  ser_sequence_number :: u32
  ser_error_code :: bytes

record sv2_close_channel =
  clc_channel_id :: u32
  clc_reason_code :: bytes

record sv2_new_extended_mining_job =
  nem_channel_id :: u32
  nem_job_id :: u32
  nem_min_ntime_present :: bool
  nem_min_ntime :: u32
  nem_version :: u32
  nem_version_rolling_allowed :: bool
  nem_merkle_count :: byte
  nem_merkle_path :: "bytes list"
  nem_coinbase_tx_prefix :: bytes
  nem_coinbase_tx_prefix_len :: u16
  nem_coinbase_tx_suffix :: bytes
  nem_coinbase_tx_suffix_len :: u16

record sv2_allocate_mining_job_token =
  amt_user_identifier :: bytes
  amt_request_id :: u32

record sv2_allocate_mining_job_token_success =
  ams_request_id :: u32
  ams_mining_job_token :: bytes
  ams_mining_job_token_len :: byte
  ams_coinbase_tx_outputs :: bytes
  ams_coinbase_tx_outputs_len :: u16

record sv2_declare_mining_job =
  dmj_request_id :: u32
  dmj_mining_job_token :: bytes
  dmj_mining_job_token_len :: byte
  dmj_version :: u32
  dmj_coinbase_tx_prefix :: bytes
  dmj_coinbase_tx_prefix_len :: u16
  dmj_coinbase_tx_suffix :: bytes
  dmj_coinbase_tx_suffix_len :: u16
  dmj_wtxid_list :: bytes
  dmj_wtxid_count :: u16
  dmj_excess_data :: bytes
  dmj_excess_data_len :: u16

record sv2_declare_mining_job_success =
  dms_request_id :: u32
  dms_new_mining_job_token :: bytes
  dms_new_mining_job_token_len :: byte

record sv2_declare_mining_job_error =
  dme_request_id :: u32
  dme_error_code :: bytes
  dme_error_details :: bytes
  dme_error_details_len :: u16

record sv2_provide_missing_transactions =
  pmt_request_id :: u32
  pmt_unknown_count :: u16
  pmt_unknown_tx_position_list :: "u16 list"

record sv2_provide_missing_transactions_success =
  pms_request_id :: u32
  pms_tx_count :: u16
  pms_transactions :: "bytes list"
  pms_tx_lens :: "u32 list"

record sv2_set_custom_mining_job =
  scm_channel_id :: u32
  scm_request_id :: u32
  scm_mining_job_token :: bytes
  scm_mining_job_token_len :: byte
  scm_version :: u32
  scm_prev_hash :: bytes
  scm_min_ntime :: u32
  scm_nbits :: u32
  scm_coinbase_tx_version :: u32
  scm_coinbase_prefix :: bytes
  scm_coinbase_prefix_len :: byte
  scm_coinbase_tx_input_nSequence :: u32
  scm_coinbase_tx_outputs :: bytes
  scm_coinbase_tx_outputs_len :: u16
  scm_coinbase_tx_locktime :: u32
  scm_merkle_count :: byte
  scm_merkle_path :: "bytes list"

record sv2_set_custom_mining_job_success =
  sms_channel_id :: u32
  sms_request_id :: u32
  sms_job_id :: u32

record sv2_set_custom_mining_job_error =
  sme_channel_id :: u32
  sme_request_id :: u32
  sme_error_code :: bytes

record sv2_push_solution =
  psl_extranonce :: bytes
  psl_extranonce_len :: byte
  psl_prev_hash :: bytes
  psl_nonce :: u32
  psl_ntime :: u32
  psl_nbits :: u32
  psl_version :: u32

section \<open>Ciphertext sizes\<close>

text \<open>The arithmetic is \<open>uint32_t\<close>, so it is done on 32 bit words and may wrap.\<close>

definition sv2_pt_len_to_ct_len :: "u32 \<Rightarrow> u32" where
  "sv2_pt_len_to_ct_len pt_len =
     (let rem = pt_len mod of_nat SV2_NOISE_MAX_PT_CHUNK;
          rem = (if rem > 0 then rem + of_nat SV2_NOISE_MAC_LEN else rem)
      in (pt_len div of_nat SV2_NOISE_MAX_PT_CHUNK) * of_nat SV2_NOISE_MAX_CT_LEN + rem)"

definition sv2_rx_max_for_payload :: "u32 \<Rightarrow> nat" where
  "sv2_rx_max_for_payload pt_max =
     SV2_ENCRYPTED_HEADER_LEN + unat (sv2_pt_len_to_ct_len pt_max) + SV2_RX_READ_CHUNK"

definition sv2_is_channel_msg :: "u16 \<Rightarrow> bool" where
  "sv2_is_channel_msg extension_type \<longleftrightarrow> extension_type AND SV2_CHANNEL_MSG_BIT \<noteq> 0"

section \<open>Encoders\<close>

text \<open>
  Every encoder computes the room it needs, refuses a smaller buffer before the first store,
  stores, and lets \<open>finish_encode\<close> compare the bytes stored with the buffer.
\<close>

definition finish_encode :: "nat \<Rightarrow> bytes \<Rightarrow> bytes option" where
  "finish_encode bufsz bs = (if length bs > bufsz then None else Some bs)"

definition encode_guarded :: "nat \<Rightarrow> nat \<Rightarrow> bytes \<Rightarrow> bytes option" where
  "encode_guarded need bufsz bs = (if bufsz < need then None else finish_encode bufsz bs)"

text \<open>The merkle path array: 32 rows of 32 bytes, the rows past the count zero.\<close>

definition path_buf :: "bytes list \<Rightarrow> bytes list" where
  "path_buf rows = rows @ replicate (SV2_MAX_MERKLE_PATH - length rows) (replicate 32 0)"

definition path_field :: "bytes list \<Rightarrow> byte \<Rightarrow> bool" where
  "path_field path n \<longleftrightarrow>
     length path = SV2_MAX_MERKLE_PATH \<and> unat n \<le> SV2_MAX_MERKLE_PATH \<and>
     list_all (\<lambda>row. length row = 32) path \<and> path_buf (take (unat n) path) = path"

definition write_merkle_path :: "bytes list \<Rightarrow> nat \<Rightarrow> bytes" where
  "write_merkle_path path n = concat (map (\<lambda>i. sv2_write_u256 (path ! i)) [0..<n])"

definition write_wtxid_list :: "bytes \<Rightarrow> nat \<Rightarrow> bytes" where
  "write_wtxid_list lst n = concat (map (\<lambda>i. sv2_write_u256 (drop (i * 32) lst)) [0..<n])"

lemma encode_guarded_Some:
  "encode_guarded need bufsz bs = Some x \<longleftrightarrow> need \<le> bufsz \<and> length bs \<le> bufsz \<and> x = bs"
  by (auto simp: encode_guarded_def finish_encode_def)

lemma encode_guarded_fits:
  "length bs = need \<Longrightarrow> need \<le> bufsz \<Longrightarrow> encode_guarded need bufsz bs = Some bs"
  by (simp add: encode_guarded_def finish_encode_def)

lemma encode_guarded_short: "bufsz < need \<Longrightarrow> encode_guarded need bufsz bs = None"
  by (simp add: encode_guarded_def)

lemma map_nth_take: "n \<le> length xs \<Longrightarrow> map (\<lambda>i. f (xs ! i)) [0..<n] = map f (take n xs)"
  by (rule nth_equalityI) auto

lemma path_field_path_buf:
  "length rows = unat n \<Longrightarrow> unat n \<le> 32 \<Longrightarrow> list_all (\<lambda>row. length row = 32) rows \<Longrightarrow>
    path_field (path_buf rows) n"
  by (auto simp: path_field_def path_buf_def SV2_MAX_MERKLE_PATH_def list_all_iff)

lemma path_field_simps:
  assumes "path_field path n"
  shows "unat n \<le> 32" "length path = 32" "path_buf (take (unat n) path) = path"
    and "list_all (\<lambda>row. length row = 32) (take (unat n) path)"
  using assms by (auto simp: path_field_def SV2_MAX_MERKLE_PATH_def list_all_iff dest: in_set_takeD)

lemma field_count_guards:
  "path_field path n \<Longrightarrow> \<not> 32 < unat n"
  "blob_field 32 d k \<Longrightarrow> \<not> 32 < unat k"
  by (simp_all add: path_field_def blob_field_def SV2_MAX_MERKLE_PATH_def)

lemma write_merkle_path_rt [wire_rt]:
  assumes "path_field path n"
  shows "read_seq sv2_read_u256 (unat n) (write_merkle_path path (unat n) @ r) =
    Some (take (unat n) path, r)"
  using w256.seq_rd_wr [OF path_field_simps(4) [OF assms], of r] path_field_simps [OF assms]
  by (simp add: write_merkle_path_def map_nth_take [where f = sv2_write_u256])

lemma length_write_merkle_path [wire_len]:
  assumes "path_field path n"
  shows "length (write_merkle_path path (unat n)) = unat n * 32"
  using path_field_simps [OF assms]
  by (simp add: write_merkle_path_def map_nth_take [where f = sv2_write_u256])
     (subst length_concat_const [where k = 32], auto simp: wire_len list_all_iff)

definition chunks32 :: "nat \<Rightarrow> bytes \<Rightarrow> bytes list" where
  "chunks32 n l = map (\<lambda>i. take 32 (drop (i * 32) l)) [0..<n]"

lemma concat_chunks32: "length l = n * 32 \<Longrightarrow> concat (chunks32 n l) = l"
proof (induction n arbitrary: l)
  case 0
  then show ?case by (simp add: chunks32_def)
next
  case (Suc n)
  have "chunks32 (Suc n) l = take 32 l # chunks32 n (drop 32 l)"
    by (simp add: chunks32_def upt_conv_Cons map_Suc_upt [symmetric] del: upt_Suc)
       (simp add: add.commute)
  then show ?case
    using Suc.IH [of "drop 32 l"] Suc.prems by simp
qed

lemma write_wtxid_list_chunks: "write_wtxid_list l n = concat (map sv2_write_u256 (chunks32 n l))"
  by (simp add: write_wtxid_list_def chunks32_def sv2_write_u256_def o_def)

lemma chunks32_rows: "length l = n * 32 \<Longrightarrow> list_all (\<lambda>row. length row = 32) (chunks32 n l)"
  by (auto simp: chunks32_def list_all_iff)

lemma write_wtxid_list_id: "length l = n * 32 \<Longrightarrow> write_wtxid_list l n = l"
  by (simp add: write_wtxid_list_def sv2_write_u256_def concat_chunks32 flip: chunks32_def)

lemma read_wtxid_list_rt:
  assumes "length l = n * 32"
  shows "read_seq sv2_read_u256 n (l @ r) = Some (chunks32 n l, r)"
  using w256.seq_rd_wr [OF chunks32_rows [OF assms], of r]
  by (simp add: write_wtxid_list_id [OF assms] flip: write_wtxid_list_chunks)
     (simp add: chunks32_def)

text \<open>Arrays of 16 bit positions, and of transactions with their lengths.\<close>

lemma positions_rt [wire_rt]:
  "length xs = n \<Longrightarrow>
    read_seq sv2_read_u16 n (concat (map (\<lambda>i. sv2_write_u16 (xs ! i)) [0..<n]) @ r) = Some (xs, r)"
  using map_nth_take [of n xs sv2_write_u16] w16.seq_rd_wr [of xs r] by (simp add: list_all_iff)

lemma positions_length [wire_len]:
  "length (concat (map (\<lambda>i. sv2_write_u16 (xs ! i)) [0..<n])) = n * 2"
  by (subst length_concat_const [where k = 2]) (auto simp: wire_len)

definition txs_field :: "bytes list \<Rightarrow> u32 list \<Rightarrow> nat \<Rightarrow> bool" where
  "txs_field txs lens n \<longleftrightarrow>
     length txs = n \<and> length lens = n \<and>
     list_all (\<lambda>i. length (txs ! i) = unat (lens ! i) \<and> lens ! i \<le> SV2_MAX_TX_BYTES) [0..<n]"

lemma txs_field_nth:
  assumes "txs_field txs lens n" and "i < n"
  shows "length (txs ! i) = unat (lens ! i)" and "lens ! i \<le> SV2_MAX_TX_BYTES"
  using assms by (auto simp: txs_field_def list_all_iff)

lemma tx_len_plus_3: "n \<le> SV2_MAX_TX_BYTES \<Longrightarrow> unat (3 + n) = 3 + unat n"
  by (simp add: SV2_MAX_TX_BYTES_def word_le_nat_alt unat_word_ariths)

lemma txs_field_guards:
  assumes "txs_field txs lens n"
  shows "\<not> list_ex (\<lambda>i. lens ! i > SV2_MAX_TX_BYTES) [0..<n]"
    and "n \<noteq> 0 \<Longrightarrow> txs \<noteq> [] \<and> lens \<noteq> []"
  using assms by (auto simp: txs_field_def list_all_iff list_ex_iff not_less)

lemma txs_field_length:
  assumes "txs_field txs lens n"
  shows "length (concat (map (\<lambda>i. sv2_write_b0_16m (txs ! i) (lens ! i)) [0..<n])) =
    (\<Sum>i\<leftarrow>[0..<n]. unat (3 + lens ! i))"
  using txs_field_nth [OF assms]
  by (simp add: length_concat o_def)
     (rule arg_cong [of _ _ sum_list], rule map_cong, auto simp: tx_len_plus_3 wire_len)

lemma txs_field_length_ge:
  assumes "txs_field txs lens n"
  shows "n * 3 \<le> length (concat (map (\<lambda>i. sv2_write_b0_16m (txs ! i) (lens ! i)) [0..<n]))"
proof -
  have "(\<Sum>i\<leftarrow>[0..<n]. 3) \<le> (\<Sum>i\<leftarrow>[0..<n]. unat (3 + lens ! i))"
    using txs_field_nth [OF assms] by (intro sum_list_mono) (simp add: tx_len_plus_3)
  then show ?thesis
    by (simp add: txs_field_length [OF assms] sum_list_triv)
qed

lemma txs_field_zip:
  assumes "txs_field txs lens n"
  shows "map fst (zip txs lens) = txs" and "map snd (zip txs lens) = lens"
  using assms by (simp_all add: txs_field_def)

lemma txs_field_rt:
  assumes "txs_field txs lens n"
  shows "read_seq sv2_read_b0_16m n
      (concat (map (\<lambda>i. sv2_write_b0_16m (txs ! i) (lens ! i)) [0..<n]) @ r) = Some (zip txs lens, r)"
proof -
  have len: "length (zip txs lens) = n"
    using assms by (simp add: txs_field_def)
  have ok: "list_all (\<lambda>(d, k). take_bit 24 k = k \<and>
      \<not> (k > SV2_MAX_TX_BYTES \<or> k > SV2_MAX_PAYLOAD) \<and> length d = unat k) (zip txs lens)"
    using txs_field_nth [OF assms] assms tx_within_payload
    by (auto simp: list_all_length txs_field_def take_bit_24_tx not_less)
  have "map (\<lambda>i. sv2_write_b0_16m (txs ! i) (lens ! i)) [0..<n] =
      map (\<lambda>(d, k). sv2_write_b0_16m d k) (zip txs lens)"
    using assms by (intro nth_equalityI) (auto simp: txs_field_def)
  then show ?thesis
    using wb16m.seq_rd_wr [OF ok, of r] len by simp
qed

text \<open>What the codec interpretations rewrite with.\<close>

lemmas codec_simps =
  encode_guarded_Some encode_guarded_fits encode_guarded_short wire_rt wire_len
  blob_field_simps path_field_simps field_count_guards str_field_strlen str_field_c_buf_cstr
  SV2_MAX_B0_32_def SV2_MAX_MERKLE_PATH_def

section \<open>The contract of a message codec\<close>

locale sv2_encoder =
  fixes encode :: "nat \<Rightarrow> 'm \<Rightarrow> bytes option"
    and msize :: "'m \<Rightarrow> nat"
    and ok :: "'m \<Rightarrow> bool"
  assumes encode_fits:
    "ok m \<Longrightarrow> msize m \<le> bufsz \<Longrightarrow> \<exists>bs. encode bufsz m = Some bs \<and> length bs = msize m"
    and encode_short: "bufsz < msize m \<Longrightarrow> encode bufsz m = None"
begin

lemma encode_succeeds_iff: "ok m \<Longrightarrow> encode bufsz m \<noteq> None \<longleftrightarrow> msize m \<le> bufsz"
  using encode_fits [of m bufsz] encode_short [of bufsz m] by (cases "msize m \<le> bufsz") auto

lemma encode_length: "ok m \<Longrightarrow> encode bufsz m = Some bs \<Longrightarrow> length bs = msize m \<and> msize m \<le> bufsz"
  using encode_fits [of m bufsz] encode_short [of bufsz m] by (cases "msize m \<le> bufsz") auto

end

locale sv2_message = sv2_encoder encode msize ok
  for encode :: "nat \<Rightarrow> 'm \<Rightarrow> bytes option" and msize :: "'m \<Rightarrow> nat" and ok :: "'m \<Rightarrow> bool" +
  fixes decode :: "bytes \<Rightarrow> 'm option"
  assumes decode_encode: "ok m \<Longrightarrow> encode bufsz m = Some bs \<Longrightarrow> decode (bs @ rest) = Some m"
begin

lemma message_roundtrip:
  assumes "ok m" and "msize m \<le> bufsz"
  shows "\<exists>bs. encode bufsz m = Some bs \<and> length bs = msize m \<and> decode (bs @ rest) = Some m"
  using encode_fits [OF assms] decode_encode [OF assms(1)] by blast

lemma message_prefix_free:
  assumes "ok m" and "ok m'" and "encode b m = Some bs" and "encode b' m' = Some bs'"
    and "bs @ r = bs' @ r'"
  shows "m = m' \<and> r = r'"
proof -
  have "m = m'"
    using decode_encode [OF assms(1,3), of r] decode_encode [OF assms(2,4), of r'] assms(5) by simp
  moreover from this have "length bs = length bs'"
    using encode_length [OF assms(1,3)] encode_length [OF assms(2,4)] by simp
  ultimately show ?thesis using assms(5) by simp
qed

text \<open>A framed message is recovered from the frame's header and payload.\<close>

lemma framed_roundtrip:
  assumes "ok m" and "encode bufsz m = Some bs" and "msize m \<le> 0x00FFFFFF"
  shows "\<exists>frame h. sv2_build_frame ext t bs (of_nat (length bs)) = Some frame \<and>
    sv2_decode_header frame = Some h \<and> fr_extension_type h = ext \<and> fr_msg_type h = t \<and>
    length frame = SV2_FRAME_HEADER_LEN + unat (fr_msg_length h) \<and>
    decode (drop SV2_FRAME_HEADER_LEN frame) = Some m"
proof -
  have n: "length bs \<le> 0x00FFFFFF"
    using encode_length [OF assms(1,2)] assms(3) by simp
  then obtain frame h where f: "sv2_build_frame ext t bs (of_nat (length bs)) = Some frame"
    and h: "sv2_decode_header frame = Some h" "fr_extension_type h = ext" "fr_msg_type h = t"
      "unat (fr_msg_length h) = length bs"
    and fr: "frame = sv2_encode_header ext t (of_nat (length bs)) @ bs"
    using build_frame_decode_header [of bs ext t] by auto
  have "decode (drop SV2_FRAME_HEADER_LEN frame) = Some m"
    using decode_encode [OF assms(1,2), of "[]"]
    by (simp add: fr SV2_FRAME_HEADER_LEN_def sv2_encode_header_def)
  with f h fr show ?thesis
    by (simp add: SV2_FRAME_HEADER_LEN_def sv2_encode_header_def)
qed

end

end
