(* ===== verification/Sv2_Codec_Mining.thy ===== *)
theory Sv2_Codec_Mining
  imports Sv2_Types
begin

text \<open>
  The common and mining-protocol messages of \<^verbatim>\<open>src/src/sv2_codec.c\<close>: both the server's
  half and the client's half of each message.  Encoders keep the code's guard, then the bytes
  stored in order; decoders read the fields in the code's order and stop at the first failing
  read.  \<open>ok_*\<close> says that the arrays of a message hold what a cleared structure filled through
  the API holds.  Each codec is an interpretation of the contract of \<open>Sv2_Types\<close>, which gives
  its round trip, exact length, prefix freedom and framing.
\<close>

section \<open>setup connection\<close>

definition sv2_encode_setup_connection :: "nat \<Rightarrow> sv2_setup_connection \<Rightarrow> bytes option" where
  "sv2_encode_setup_connection bufsz m =
     (encode_guarded (1 + 2 + 2 + 4 + (1 + strlen (sc_endpoint_host m)) + 2 +
          (1 + strlen (sc_vendor m)) + (1 + strlen (sc_hardware_version m)) +
          (1 + strlen (sc_firmware m)) + (1 + strlen (sc_device_id m))) bufsz
       (sv2_write_u8 (sc_protocol m) @ sv2_write_u16 (sc_min_version m) @
        sv2_write_u16 (sc_max_version m) @ sv2_write_u32 (sc_flags m) @
        sv2_write_str0_255 (sc_endpoint_host m) @ sv2_write_u16 (sc_endpoint_port m) @
        sv2_write_str0_255 (sc_vendor m) @ sv2_write_str0_255 (sc_hardware_version m) @
        sv2_write_str0_255 (sc_firmware m) @ sv2_write_str0_255 (sc_device_id m)))"

definition sv2_decode_setup_connection :: "bytes \<Rightarrow> sv2_setup_connection option" where
  "sv2_decode_setup_connection payload = do {
     (protocol, p) \<leftarrow> sv2_read_u8 payload;
     (min_version, p) \<leftarrow> sv2_read_u16 p;
     (max_version, p) \<leftarrow> sv2_read_u16 p;
     (flags, p) \<leftarrow> sv2_read_u32 p;
     (endpoint_host, p) \<leftarrow> sv2_read_str0_255 256 p;
     (endpoint_port, p) \<leftarrow> sv2_read_u16 p;
     (vendor, p) \<leftarrow> sv2_read_str0_255 256 p;
     (hardware_version, p) \<leftarrow> sv2_read_str0_255 256 p;
     (firmware, p) \<leftarrow> sv2_read_str0_255 256 p;
     (device_id, p) \<leftarrow> sv2_read_str0_255 256 p;
     Some \<lparr> sc_protocol = protocol, sc_min_version = min_version, sc_max_version = max_version,
            sc_flags = flags, sc_endpoint_host = c_buf 256 endpoint_host,
            sc_endpoint_port = endpoint_port, sc_vendor = c_buf 256 vendor,
            sc_hardware_version = c_buf 256 hardware_version, sc_firmware = c_buf 256 firmware,
            sc_device_id = c_buf 256 device_id \<rparr> }"

definition ok_setup_connection :: "sv2_setup_connection \<Rightarrow> bool" where
  "ok_setup_connection m \<longleftrightarrow>
     str_field (sc_endpoint_host m) \<and> str_field (sc_vendor m) \<and>
     str_field (sc_hardware_version m) \<and> str_field (sc_firmware m) \<and>
     str_field (sc_device_id m)"

interpretation m_setup: sv2_message sv2_encode_setup_connection
    "\<lambda>m. 16 + strlen (sc_endpoint_host m) + strlen (sc_vendor m) + strlen (sc_hardware_version m) + strlen (sc_firmware m) + strlen (sc_device_id m)"
    ok_setup_connection sv2_decode_setup_connection
  by (unfold_locales, unfold sv2_encode_setup_connection_def ok_setup_connection_def)
     (auto simp: sv2_decode_setup_connection_def codec_simps intro!: sv2_setup_connection.equality)

section \<open>setup connection success\<close>

definition sv2_encode_setup_connection_success :: "nat \<Rightarrow> sv2_setup_connection_success \<Rightarrow> bytes option" where
  "sv2_encode_setup_connection_success bufsz m =
     (encode_guarded (2 + 4) bufsz
       (sv2_write_u16 (scs_used_version m) @ sv2_write_u32 (scs_flags m)))"

definition sv2_decode_setup_connection_success :: "bytes \<Rightarrow> sv2_setup_connection_success option" where
  "sv2_decode_setup_connection_success payload = do {
     (used_version, p) \<leftarrow> sv2_read_u16 payload;
     (flags, p) \<leftarrow> sv2_read_u32 p;
     Some \<lparr> scs_used_version = used_version, scs_flags = flags \<rparr> }"

interpretation m_setup_ok: sv2_message sv2_encode_setup_connection_success
    "\<lambda>_. 6"
    "\<lambda>_. True" sv2_decode_setup_connection_success
  by (unfold_locales, unfold sv2_encode_setup_connection_success_def)
     (auto simp: sv2_decode_setup_connection_success_def codec_simps intro!: sv2_setup_connection_success.equality)

section \<open>setup connection error\<close>

definition sv2_encode_setup_connection_error :: "nat \<Rightarrow> sv2_setup_connection_error \<Rightarrow> bytes option" where
  "sv2_encode_setup_connection_error bufsz m =
     (encode_guarded (4 + (1 + strlen (sce_error_code m))) bufsz
       (sv2_write_u32 (sce_flags m) @ sv2_write_str0_255 (sce_error_code m)))"

definition sv2_decode_setup_connection_error :: "bytes \<Rightarrow> sv2_setup_connection_error option" where
  "sv2_decode_setup_connection_error payload = do {
     (flags, p) \<leftarrow> sv2_read_u32 payload;
     (error_code, p) \<leftarrow> sv2_read_str0_255 256 p;
     Some \<lparr> sce_flags = flags, sce_error_code = c_buf 256 error_code \<rparr> }"

definition ok_setup_connection_error :: "sv2_setup_connection_error \<Rightarrow> bool" where
  "ok_setup_connection_error m \<longleftrightarrow>
     str_field (sce_error_code m)"

interpretation m_setup_err: sv2_message sv2_encode_setup_connection_error
    "\<lambda>m. 5 + strlen (sce_error_code m)"
    ok_setup_connection_error sv2_decode_setup_connection_error
  by (unfold_locales, unfold sv2_encode_setup_connection_error_def ok_setup_connection_error_def)
     (auto simp: sv2_decode_setup_connection_error_def codec_simps intro!: sv2_setup_connection_error.equality)

section \<open>open standard channel\<close>

definition sv2_decode_open_standard_channel :: "bytes \<Rightarrow> sv2_open_standard_channel option" where
  "sv2_decode_open_standard_channel payload = do {
     (request_id, p) \<leftarrow> sv2_read_u32 payload;
     (user_identity, p) \<leftarrow> sv2_read_str0_255 256 p;
     (nominal_hash_rate, p) \<leftarrow> sv2_read_f32 p;
     (max_target, p) \<leftarrow> sv2_read_u256 p;
     Some \<lparr> osc_request_id = request_id, osc_user_identity = c_buf 256 user_identity,
            osc_nominal_hash_rate = nominal_hash_rate, osc_max_target = max_target \<rparr> }"

section \<open>open standard channel success\<close>

definition sv2_encode_open_standard_channel_success :: "nat \<Rightarrow> sv2_open_standard_channel_success \<Rightarrow> bytes option" where
  "sv2_encode_open_standard_channel_success bufsz m =
     (encode_guarded (4 + 4 + 32 + 1 + unat (oscs_extranonce_prefix_len m) + 4) bufsz
       (sv2_write_u32 (oscs_request_id m) @ sv2_write_u32 (oscs_channel_id m) @
        sv2_write_u256 (oscs_target m) @
        sv2_write_b0_32 (oscs_extranonce_prefix m) (oscs_extranonce_prefix_len m) @
        sv2_write_u32 (oscs_group_channel_id m)))"

definition ok_open_standard_channel_success :: "sv2_open_standard_channel_success \<Rightarrow> bool" where
  "ok_open_standard_channel_success m \<longleftrightarrow>
     length (oscs_target m) = 32 \<and>
     blob_field 32 (oscs_extranonce_prefix m) (oscs_extranonce_prefix_len m)"

interpretation m_open_std_ok: sv2_encoder sv2_encode_open_standard_channel_success
    "\<lambda>m. 45 + unat (oscs_extranonce_prefix_len m)"
    ok_open_standard_channel_success
  by (unfold_locales, unfold sv2_encode_open_standard_channel_success_def ok_open_standard_channel_success_def) (auto simp: codec_simps)

section \<open>open extended channel\<close>

definition sv2_encode_open_extended_channel :: "nat \<Rightarrow> sv2_open_extended_channel \<Rightarrow> bytes option" where
  "sv2_encode_open_extended_channel bufsz m =
     (encode_guarded (4 + (1 + strlen (oec_user_identity m)) + 4 + 32 + 2) bufsz
       (sv2_write_u32 (oec_request_id m) @ sv2_write_str0_255 (oec_user_identity m) @
        sv2_write_f32 (oec_nominal_hash_rate m) @ sv2_write_u256 (oec_max_target m) @
        sv2_write_u16 (oec_min_extranonce_size m)))"

definition sv2_decode_open_extended_channel :: "bytes \<Rightarrow> sv2_open_extended_channel option" where
  "sv2_decode_open_extended_channel payload = do {
     (request_id, p) \<leftarrow> sv2_read_u32 payload;
     (user_identity, p) \<leftarrow> sv2_read_str0_255 256 p;
     (nominal_hash_rate, p) \<leftarrow> sv2_read_f32 p;
     (max_target, p) \<leftarrow> sv2_read_u256 p;
     (min_extranonce_size, p) \<leftarrow> sv2_read_u16 p;
     Some \<lparr> oec_request_id = request_id, oec_user_identity = c_buf 256 user_identity,
            oec_nominal_hash_rate = nominal_hash_rate, oec_max_target = max_target,
            oec_min_extranonce_size = min_extranonce_size \<rparr> }"

definition ok_open_extended_channel :: "sv2_open_extended_channel \<Rightarrow> bool" where
  "ok_open_extended_channel m \<longleftrightarrow>
     str_field (oec_user_identity m) \<and> length (oec_max_target m) = 32"

interpretation m_open_ext: sv2_message sv2_encode_open_extended_channel
    "\<lambda>m. 43 + strlen (oec_user_identity m)"
    ok_open_extended_channel sv2_decode_open_extended_channel
  by (unfold_locales, unfold sv2_encode_open_extended_channel_def ok_open_extended_channel_def)
     (auto simp: sv2_decode_open_extended_channel_def codec_simps intro!: sv2_open_extended_channel.equality)

section \<open>open extended channel success\<close>

definition sv2_encode_open_extended_channel_success :: "nat \<Rightarrow> sv2_open_extended_channel_success \<Rightarrow> bytes option" where
  "sv2_encode_open_extended_channel_success bufsz m =
     (encode_guarded (4 + 4 + 32 + 2 + 1 + unat (oecs_extranonce_prefix_len m) + 4) bufsz
       (sv2_write_u32 (oecs_request_id m) @ sv2_write_u32 (oecs_channel_id m) @
        sv2_write_u256 (oecs_target m) @ sv2_write_u16 (oecs_extranonce_size m) @
        sv2_write_b0_32 (oecs_extranonce_prefix m) (oecs_extranonce_prefix_len m) @
        sv2_write_u32 (oecs_group_channel_id m)))"

definition sv2_decode_open_extended_channel_success :: "bytes \<Rightarrow> sv2_open_extended_channel_success option" where
  "sv2_decode_open_extended_channel_success payload = do {
     (request_id, p) \<leftarrow> sv2_read_u32 payload;
     (channel_id, p) \<leftarrow> sv2_read_u32 p;
     (target, p) \<leftarrow> sv2_read_u256 p;
     (extranonce_size, p) \<leftarrow> sv2_read_u16 p;
     ((extranonce_prefix, extranonce_prefix_len), p) \<leftarrow> sv2_read_b0_32 p;
     (group_channel_id, p) \<leftarrow> sv2_read_u32 p;
     Some \<lparr> oecs_request_id = request_id, oecs_channel_id = channel_id, oecs_target = target,
            oecs_extranonce_size = extranonce_size,
            oecs_extranonce_prefix = c_buf 32 extranonce_prefix,
            oecs_extranonce_prefix_len = extranonce_prefix_len,
            oecs_group_channel_id = group_channel_id \<rparr> }"

definition ok_open_extended_channel_success :: "sv2_open_extended_channel_success \<Rightarrow> bool" where
  "ok_open_extended_channel_success m \<longleftrightarrow>
     length (oecs_target m) = 32 \<and>
     blob_field 32 (oecs_extranonce_prefix m) (oecs_extranonce_prefix_len m)"

interpretation m_open_ext_ok: sv2_message sv2_encode_open_extended_channel_success
    "\<lambda>m. 47 + unat (oecs_extranonce_prefix_len m)"
    ok_open_extended_channel_success sv2_decode_open_extended_channel_success
  by (unfold_locales, unfold sv2_encode_open_extended_channel_success_def ok_open_extended_channel_success_def)
     (auto simp: sv2_decode_open_extended_channel_success_def codec_simps intro!: sv2_open_extended_channel_success.equality)

section \<open>open channel error\<close>

definition sv2_encode_open_channel_error :: "nat \<Rightarrow> sv2_open_channel_error \<Rightarrow> bytes option" where
  "sv2_encode_open_channel_error bufsz m =
     (encode_guarded (4 + (1 + strlen (oce_error_code m))) bufsz
       (sv2_write_u32 (oce_request_id m) @ sv2_write_str0_255 (oce_error_code m)))"

definition sv2_decode_open_channel_error :: "bytes \<Rightarrow> sv2_open_channel_error option" where
  "sv2_decode_open_channel_error payload = do {
     (request_id, p) \<leftarrow> sv2_read_u32 payload;
     (error_code, p) \<leftarrow> sv2_read_str0_255 256 p;
     Some \<lparr> oce_request_id = request_id, oce_error_code = c_buf 256 error_code \<rparr> }"

definition ok_open_channel_error :: "sv2_open_channel_error \<Rightarrow> bool" where
  "ok_open_channel_error m \<longleftrightarrow>
     str_field (oce_error_code m)"

interpretation m_open_err: sv2_message sv2_encode_open_channel_error
    "\<lambda>m. 5 + strlen (oce_error_code m)"
    ok_open_channel_error sv2_decode_open_channel_error
  by (unfold_locales, unfold sv2_encode_open_channel_error_def ok_open_channel_error_def)
     (auto simp: sv2_decode_open_channel_error_def codec_simps intro!: sv2_open_channel_error.equality)

section \<open>new mining job\<close>

definition sv2_encode_new_mining_job :: "nat \<Rightarrow> sv2_new_mining_job \<Rightarrow> bytes option" where
  "sv2_encode_new_mining_job bufsz m =
     (encode_guarded (4 + 4 + 1 + (if nmj_min_ntime_present m then 4 else 0) + 4 + 32) bufsz
       (sv2_write_u32 (nmj_channel_id m) @ sv2_write_u32 (nmj_job_id m) @
        sv2_write_option_u32 (nmj_min_ntime_present m) (nmj_min_ntime m) @
        sv2_write_u32 (nmj_version m) @ sv2_write_u256 (nmj_merkle_root m)))"

definition ok_new_mining_job :: "sv2_new_mining_job \<Rightarrow> bool" where
  "ok_new_mining_job m \<longleftrightarrow>
     (nmj_min_ntime_present m \<or> nmj_min_ntime m = 0) \<and> length (nmj_merkle_root m) = 32"

interpretation m_new_job: sv2_encoder sv2_encode_new_mining_job
    "\<lambda>m. 45 + (if nmj_min_ntime_present m then 4 else 0)"
    ok_new_mining_job
  by (unfold_locales, unfold sv2_encode_new_mining_job_def ok_new_mining_job_def) (auto simp: codec_simps)

section \<open>set new prev hash\<close>

definition sv2_encode_set_new_prev_hash :: "nat \<Rightarrow> sv2_set_new_prev_hash \<Rightarrow> bytes option" where
  "sv2_encode_set_new_prev_hash bufsz m =
     (encode_guarded (4 + 4 + 32 + 4 + 4) bufsz
       (sv2_write_u32 (snp_channel_id m) @ sv2_write_u32 (snp_job_id m) @
        sv2_write_u256 (snp_prev_hash m) @ sv2_write_u32 (snp_min_ntime m) @
        sv2_write_u32 (snp_nbits m)))"

definition sv2_decode_set_new_prev_hash :: "bytes \<Rightarrow> sv2_set_new_prev_hash option" where
  "sv2_decode_set_new_prev_hash payload = do {
     (channel_id, p) \<leftarrow> sv2_read_u32 payload;
     (job_id, p) \<leftarrow> sv2_read_u32 p;
     (prev_hash, p) \<leftarrow> sv2_read_u256 p;
     (min_ntime, p) \<leftarrow> sv2_read_u32 p;
     (nbits, p) \<leftarrow> sv2_read_u32 p;
     Some \<lparr> snp_channel_id = channel_id, snp_job_id = job_id, snp_prev_hash = prev_hash,
            snp_min_ntime = min_ntime, snp_nbits = nbits \<rparr> }"

definition ok_set_new_prev_hash :: "sv2_set_new_prev_hash \<Rightarrow> bool" where
  "ok_set_new_prev_hash m \<longleftrightarrow>
     length (snp_prev_hash m) = 32"

interpretation m_prev_hash: sv2_message sv2_encode_set_new_prev_hash
    "\<lambda>_. 48"
    ok_set_new_prev_hash sv2_decode_set_new_prev_hash
  by (unfold_locales, unfold sv2_encode_set_new_prev_hash_def ok_set_new_prev_hash_def)
     (auto simp: sv2_decode_set_new_prev_hash_def codec_simps intro!: sv2_set_new_prev_hash.equality)

section \<open>set target\<close>

definition sv2_encode_set_target :: "nat \<Rightarrow> sv2_set_target \<Rightarrow> bytes option" where
  "sv2_encode_set_target bufsz m =
     (encode_guarded (4 + 32) bufsz
       (sv2_write_u32 (stg_channel_id m) @ sv2_write_u256 (stg_maximum_target m)))"

definition sv2_decode_set_target :: "bytes \<Rightarrow> sv2_set_target option" where
  "sv2_decode_set_target payload = do {
     (channel_id, p) \<leftarrow> sv2_read_u32 payload;
     (maximum_target, p) \<leftarrow> sv2_read_u256 p;
     Some \<lparr> stg_channel_id = channel_id, stg_maximum_target = maximum_target \<rparr> }"

definition ok_set_target :: "sv2_set_target \<Rightarrow> bool" where
  "ok_set_target m \<longleftrightarrow>
     length (stg_maximum_target m) = 32"

interpretation m_target: sv2_message sv2_encode_set_target
    "\<lambda>_. 36"
    ok_set_target sv2_decode_set_target
  by (unfold_locales, unfold sv2_encode_set_target_def ok_set_target_def)
     (auto simp: sv2_decode_set_target_def codec_simps intro!: sv2_set_target.equality)

section \<open>set extranonce prefix\<close>

definition sv2_decode_set_extranonce_prefix :: "bytes \<Rightarrow> sv2_set_extranonce_prefix option" where
  "sv2_decode_set_extranonce_prefix payload = do {
     (channel_id, p) \<leftarrow> sv2_read_u32 payload;
     ((extranonce_prefix, extranonce_prefix_len), p) \<leftarrow> sv2_read_b0_32 p;
     Some \<lparr> sep_channel_id = channel_id, sep_extranonce_prefix = c_buf 32 extranonce_prefix,
            sep_extranonce_prefix_len = extranonce_prefix_len \<rparr> }"

section \<open>reconnect\<close>

definition sv2_decode_reconnect :: "bytes \<Rightarrow> sv2_reconnect option" where
  "sv2_decode_reconnect payload = do {
     (new_host, p) \<leftarrow> sv2_read_str0_255 256 payload;
     (new_port, p) \<leftarrow> sv2_read_u16 p;
     Some \<lparr> rec_new_host = c_buf 256 new_host, rec_new_port = new_port \<rparr> }"

section \<open>update channel\<close>

definition sv2_encode_update_channel :: "nat \<Rightarrow> sv2_update_channel \<Rightarrow> bytes option" where
  "sv2_encode_update_channel bufsz m =
     (encode_guarded (4 + 4 + 32) bufsz
       (sv2_write_u32 (upc_channel_id m) @ sv2_write_f32 (upc_nominal_hash_rate m) @
        sv2_write_u256 (upc_maximum_target m)))"

definition ok_update_channel :: "sv2_update_channel \<Rightarrow> bool" where
  "ok_update_channel m \<longleftrightarrow>
     length (upc_maximum_target m) = 32"

interpretation m_update: sv2_encoder sv2_encode_update_channel
    "\<lambda>_. 40"
    ok_update_channel
  by (unfold_locales, unfold sv2_encode_update_channel_def ok_update_channel_def) (auto simp: codec_simps)

section \<open>update channel error\<close>

definition sv2_encode_update_channel_error :: "nat \<Rightarrow> sv2_update_channel_error \<Rightarrow> bytes option" where
  "sv2_encode_update_channel_error bufsz m =
     (encode_guarded (4 + (1 + strlen (upe_error_code m))) bufsz
       (sv2_write_u32 (upe_channel_id m) @ sv2_write_str0_255 (upe_error_code m)))"

definition ok_update_channel_error :: "sv2_update_channel_error \<Rightarrow> bool" where
  "ok_update_channel_error m \<longleftrightarrow>
     str_field (upe_error_code m)"

interpretation m_update_err: sv2_encoder sv2_encode_update_channel_error
    "\<lambda>m. 5 + strlen (upe_error_code m)"
    ok_update_channel_error
  by (unfold_locales, unfold sv2_encode_update_channel_error_def ok_update_channel_error_def) (auto simp: codec_simps)

section \<open>submit shares standard\<close>

definition sv2_decode_submit_shares_standard :: "bytes \<Rightarrow> sv2_submit_shares_standard option" where
  "sv2_decode_submit_shares_standard payload = do {
     (channel_id, p) \<leftarrow> sv2_read_u32 payload;
     (sequence_number, p) \<leftarrow> sv2_read_u32 p;
     (job_id, p) \<leftarrow> sv2_read_u32 p;
     (nonce, p) \<leftarrow> sv2_read_u32 p;
     (ntime, p) \<leftarrow> sv2_read_u32 p;
     (version, p) \<leftarrow> sv2_read_u32 p;
     Some \<lparr> sss_channel_id = channel_id, sss_sequence_number = sequence_number,
            sss_job_id = job_id, sss_nonce = nonce, sss_ntime = ntime, sss_version = version \<rparr> }"

section \<open>submit shares extended\<close>

definition sv2_encode_submit_shares_extended :: "nat \<Rightarrow> sv2_submit_shares_extended \<Rightarrow> bytes option" where
  "sv2_encode_submit_shares_extended bufsz m =
     (encode_guarded (4 + 4 + 4 + 4 + 4 + 4 + 1 + unat (sse_extranonce_len m)) bufsz
       (sv2_write_u32 (sss_channel_id (sse_base m)) @
        sv2_write_u32 (sss_sequence_number (sse_base m)) @
        sv2_write_u32 (sss_job_id (sse_base m)) @ sv2_write_u32 (sss_nonce (sse_base m)) @
        sv2_write_u32 (sss_ntime (sse_base m)) @ sv2_write_u32 (sss_version (sse_base m)) @
        sv2_write_b0_32 (sse_extranonce m) (sse_extranonce_len m)))"

definition sv2_decode_submit_shares_extended :: "bytes \<Rightarrow> sv2_submit_shares_extended option" where
  "sv2_decode_submit_shares_extended payload = do {
     (channel_id, p) \<leftarrow> sv2_read_u32 payload;
     (sequence_number, p) \<leftarrow> sv2_read_u32 p;
     (job_id, p) \<leftarrow> sv2_read_u32 p;
     (nonce, p) \<leftarrow> sv2_read_u32 p;
     (ntime, p) \<leftarrow> sv2_read_u32 p;
     (version, p) \<leftarrow> sv2_read_u32 p;
     ((extranonce, extranonce_len), p) \<leftarrow> sv2_read_b0_32 p;
     Some \<lparr> sse_base = \<lparr> sss_channel_id = channel_id, sss_sequence_number = sequence_number, sss_job_id = job_id, sss_nonce = nonce, sss_ntime = ntime, sss_version = version \<rparr>,
            sse_extranonce = c_buf 32 extranonce, sse_extranonce_len = extranonce_len \<rparr> }"

definition ok_submit_shares_extended :: "sv2_submit_shares_extended \<Rightarrow> bool" where
  "ok_submit_shares_extended m \<longleftrightarrow>
     blob_field 32 (sse_extranonce m) (sse_extranonce_len m)"

interpretation m_submit_ext: sv2_message sv2_encode_submit_shares_extended
    "\<lambda>m. 25 + unat (sse_extranonce_len m)"
    ok_submit_shares_extended sv2_decode_submit_shares_extended
  by (unfold_locales, unfold sv2_encode_submit_shares_extended_def ok_submit_shares_extended_def)
     (auto simp: sv2_decode_submit_shares_extended_def codec_simps intro!: sv2_submit_shares_extended.equality)

section \<open>submit shares success\<close>

definition sv2_encode_submit_shares_success :: "nat \<Rightarrow> sv2_submit_shares_success \<Rightarrow> bytes option" where
  "sv2_encode_submit_shares_success bufsz m =
     (encode_guarded (4 + 4 + 4 + 8) bufsz
       (sv2_write_u32 (ssu_channel_id m) @ sv2_write_u32 (ssu_last_sequence_number m) @
        sv2_write_u32 (ssu_new_submits_accepted_count m) @
        sv2_write_u64 (ssu_new_shares_sum m)))"

definition sv2_decode_submit_shares_success :: "bytes \<Rightarrow> sv2_submit_shares_success option" where
  "sv2_decode_submit_shares_success payload = do {
     (channel_id, p) \<leftarrow> sv2_read_u32 payload;
     (last_sequence_number, p) \<leftarrow> sv2_read_u32 p;
     (new_submits_accepted_count, p) \<leftarrow> sv2_read_u32 p;
     (new_shares_sum, p) \<leftarrow> sv2_read_u64 p;
     Some \<lparr> ssu_channel_id = channel_id, ssu_last_sequence_number = last_sequence_number,
            ssu_new_submits_accepted_count = new_submits_accepted_count,
            ssu_new_shares_sum = new_shares_sum \<rparr> }"

interpretation m_submit_ok: sv2_message sv2_encode_submit_shares_success
    "\<lambda>_. 20"
    "\<lambda>_. True" sv2_decode_submit_shares_success
  by (unfold_locales, unfold sv2_encode_submit_shares_success_def)
     (auto simp: sv2_decode_submit_shares_success_def codec_simps intro!: sv2_submit_shares_success.equality)

section \<open>submit shares error\<close>

definition sv2_encode_submit_shares_error :: "nat \<Rightarrow> sv2_submit_shares_error \<Rightarrow> bytes option" where
  "sv2_encode_submit_shares_error bufsz m =
     (encode_guarded (4 + 4 + (1 + strlen (ser_error_code m))) bufsz
       (sv2_write_u32 (ser_channel_id m) @ sv2_write_u32 (ser_sequence_number m) @
        sv2_write_str0_255 (ser_error_code m)))"

definition sv2_decode_submit_shares_error :: "bytes \<Rightarrow> sv2_submit_shares_error option" where
  "sv2_decode_submit_shares_error payload = do {
     (channel_id, p) \<leftarrow> sv2_read_u32 payload;
     (sequence_number, p) \<leftarrow> sv2_read_u32 p;
     (error_code, p) \<leftarrow> sv2_read_str0_255 256 p;
     Some \<lparr> ser_channel_id = channel_id, ser_sequence_number = sequence_number,
            ser_error_code = c_buf 256 error_code \<rparr> }"

definition ok_submit_shares_error :: "sv2_submit_shares_error \<Rightarrow> bool" where
  "ok_submit_shares_error m \<longleftrightarrow>
     str_field (ser_error_code m)"

interpretation m_submit_err: sv2_message sv2_encode_submit_shares_error
    "\<lambda>m. 9 + strlen (ser_error_code m)"
    ok_submit_shares_error sv2_decode_submit_shares_error
  by (unfold_locales, unfold sv2_encode_submit_shares_error_def ok_submit_shares_error_def)
     (auto simp: sv2_decode_submit_shares_error_def codec_simps intro!: sv2_submit_shares_error.equality)

section \<open>close channel\<close>

definition sv2_decode_close_channel :: "bytes \<Rightarrow> sv2_close_channel option" where
  "sv2_decode_close_channel payload = do {
     (channel_id, p) \<leftarrow> sv2_read_u32 payload;
     (reason_code, p) \<leftarrow> sv2_read_str0_255 256 p;
     Some \<lparr> clc_channel_id = channel_id, clc_reason_code = c_buf 256 reason_code \<rparr> }"

section \<open>new extended mining job\<close>

definition sv2_encode_new_extended_mining_job :: "nat \<Rightarrow> sv2_new_extended_mining_job \<Rightarrow> bytes option" where
  "sv2_encode_new_extended_mining_job bufsz m =
     (if unat (nem_merkle_count m) > SV2_MAX_MERKLE_PATH then None
      else encode_guarded (4 + 4 + 1 + (if nem_min_ntime_present m then 4 else 0) + 4 + 1 + 1 +
          unat (nem_merkle_count m) * 32 + 2 + unat (nem_coinbase_tx_prefix_len m) + 2 +
          unat (nem_coinbase_tx_suffix_len m)) bufsz
       (sv2_write_u32 (nem_channel_id m) @ sv2_write_u32 (nem_job_id m) @
        sv2_write_option_u32 (nem_min_ntime_present m) (nem_min_ntime m) @
        sv2_write_u32 (nem_version m) @ sv2_write_bool (nem_version_rolling_allowed m) @
        sv2_write_u8 (nem_merkle_count m) @
        write_merkle_path (nem_merkle_path m) (unat (nem_merkle_count m)) @
        sv2_write_b0_64k (nem_coinbase_tx_prefix m) (nem_coinbase_tx_prefix_len m) @
        sv2_write_b0_64k (nem_coinbase_tx_suffix m) (nem_coinbase_tx_suffix_len m)))"

definition sv2_decode_new_extended_mining_job :: "bytes \<Rightarrow> sv2_new_extended_mining_job option" where
  "sv2_decode_new_extended_mining_job payload = do {
     (channel_id, p) \<leftarrow> sv2_read_u32 payload;
     (job_id, p) \<leftarrow> sv2_read_u32 p;
     ((min_ntime_present, min_ntime), p) \<leftarrow> sv2_read_option_u32 p;
     (version, p) \<leftarrow> sv2_read_u32 p;
     (version_rolling_allowed, p) \<leftarrow> sv2_read_bool p;
     (mcount, p) \<leftarrow> sv2_read_u8 p;
     if unat mcount > SV2_MAX_MERKLE_PATH then None else do {
     (rows, p) \<leftarrow> read_seq sv2_read_u256 (unat mcount) p;
     ((coinbase_tx_prefix, coinbase_tx_prefix_len), p) \<leftarrow> sv2_read_b0_64k p;
     ((coinbase_tx_suffix, coinbase_tx_suffix_len), p) \<leftarrow> sv2_read_b0_64k p;
     Some \<lparr> nem_channel_id = channel_id, nem_job_id = job_id,
            nem_min_ntime_present = min_ntime_present, nem_min_ntime = min_ntime,
            nem_version = version, nem_version_rolling_allowed = version_rolling_allowed,
            nem_merkle_count = mcount, nem_merkle_path = path_buf rows,
            nem_coinbase_tx_prefix = coinbase_tx_prefix,
            nem_coinbase_tx_prefix_len = coinbase_tx_prefix_len,
            nem_coinbase_tx_suffix = coinbase_tx_suffix,
            nem_coinbase_tx_suffix_len = coinbase_tx_suffix_len \<rparr> } }"

definition ok_new_extended_mining_job :: "sv2_new_extended_mining_job \<Rightarrow> bool" where
  "ok_new_extended_mining_job m \<longleftrightarrow>
     (nem_min_ntime_present m \<or> nem_min_ntime m = 0) \<and>
     path_field (nem_merkle_path m) (nem_merkle_count m) \<and>
     length (nem_coinbase_tx_prefix m) = unat (nem_coinbase_tx_prefix_len m) \<and>
     length (nem_coinbase_tx_suffix m) = unat (nem_coinbase_tx_suffix_len m)"

interpretation m_new_ext_job: sv2_message sv2_encode_new_extended_mining_job
    "\<lambda>m. 19 + (if nem_min_ntime_present m then 4 else 0) + unat (nem_merkle_count m) * 32 + unat (nem_coinbase_tx_prefix_len m) + unat (nem_coinbase_tx_suffix_len m)"
    ok_new_extended_mining_job sv2_decode_new_extended_mining_job
  by (unfold_locales, unfold sv2_encode_new_extended_mining_job_def ok_new_extended_mining_job_def)
     (auto simp: sv2_decode_new_extended_mining_job_def codec_simps intro!: sv2_new_extended_mining_job.equality)

end
