(* ===== verification/Sv2_Codec_Jd.thy ===== *)
theory Sv2_Codec_Jd
  imports Sv2_Types
begin

text \<open>
  The job-declaration messages of \<^verbatim>\<open>src/src/sv2_codec.c\<close>, server and client halves, with the
  owned buffers and the allocation guards of the decoders.  A decoder that fails after
  allocating releases what it allocated and returns \<open>false\<close>: here \<open>None\<close>.
\<close>

section \<open>allocate mining job token\<close>

definition sv2_encode_allocate_mining_job_token :: "nat \<Rightarrow> sv2_allocate_mining_job_token \<Rightarrow> bytes option" where
  "sv2_encode_allocate_mining_job_token bufsz m =
     (encode_guarded ((1 + strlen (amt_user_identifier m)) + 4) bufsz
       (sv2_write_str0_255 (amt_user_identifier m) @ sv2_write_u32 (amt_request_id m)))"

definition sv2_decode_allocate_mining_job_token :: "bytes \<Rightarrow> sv2_allocate_mining_job_token option" where
  "sv2_decode_allocate_mining_job_token payload = do {
     (user_identifier, p) \<leftarrow> sv2_read_str0_255 256 payload;
     (request_id, p) \<leftarrow> sv2_read_u32 p;
     Some \<lparr> amt_user_identifier = c_buf 256 user_identifier, amt_request_id = request_id \<rparr> }"

definition ok_allocate_mining_job_token :: "sv2_allocate_mining_job_token \<Rightarrow> bool" where
  "ok_allocate_mining_job_token m \<longleftrightarrow>
     str_field (amt_user_identifier m)"

interpretation m_alloc: sv2_message sv2_encode_allocate_mining_job_token
    "\<lambda>m. 5 + strlen (amt_user_identifier m)"
    ok_allocate_mining_job_token sv2_decode_allocate_mining_job_token
  by (unfold_locales, unfold sv2_encode_allocate_mining_job_token_def ok_allocate_mining_job_token_def)
     (auto simp: sv2_decode_allocate_mining_job_token_def codec_simps intro!: sv2_allocate_mining_job_token.equality)

section \<open>allocate mining job token success\<close>

definition sv2_encode_allocate_mining_job_token_success :: "nat \<Rightarrow> sv2_allocate_mining_job_token_success \<Rightarrow> bytes option" where
  "sv2_encode_allocate_mining_job_token_success bufsz m =
     (encode_guarded (4 + 1 + unat (ams_mining_job_token_len m) + 2 +
          unat (ams_coinbase_tx_outputs_len m)) bufsz
       (sv2_write_u32 (ams_request_id m) @
        sv2_write_b0_255 (ams_mining_job_token m) (ams_mining_job_token_len m) @
        sv2_write_b0_64k (ams_coinbase_tx_outputs m) (ams_coinbase_tx_outputs_len m)))"

definition sv2_decode_allocate_mining_job_token_success :: "bytes \<Rightarrow> sv2_allocate_mining_job_token_success option" where
  "sv2_decode_allocate_mining_job_token_success payload = do {
     (request_id, p) \<leftarrow> sv2_read_u32 payload;
     ((mining_job_token, mining_job_token_len), p) \<leftarrow> sv2_read_b0_255 255 p;
     ((coinbase_tx_outputs, coinbase_tx_outputs_len), p) \<leftarrow> read_b0_64k_ref p;
     Some \<lparr> ams_request_id = request_id, ams_mining_job_token = c_buf 255 mining_job_token,
            ams_mining_job_token_len = mining_job_token_len,
            ams_coinbase_tx_outputs = coinbase_tx_outputs,
            ams_coinbase_tx_outputs_len = coinbase_tx_outputs_len \<rparr> }"

definition ok_allocate_mining_job_token_success :: "sv2_allocate_mining_job_token_success \<Rightarrow> bool" where
  "ok_allocate_mining_job_token_success m \<longleftrightarrow>
     blob_field 255 (ams_mining_job_token m) (ams_mining_job_token_len m) \<and>
     length (ams_coinbase_tx_outputs m) = unat (ams_coinbase_tx_outputs_len m)"

interpretation m_alloc_ok: sv2_message sv2_encode_allocate_mining_job_token_success
    "\<lambda>m. 7 + unat (ams_mining_job_token_len m) + unat (ams_coinbase_tx_outputs_len m)"
    ok_allocate_mining_job_token_success sv2_decode_allocate_mining_job_token_success
  by (unfold_locales, unfold sv2_encode_allocate_mining_job_token_success_def ok_allocate_mining_job_token_success_def)
     (auto simp: sv2_decode_allocate_mining_job_token_success_def codec_simps intro!: sv2_allocate_mining_job_token_success.equality)

section \<open>declare mining job\<close>

definition sv2_declare_mining_job_encoded_size :: "sv2_declare_mining_job \<Rightarrow> nat" where
  "sv2_declare_mining_job_encoded_size m =
     4 + 1 + unat (dmj_mining_job_token_len m) + 4 + 2 +
     unat (dmj_coinbase_tx_prefix_len m) + 2 + unat (dmj_coinbase_tx_suffix_len m) + 2 +
     unat (dmj_wtxid_count m) * 32 + 2 + unat (dmj_excess_data_len m)"

definition sv2_encode_declare_mining_job :: "nat \<Rightarrow> sv2_declare_mining_job \<Rightarrow> bytes option" where
  "sv2_encode_declare_mining_job bufsz m =
     (if unat (dmj_wtxid_count m) > SV2_MAX_JD_TXNS \<or>
        sv2_declare_mining_job_encoded_size m > SV2_MAX_JD_PAYLOAD then None
      else encode_guarded (sv2_declare_mining_job_encoded_size m) bufsz
       (sv2_write_u32 (dmj_request_id m) @
        sv2_write_b0_255 (dmj_mining_job_token m) (dmj_mining_job_token_len m) @
        sv2_write_u32 (dmj_version m) @
        sv2_write_b0_64k (dmj_coinbase_tx_prefix m) (dmj_coinbase_tx_prefix_len m) @
        sv2_write_b0_64k (dmj_coinbase_tx_suffix m) (dmj_coinbase_tx_suffix_len m) @
        sv2_write_u16 (dmj_wtxid_count m) @
        write_wtxid_list (dmj_wtxid_list m) (unat (dmj_wtxid_count m)) @
        sv2_write_b0_64k (dmj_excess_data m) (dmj_excess_data_len m)))"

text \<open>The flat list of wtxids, allocated only when the payload can hold it.\<close>

definition read_wtxid_list :: "u16 \<Rightarrow> bytes reader" where
  "read_wtxid_list wcount p =
     (if wcount \<noteq> 0 then
        (if \<not> have_n p (unat wcount * 32) then None
         else do { (rows, p) \<leftarrow> read_seq sv2_read_u256 (unat wcount) p; Some (concat rows, p) })
      else Some ([], p))"

definition sv2_decode_declare_mining_job :: "bytes \<Rightarrow> sv2_declare_mining_job option" where
  "sv2_decode_declare_mining_job payload = do {
     (request_id, p) \<leftarrow> sv2_read_u32 payload;
     ((mining_job_token, mining_job_token_len), p) \<leftarrow> sv2_read_b0_255 255 p;
     (version, p) \<leftarrow> sv2_read_u32 p;
     ((coinbase_tx_prefix, coinbase_tx_prefix_len), p) \<leftarrow> sv2_read_b0_64k p;
     ((coinbase_tx_suffix, coinbase_tx_suffix_len), p) \<leftarrow> sv2_read_b0_64k p;
     (wcount, p) \<leftarrow> sv2_read_u16 p;
     if unat wcount > SV2_MAX_JD_TXNS then None else do {
     (wtxids, p) \<leftarrow> read_wtxid_list wcount p;
     ((excess_data, excess_data_len), p) \<leftarrow> sv2_read_b0_64k p;
     Some \<lparr> dmj_request_id = request_id, dmj_mining_job_token = c_buf 255 mining_job_token,
            dmj_mining_job_token_len = mining_job_token_len, dmj_version = version,
            dmj_coinbase_tx_prefix = coinbase_tx_prefix,
            dmj_coinbase_tx_prefix_len = coinbase_tx_prefix_len,
            dmj_coinbase_tx_suffix = coinbase_tx_suffix,
            dmj_coinbase_tx_suffix_len = coinbase_tx_suffix_len, dmj_wtxid_list = wtxids,
            dmj_wtxid_count = wcount, dmj_excess_data = excess_data,
            dmj_excess_data_len = excess_data_len \<rparr> } }"

definition ok_declare_mining_job :: "sv2_declare_mining_job \<Rightarrow> bool" where
  "ok_declare_mining_job m \<longleftrightarrow>
     blob_field 255 (dmj_mining_job_token m) (dmj_mining_job_token_len m) \<and>
     length (dmj_coinbase_tx_prefix m) = unat (dmj_coinbase_tx_prefix_len m) \<and>
     length (dmj_coinbase_tx_suffix m) = unat (dmj_coinbase_tx_suffix_len m) \<and>
     length (dmj_wtxid_list m) = unat (dmj_wtxid_count m) * 32 \<and>
     unat (dmj_wtxid_count m) \<le> SV2_MAX_JD_TXNS \<and>
     sv2_declare_mining_job_encoded_size m \<le> SV2_MAX_JD_PAYLOAD \<and>
     length (dmj_excess_data m) = unat (dmj_excess_data_len m)"

interpretation m_declare: sv2_message sv2_encode_declare_mining_job
    sv2_declare_mining_job_encoded_size
    ok_declare_mining_job sv2_decode_declare_mining_job
  by (unfold_locales, unfold sv2_encode_declare_mining_job_def ok_declare_mining_job_def)
     (auto simp: sv2_decode_declare_mining_job_def codec_simps write_wtxid_list_id read_wtxid_list_rt concat_chunks32 have_n_def read_wtxid_list_def SV2_MAX_JD_TXNS_def sv2_declare_mining_job_encoded_size_def intro!: sv2_declare_mining_job.equality)

text \<open>
  Every byte of a declared job the decoder accepts is determined by the message it returns:
  what it read is what the encoder would have written, up to the bytes after the message.
\<close>

lemma blob_wr_rd:
  assumes "sv2_read_b0_255 255 p = Some ((d, n), q)"
  shows "p = sv2_write_b0_255 (c_buf 255 d) n @ q \<and> blob_field 255 (c_buf 255 d) n"
proof -
  have w: "unat n \<le> 255" "length d = unat n" "p = sv2_write_b0_255 d n @ q"
    using wb255.wr_rd [OF assms] by auto
  have "take (unat n) (c_buf 255 d) = d" using w(2) by (simp add: c_buf_def)
  then show ?thesis
    using w by (simp add: sv2_write_b0_255_def blob_field_def length_c_buf)
qed

lemma declare_wtxids_wr_rd:
  assumes "read_wtxid_list n p = Some (ws, q)"
  shows "p = write_wtxid_list ws (unat n) @ q \<and> length ws = unat (n :: u16) * 32"
proof (cases "n = 0")
  case True
  then show ?thesis using assms by (simp add: write_wtxid_list_def read_wtxid_list_def)
next
  case False
  then obtain rows where r: "read_seq sv2_read_u256 (unat n) p = Some (rows, q)" and ws: "ws = concat rows"
    using assms by (auto simp: read_wtxid_list_def bind_eq_Some_conv split: if_splits)
  have rows: "list_all (\<lambda>row. length row = 32) rows" "p = concat (map sv2_write_u256 rows) @ q"
    using w256.seq_wr_rd [OF r] by auto
  have "map sv2_write_u256 rows = map (\<lambda>x. x) rows"
    using rows(1) by (intro map_cong) (auto simp: sv2_write_u256_def list_all_iff)
  then have p: "p = ws @ q" using rows(2) ws by simp
  have "length ws = unat n * 32"
    using length_concat_const [of rows "\<lambda>x. x" 32] rows(1) read_seq_length [OF r]
    by (simp add: ws list_all_iff)
  then show ?thesis using p by (simp add: write_wtxid_list_id)
qed

lemma declare_decode_canonical:
  assumes d: "sv2_decode_declare_mining_job p = Some m"
    and size: "sv2_declare_mining_job_encoded_size m \<le> SV2_MAX_JD_PAYLOAD"
  shows "ok_declare_mining_job m \<and>
    (\<exists>enc rest. p = enc @ rest \<and> sv2_encode_declare_mining_job (length p) m = Some enc)"
proof -
  obtain rid p1 tok tokl p2 ver p3 pre prel p4 suf sufl p5 wc p6 ws p7 ex exl p8 where
    r: "sv2_read_u32 p = Some (rid, p1)" "sv2_read_b0_255 255 p1 = Some ((tok, tokl), p2)"
      "sv2_read_u32 p2 = Some (ver, p3)" "sv2_read_b0_64k p3 = Some ((pre, prel), p4)"
      "sv2_read_b0_64k p4 = Some ((suf, sufl), p5)" "sv2_read_u16 p5 = Some (wc, p6)"
      "sv2_read_b0_64k p7 = Some ((ex, exl), p8)"
    and wc: "\<not> unat wc > SV2_MAX_JD_TXNS"
    and ws: "read_wtxid_list wc p6 = Some (ws, p7)"
    and m: "m = \<lparr> dmj_request_id = rid, dmj_mining_job_token = c_buf 255 tok,
            dmj_mining_job_token_len = tokl, dmj_version = ver, dmj_coinbase_tx_prefix = pre,
            dmj_coinbase_tx_prefix_len = prel, dmj_coinbase_tx_suffix = suf,
            dmj_coinbase_tx_suffix_len = sufl, dmj_wtxid_list = ws, dmj_wtxid_count = wc,
            dmj_excess_data = ex, dmj_excess_data_len = exl \<rparr>"
    using d unfolding sv2_decode_declare_mining_job_def
    by (auto simp: bind_eq_Some_conv split: if_split_asm)
  note w = w32.wr_rd [OF r(1)] blob_wr_rd [OF r(2)] w32.wr_rd [OF r(3)] wb64k.wr_rd [OF r(4)]
    wb64k.wr_rd [OF r(5)] w16.wr_rd [OF r(6)] declare_wtxids_wr_rd [OF ws] wb64k.wr_rd [OF r(7)]
  have ok: "ok_declare_mining_job m"
    using w wc size by (simp add: ok_declare_mining_job_def m not_less)
  let ?enc = "sv2_write_u32 rid @ sv2_write_b0_255 (c_buf 255 tok) tokl @ sv2_write_u32 ver @
    sv2_write_b0_64k pre prel @ sv2_write_b0_64k suf sufl @ sv2_write_u16 wc @
    write_wtxid_list ws (unat wc) @ sv2_write_b0_64k ex exl"
  have p: "p = ?enc @ p8" using w by simp
  have "sv2_encode_declare_mining_job (length p) m = Some ?enc"
  proof -
    have "sv2_declare_mining_job_encoded_size m = length ?enc"
      using w blob_field_simps [of 255 "c_buf 255 tok" tokl]
      by (simp add: sv2_declare_mining_job_encoded_size_def m wire_len write_wtxid_list_id)
    moreover have "length ?enc \<le> length p" using arg_cong [OF p, of length] by simp
    ultimately show ?thesis
      using wc size by (simp add: sv2_encode_declare_mining_job_def m encode_guarded_Some)
  qed
  then show ?thesis using ok p by blast
qed

section \<open>declare mining job success\<close>

definition sv2_encode_declare_mining_job_success :: "nat \<Rightarrow> sv2_declare_mining_job_success \<Rightarrow> bytes option" where
  "sv2_encode_declare_mining_job_success bufsz m =
     (encode_guarded (4 + 1 + unat (dms_new_mining_job_token_len m)) bufsz
       (sv2_write_u32 (dms_request_id m) @
        sv2_write_b0_255 (dms_new_mining_job_token m) (dms_new_mining_job_token_len m)))"

definition sv2_decode_declare_mining_job_success :: "bytes \<Rightarrow> sv2_declare_mining_job_success option" where
  "sv2_decode_declare_mining_job_success payload = do {
     (request_id, p) \<leftarrow> sv2_read_u32 payload;
     ((new_mining_job_token, new_mining_job_token_len), p) \<leftarrow> sv2_read_b0_255 255 p;
     Some \<lparr> dms_request_id = request_id,
            dms_new_mining_job_token = c_buf 255 new_mining_job_token,
            dms_new_mining_job_token_len = new_mining_job_token_len \<rparr> }"

definition ok_declare_mining_job_success :: "sv2_declare_mining_job_success \<Rightarrow> bool" where
  "ok_declare_mining_job_success m \<longleftrightarrow>
     blob_field 255 (dms_new_mining_job_token m) (dms_new_mining_job_token_len m)"

interpretation m_declare_ok: sv2_message sv2_encode_declare_mining_job_success
    "\<lambda>m. 5 + unat (dms_new_mining_job_token_len m)"
    ok_declare_mining_job_success sv2_decode_declare_mining_job_success
  by (unfold_locales, unfold sv2_encode_declare_mining_job_success_def ok_declare_mining_job_success_def)
     (auto simp: sv2_decode_declare_mining_job_success_def codec_simps intro!: sv2_declare_mining_job_success.equality)

section \<open>declare mining job error\<close>

definition sv2_encode_declare_mining_job_error :: "nat \<Rightarrow> sv2_declare_mining_job_error \<Rightarrow> bytes option" where
  "sv2_encode_declare_mining_job_error bufsz m =
     (encode_guarded (4 + (1 + strlen (dme_error_code m)) + 2 + unat (dme_error_details_len m)) bufsz
       (sv2_write_u32 (dme_request_id m) @ sv2_write_str0_255 (dme_error_code m) @
        sv2_write_b0_64k (dme_error_details m) (dme_error_details_len m)))"

definition sv2_decode_declare_mining_job_error :: "bytes \<Rightarrow> sv2_declare_mining_job_error option" where
  "sv2_decode_declare_mining_job_error payload = do {
     (request_id, p) \<leftarrow> sv2_read_u32 payload;
     (error_code, p) \<leftarrow> sv2_read_str0_255 256 p;
     ((error_details, error_details_len), p) \<leftarrow> read_b0_64k_ref p;
     Some \<lparr> dme_request_id = request_id, dme_error_code = c_buf 256 error_code,
            dme_error_details = error_details, dme_error_details_len = error_details_len \<rparr> }"

definition ok_declare_mining_job_error :: "sv2_declare_mining_job_error \<Rightarrow> bool" where
  "ok_declare_mining_job_error m \<longleftrightarrow>
     str_field (dme_error_code m) \<and>
     length (dme_error_details m) = unat (dme_error_details_len m)"

interpretation m_declare_err: sv2_message sv2_encode_declare_mining_job_error
    "\<lambda>m. 7 + strlen (dme_error_code m) + unat (dme_error_details_len m)"
    ok_declare_mining_job_error sv2_decode_declare_mining_job_error
  by (unfold_locales, unfold sv2_encode_declare_mining_job_error_def ok_declare_mining_job_error_def)
     (auto simp: sv2_decode_declare_mining_job_error_def codec_simps intro!: sv2_declare_mining_job_error.equality)

section \<open>provide missing transactions\<close>

definition sv2_encode_provide_missing_transactions :: "nat \<Rightarrow> sv2_provide_missing_transactions \<Rightarrow> bytes option" where
  "sv2_encode_provide_missing_transactions bufsz m =
     (encode_guarded (4 + 2 + unat (pmt_unknown_count m) * 2) bufsz
       (sv2_write_u32 (pmt_request_id m) @ sv2_write_u16 (pmt_unknown_count m) @
        concat (map (\<lambda>i. sv2_write_u16 (pmt_unknown_tx_position_list m ! i)) [0..<unat (pmt_unknown_count m)])))"

definition sv2_decode_provide_missing_transactions :: "bytes \<Rightarrow> sv2_provide_missing_transactions option" where
  "sv2_decode_provide_missing_transactions payload = do {
     (request_id, p) \<leftarrow> sv2_read_u32 payload;
     (count, p) \<leftarrow> sv2_read_u16 p;
     if unat count > SV2_MAX_JD_TXNS then None
     else if \<not> have_n p (unat count * 2) then None
     else do {
     (positions, p) \<leftarrow> read_seq sv2_read_u16 (unat count) p;
     Some \<lparr> pmt_request_id = request_id, pmt_unknown_count = count,
            pmt_unknown_tx_position_list = positions \<rparr> } }"

definition ok_provide_missing_transactions :: "sv2_provide_missing_transactions \<Rightarrow> bool" where
  "ok_provide_missing_transactions m \<longleftrightarrow>
     length (pmt_unknown_tx_position_list m) = unat (pmt_unknown_count m) \<and>
     unat (pmt_unknown_count m) \<le> SV2_MAX_JD_TXNS"

interpretation m_missing: sv2_message sv2_encode_provide_missing_transactions
    "\<lambda>m. 6 + unat (pmt_unknown_count m) * 2"
    ok_provide_missing_transactions sv2_decode_provide_missing_transactions
  by (unfold_locales, unfold sv2_encode_provide_missing_transactions_def ok_provide_missing_transactions_def)
     (auto simp: sv2_decode_provide_missing_transactions_def codec_simps have_n_def intro!: sv2_provide_missing_transactions.equality)

section \<open>provide missing transactions success\<close>

definition sv2_provide_missing_tx_success_encoded_size :: "sv2_provide_missing_transactions_success \<Rightarrow> nat" where
  "sv2_provide_missing_tx_success_encoded_size m =
     4 + 2 + (\<Sum>i\<leftarrow>[0..<unat (pms_tx_count m)]. unat (3 + pms_tx_lens m ! i))"

definition sv2_encode_provide_missing_transactions_success :: "nat \<Rightarrow> sv2_provide_missing_transactions_success \<Rightarrow> bytes option" where
  "sv2_encode_provide_missing_transactions_success bufsz m =
     (if unat (pms_tx_count m) > SV2_MAX_JD_TXNS then None
      else if pms_tx_count m \<noteq> 0 \<and> (pms_transactions m = [] \<or> pms_tx_lens m = []) then None
      else if list_ex (\<lambda>i. pms_tx_lens m ! i > SV2_MAX_TX_BYTES) [0..<unat (pms_tx_count m)] then None
      else if sv2_provide_missing_tx_success_encoded_size m > SV2_MAX_JD_PAYLOAD then None
      else encode_guarded (sv2_provide_missing_tx_success_encoded_size m) bufsz
       (sv2_write_u32 (pms_request_id m) @ sv2_write_u16 (pms_tx_count m) @
        concat (map (\<lambda>i. sv2_write_b0_16m (pms_transactions m ! i) (pms_tx_lens m ! i)) [0..<unat (pms_tx_count m)])))"

definition sv2_decode_provide_missing_transactions_success :: "bytes \<Rightarrow> sv2_provide_missing_transactions_success option" where
  "sv2_decode_provide_missing_transactions_success payload = do {
     (request_id, p) \<leftarrow> sv2_read_u32 payload;
     (count, p) \<leftarrow> sv2_read_u16 p;
     if unat count > SV2_MAX_JD_TXNS then None
     else if \<not> have_n p (unat count * 3) then None
     else do {
     (txs, p) \<leftarrow> read_seq sv2_read_b0_16m (unat count) p;
     Some \<lparr> pms_request_id = request_id, pms_tx_count = count, pms_transactions = map fst txs,
            pms_tx_lens = map snd txs \<rparr> } }"

definition ok_provide_missing_transactions_success :: "sv2_provide_missing_transactions_success \<Rightarrow> bool" where
  "ok_provide_missing_transactions_success m \<longleftrightarrow>
     txs_field (pms_transactions m) (pms_tx_lens m) (unat (pms_tx_count m)) \<and>
     unat (pms_tx_count m) \<le> SV2_MAX_JD_TXNS \<and>
     sv2_provide_missing_tx_success_encoded_size m \<le> SV2_MAX_JD_PAYLOAD"

interpretation m_missing_ok: sv2_message sv2_encode_provide_missing_transactions_success
    sv2_provide_missing_tx_success_encoded_size
    ok_provide_missing_transactions_success sv2_decode_provide_missing_transactions_success
proof
  fix m bufsz
  assume "ok_provide_missing_transactions_success m"
    and "sv2_provide_missing_tx_success_encoded_size m \<le> bufsz"
  then show "\<exists>bs. sv2_encode_provide_missing_transactions_success bufsz m = Some bs \<and>
      length bs = sv2_provide_missing_tx_success_encoded_size m"
    using txs_field_guards [of "pms_transactions m" "pms_tx_lens m" "unat (pms_tx_count m)"]
      txs_field_length [of "pms_transactions m" "pms_tx_lens m" "unat (pms_tx_count m)"]
    by (auto simp: ok_provide_missing_transactions_success_def
          sv2_encode_provide_missing_transactions_success_def
          sv2_provide_missing_tx_success_encoded_size_def codec_simps unat_eq_zero)
next
  fix bufsz m
  assume "bufsz < sv2_provide_missing_tx_success_encoded_size m"
  then show "sv2_encode_provide_missing_transactions_success bufsz m = None"
    by (simp add: sv2_encode_provide_missing_transactions_success_def encode_guarded_short)
next
  fix m bufsz bs rest
  assume ok: "ok_provide_missing_transactions_success m"
    and "sv2_encode_provide_missing_transactions_success bufsz m = Some bs"
  then have bs: "bs = sv2_write_u32 (pms_request_id m) @ sv2_write_u16 (pms_tx_count m) @
      concat (map (\<lambda>i. sv2_write_b0_16m (pms_transactions m ! i) (pms_tx_lens m ! i))
        [0..<unat (pms_tx_count m)])"
    by (auto simp: sv2_encode_provide_missing_transactions_success_def encode_guarded_Some
          split: if_splits)
  from ok have f: "txs_field (pms_transactions m) (pms_tx_lens m) (unat (pms_tx_count m))"
    and n: "unat (pms_tx_count m) \<le> SV2_MAX_JD_TXNS"
    by (simp_all add: ok_provide_missing_transactions_success_def)
  show "sv2_decode_provide_missing_transactions_success (bs @ rest) = Some m"
    using n txs_field_length_ge [OF f] txs_field_zip [OF f]
    by (simp add: bs sv2_decode_provide_missing_transactions_success_def wire_rt
          txs_field_rt [OF f] have_n_def)
qed

lemma missing_decode_bounds:
  assumes "sv2_decode_provide_missing_transactions_success payload = Some m"
  shows "unat (pms_tx_count m) \<le> 25000 \<and> length (pms_transactions m) = unat (pms_tx_count m) \<and>
    length (pms_tx_lens m) = unat (pms_tx_count m) \<and>
    (\<forall>i < unat (pms_tx_count m). length (pms_transactions m ! i) = unat (pms_tx_lens m ! i) \<and>
       pms_tx_lens m ! i \<le> SV2_MAX_TX_BYTES) \<and>
    6 + (\<Sum>tx\<leftarrow>pms_transactions m. 3 + length tx) \<le> length payload"
proof -
  obtain rid p1 n p2 txs p3 where r: "sv2_read_u32 payload = Some (rid, p1)"
      "sv2_read_u16 p1 = Some (n, p2)" "read_seq sv2_read_b0_16m (unat n) p2 = Some (txs, p3)"
    and n: "\<not> unat n > SV2_MAX_JD_TXNS"
    and m: "m = \<lparr> pms_request_id = rid, pms_tx_count = n, pms_transactions = map fst txs,
            pms_tx_lens = map snd txs \<rparr>"
    using assms unfolding sv2_decode_provide_missing_transactions_success_def
    by (auto simp: bind_eq_Some_conv split: if_split_asm)
  have len: "length txs = unat n" by (rule read_seq_length [OF r(3)])
  have rows: "list_all (\<lambda>(d, k). take_bit 24 k = k \<and>
      \<not> (k > SV2_MAX_TX_BYTES \<or> k > SV2_MAX_PAYLOAD) \<and> length d = unat k) txs"
    and p2: "p2 = concat (map (\<lambda>(d, k). sv2_write_b0_16m d k) txs) @ p3"
    using wb16m.seq_wr_rd [OF r(3)] by auto
  have "length (concat (map (\<lambda>(d, k). sv2_write_b0_16m d k) txs)) = (\<Sum>tx\<leftarrow>map fst txs. 3 + length tx)"
    using rows by (induction txs) (auto simp: wire_len)
  then have "length p2 = (\<Sum>tx\<leftarrow>map fst txs. 3 + length tx) + length p3"
    unfolding p2 length_append by simp
  moreover have "length payload = 4 + length p1" "length p1 = 2 + length p2"
    using w32.rd_consumes [OF r(1)] w16.rd_consumes [OF r(2)] by (simp_all add: wire_len)
  moreover have "length (fst (txs ! i)) = unat (snd (txs ! i)) \<and> snd (txs ! i) \<le> SV2_MAX_TX_BYTES"
    if "i < unat n" for i
  proof -
    have "txs ! i \<in> set txs" using that len by simp
    moreover obtain d k where "txs ! i = (d, k)" by force
    ultimately show ?thesis using rows by (auto simp: list_all_iff not_less)
  qed
  ultimately show ?thesis
    using n len by (simp add: m SV2_MAX_JD_TXNS_def)
qed

section \<open>set custom mining job\<close>

definition sv2_set_custom_mining_job_encoded_size :: "sv2_set_custom_mining_job \<Rightarrow> nat" where
  "sv2_set_custom_mining_job_encoded_size m =
     4 + 4 + 1 + unat (scm_mining_job_token_len m) + 4 + 32 + 4 + 4 + 4 + 1 +
     unat (scm_coinbase_prefix_len m) + 4 + 2 + unat (scm_coinbase_tx_outputs_len m) + 4 +
     1 + unat (scm_merkle_count m) * 32"

definition sv2_encode_set_custom_mining_job :: "nat \<Rightarrow> sv2_set_custom_mining_job \<Rightarrow> bytes option" where
  "sv2_encode_set_custom_mining_job bufsz m =
     (if unat (scm_merkle_count m) > SV2_MAX_MERKLE_PATH then None
      else encode_guarded (sv2_set_custom_mining_job_encoded_size m) bufsz
       (sv2_write_u32 (scm_channel_id m) @ sv2_write_u32 (scm_request_id m) @
        sv2_write_b0_255 (scm_mining_job_token m) (scm_mining_job_token_len m) @
        sv2_write_u32 (scm_version m) @ sv2_write_u256 (scm_prev_hash m) @
        sv2_write_u32 (scm_min_ntime m) @ sv2_write_u32 (scm_nbits m) @
        sv2_write_u32 (scm_coinbase_tx_version m) @
        sv2_write_b0_255 (scm_coinbase_prefix m) (scm_coinbase_prefix_len m) @
        sv2_write_u32 (scm_coinbase_tx_input_nSequence m) @
        sv2_write_b0_64k (scm_coinbase_tx_outputs m) (scm_coinbase_tx_outputs_len m) @
        sv2_write_u32 (scm_coinbase_tx_locktime m) @ sv2_write_u8 (scm_merkle_count m) @
        write_merkle_path (scm_merkle_path m) (unat (scm_merkle_count m))))"

definition sv2_decode_set_custom_mining_job :: "bytes \<Rightarrow> sv2_set_custom_mining_job option" where
  "sv2_decode_set_custom_mining_job payload = do {
     (channel_id, p) \<leftarrow> sv2_read_u32 payload;
     (request_id, p) \<leftarrow> sv2_read_u32 p;
     ((mining_job_token, mining_job_token_len), p) \<leftarrow> sv2_read_b0_255 255 p;
     (version, p) \<leftarrow> sv2_read_u32 p;
     (prev_hash, p) \<leftarrow> sv2_read_u256 p;
     (min_ntime, p) \<leftarrow> sv2_read_u32 p;
     (nbits, p) \<leftarrow> sv2_read_u32 p;
     (coinbase_tx_version, p) \<leftarrow> sv2_read_u32 p;
     ((coinbase_prefix, coinbase_prefix_len), p) \<leftarrow> sv2_read_b0_255 255 p;
     (coinbase_tx_input_nSequence, p) \<leftarrow> sv2_read_u32 p;
     ((coinbase_tx_outputs, coinbase_tx_outputs_len), p) \<leftarrow> sv2_read_b0_64k p;
     (coinbase_tx_locktime, p) \<leftarrow> sv2_read_u32 p;
     (mcount, p) \<leftarrow> sv2_read_u8 p;
     if unat mcount > SV2_MAX_MERKLE_PATH then None else do {
     (rows, p) \<leftarrow> read_seq sv2_read_u256 (unat mcount) p;
     Some \<lparr> scm_channel_id = channel_id, scm_request_id = request_id,
            scm_mining_job_token = c_buf 255 mining_job_token,
            scm_mining_job_token_len = mining_job_token_len, scm_version = version,
            scm_prev_hash = prev_hash, scm_min_ntime = min_ntime, scm_nbits = nbits,
            scm_coinbase_tx_version = coinbase_tx_version,
            scm_coinbase_prefix = c_buf 255 coinbase_prefix,
            scm_coinbase_prefix_len = coinbase_prefix_len,
            scm_coinbase_tx_input_nSequence = coinbase_tx_input_nSequence,
            scm_coinbase_tx_outputs = coinbase_tx_outputs,
            scm_coinbase_tx_outputs_len = coinbase_tx_outputs_len,
            scm_coinbase_tx_locktime = coinbase_tx_locktime, scm_merkle_count = mcount,
            scm_merkle_path = path_buf rows \<rparr> } }"

definition ok_set_custom_mining_job :: "sv2_set_custom_mining_job \<Rightarrow> bool" where
  "ok_set_custom_mining_job m \<longleftrightarrow>
     blob_field 255 (scm_mining_job_token m) (scm_mining_job_token_len m) \<and>
     length (scm_prev_hash m) = 32 \<and>
     blob_field 255 (scm_coinbase_prefix m) (scm_coinbase_prefix_len m) \<and>
     length (scm_coinbase_tx_outputs m) = unat (scm_coinbase_tx_outputs_len m) \<and>
     path_field (scm_merkle_path m) (scm_merkle_count m)"

interpretation m_custom: sv2_message sv2_encode_set_custom_mining_job
    sv2_set_custom_mining_job_encoded_size
    ok_set_custom_mining_job sv2_decode_set_custom_mining_job
  by (unfold_locales, unfold sv2_encode_set_custom_mining_job_def ok_set_custom_mining_job_def)
     (auto simp: sv2_decode_set_custom_mining_job_def codec_simps sv2_set_custom_mining_job_encoded_size_def intro!: sv2_set_custom_mining_job.equality)

section \<open>set custom mining job success\<close>

definition sv2_encode_set_custom_mining_job_success :: "nat \<Rightarrow> sv2_set_custom_mining_job_success \<Rightarrow> bytes option" where
  "sv2_encode_set_custom_mining_job_success bufsz m =
     (encode_guarded (4 + 4 + 4) bufsz
       (sv2_write_u32 (sms_channel_id m) @ sv2_write_u32 (sms_request_id m) @
        sv2_write_u32 (sms_job_id m)))"

definition sv2_decode_set_custom_mining_job_success :: "bytes \<Rightarrow> sv2_set_custom_mining_job_success option" where
  "sv2_decode_set_custom_mining_job_success payload = do {
     (channel_id, p) \<leftarrow> sv2_read_u32 payload;
     (request_id, p) \<leftarrow> sv2_read_u32 p;
     (job_id, p) \<leftarrow> sv2_read_u32 p;
     Some \<lparr> sms_channel_id = channel_id, sms_request_id = request_id, sms_job_id = job_id \<rparr> }"

interpretation m_custom_ok: sv2_message sv2_encode_set_custom_mining_job_success
    "\<lambda>_. 12"
    "\<lambda>_. True" sv2_decode_set_custom_mining_job_success
  by (unfold_locales, unfold sv2_encode_set_custom_mining_job_success_def)
     (auto simp: sv2_decode_set_custom_mining_job_success_def codec_simps intro!: sv2_set_custom_mining_job_success.equality)

section \<open>set custom mining job error\<close>

definition sv2_encode_set_custom_mining_job_error :: "nat \<Rightarrow> sv2_set_custom_mining_job_error \<Rightarrow> bytes option" where
  "sv2_encode_set_custom_mining_job_error bufsz m =
     (encode_guarded (4 + 4 + (1 + strlen (sme_error_code m))) bufsz
       (sv2_write_u32 (sme_channel_id m) @ sv2_write_u32 (sme_request_id m) @
        sv2_write_str0_255 (sme_error_code m)))"

definition sv2_decode_set_custom_mining_job_error :: "bytes \<Rightarrow> sv2_set_custom_mining_job_error option" where
  "sv2_decode_set_custom_mining_job_error payload = do {
     (channel_id, p) \<leftarrow> sv2_read_u32 payload;
     (request_id, p) \<leftarrow> sv2_read_u32 p;
     (error_code, p) \<leftarrow> sv2_read_str0_255 256 p;
     Some \<lparr> sme_channel_id = channel_id, sme_request_id = request_id,
            sme_error_code = c_buf 256 error_code \<rparr> }"

definition ok_set_custom_mining_job_error :: "sv2_set_custom_mining_job_error \<Rightarrow> bool" where
  "ok_set_custom_mining_job_error m \<longleftrightarrow>
     str_field (sme_error_code m)"

interpretation m_custom_err: sv2_message sv2_encode_set_custom_mining_job_error
    "\<lambda>m. 9 + strlen (sme_error_code m)"
    ok_set_custom_mining_job_error sv2_decode_set_custom_mining_job_error
  by (unfold_locales, unfold sv2_encode_set_custom_mining_job_error_def ok_set_custom_mining_job_error_def)
     (auto simp: sv2_decode_set_custom_mining_job_error_def codec_simps intro!: sv2_set_custom_mining_job_error.equality)

section \<open>push solution\<close>

definition sv2_encode_push_solution :: "nat \<Rightarrow> sv2_push_solution \<Rightarrow> bytes option" where
  "sv2_encode_push_solution bufsz m =
     (if unat (psl_extranonce_len m) > SV2_MAX_B0_32 then None
      else encode_guarded (1 + unat (psl_extranonce_len m) + 32 + 4 + 4 + 4 + 4) bufsz
       (sv2_write_b0_32 (psl_extranonce m) (psl_extranonce_len m) @
        sv2_write_u256 (psl_prev_hash m) @ sv2_write_u32 (psl_nonce m) @
        sv2_write_u32 (psl_ntime m) @ sv2_write_u32 (psl_nbits m) @
        sv2_write_u32 (psl_version m)))"

definition sv2_decode_push_solution :: "bytes \<Rightarrow> sv2_push_solution option" where
  "sv2_decode_push_solution payload = do {
     ((extranonce, extranonce_len), p) \<leftarrow> sv2_read_b0_32 payload;
     (prev_hash, p) \<leftarrow> sv2_read_u256 p;
     (nonce, p) \<leftarrow> sv2_read_u32 p;
     (ntime, p) \<leftarrow> sv2_read_u32 p;
     (nbits, p) \<leftarrow> sv2_read_u32 p;
     (version, p) \<leftarrow> sv2_read_u32 p;
     Some \<lparr> psl_extranonce = c_buf 32 extranonce, psl_extranonce_len = extranonce_len,
            psl_prev_hash = prev_hash, psl_nonce = nonce, psl_ntime = ntime, psl_nbits = nbits,
            psl_version = version \<rparr> }"

definition ok_push_solution :: "sv2_push_solution \<Rightarrow> bool" where
  "ok_push_solution m \<longleftrightarrow>
     blob_field 32 (psl_extranonce m) (psl_extranonce_len m) \<and>
     length (psl_prev_hash m) = 32"

interpretation m_solution: sv2_message sv2_encode_push_solution
    "\<lambda>m. 49 + unat (psl_extranonce_len m)"
    ok_push_solution sv2_decode_push_solution
  by (unfold_locales, unfold sv2_encode_push_solution_def ok_push_solution_def)
     (auto simp: sv2_decode_push_solution_def codec_simps intro!: sv2_push_solution.equality)

end
