(* ===== verification/Sha2.thy ===== *)
theory Sha2
  imports Ck_Prelude
begin

text \<open>
  SHA-256 as \<^verbatim>\<open>src/src/sha2.c\<close> computes it: the portable \<open>sha256_transf\<close>, the context
  with its 128 byte block, and the streaming \<open>init\<close>/\<open>update\<close>/\<open>final\<close>.  The abstract
  specification is the padded message of FIPS 180-4 folded through the compression function;
  the lemmas show that a context stands for the bytes it has absorbed, however they were cut
  into updates, and that \<open>sha256\<close> is that specification for messages shorter than \<open>2 ^ 29\<close>
  bytes, where the 32 bit length arithmetic does not wrap.  \<open>gen_hash\<close> of \<^verbatim>\<open>libckpool.c\<close> is
  the double hash.
\<close>

section \<open>Words and macros\<close>

definition PACK32 :: "bytes \<Rightarrow> u32" where
  "PACK32 s = ucast (s ! 3) OR push_bit 8 (ucast (s ! 2)) OR
     push_bit 16 (ucast (s ! 1)) OR push_bit 24 (ucast (s ! 0))"

definition UNPACK32 :: "u32 \<Rightarrow> bytes" where
  "UNPACK32 x = [ucast (drop_bit 24 x), ucast (drop_bit 16 x), ucast (drop_bit 8 x), ucast x]"

definition SHFR :: "u32 \<Rightarrow> nat \<Rightarrow> u32" where
  "SHFR x n = drop_bit n x"

definition ROTR :: "u32 \<Rightarrow> nat \<Rightarrow> u32" where
  "ROTR x n = drop_bit n x OR push_bit (32 - n) x"

definition CH :: "u32 \<Rightarrow> u32 \<Rightarrow> u32 \<Rightarrow> u32" where
  "CH x y z = (x AND y) XOR (NOT x AND z)"

definition MAJ :: "u32 \<Rightarrow> u32 \<Rightarrow> u32 \<Rightarrow> u32" where
  "MAJ x y z = (x AND y) XOR (x AND z) XOR (y AND z)"

definition SHA256_F1 :: "u32 \<Rightarrow> u32" where
  "SHA256_F1 x = ROTR x 2 XOR ROTR x 13 XOR ROTR x 22"

definition SHA256_F2 :: "u32 \<Rightarrow> u32" where
  "SHA256_F2 x = ROTR x 6 XOR ROTR x 11 XOR ROTR x 25"

definition SHA256_F3 :: "u32 \<Rightarrow> u32" where
  "SHA256_F3 x = ROTR x 7 XOR ROTR x 18 XOR SHFR x 3"

definition SHA256_F4 :: "u32 \<Rightarrow> u32" where
  "SHA256_F4 x = ROTR x 17 XOR ROTR x 19 XOR SHFR x 10"

definition sha256_h0 :: "u32 list" where
  "sha256_h0 =
    [0x6a09e667, 0xbb67ae85, 0x3c6ef372, 0xa54ff53a,
     0x510e527f, 0x9b05688c, 0x1f83d9ab, 0x5be0cd19]"

definition sha256_k :: "u32 list" where
  "sha256_k =
    [0x428a2f98, 0x71374491, 0xb5c0fbcf, 0xe9b5dba5, 0x3956c25b, 0x59f111f1,
     0x923f82a4, 0xab1c5ed5, 0xd807aa98, 0x12835b01, 0x243185be, 0x550c7dc3,
     0x72be5d74, 0x80deb1fe, 0x9bdc06a7, 0xc19bf174, 0xe49b69c1, 0xefbe4786,
     0x0fc19dc6, 0x240ca1cc, 0x2de92c6f, 0x4a7484aa, 0x5cb0a9dc, 0x76f988da,
     0x983e5152, 0xa831c66d, 0xb00327c8, 0xbf597fc7, 0xc6e00bf3, 0xd5a79147,
     0x06ca6351, 0x14292967, 0x27b70a85, 0x2e1b2138, 0x4d2c6dfc, 0x53380d13,
     0x650a7354, 0x766a0abb, 0x81c2c92e, 0x92722c85, 0xa2bfe8a1, 0xa81a664b,
     0xc24b8b70, 0xc76c51a3, 0xd192e819, 0xd6990624, 0xf40e3585, 0x106aa070,
     0x19a4c116, 0x1e376c08, 0x2748774c, 0x34b0bcb5, 0x391c0cb3, 0x4ed8aa4a,
     0x5b9cca4f, 0x682e6ff3, 0x748f82ee, 0x78a5636f, 0x84c87814, 0x8cc70208,
     0x90befffa, 0xa4506ceb, 0xbef9a3f7, 0xc67178f2]"

section \<open>The transformation\<close>

text \<open>The schedule \<open>w[0..63]\<close>: sixteen words of the block, then \<open>SHA256_SCR\<close> for each index.\<close>

fun sha256_schedule :: "u32 list \<Rightarrow> nat \<Rightarrow> u32 list" where
  "sha256_schedule w 0 = w"
| "sha256_schedule w (Suc n) =
     (let j = length w
      in sha256_schedule
           (w @ [SHA256_F4 (w ! (j - 2)) + w ! (j - 7) + SHA256_F3 (w ! (j - 15)) + w ! (j - 16)]) n)"

definition sha256_w :: "bytes \<Rightarrow> u32 list" where
  "sha256_w sub_block =
     sha256_schedule (map (\<lambda>j. PACK32 (drop (4 * j) sub_block)) [0..<16]) 48"

text \<open>One round: the eight working variables with the round's constant and schedule word.\<close>

fun sha256_round :: "u32 list \<Rightarrow> u32 \<times> u32 \<Rightarrow> u32 list" where
  "sha256_round [v0, v1, v2, v3, v4, v5, v6, v7] (k, w) =
     (let t1 = v7 + SHA256_F2 v4 + CH v4 v5 v6 + k + w;
          t2 = SHA256_F1 v0 + MAJ v0 v1 v2
      in [t1 + t2, v0, v1, v2, v3 + t1, v4, v5, v6])"
| "sha256_round wv _ = wv"

definition sha256_compress :: "u32 list \<Rightarrow> bytes \<Rightarrow> u32 list" where
  "sha256_compress h sub_block =
     map2 (+) h (foldl sha256_round h (zip sha256_k (sha256_w sub_block)))"

text \<open>The loop over \<open>block_nb\<close> blocks, from block \<open>i\<close> on.\<close>

fun sha256_transf_from :: "u32 list \<Rightarrow> bytes \<Rightarrow> nat \<Rightarrow> nat \<Rightarrow> u32 list" where
  "sha256_transf_from h message i 0 = h"
| "sha256_transf_from h message i (Suc n) =
     sha256_transf_from (sha256_compress h (take 64 (drop (i * 64) message))) message (Suc i) n"

section \<open>The streaming context\<close>

record sha256_ctx =
  sha_tot_len :: u32
  sha_len :: u32
  sha_block :: bytes
  sha_h :: "u32 list"

definition sha256_transf :: "sha256_ctx \<Rightarrow> bytes \<Rightarrow> u32 \<Rightarrow> sha256_ctx" where
  "sha256_transf ctx message block_nb =
     ctx\<lparr>sha_h := sha256_transf_from (sha_h ctx) message 0 (unat block_nb)\<rparr>"

definition SHA256_BLOCK_SIZE :: u32 where "SHA256_BLOCK_SIZE = 64"

text \<open>\<open>memcpy(&dst[off], src, n)\<close> with \<open>src\<close> of \<open>n\<close> bytes.\<close>

definition mem_store :: "nat \<Rightarrow> bytes \<Rightarrow> bytes \<Rightarrow> bytes" where
  "mem_store off src dst = take off dst @ src @ drop (off + length src) dst"

text \<open>The block array is indeterminate after \<open>sha256_init\<close>; \<open>junk\<close> is what it holds.\<close>

definition sha256_init :: "bytes \<Rightarrow> sha256_ctx" where
  "sha256_init junk = \<lparr> sha_tot_len = 0, sha_len = 0, sha_block = junk, sha_h = sha256_h0 \<rparr>"

definition sha256_update :: "sha256_ctx \<Rightarrow> bytes \<Rightarrow> u32 \<Rightarrow> sha256_ctx" where
  "sha256_update ctx message len =
     (let tmp_len = SHA256_BLOCK_SIZE - sha_len ctx;
          rem_len = (if len < tmp_len then len else tmp_len);
          ctx = ctx\<lparr>sha_block := mem_store (unat (sha_len ctx)) (take (unat rem_len) message)
                                   (sha_block ctx)\<rparr>
      in if sha_len ctx + len < SHA256_BLOCK_SIZE then ctx\<lparr>sha_len := sha_len ctx + len\<rparr>
         else
           let new_len = len - rem_len;
               block_nb = new_len div SHA256_BLOCK_SIZE;
               shifted_message = drop (unat rem_len) message;
               ctx = sha256_transf ctx (sha_block ctx) 1;
               ctx = sha256_transf ctx shifted_message block_nb;
               rem_len = new_len mod SHA256_BLOCK_SIZE
           in ctx\<lparr>sha_block := mem_store 0
                      (take (unat rem_len) (drop (unat block_nb * 64) shifted_message))
                      (sha_block ctx),
                  sha_len := rem_len,
                  sha_tot_len := sha_tot_len ctx + push_bit 6 (block_nb + 1)\<rparr>)"

definition sha256_final :: "sha256_ctx \<Rightarrow> bytes" where
  "sha256_final ctx =
     (let block_nb = (1 + (if SHA256_BLOCK_SIZE - 9 < sha_len ctx mod SHA256_BLOCK_SIZE
                           then 1 else 0) :: u32);
          len_b = push_bit 3 (sha_tot_len ctx + sha_len ctx);
          pm_len = push_bit 6 block_nb;
          n = unat (sha_len ctx);
          block = mem_store n (replicate (unat (pm_len - sha_len ctx)) 0) (sha_block ctx);
          block = block[n := 0x80];
          block = mem_store (unat pm_len - 4) (UNPACK32 len_b) block;
          ctx = sha256_transf (ctx\<lparr>sha_block := block\<rparr>) block block_nb
      in concat (map UNPACK32 (sha_h ctx)))"

definition sha256 :: "bytes \<Rightarrow> bytes" where
  "sha256 message =
     sha256_final (sha256_update (sha256_init (replicate 128 0)) message (of_nat (length message)))"

definition gen_hash :: "bytes \<Rightarrow> bytes" where
  "gen_hash data = sha256 (sha256 data)"

section \<open>The specification and the blocks already hashed\<close>

fun sha256_blocks :: "u32 list \<Rightarrow> bytes \<Rightarrow> nat \<Rightarrow> u32 list" where
  "sha256_blocks h m 0 = h"
| "sha256_blocks h m (Suc n) = sha256_blocks (sha256_compress h (take 64 m)) (drop 64 m) n"

definition be64 :: "u64 \<Rightarrow> bytes" where
  "be64 v = rev (le_bytes 8 v)"

definition sha256_pad :: "bytes \<Rightarrow> bytes" where
  "sha256_pad m = m @ 0x80 # replicate ((119 - length m mod 64) mod 64) 0 @
     be64 (of_nat (8 * length m))"

definition sha256_spec :: "bytes \<Rightarrow> bytes" where
  "sha256_spec m = concat (map UNPACK32
     (sha256_blocks sha256_h0 (sha256_pad m) (length (sha256_pad m) div 64)))"

lemma transf_from_blocks:
  "sha256_transf_from h m i n = sha256_blocks h (drop (64 * i) m) n"
  by (induction n arbitrary: h i) (simp_all add: mult.commute add.commute)

lemma blocks_append:
  "length a = 64 * k \<Longrightarrow>
    sha256_blocks h (a @ b) (k + n) = sha256_blocks (sha256_blocks h a k) b n"
  by (induction k arbitrary: h a) auto

lemma blocks_prefix:
  "64 * n \<le> length m \<Longrightarrow> sha256_blocks h (take (64 * n) m) n = sha256_blocks h m n"
  by (induction n arbitrary: h m) (auto simp: min_def drop_take)

lemma blocks_first: "64 \<le> length b \<Longrightarrow> sha256_blocks h b 1 = sha256_compress h (take 64 b)"
  by simp

lemma transf_blocks:
  "sha256_transf ctx m n = ctx\<lparr>sha_h := sha256_blocks (sha_h ctx) m (unat n)\<rparr>"
  by (simp add: sha256_transf_def transf_from_blocks)

section \<open>What a context stands for\<close>

definition absorbed :: "sha256_ctx \<Rightarrow> bytes \<Rightarrow> bool" where
  "absorbed ctx m \<longleftrightarrow>
     length (sha_block ctx) = 128 \<and>
     unat (sha_len ctx) = length m mod 64 \<and>
     unat (sha_tot_len ctx) = 64 * (length m div 64) \<and>
     take (length m mod 64) (sha_block ctx) = drop (64 * (length m div 64)) m \<and>
     sha_h ctx = sha256_blocks sha256_h0 m (length m div 64)"

lemma absorbed_init: "length junk = 128 \<Longrightarrow> absorbed (sha256_init junk) []"
  by (simp add: absorbed_def sha256_init_def)

lemma length_mem_store: "off + length src \<le> length dst \<Longrightarrow> length (mem_store off src dst) = length dst"
  by (simp add: mem_store_def)

lemma take_mem_store:
  "off + length src \<le> length dst \<Longrightarrow>
    take (off + length src) (mem_store off src dst) = take off dst @ src"
  by (simp add: mem_store_def)

text \<open>The tail of a message not yet hashed, and how a full block completes it.\<close>

lemma blocks_complete:
  assumes q: "q = length m div 64" and t: "length (drop (64 * q) m @ a) = 64"
  shows "sha256_blocks h (m @ a @ b) (q + (1 + n)) =
    sha256_blocks (sha256_compress (sha256_blocks h m q) (drop (64 * q) m @ a)) b n"
proof -
  have le: "64 * q \<le> length m" by (simp add: q)
  have "m @ a @ b = take (64 * q) m @ (drop (64 * q) m @ a) @ b" by simp
  also have "sha256_blocks h \<dots> (q + (1 + n)) =
      sha256_blocks (sha256_blocks h (take (64 * q) m) q) ((drop (64 * q) m @ a) @ b) (1 + n)"
    by (rule blocks_append) (use le in simp)
  also have "\<dots> = sha256_blocks (sha256_blocks (sha256_blocks h (take (64 * q) m) q)
      (drop (64 * q) m @ a) 1) b n"
    by (rule blocks_append) (use t in simp)
  finally show ?thesis
    using t by (simp add: blocks_prefix [OF le])
qed

lemma update_short:
  assumes abs: "absorbed ctx m" and n: "length m + length a < 2 ^ 29"
    and short: "length m mod 64 + length a < 64"
  shows "absorbed (sha256_update ctx a (of_nat (length a))) (m @ a)"
proof -
  let ?r = "length m mod 64" and ?n = "of_nat (length a) :: u32"
  have u: "unat ?n = length a" using short by (simp add: unat_of_nat)
  have r: "unat (sha_len ctx) = ?r" and b: "length (sha_block ctx) = 128"
    using abs by (simp_all add: absorbed_def)
  have sum: "unat (sha_len ctx + ?n) = ?r + length a"
    using short r u by (simp add: unat_word_ariths)
  have lt: "sha_len ctx + ?n < SHA256_BLOCK_SIZE"
    using sum short by (simp add: word_less_nat_alt SHA256_BLOCK_SIZE_def)
  have tmp: "unat (SHA256_BLOCK_SIZE - sha_len ctx) = 64 - ?r"
    using r by (simp add: unat_sub word_le_nat_alt SHA256_BLOCK_SIZE_def less_imp_le_nat)
  have "length a < 64 - ?r" using short by simp
  then have rem: "(if ?n < SHA256_BLOCK_SIZE - sha_len ctx then ?n
      else SHA256_BLOCK_SIZE - sha_len ctx) = ?n"
    using u tmp by (simp add: word_less_nat_alt)
  have split: "length m + length a = 64 * (length m div 64) + (?r + length a)"
    by simp
  have div: "(length m + length a) div 64 = length m div 64"
    and md: "(length m + length a) mod 64 = ?r + length a"
    using short by (subst split, simp only: div_mult_self4 mod_mult_self4 div_less mod_less)+
  have up: "sha256_update ctx a ?n =
      ctx\<lparr>sha_block := mem_store ?r a (sha_block ctx), sha_len := sha_len ctx + ?n\<rparr>"
    using lt by (simp add: sha256_update_def Let_def rem r u)
  have q: "64 * (length m div 64) \<le> length m" by simp
  have blk: "take (?r + length a) (mem_store ?r a (sha_block ctx)) =
      drop (64 * (length m div 64)) (m @ a)"
    using take_mem_store [of ?r a "sha_block ctx"] abs short q by (simp add: absorbed_def)
  have hash: "sha256_blocks sha256_h0 (m @ a) (length m div 64) =
      sha256_blocks sha256_h0 m (length m div 64)"
    using blocks_prefix [of "length m div 64" "m @ a" sha256_h0]
      blocks_prefix [OF q, of sha256_h0] q by simp
  have "length (mem_store ?r a (sha_block ctx)) = 128"
    using short b by (simp add: length_mem_store)
  with abs sum blk hash show ?thesis
    by (simp add: absorbed_def up div md)
qed

lemma update_full:
  assumes abs: "absorbed ctx m" and n: "length m + length a < 2 ^ 29"
    and full: "64 \<le> length m mod 64 + length a"
  shows "absorbed (sha256_update ctx a (of_nat (length a))) (m @ a)"
proof -
  let ?r = "length m mod 64" and ?q = "length m div 64" and ?n = "of_nat (length a) :: u32"
  define k where "k = 64 - ?r"
  define nb where "nb = (length a - k) div 64"
  define rest where "rest = drop k a"
  have k: "k \<le> length a" "0 < k" "k \<le> 64" "?r + k = 64" using full by (auto simp: k_def)
  have u: "unat ?n = length a" using n by (simp add: unat_of_nat)
  have r: "unat (sha_len ctx) = ?r" and b: "length (sha_block ctx) = 128"
    and tail: "take ?r (sha_block ctx) = drop (64 * ?q) m"
    and tot: "unat (sha_tot_len ctx) = 64 * ?q"
    and h: "sha_h ctx = sha256_blocks sha256_h0 m ?q"
    using abs by (simp_all add: absorbed_def)
  have sum: "unat (sha_len ctx + ?n) = ?r + length a"
    using n r u by (simp add: unat_word_ariths)
  have nlt: "\<not> sha_len ctx + ?n < SHA256_BLOCK_SIZE"
    using sum full by (simp add: word_less_nat_alt SHA256_BLOCK_SIZE_def)
  have tmp: "unat (SHA256_BLOCK_SIZE - sha_len ctx) = k"
    using r by (simp add: k_def unat_sub word_le_nat_alt SHA256_BLOCK_SIZE_def less_imp_le_nat)
  have rem: "(if ?n < SHA256_BLOCK_SIZE - sha_len ctx then ?n
      else SHA256_BLOCK_SIZE - sha_len ctx) = SHA256_BLOCK_SIZE - sha_len ctx"
    using u k tmp by (auto simp: word_less_nat_alt)
  define new_len where "new_len = ?n - (SHA256_BLOCK_SIZE - sha_len ctx)"
  have nl: "unat new_len = length rest"
    using u tmp k by (simp add: new_len_def rest_def unat_sub word_le_nat_alt)
  have dv: "unat (new_len div SHA256_BLOCK_SIZE) = nb"
    and md: "unat (new_len mod SHA256_BLOCK_SIZE) = length rest mod 64"
    using nl by (simp_all add: unat_div unat_mod SHA256_BLOCK_SIZE_def nb_def rest_def)
  have nb64: "64 * nb + length rest mod 64 = length rest"
    by (simp add: nb_def rest_def)
  define blk where "blk = mem_store ?r (take k a) (sha_block ctx)"
  have tk: "length (take k a) = k" using k by simp
  have blk: "length blk = 128"
    unfolding blk_def using b k tk by (subst length_mem_store) simp_all
  have blk64: "take 64 blk = drop (64 * ?q) m @ take k a"
    unfolding blk_def using take_mem_store [of ?r "take k a" "sha_block ctx"] tail b k tk by simp
  have up: "sha256_update ctx a ?n =
      ctx\<lparr>sha_h := sha256_blocks (sha256_compress (sha_h ctx) (take 64 blk)) rest nb,
          sha_block := mem_store 0 (take (length rest mod 64) (drop (nb * 64) rest)) blk,
          sha_len := new_len mod SHA256_BLOCK_SIZE,
          sha_tot_len := sha_tot_len ctx + push_bit 6 (new_len div SHA256_BLOCK_SIZE + 1)\<rparr>"
    using nlt
    by (simp add: sha256_update_def Let_def rem tmp r transf_blocks dv md
          flip: new_len_def blk_def rest_def del: drop_drop)
  have len: "length (m @ a) = 64 * (?q + (1 + nb)) + length rest mod 64"
  proof -
    have sum64: "m' = 64 * q' + r' \<Longrightarrow> r' + k = 64 \<Longrightarrow> 64 * nb + x = l \<Longrightarrow>
        m' + (k + l) = 64 * (q' + (1 + nb)) + x" for m' q' r' x l :: nat
      by simp
    have "length a = k + length rest" using k by (simp add: rest_def)
    then show ?thesis
      using sum64 [of "length m" ?q ?r] k(4) nb64 by simp
  qed
  then have qd: "length (m @ a) div 64 = ?q + (1 + nb)"
    and qm: "length (m @ a) mod 64 = length rest mod 64"
    by (simp_all only: div_mult_self4 mod_mult_self4 mod_mod_trivial)
  have hash: "sha256_blocks sha256_h0 (m @ a) (?q + (1 + nb)) =
      sha256_blocks (sha256_compress (sha_h ctx) (take 64 blk)) rest nb"
    using blocks_complete [of ?q m "take k a" sha256_h0 rest nb] k blk64 tk
    by (simp add: h rest_def minus_mod_eq_mult_div [symmetric])
  have left: "drop (64 * (?q + (1 + nb))) (m @ a) = drop (nb * 64) rest"
  proof -
    have "64 * (?q + (1 + nb)) - length m = k + nb * 64"
      using k(4) minus_mod_eq_mult_div [of "length m" 64] by (simp add: algebra_simps)
    moreover have "length m \<le> 64 * (?q + (1 + nb))"
      using k(2,4) minus_mod_eq_mult_div [of "length m" 64] by (simp add: algebra_simps)
    ultimately show ?thesis by (simp add: rest_def add.commute)
  qed
  have lr: "length (drop (nb * 64) rest) = length rest mod 64"
    using nb64 by simp
  have "unat (sha_tot_len ctx + push_bit 6 (new_len div SHA256_BLOCK_SIZE + 1)) =
      64 * (?q + (1 + nb))"
    using tot dv n len by (simp add: unat_word_ariths push_bit_eq_mult unat_of_nat)
  note tot' = this
  define Q where "Q = ?q + (1 + nb)"
  have st: "take (length rest mod 64) (mem_store 0 (drop (nb * 64) rest) blk) = drop (nb * 64) rest"
    and ln: "length (mem_store 0 (drop (nb * 64) rest) blk) = 128"
    using lr blk take_mem_store [of 0 "drop (nb * 64) rest" blk]
    by (simp_all add: length_mem_store)
  have "take (length rest mod 64) (drop (nb * 64) rest) = drop (nb * 64) rest"
    using lr by simp
  then show ?thesis
    using st ln md hash [folded Q_def] qd [folded Q_def] qm left [folded Q_def] tot' [folded Q_def]
    by (simp add: absorbed_def up del: length_append drop_append drop_drop)
qed

lemma absorbed_update:
  assumes "absorbed ctx m" and "length m + length a < 2 ^ 29"
  shows "absorbed (sha256_update ctx a (of_nat (length a))) (m @ a)"
  using update_short [OF assms] update_full [OF assms] by linarith

section \<open>The final block\<close>

lemma be64_small: "be64 (ucast (w :: u32)) = replicate 4 0 @ UNPACK32 w"
proof -
  have hi: "ucast (drop_bit (8 * i) (ucast w :: u64)) = (0 :: byte)" if "4 \<le> i" for i
    using that by (intro bit_word_eqI) (auto simp: bit_simps dest: bit_imp_le_length)
  have lo: "ucast (drop_bit (8 * i) (ucast w :: u64)) = (ucast (drop_bit (8 * i) w) :: byte)"
    if "i < 4" for i
    using that by (intro bit_word_eqI) (auto simp: bit_simps)
  have "[0..<8] = [0, 1, 2, 3, 4, 5, 6, 7 :: nat]" by (simp add: upt_rec)
  then show ?thesis
    using hi [of 4] hi [of 5] hi [of 6] hi [of 7] lo [of 0] lo [of 1] lo [of 2] lo [of 3]
    by (simp add: be64_def le_bytes_def UNPACK32_def numeral_eq_Suc)
qed

lemma be64_length: "n < 2 ^ 32 \<Longrightarrow> be64 (of_nat n) = replicate 4 0 @ UNPACK32 (of_nat n)"
  using be64_small [of "of_nat n"]
  by (simp add: unsigned_of_nat take_bit_nat_eq_self_iff take_bit_nat_eq_self)

text \<open>The padding written into the block: the bytes the last blocks of the message consist of.\<close>

lemma final_block:
  assumes r: "r < 64" and b: "length blk = 128" and p: "pm = 64 + (if 55 < r then 64 else 0)"
    and l: "length lb = 4"
  shows "take pm (mem_store (pm - 4) lb ((mem_store r (replicate (pm - r) 0) blk)[r := x])) =
    take r blk @ x # replicate ((119 - r) mod 64) 0 @ replicate 4 0 @ lb"
proof -
  let ?b1 = "mem_store r (replicate (pm - r) 0) blk"
  have pm: "pm \<le> 128" "r + 9 \<le> pm" using r p by (auto split: if_splits)
  have k: "(119 - r) mod 64 = pm - r - 9"
    using r p by (auto split: if_splits simp: mod_if)
  have "?b1[r := x] = take r blk @ x # replicate (pm - r - 1) 0 @ drop pm blk"
  proof -
    have "replicate (pm - r) (0 :: byte) = 0 # replicate (pm - r - 1) 0"
      using pm by (metis Suc_diff_1 Suc_diff_Suc add_lessD1 diff_Suc_1' le_add1
          order.strict_trans1 replicate_Suc zero_less_diff less_add_same_cancel1 zero_less_numeral
          less_le_trans)
    then show ?thesis
      using r b pm by (simp add: mem_store_def list_update_append)
  qed
  moreover have "replicate (pm - r - 1) (0 :: byte) =
      (replicate (pm - r - 9) 0 @ replicate 4 0) @ replicate 4 0"
    using pm by (simp flip: replicate_add)
  ultimately have e: "?b1[r := x] =
      (take r blk @ x # replicate (pm - r - 9) 0 @ replicate 4 0) @ replicate 4 0 @ drop pm blk"
    by simp
  have n: "length (take r blk @ x # replicate (pm - r - 9) (0 :: byte) @ replicate 4 0) = pm - 4"
    using r b pm by simp
  have "take pm (mem_store (pm - 4) lb (p @ t)) = p @ lb"
    if "length p = pm - 4" for p t
    using that l pm by (simp add: mem_store_def)
  from this [OF n] show ?thesis
    by (simp only: e k append_assoc append_Cons)
qed

lemma sha256_final_spec:
  assumes abs: "absorbed ctx m" and n: "length m < 2 ^ 29"
  shows "sha256_final ctx = sha256_spec m"
proof -
  let ?r = "length m mod 64" and ?q = "length m div 64"
  define nb :: u32 where
    "nb = 1 + (if SHA256_BLOCK_SIZE - 9 < sha_len ctx mod SHA256_BLOCK_SIZE then 1 else 0)"
  have r: "unat (sha_len ctx) = ?r" and b: "length (sha_block ctx) = 128"
    and tail: "take ?r (sha_block ctx) = drop (64 * ?q) m"
    and tot: "unat (sha_tot_len ctx) = 64 * ?q"
    and h: "sha_h ctx = sha256_blocks sha256_h0 m ?q"
    using abs by (simp_all add: absorbed_def)
  have "SHA256_BLOCK_SIZE - 9 < sha_len ctx mod SHA256_BLOCK_SIZE \<longleftrightarrow> 55 < ?r"
    using r by (simp add: word_less_nat_alt unat_mod SHA256_BLOCK_SIZE_def)
  then have nb: "nb = (if 55 < ?r then 2 else 1)" by (simp add: nb_def)
  define pm where "pm = 64 + (if 55 < ?r then 64 else 0 :: nat)"
  have pm64: "pm = 64 * unat nb" by (simp add: pm_def nb)
  have pl: "unat (push_bit 6 nb) = pm" by (simp add: nb pm_def)
  have pd: "unat (push_bit 6 nb - sha_len ctx) = pm - ?r"
    using pl r by (simp add: unat_sub word_le_nat_alt pm_def split: if_splits)
  have "sha_tot_len ctx + sha_len ctx = of_nat (length m)"
    using tot r n by (simp add: word_unat_eq_iff unat_word_ariths unat_of_nat)
  then have lb: "push_bit 3 (sha_tot_len ctx + sha_len ctx) = of_nat (8 * length m)"
    by (simp add: push_bit_eq_mult mult.commute)
  let ?blk = "mem_store (pm - 4) (UNPACK32 (of_nat (8 * length m)))
    ((mem_store ?r (replicate (pm - ?r) 0) (sha_block ctx))[?r := 0x80])"
  have fin: "sha256_final ctx = concat (map UNPACK32 (sha256_blocks (sha_h ctx) ?blk (unat nb)))"
    using r pl pd lb by (simp add: sha256_final_def Let_def transf_blocks flip: nb_def)
  have be: "be64 (of_nat (8 * length m)) = replicate 4 0 @ UNPACK32 (of_nat (8 * length m))"
    using be64_length [of "8 * length m"] n by simp
  have blk: "take pm ?blk = drop (64 * ?q) m @ 0x80 # replicate ((119 - ?r) mod 64) 0 @
      replicate 4 0 @ UNPACK32 (of_nat (8 * length m))"
    using final_block [where r = ?r and blk = "sha_block ctx" and pm = pm and x = "0x80"
        and lb = "UNPACK32 (of_nat (8 * length m))"] b tail
    by (simp add: pm_def UNPACK32_def)
  have pad: "sha256_pad m = take (64 * ?q) m @ take pm ?blk"
    unfolding blk sha256_pad_def be by (simp only: append_assoc [symmetric] append_take_drop_id)
  have "length (mem_store (pm - 4) lb ((mem_store ?r (replicate (pm - ?r) 0) (sha_block ctx))
      [?r := x])) = 128" if "length lb = 4" for lb x
    using that b by (simp add: mem_store_def pm_def)
  then have lblk: "length ?blk = 128" by (simp add: UNPACK32_def)
  have lt: "length (take (64 * ?q) m) = 64 * ?q" by simp
  have lp: "length (sha256_pad m) = 64 * (?q + unat nb)"
    unfolding pad length_append lt length_take lblk using pm64 by (simp add: pm_def split: if_splits)
  have le: "64 * unat nb \<le> length ?blk" using lblk by (simp add: nb)
  have tk: "sha256_blocks h' (take pm ?blk) (unat nb) = sha256_blocks h' ?blk (unat nb)" for h'
    using blocks_prefix [OF le] pm64 by simp
  have "sha256_blocks sha256_h0 (sha256_pad m) (?q + unat nb) =
      sha256_blocks (sha_h ctx) ?blk (unat nb)"
    unfolding pad blocks_append [OF lt] h tk by (simp add: blocks_prefix)
  then show ?thesis by (simp add: fin sha256_spec_def lp)
qed

theorem sha256_is_spec: "length m < 2 ^ 29 \<Longrightarrow> sha256 m = sha256_spec m"
  using absorbed_update [OF absorbed_init, of "replicate 128 0" m]
  by (simp add: sha256_def sha256_final_spec)

text \<open>Cutting the message into updates does not change the hash.\<close>

definition sha256_chunks :: "bytes list \<Rightarrow> sha256_ctx \<Rightarrow> sha256_ctx" where
  "sha256_chunks cs ctx = foldl (\<lambda>c a. sha256_update c a (of_nat (length a))) ctx cs"

lemma absorbed_chunks:
  "absorbed ctx m \<Longrightarrow> length m + length (concat cs) < 2 ^ 29 \<Longrightarrow>
    absorbed (sha256_chunks cs ctx) (m @ concat cs)"
proof (induction cs arbitrary: ctx m)
  case Nil
  then show ?case by (simp add: sha256_chunks_def)
next
  case (Cons a cs)
  have "absorbed (sha256_update ctx a (of_nat (length a))) (m @ a)"
    using Cons.prems by (intro absorbed_update) simp_all
  from Cons.IH [OF this] Cons.prems(2) show ?case
    by (simp add: sha256_chunks_def)
qed

lemma length_sha256_compress [simp]: "length h = 8 \<Longrightarrow> length (sha256_compress h b) = 8"
proof -
  have "length (foldl sha256_round h kw) = length h" for kw
  proof (induction kw arbitrary: h)
    case (Cons p kw)
    have "length (sha256_round h p) = length h"
      by (cases "(h, p)" rule: sha256_round.cases) (auto simp: Let_def)
    with Cons show ?case by simp
  qed simp
  then show "length h = 8 \<Longrightarrow> length (sha256_compress h b) = 8"
    by (simp add: sha256_compress_def)
qed

lemma length_sha256_blocks: "length h = 8 \<Longrightarrow> length (sha256_blocks h m n) = 8"
  by (induction n arbitrary: h m) simp_all

lemma length_unpack: "length (concat (map UNPACK32 ws)) = 4 * length ws"
  by (induction ws) (simp_all add: UNPACK32_def)

lemma length_sha256_final: "length (sha_h ctx) = 8 \<Longrightarrow> length (sha256_final ctx) = 32"
  by (simp add: sha256_final_def Let_def transf_blocks length_unpack length_sha256_blocks)

lemma length_sha256 [simp]: "length (sha256 m) = 32"
  unfolding sha256_def
  by (rule length_sha256_final)
     (simp add: sha256_update_def sha256_init_def Let_def transf_blocks length_sha256_blocks
        sha256_h0_def)

lemma length_gen_hash [simp]: "length (gen_hash m) = 32"
  by (simp add: gen_hash_def)

end
