(* ===== verification/Sv2_Tx.thy ===== *)
theory Sv2_Tx
  imports Sv2_Wire Sha2
begin

text \<open>
  Bitcoin serialisation as \<^verbatim>\<open>src/src/sv2_tx.c\<close> reads and writes it: CompactSize, the single
  transaction walker, txid and wtxid.  A pointer into the buffer is the list of the bytes from
  it to \<open>end\<close>, so \<open>q - p\<close> is the difference of the two lengths.  The abstract transactions and
  their serialisation at the end are the specification the walker is proved against.
\<close>

section \<open>CompactSize\<close>

definition sv2_have_bytes :: "bytes \<Rightarrow> u64 \<Rightarrow> bool" where
  "sv2_have_bytes p need \<longleftrightarrow> unat need \<le> length p"

definition sv2_write_compact_size :: "u64 \<Rightarrow> bytes" where
  "sv2_write_compact_size n =
     (if n < 0xfd then [ucast n]
      else if n \<le> 0xffff then
        [0xfd, ucast (n AND 0xff), ucast (drop_bit 8 n AND 0xff)]
      else if n \<le> 0xffffffff then
        [0xfe, ucast (n AND 0xff), ucast (drop_bit 8 n AND 0xff),
         ucast (drop_bit 16 n AND 0xff), ucast (drop_bit 24 n AND 0xff)]
      else 0xff # le_bytes 8 n)"

definition sv2_compact_size_len :: "u64 \<Rightarrow> nat" where
  "sv2_compact_size_len n =
     (if n < 0xfd then 1 else if n \<le> 0xffff then 3 else if n \<le> 0xffffffff then 5 else 9)"

definition sv2_read_compact_size :: "u64 reader" where
  "sv2_read_compact_size p =
     (case p of [] \<Rightarrow> None
      | b # p \<Rightarrow>
          if b < 0xfd then Some (ucast b, p)
          else if b = 0xfd then
            (if \<not> have_n p 2 then None
             else Some (ucast (p ! 0) OR push_bit 8 (ucast (p ! 1)), drop 2 p))
          else if b = 0xfe then
            (if \<not> have_n p 4 then None
             else Some (ucast (p ! 0) OR push_bit 8 (ucast (p ! 1)) OR
                        push_bit 16 (ucast (p ! 2)) OR push_bit 24 (ucast (p ! 3)), drop 4 p))
          else
            (if \<not> have_n p 8 then None else Some (le_word (take 8 p), drop 8 p)))"

lemma read_compact_le:
  "sv2_read_compact_size (b # p) =
     (let k = (if b < 0xfd then 0 else if b = 0xfd then 2 else if b = 0xfe then 4 else 8)
      in if length p < k then None
         else Some (if k = 0 then ucast b else le_word (take k p), drop k p))"
  using length_ge_exhaust(1) [of p] length_ge_exhaust(3) [of p]
  by (auto simp: sv2_read_compact_size_def have_n_def le_word_explicit simp del: le_word.simps)

lemma write_compact_le:
  "sv2_write_compact_size n =
     (if n < 0xfd then [ucast n] else if n \<le> 0xffff then 0xfd # le_bytes 2 n
      else if n \<le> 0xffffffff then 0xfe # le_bytes 4 n else 0xff # le_bytes 8 n)"
  by (simp add: sv2_write_compact_size_def le_bytes_def upt_rec)

lemma compact_take_bit:
  "n \<le> 0xffff \<Longrightarrow> take_bit 16 (n :: u64) = n"
  "n \<le> 0xffffffff \<Longrightarrow> take_bit 32 (n :: u64) = n"
  by (simp_all add: word_le_nat_alt word_unat_eq_iff unsigned_take_bit_eq take_bit_nat_eq_self_iff)

lemma compact_single:
  assumes "(n :: u64) < 0xfd"
  shows "(ucast n :: byte) < 0xfd" and "ucast (ucast n :: byte) = n"
proof -
  have "unat n < 253" using assms by (simp add: word_less_nat_alt)
  then show "(ucast n :: byte) < 0xfd" and "ucast (ucast n :: byte) = n"
    by (simp_all add: word_less_nat_alt word_unat_eq_iff unsigned_ucast_eq unsigned_take_bit_eq
          take_bit_nat_eq_self)
qed

interpretation wcs: wire_field sv2_write_compact_size sv2_read_compact_size "\<lambda>_. True"
proof
  fix n :: u64 and r
  show "sv2_read_compact_size (sv2_write_compact_size n @ r) = Some (n, r)"
    by (simp add: write_compact_le read_compact_le compact_single le_word_le_bytes
          compact_take_bit take_bit_word_eq_self)
qed

lemmas compact_rt = wcs.rd_wr [OF TrueI]

lemma length_write_compact: "length (sv2_write_compact_size n) = sv2_compact_size_len n"
  by (simp add: write_compact_le sv2_compact_size_len_def)

lemma read_compact_consumes:
  "sv2_read_compact_size p = Some (n, q) \<Longrightarrow> \<exists>s. p = s @ q \<and> 0 < length s"
proof (cases p)
  case (Cons b p')
  assume "sv2_read_compact_size p = Some (n, q)"
  then have "\<exists>k. q = drop k p' \<and> k \<le> length p'"
    by (auto simp: Cons read_compact_le Let_def split: if_splits intro: exI [of _ 0])
  then obtain k where "q = drop k p'" and "k \<le> length p'" by blast
  then show ?thesis
    by (intro exI [of _ "b # take k p'"]) (simp add: Cons)
qed (simp add: sv2_read_compact_size_def)

section \<open>Readers that look only at what they consume\<close>

text \<open>
  The walkers of this file accept encodings no writer produces (a CompactSize longer than
  needed), so they are not \<open>wire_field\<close>s.  What the coinbase and transaction code relies on is
  that the result of a read depends on the consumed bytes alone: those bytes may be copied
  somewhere else and read back.
\<close>

locale local_reader =
  fixes rd :: "'a reader"
  assumes rd_local: "rd p = Some (x, q) \<Longrightarrow> \<exists>s. p = s @ q \<and> (\<forall>r. rd (s @ r) = Some (x, r))"
begin

lemma seq_local:
  "read_seq rd n p = Some (xs, q) \<Longrightarrow>
    \<exists>s. p = s @ q \<and> (\<forall>r. read_seq rd n (s @ r) = Some (xs, r))"
proof (induction n arbitrary: p xs)
  case 0
  then show ?case by simp
next
  case (Suc n)
  then obtain x p' ys where x: "rd p = Some (x, p')" and ys: "read_seq rd n p' = Some (ys, q)"
    and xs: "xs = x # ys"
    by (auto simp: bind_eq_Some_conv)
  obtain s where s: "p = s @ p'" "\<And>r. rd (s @ r) = Some (x, r)" using rd_local [OF x] by auto
  obtain s' where "p' = s' @ q" "\<And>r. read_seq rd n (s' @ r) = Some (ys, r)"
    using Suc.IH [OF ys] by auto
  with s xs show ?case by (intro exI [of _ "s @ s'"]) simp
qed

lemma seq_local_reader: "local_reader (read_seq rd n)"
  by unfold_locales (rule seq_local)

end

sublocale canonical_field \<subseteq> loc: local_reader rd
proof
  fix p x q assume "rd p = Some (x, q)"
  then have "ok x" and "p = wr x @ q" using wr_rd by auto
  then show "\<exists>s. p = s @ q \<and> (\<forall>r. rd (s @ r) = Some (x, r))"
    using rd_wr by auto
qed

interpretation cs: local_reader sv2_read_compact_size
proof
  fix p x q assume a: "sv2_read_compact_size p = Some (x, q)"
  then obtain b p' where p: "p = b # p'"
    by (cases p) (auto simp: sv2_read_compact_size_def)
  define k where
    "k = (if b < 0xfd then 0 else if b = 0xfd then 2 else if b = 0xfe then 4 else 8 :: nat)"
  have k: "k \<le> length p'" "q = drop k p'"
    "x = (if k = 0 then ucast b else le_word (take k p'))"
    using a unfolding p read_compact_le by (auto simp: k_def Let_def split: if_splits)
  have "sv2_read_compact_size ((b # take k p') @ r) = Some (x, r)" for r
    unfolding append_Cons read_compact_le using k by (simp add: Let_def flip: k_def)
  then show "\<exists>s. p = s @ q \<and> (\<forall>r. sv2_read_compact_size (s @ r) = Some (x, r))"
    using k p by (intro exI [of _ "b # take k p'"]) simp
qed

section \<open>The transaction walker\<close>

definition skip_bytes :: "u64 \<Rightarrow> unit reader" where
  "skip_bytes n p = (if \<not> sv2_have_bytes p n then None else Some ((), drop (unat n) p))"

text \<open>The bodies of the four loops of \<open>tx_walk\<close>.\<close>

definition walk_input :: "unit reader" where
  "walk_input p = do {
     (_, p) \<leftarrow> skip_bytes 36 p;
     (n, p) \<leftarrow> sv2_read_compact_size p;
     if n > - 1 - 4 then None else skip_bytes (n + 4) p }"

definition walk_output :: "unit reader" where
  "walk_output p = do {
     (_, p) \<leftarrow> skip_bytes 8 p;
     (n, p) \<leftarrow> sv2_read_compact_size p;
     skip_bytes n p }"

definition walk_stack_item :: "unit reader" where
  "walk_stack_item p = do { (sz, p) \<leftarrow> sv2_read_compact_size p; skip_bytes sz p }"

definition walk_witness :: "unit reader" where
  "walk_witness p = do {
     (nstack, p) \<leftarrow> sv2_read_compact_size p;
     if nstack > 10000 then None
     else do { (_, p) \<leftarrow> read_seq walk_stack_item (unat nstack) p; Some ((), p) } }"

definition walk_witnesses :: "bool \<Rightarrow> u64 \<Rightarrow> unit list reader" where
  "walk_witnesses witness nin p =
     (if witness then read_seq walk_witness (unat nin) p else Some ([], p))"

record tx_bounds =
  tb_witness :: bool
  tb_vin_start :: bytes
  tb_vout_end :: bytes
  tb_locktime :: bytes
  tb_len :: nat

definition tx_walk :: "bytes \<Rightarrow> tx_bounds option" where
  "tx_walk tx =
     (if length tx < 10 then None
      else
        let p = drop 4 tx;
            witness = (have_n p 2 \<and> p ! 0 = 0 \<and> p ! 1 \<noteq> 0);
            vin_start = (if witness then drop 2 p else p)
        in do {
          (nin, p) \<leftarrow> sv2_read_compact_size vin_start;
          if nin > 100000 \<or> nin = 0 then None else do {
          (_, p) \<leftarrow> read_seq walk_input (unat nin) p;
          (nout, p) \<leftarrow> sv2_read_compact_size p;
          if nout > 100000 then None else do {
          (_, vout_end) \<leftarrow> read_seq walk_output (unat nout) p;
          (_, p) \<leftarrow> walk_witnesses witness nin vout_end;
          if \<not> sv2_have_bytes p 4 then None
          else Some \<lparr> tb_witness = witness, tb_vin_start = vin_start, tb_vout_end = vout_end,
                      tb_locktime = p, tb_len = length tx - length p + 4 \<rparr> } } })"

definition hash_nonwitness :: "bytes \<Rightarrow> bytes \<Rightarrow> bytes \<Rightarrow> bytes \<Rightarrow> bytes" where
  "hash_nonwitness tx vin_start vout_end locktime =
     gen_hash (take 4 tx @ take (length vin_start - length vout_end) vin_start @ take 4 locktime)"

text \<open>The buffer of \<open>sv2_bitcoin_txid\<close> is its \<open>len\<close> bytes.\<close>

definition sv2_bitcoin_txid :: "bytes \<Rightarrow> bytes option" where
  "sv2_bitcoin_txid tx = do {
     b \<leftarrow> tx_walk tx;
     if \<not> tb_witness b then Some (gen_hash tx)
     else Some (hash_nonwitness tx (tb_vin_start b) (tb_vout_end b) (tb_locktime b)) }"

record tx_parsed =
  tp_len :: nat
  tp_txid :: bytes
  tp_wtxid :: bytes

text \<open>Every output pointer non-null, as all but the size-only callers have it.\<close>

definition sv2_bitcoin_tx_parse :: "bytes \<Rightarrow> tx_parsed option" where
  "sv2_bitcoin_tx_parse tx = do {
     b \<leftarrow> tx_walk tx;
     let wtxid = gen_hash (take (tb_len b) tx);
     Some \<lparr> tp_len = tb_len b,
            tp_txid = (if \<not> tb_witness b then wtxid
                       else hash_nonwitness tx (tb_vin_start b) (tb_vout_end b) (tb_locktime b)),
            tp_wtxid = wtxid \<rparr> }"

text \<open>A walk from its parts: what each read of the walker has to return.\<close>

lemma tx_walk_intro:
  assumes v: "length v = 4" and len: "10 \<le> length (v @ mark @ vin)"
    and mark: "if w then \<exists>f. mark = [0, f] \<and> f \<noteq> 0 else mark = [] \<and> vin ! 0 \<noteq> 0"
    and rd: "sv2_read_compact_size vin = Some (nin, p1)" "\<not> nin > 100000" "nin \<noteq> 0"
      "read_seq walk_input (unat nin) p1 = Some (us, p2)"
      "sv2_read_compact_size p2 = Some (nout, p3)" "\<not> nout > 100000"
      "read_seq walk_output (unat nout) p3 = Some (vs, p4)"
      "walk_witnesses w nin p4 = Some (ws, p5)" "sv2_have_bytes p5 4"
  shows "tx_walk (v @ mark @ vin) = Some
    \<lparr> tb_witness = w, tb_vin_start = vin, tb_vout_end = p4, tb_locktime = p5,
      tb_len = length (v @ mark @ vin) - length p5 + 4 \<rparr>"
proof -
  let ?tx = "v @ mark @ vin"
  have d: "drop 4 ?tx = mark @ vin" using v by simp
  have m: "have_n (mark @ vin) 2 \<and> (mark @ vin) ! 0 = 0 \<and> (mark @ vin) ! 1 \<noteq> 0 \<longleftrightarrow> w"
    using mark by (cases w) (auto simp: have_n_def)
  have s: "(if w then drop 2 (mark @ vin) else mark @ vin) = vin"
    using mark by (cases w) auto
  show ?thesis
    unfolding tx_walk_def Let_def d m s using len rd by simp
qed

section \<open>Transactions and their serialisation\<close>

record btxin =
  bi_prevout :: bytes
  bi_script :: bytes
  bi_sequence :: bytes

record btxout =
  bo_value :: bytes
  bo_script :: bytes

record btx =
  bt_version :: bytes
  bt_ins :: "btxin list"
  bt_outs :: "btxout list"
  bt_segwit :: bool
  bt_stacks :: "bytes list list"
  bt_locktime :: bytes

definition ser_var :: "bytes \<Rightarrow> bytes" where
  "ser_var s = sv2_write_compact_size (of_nat (length s)) @ s"

definition ser_in :: "btxin \<Rightarrow> bytes" where
  "ser_in i = bi_prevout i @ ser_var (bi_script i) @ bi_sequence i"

definition ser_out :: "btxout \<Rightarrow> bytes" where
  "ser_out out = bo_value out @ ser_var (bo_script out)"

definition ser_stack :: "bytes list \<Rightarrow> bytes" where
  "ser_stack st = sv2_write_compact_size (of_nat (length st)) @ concat (map ser_var st)"

definition ser_body :: "btx \<Rightarrow> bytes" where
  "ser_body t =
     sv2_write_compact_size (of_nat (length (bt_ins t))) @ concat (map ser_in (bt_ins t)) @
     sv2_write_compact_size (of_nat (length (bt_outs t))) @ concat (map ser_out (bt_outs t))"

definition ser_witness :: "btx \<Rightarrow> bytes" where
  "ser_witness t = (if bt_segwit t then concat (map ser_stack (bt_stacks t)) else [])"

definition ser_tx :: "btx \<Rightarrow> bytes" where
  "ser_tx t = bt_version t @ (if bt_segwit t then [0, 1] else []) @ ser_body t @
     ser_witness t @ bt_locktime t"

definition ser_stripped :: "btx \<Rightarrow> bytes" where
  "ser_stripped t = bt_version t @ ser_body t @ bt_locktime t"

definition wf_in :: "btxin \<Rightarrow> bool" where
  "wf_in i \<longleftrightarrow> length (bi_prevout i) = 36 \<and> length (bi_script i) + 4 < 2 ^ 64 \<and>
     length (bi_sequence i) = 4"

definition wf_out :: "btxout \<Rightarrow> bool" where
  "wf_out out \<longleftrightarrow> length (bo_value out) = 8 \<and> length (bo_script out) < 2 ^ 64"

definition wf_stack :: "bytes list \<Rightarrow> bool" where
  "wf_stack st \<longleftrightarrow> length st \<le> 10000 \<and> list_all (\<lambda>s. length s < 2 ^ 64) st"

definition wf_tx :: "btx \<Rightarrow> bool" where
  "wf_tx t \<longleftrightarrow>
     length (bt_version t) = 4 \<and> length (bt_locktime t) = 4 \<and>
     1 \<le> length (bt_ins t) \<and> length (bt_ins t) \<le> 100000 \<and> length (bt_outs t) \<le> 100000 \<and>
     list_all wf_in (bt_ins t) \<and> list_all wf_out (bt_outs t) \<and>
     (bt_segwit t \<longrightarrow> length (bt_stacks t) = length (bt_ins t) \<and> list_all wf_stack (bt_stacks t))"

section \<open>The walker on a serialised transaction\<close>

lemma unat_of_nat64: "n < 2 ^ 64 \<Longrightarrow> unat (of_nat n :: u64) = n"
  by (simp add: unat_of_nat)

lemma skip_bytes_append:
  "length s = unat n \<Longrightarrow> skip_bytes n (s @ r) = Some ((), r)"
  by (simp add: skip_bytes_def sv2_have_bytes_def)

lemma read_seq_skip:
  assumes "\<And>x r. x \<in> set xs \<Longrightarrow> rd (wr x @ r) = Some ((), r)"
  shows "read_seq rd (length xs) (concat (map wr xs) @ r) = Some (replicate (length xs) (), r)"
  using assms by (induction xs) simp_all

lemma walk_stack_item_ser:
  "length s < 2 ^ 64 \<Longrightarrow> walk_stack_item (ser_var s @ r) = Some ((), r)"
  by (simp add: walk_stack_item_def ser_var_def compact_rt skip_bytes_append unat_of_nat64)

lemma walk_input_ser: "wf_in i \<Longrightarrow> walk_input (ser_in i @ r) = Some ((), r)"
  by (simp add: walk_input_def ser_in_def ser_var_def wf_in_def compact_rt skip_bytes_append
        skip_bytes_def sv2_have_bytes_def unat_of_nat64 unat_word_ariths word_less_nat_alt)

lemma walk_output_ser: "wf_out out \<Longrightarrow> walk_output (ser_out out @ r) = Some ((), r)"
  by (simp add: walk_output_def ser_out_def ser_var_def wf_out_def compact_rt skip_bytes_append
        skip_bytes_def sv2_have_bytes_def unat_of_nat64)

lemma walk_witness_ser: "wf_stack st \<Longrightarrow> walk_witness (ser_stack st @ r) = Some ((), r)"
  using read_seq_skip [of st walk_stack_item ser_var r] walk_stack_item_ser
  by (simp add: walk_witness_def ser_stack_def wf_stack_def compact_rt unat_of_nat64
        word_less_nat_alt list_all_iff)

lemma compact_head_nonzero:
  "n \<noteq> 0 \<Longrightarrow> \<exists>b s. sv2_write_compact_size n = b # s \<and> b \<noteq> 0"
  using compact_single(2) [of n] by (auto simp: write_compact_le)

lemma compact_count: "n \<le> 100000 \<Longrightarrow> unat (of_nat n :: u64) = n"
  by (simp add: unat_of_nat)

lemma ser_var_length: "1 \<le> length (ser_var s)"
  by (simp add: ser_var_def length_write_compact sv2_compact_size_len_def)

lemma ser_body_length:
  assumes "wf_tx t" shows "2 \<le> length (ser_body t)"
  by (simp add: ser_body_def length_write_compact sv2_compact_size_len_def)

lemma tx_walk_serialised:
  assumes wf: "wf_tx t"
  shows "tx_walk (ser_tx t @ rest) = Some
    \<lparr> tb_witness = bt_segwit t,
      tb_vin_start = ser_body t @ ser_witness t @ bt_locktime t @ rest,
      tb_vout_end = ser_witness t @ bt_locktime t @ rest,
      tb_locktime = bt_locktime t @ rest,
      tb_len = length (ser_tx t) \<rparr>"
proof -
  let ?n = "of_nat (length (bt_ins t)) :: u64" and ?m = "of_nat (length (bt_outs t)) :: u64"
  have n: "unat ?n = length (bt_ins t)" "?n \<noteq> 0" "\<not> ?n > 100000"
    and m: "unat ?m = length (bt_outs t)" "\<not> ?m > 100000"
    using wf by (auto simp: wf_tx_def compact_count word_less_nat_alt word_unat_eq_iff)
  have body: "drop 4 (ser_tx t @ rest) =
      (if bt_segwit t then [0, 1] else []) @ ser_body t @ ser_witness t @ bt_locktime t @ rest"
    using wf by (simp add: ser_tx_def wf_tx_def)
  obtain b s where hd: "sv2_write_compact_size ?n = b # s" "b \<noteq> 0"
    using compact_head_nonzero [OF n(2)] by auto
  have ins: "read_seq walk_input (length (bt_ins t)) (concat (map ser_in (bt_ins t)) @ r) =
      Some (replicate (length (bt_ins t)) (), r)" for r
    using wf by (intro read_seq_skip walk_input_ser) (auto simp: wf_tx_def list_all_iff)
  have outs: "read_seq walk_output (length (bt_outs t)) (concat (map ser_out (bt_outs t)) @ r) =
      Some (replicate (length (bt_outs t)) (), r)" for r
    using wf by (intro read_seq_skip walk_output_ser) (auto simp: wf_tx_def list_all_iff)
  have wit: "read_seq walk_witness (length (bt_ins t)) (ser_witness t @ r) =
      Some (replicate (length (bt_ins t)) (), r)" if "bt_segwit t" for r
    using wf that read_seq_skip [of "bt_stacks t" walk_witness ser_stack r] walk_witness_ser
    by (auto simp: wf_tx_def list_all_iff ser_witness_def)
  have nz: "ser_body t ! 0 \<noteq> 0" by (simp add: ser_body_def hd)
  have len: "10 \<le> length (ser_tx t @ rest)"
    using wf ser_body_length [OF wf] by (simp add: ser_tx_def wf_tx_def)
  have noseg: "\<not> bt_segwit t \<Longrightarrow> ser_witness t = []" by (simp add: ser_witness_def)
  have "(ser_body t @ r) ! 0 \<noteq> 0" for r
    using nz ser_body_length [OF wf] by (auto simp: nth_append)
  then have mark: "have_n (drop 4 (ser_tx t @ rest)) 2 \<and> drop 4 (ser_tx t @ rest) ! 0 = 0 \<and>
      drop 4 (ser_tx t @ rest) ! 1 \<noteq> 0 \<longleftrightarrow> bt_segwit t"
    unfolding body by (simp add: have_n_def)
  have start: "(if bt_segwit t then drop 2 (drop 4 (ser_tx t @ rest)) else drop 4 (ser_tx t @ rest)) =
      ser_body t @ ser_witness t @ bt_locktime t @ rest"
    unfolding body by simp
  have lock: "sv2_have_bytes (bt_locktime t @ rest) 4"
    using wf by (simp add: sv2_have_bytes_def wf_tx_def)
  have total: "length (ser_tx t) - length (bt_locktime t) + 4 = length (ser_tx t)"
    using wf by (simp add: ser_tx_def wf_tx_def)
  have rd: "sv2_read_compact_size (ser_body t @ r) = Some (?n, concat (map ser_in (bt_ins t)) @
      sv2_write_compact_size ?m @ concat (map ser_out (bt_outs t)) @ r)" for r
    by (simp add: ser_body_def compact_rt)
  show ?thesis
    unfolding tx_walk_def Let_def mark start total rd
    using len n m lock noseg by (cases "bt_segwit t") (simp_all add: ins outs wit compact_rt rd total walk_witnesses_def)
qed

lemma sv2_bitcoin_tx_parse_serialised:
  assumes "wf_tx t"
  shows "sv2_bitcoin_tx_parse (ser_tx t @ rest) = Some
    \<lparr> tp_len = length (ser_tx t), tp_txid = gen_hash (ser_stripped t),
      tp_wtxid = gen_hash (ser_tx t) \<rparr>"
  using assms
  by (simp add: sv2_bitcoin_tx_parse_def tx_walk_serialised)
     (auto simp: ser_tx_def ser_stripped_def wf_tx_def ser_witness_def hash_nonwitness_def Let_def)

lemma sv2_bitcoin_txid_serialised:
  assumes "wf_tx t"
  shows "sv2_bitcoin_txid (ser_tx t) = Some (gen_hash (ser_stripped t))"
  using assms tx_walk_serialised [OF assms, of "[]"]
  by (simp add: sv2_bitcoin_txid_def)
     (auto simp: ser_tx_def ser_stripped_def wf_tx_def ser_witness_def hash_nonwitness_def)

section \<open>Bounds on any input\<close>

lemma skip_bytes_suffix: "skip_bytes n p = Some (u, q) \<Longrightarrow> \<exists>s. p = s @ q"
  by (auto simp: skip_bytes_def split: if_splits intro: exI [of _ "take (unat n) p"])

lemma read_compact_suffix: "sv2_read_compact_size p = Some (n, q) \<Longrightarrow> \<exists>s. p = s @ q"
  using read_compact_consumes by blast

lemma read_seq_suffix:
  assumes "\<And>p x q. rd p = Some (x, q) \<Longrightarrow> \<exists>s. p = s @ q"
  shows "read_seq rd n p = Some (xs, q) \<Longrightarrow> \<exists>s. p = s @ q"
proof (induction n arbitrary: p xs)
  case (Suc n)
  then obtain x p' ys where "rd p = Some (x, p')" "read_seq rd n p' = Some (ys, q)"
    by (auto simp: bind_eq_Some_conv)
  with assms Suc.IH show ?case by (metis append_assoc)
qed simp

lemma walk_suffix:
  "walk_input p = Some (u, q) \<Longrightarrow> \<exists>s. p = s @ q"
  "walk_output p = Some (u, q) \<Longrightarrow> \<exists>s. p = s @ q"
  "walk_stack_item p = Some (u, q) \<Longrightarrow> \<exists>s. p = s @ q"
  "walk_witness p = Some (u, q) \<Longrightarrow> \<exists>s. p = s @ q"
proof -
  show i: "walk_stack_item p = Some (u, q) \<Longrightarrow> \<exists>s. p = s @ q" for p u q
    by (auto simp: walk_stack_item_def bind_eq_Some_conv
          dest!: read_compact_suffix skip_bytes_suffix)
  show "walk_input p = Some (u, q) \<Longrightarrow> \<exists>s. p = s @ q"
    by (auto simp: walk_input_def bind_eq_Some_conv split: if_splits
          dest!: read_compact_suffix skip_bytes_suffix)
  show "walk_output p = Some (u, q) \<Longrightarrow> \<exists>s. p = s @ q"
    by (auto simp: walk_output_def bind_eq_Some_conv dest!: read_compact_suffix skip_bytes_suffix)
  show "walk_witness p = Some (u, q) \<Longrightarrow> \<exists>s. p = s @ q"
    by (auto simp: walk_witness_def bind_eq_Some_conv split: if_splits
          dest!: read_compact_suffix read_seq_suffix [rotated] intro: i)
qed

lemma walk_witnesses_suffix:
  assumes "walk_witnesses w n p = Some (us, q)"
  shows "\<exists>s. p = s @ q \<and> (w \<or> s = [])"
proof (cases w)
  case True
  then have "read_seq walk_witness (unat n) p = Some (us, q)"
    using assms by (simp add: walk_witnesses_def)
  from read_seq_suffix [OF walk_suffix(4) this] True show ?thesis by simp
next
  case False
  with assms show ?thesis by (simp add: walk_witnesses_def)
qed

text \<open>
  Whatever bytes come in, the boundaries of a successful walk are ordered and inside the
  buffer: version, marker, body, witness, four locktime bytes, rest.
\<close>

lemma tx_walk_bounds:
  assumes "tx_walk tx = Some b"
  shows "\<exists>mark body wit lock rest.
    tx = take 4 tx @ mark @ body @ wit @ lock @ rest \<and> length (take 4 tx) = 4 \<and>
    length mark = (if tb_witness b then 2 else 0) \<and>
    tb_vin_start b = body @ wit @ lock @ rest \<and> tb_vout_end b = wit @ lock @ rest \<and>
    tb_locktime b = lock @ rest \<and> length lock = 4 \<and> (tb_witness b \<or> wit = []) \<and>
    tb_len b = length tx - length rest \<and> tb_len b \<le> length tx"
proof -
  define w where "w \<longleftrightarrow> have_n (drop 4 tx) 2 \<and> drop 4 tx ! 0 = 0 \<and> drop 4 tx ! 1 \<noteq> 0"
  define vs where "vs = (if w then drop 2 (drop 4 tx) else drop 4 tx)"
  have len: "10 \<le> length tx"
    using assms by (simp add: tx_walk_def split: if_splits)
  then obtain nin p1 us p2 nout p3 vo p4 ws p5
    where r1: "sv2_read_compact_size vs = Some (nin, p1)"
    and r2: "read_seq walk_input (unat nin) p1 = Some (us, p2)"
    and r3: "sv2_read_compact_size p2 = Some (nout, p3)"
    and r4: "read_seq walk_output (unat nout) p3 = Some (vo, p4)"
    and r5: "walk_witnesses w nin p4 = Some (ws, p5)"
    and lk: "sv2_have_bytes p5 4"
    and b: "b = \<lparr> tb_witness = w, tb_vin_start = vs, tb_vout_end = p4, tb_locktime = p5,
                  tb_len = length tx - length p5 + 4 \<rparr>"
    using assms [unfolded tx_walk_def Let_def, folded w_def, folded vs_def,
        unfolded if_not_P [OF len [unfolded not_less [symmetric]]]]
    by (clarsimp simp: bind_eq_Some_conv split: if_split_asm)
  define mark where "mark = (if w then take 2 (drop 4 tx) else [])"
  have vin: "drop 4 tx = mark @ tb_vin_start b" and lm: "length mark = (if w then 2 else 0)"
    using len append_take_drop_id [of 2 "drop 4 tx"]
    by (auto simp: mark_def b vs_def simp del: append_take_drop_id)
  obtain s1 s2 s3 s4 where "tb_vin_start b = s1 @ p1" "p1 = s2 @ p2" "p2 = s3 @ p3" "p3 = s4 @ p4"
    using read_compact_suffix [OF r1] read_compact_suffix [OF r3]
      read_seq_suffix [OF walk_suffix(1) r2] read_seq_suffix [OF walk_suffix(2) r4]
    by (auto simp: b)
  then have body: "tb_vin_start b = (s1 @ s2 @ s3 @ s4) @ p4" by simp
  obtain wit where wit: "p4 = wit @ p5" "w \<or> wit = []"
    using walk_witnesses_suffix [OF r5] by auto
  have lock: "length (take 4 p5) = 4" using lk by (simp add: sv2_have_bytes_def)
  have tx: "tx = take 4 tx @ mark @ (s1 @ s2 @ s3 @ s4) @ wit @ take 4 p5 @ drop 4 p5"
    using vin body wit(1) by (metis append_assoc append_take_drop_id)
  have "length tx - 4 = length mark + length (s1 @ s2 @ s3 @ s4) + length wit + length p5"
    using arg_cong [OF vin, of length] body wit(1) by simp
  moreover have "4 \<le> length p5" using lk by (simp add: sv2_have_bytes_def)
  ultimately have "tb_len b = length tx - length (drop 4 p5)" "tb_len b \<le> length tx"
    using len by (simp_all add: b)
  note ends = this
  show ?thesis
  proof (intro exI conjI)
    show "tx = take 4 tx @ mark @ (s1 @ s2 @ s3 @ s4) @ wit @ take 4 p5 @ drop 4 p5" by (rule tx)
    show "tb_len b = length tx - length (drop 4 p5)" and "tb_len b \<le> length tx" by (rule ends)+
    show "tb_vin_start b = (s1 @ s2 @ s3 @ s4) @ wit @ take 4 p5 @ drop 4 p5"
      using body wit(1) by simp
  qed (use lm wit lock len in \<open>simp_all add: b\<close>)
qed

end
