(* ===== verification/Merkle.thy ===== *)
theory Merkle
  imports Sv2_Tx
begin

text \<open>
  Merkle roots and branches: \<open>sv2_merkle_root_from_txids\<close> and \<open>sv2_merkle_root_from_path\<close> of
  \<^verbatim>\<open>src/src/sv2_tx.c\<close>, and \<open>cashstratum_merkle_branch\<close> of \<^verbatim>\<open>src/src/merkle.c\<close>, which computes
  the branch of leaf zero in place, without knowing leaf zero.  A workspace of \<open>32 * n\<close> bytes
  is the list of its \<open>n\<close> rows: every access of the code is to whole rows.
\<close>

section \<open>The root of a list of leaves\<close>

definition merkle_next :: "bytes list \<Rightarrow> bytes list" where
  "merkle_next layer =
     (let count = length layer; next_count = (count + 1) div 2
      in map (\<lambda>i. let a = i * 2; b = a + 1
                  in gen_hash (layer ! a @ (if b < count then layer ! b else layer ! a)))
           [0..<next_count])"

lemma length_merkle_next [simp]: "length (merkle_next layer) = (length layer + 1) div 2"
  by (simp add: merkle_next_def Let_def)

function merkle_layers :: "bytes list \<Rightarrow> bytes list" where
  "merkle_layers layer = (if length layer > 1 then merkle_layers (merkle_next layer) else layer)"
  by auto

termination merkle_layers
  by (relation "measure length") auto

declare merkle_layers.simps [simp del]

definition sv2_merkle_root_from_txids :: "bytes list \<Rightarrow> bytes" where
  "sv2_merkle_root_from_txids txids =
     (if length txids < 1 then replicate 32 0 else hd (merkle_layers txids))"

fun sv2_merkle_root_from_path :: "bytes \<Rightarrow> bytes list \<Rightarrow> bytes" where
  "sv2_merkle_root_from_path h [] = h"
| "sv2_merkle_root_from_path h (step # path) = sv2_merkle_root_from_path (gen_hash (h @ step)) path"

section \<open>The branch of leaf zero\<close>

definition GENWORK_MAX_MERKLE_DEPTH :: nat where "GENWORK_MAX_MERKLE_DEPTH = 32"
definition SIZE_MAX :: nat where "SIZE_MAX = 2 ^ 64 - 1"

function merkle_required :: "nat \<Rightarrow> nat" where
  "merkle_required n = (if n > 1 then Suc (merkle_required (n div 2 + n mod 2)) else 0)"
  by auto

termination merkle_required
  by (relation "measure id") (auto, presburger)

declare merkle_required.simps [simp del]

text \<open>\<open>for (i = 2; i < leaves; i += 2)\<close>, each hash stored over row \<open>i / 2\<close>.\<close>

function merkle_siblings :: "bytes list \<Rightarrow> nat \<Rightarrow> nat \<Rightarrow> bytes list" where
  "merkle_siblings hashes i leaves =
     (if i < leaves
      then merkle_siblings
             (hashes[i div 2 := sha256 (sha256 (hashes ! i @ hashes ! (i + 1)))]) (i + 2) leaves
      else hashes)"
  by auto

termination merkle_siblings
  by (relation "measure (\<lambda>(_, i, leaves). leaves - i)") auto

declare merkle_siblings.simps [simp del]

text \<open>One iteration of the \<open>while (leaves > 1)\<close> loop after the branch row is taken.\<close>

definition merkle_fold_level :: "bytes list \<Rightarrow> nat \<Rightarrow> bytes list \<times> nat" where
  "merkle_fold_level hashes leaves =
     (let (hashes, leaves) =
            (if leaves mod 2 \<noteq> 0 then (hashes[leaves := hashes ! (leaves - 1)], leaves + 1)
             else (hashes, leaves))
      in (merkle_siblings hashes 2 leaves, leaves div 2))"

lemma snd_merkle_fold_level: "snd (merkle_fold_level hashes leaves) = (leaves + 1) div 2"
  by (simp add: merkle_fold_level_def split: prod.splits) presburger

function merkle_branch_loop :: "bytes list \<Rightarrow> nat \<Rightarrow> bytes list \<Rightarrow> bytes list \<times> bytes list" where
  "merkle_branch_loop hashes leaves branch =
     (if leaves > 1
      then merkle_branch_loop (fst (merkle_fold_level hashes leaves))
             (snd (merkle_fold_level hashes leaves)) (branch @ [hashes ! 1])
      else (hashes, branch))"
  by auto

termination merkle_branch_loop
  by (relation "measure (\<lambda>(_, leaves, _). leaves)") (auto simp: snd_merkle_fold_level)

declare merkle_branch_loop.simps [simp del]

text \<open>\<open>None\<close> is \<open>false\<close>; otherwise the branch (its length is \<open>*depth\<close>).\<close>

definition cashstratum_merkle_branch :: "bytes list \<Rightarrow> nat \<Rightarrow> bytes list option" where
  "cashstratum_merkle_branch hashes leaves =
     (if leaves = 0 \<or> leaves > SIZE_MAX div 32 - 1 then None
      else if merkle_required leaves > GENWORK_MAX_MERKLE_DEPTH then None
      else Some (snd (merkle_branch_loop hashes leaves [])))"

section \<open>The in-place level\<close>

lemma merkle_siblings_nth:
  assumes "length hashes \<ge> leaves" and "even leaves" and "even i" and "0 < i"
  shows "length (merkle_siblings hashes i leaves) = length hashes \<and>
    (\<forall>j < length hashes. merkle_siblings hashes i leaves ! j =
      (if i div 2 \<le> j \<and> 2 * j < leaves then gen_hash (hashes ! (2 * j) @ hashes ! (2 * j + 1))
       else hashes ! j))"
  using assms
proof (induction hashes i leaves rule: merkle_siblings.induct)
  case (1 hashes i leaves)
  show ?case
  proof (cases "i < leaves")
    case False
    then show ?thesis
      using 1(4,5) by (auto simp: merkle_siblings.simps [of hashes i leaves])
  next
    case True
    define k where "k = i div 2"
    have i: "i = 2 * k" "0 < k" using 1(4,5) by (auto simp: k_def)
    define hs where "hs = hashes[k := gen_hash (hashes ! i @ hashes ! (i + 1))]"
    have step: "merkle_siblings hashes i leaves = merkle_siblings hs (i + 2) leaves"
      using True
      by (subst merkle_siblings.simps) (simp add: hs_def k_def gen_hash_def)
    have len: "length hs = length hashes" by (simp add: hs_def)
    have IH: "length (merkle_siblings hs (i + 2) leaves) = length hashes \<and>
        (\<forall>j < length hashes. merkle_siblings hs (i + 2) leaves ! j =
          (if Suc k \<le> j \<and> 2 * j < leaves then gen_hash (hs ! (2 * j) @ hs ! (2 * j + 1))
           else hs ! j))"
      using 1(1) [OF True] 1(2-5) by (simp add: i hs_def gen_hash_def)
    have far: "Suc k \<le> j \<Longrightarrow> hs ! (2 * j) = hashes ! (2 * j) \<and> hs ! (2 * j + 1) = hashes ! (2 * j + 1)" for j
      by (simp add: hs_def)
    show ?thesis
      unfolding step using IH far True 1(2)
      by (auto simp: i hs_def nth_list_update Suc_le_eq)
  qed
qed

text \<open>
  If the workspace holds the layer except for its first row, one level of the code leaves the
  next layer there, again except for its first row.
\<close>

definition holds :: "bytes list \<Rightarrow> bytes list \<Rightarrow> bool" where
  "holds hashes layer \<longleftrightarrow>
     length hashes > length layer \<and> (\<forall>j. 0 < j \<and> j < length layer \<longrightarrow> hashes ! j = layer ! j)"

lemma merkle_fold_level_holds:
  assumes "holds hashes layer" and "1 < length layer"
  shows "holds (fst (merkle_fold_level hashes (length layer))) (merkle_next layer)"
proof -
  let ?n = "length layer"
  define hs where "hs = (if ?n mod 2 \<noteq> 0 then hashes[?n := hashes ! (?n - 1)] else hashes)"
  define m where "m = (if ?n mod 2 \<noteq> 0 then ?n + 1 else ?n)"
  have lev: "fst (merkle_fold_level hashes ?n) = merkle_siblings hs 2 m"
    by (simp add: merkle_fold_level_def hs_def m_def)
  have m: "even m" "m = 2 * ((?n + 1) div 2)" "length hs = length hashes" "m \<le> length hs"
    using assms by (auto simp: m_def hs_def holds_def even_iff_mod_2_eq_zero) presburger
  have at: "merkle_siblings hs 2 m ! j = gen_hash (hs ! (2 * j) @ hs ! (2 * j + 1))"
    if "0 < j" "j < (?n + 1) div 2" for j
    using merkle_siblings_nth [of m hs 2] m that by auto
  have row: "hs ! (2 * j) = layer ! (2 * j) \<and>
      hs ! (2 * j + 1) = (if 2 * j + 1 < ?n then layer ! (2 * j + 1) else layer ! (2 * j))"
    if "0 < j" "j < (?n + 1) div 2" for j
  proof -
    have "2 * j < ?n" using that by presburger
    moreover have "2 * j + 1 \<noteq> ?n" if "even ?n" using that by presburger
    moreover have "2 * j = ?n - 1" if "2 * j + 1 = ?n" using that by simp
    ultimately show ?thesis
      using assms that by (auto simp: hs_def holds_def nth_list_update even_iff_mod_2_eq_zero)
  qed
  have "length (merkle_siblings hs 2 m) = length hashes"
    using merkle_siblings_nth [of m hs 2] m by simp
  then show ?thesis
    using assms at row m
    by (auto simp: lev holds_def merkle_next_def Let_def mult.commute)
qed

section \<open>The branch folds to the root\<close>

lemma merkle_layers_head:
  "1 < length layer \<Longrightarrow> merkle_layers layer = merkle_layers (merkle_next layer)"
  by (simp add: merkle_layers.simps [of layer])

lemma merkle_next_head:
  "1 < length layer \<Longrightarrow> merkle_next layer \<noteq> [] \<and> hd (merkle_next layer) = gen_hash (hd layer @ layer ! 1)"
  by (cases layer) (auto simp: merkle_next_def Let_def hd_map upt_rec)

lemma merkle_branch_loop_fold:
  assumes "holds hashes layer" and "layer \<noteq> []"
  shows "\<exists>steps. snd (merkle_branch_loop hashes (length layer) branch) = branch @ steps \<and>
    sv2_merkle_root_from_path (hd layer) steps = hd (merkle_layers layer) \<and>
    length steps = merkle_required (length layer)"
  using assms
proof (induction layer arbitrary: hashes branch rule: merkle_layers.induct)
  case (1 layer)
  show ?case
  proof (cases "1 < length layer")
    case False
    then show ?thesis
      using 1(3) by (simp add: merkle_branch_loop.simps [of hashes] merkle_layers.simps [of layer]
          merkle_required.simps [of "length layer"])
  next
    case True
    let ?next = "merkle_next layer" and ?h = "fst (merkle_fold_level hashes (length layer))"
    have nx: "?next \<noteq> []" "hd ?next = gen_hash (hd layer @ layer ! 1)"
      using merkle_next_head [OF True] by auto
    obtain steps where st:
      "snd (merkle_branch_loop ?h (length ?next) (branch @ [hashes ! 1])) = (branch @ [hashes ! 1]) @ steps"
      "sv2_merkle_root_from_path (hd ?next) steps = hd (merkle_layers ?next)"
      "length steps = merkle_required (length ?next)"
      using 1(1) [OF True merkle_fold_level_holds [OF 1(2) True] nx(1)] by blast
    have "snd (merkle_branch_loop hashes (length layer) branch) = branch @ (hashes ! 1 # steps)"
      using True st(1) by (subst merkle_branch_loop.simps) (simp add: snd_merkle_fold_level)
    moreover have "hashes ! 1 = layer ! 1" using 1(2) True by (simp add: holds_def)
    moreover have "length layer div 2 + length layer mod 2 = (length layer + 1) div 2" by presburger
    ultimately show ?thesis
      using st(2,3) nx(2) True
      by (intro exI [of _ "hashes ! 1 # steps"])
         (simp add: merkle_layers_head [OF True] merkle_required.simps [of "length layer"])
  qed
qed

lemma merkle_branch_root:
  assumes "cashstratum_merkle_branch hashes (Suc (length txids)) = Some branch"
    and "length hashes = length txids + 2"
    and "\<And>j. j < length txids \<Longrightarrow> hashes ! Suc j = txids ! j"
  shows "sv2_merkle_root_from_path cb branch = sv2_merkle_root_from_txids (cb # txids) \<and>
    length branch = merkle_required (Suc (length txids)) \<and>
    length branch \<le> GENWORK_MAX_MERKLE_DEPTH"
proof -
  have "holds hashes (cb # txids)"
    using assms(2,3) by (auto simp: holds_def nth_Cons split: nat.split)
  from merkle_branch_loop_fold [OF this, of "[]"] assms(1) show ?thesis
    by (auto simp: cashstratum_merkle_branch_def sv2_merkle_root_from_txids_def split: if_splits)
qed

lemma merkle_required_le: "n \<le> 2 ^ d \<Longrightarrow> merkle_required n \<le> d"
proof (induction d arbitrary: n)
  case 0
  then show ?case by (simp add: merkle_required.simps [of n])
next
  case (Suc d)
  then have "n div 2 + n mod 2 \<le> 2 ^ d" by simp presburger
  from Suc.IH [OF this] show ?case by (simp add: merkle_required.simps [of n])
qed

lemma merkle_required_ge: "2 ^ d < n \<Longrightarrow> d < merkle_required n"
proof (induction d arbitrary: n)
  case 0
  then show ?case by (simp add: merkle_required.simps [of n])
next
  case (Suc d)
  then have "2 ^ d < n div 2 + n mod 2" by simp presburger
  moreover have "1 < n"
    using Suc.prems one_le_power [of "2 :: nat" "Suc d"] by linarith
  ultimately show ?case
    using Suc.IH by (simp add: merkle_required.simps [of n])
qed

text \<open>The branch is refused exactly for no leaf or more than \<open>2 ^ 32\<close> leaves.\<close>

lemma merkle_branch_some_iff:
  "cashstratum_merkle_branch hashes leaves \<noteq> None \<longleftrightarrow> 1 \<le> leaves \<and> leaves \<le> 2 ^ 32"
  using merkle_required_le [of leaves 32] merkle_required_ge [of 32 leaves]
  by (cases "leaves \<le> 2 ^ 32")
     (auto simp: cashstratum_merkle_branch_def SIZE_MAX_def GENWORK_MAX_MERKLE_DEPTH_def)

end
