(* ===== verification/Sv2_Cb.thy ===== *)
theory Sv2_Cb
  imports Sv2_Tx
begin

text \<open>
  Coinbase construction of \<^verbatim>\<open>src/src/sv2_cb.c\<close>: the assembled coinbase of a custom job, the
  declared prefix and suffix around the extranonce hole, and the output list built from the
  pool's payout blob.  A function that returns 0 or \<open>false\<close> returns \<open>None\<close>; a pointer with a
  length is the list of its bytes together with the length, as in the code.
\<close>

definition SV2_CB_MAX_SCRIPTSIG :: nat where "SV2_CB_MAX_SCRIPTSIG = 100"
definition SV2_MAX_PAYOUT_OUTS :: u64 where "SV2_MAX_PAYOUT_OUTS = 16"
definition UINT16_MAX :: nat where "UINT16_MAX = 65535"

section \<open>The assembled coinbase\<close>

definition null_prevout :: bytes where
  "null_prevout = replicate 32 0 @ replicate 4 0xff"

definition sv2_cb_assemble ::
  "nat \<Rightarrow> u32 \<Rightarrow> u32 \<Rightarrow> u32 \<Rightarrow> bytes \<times> byte \<Rightarrow> bytes \<times> byte \<Rightarrow> bytes \<times> u16 \<Rightarrow> bytes \<times> u16 \<Rightarrow> bytes option"
where
  "sv2_cb_assemble outsz cb_version nsequence locktime =
     (\<lambda>(ssig_prefix, ssig_prefix_len) (en1, en1_len) (extranonce, extranonce_len) (outputs, outputs_len).
       let ssig_len = unat ssig_prefix_len + unat en1_len + unat extranonce_len;
           need = 4 + 1 + 36 + 1 + ssig_len + 4 + unat outputs_len + 4
       in if ssig_len > 255 then None
          else if need > outsz then None
          else Some (le_bytes 4 cb_version @ [0x01] @ null_prevout @ [of_nat ssig_len] @
                     take (unat ssig_prefix_len) ssig_prefix @ take (unat en1_len) en1 @
                     take (unat extranonce_len) extranonce @ le_bytes 4 nsequence @
                     take (unat outputs_len) outputs @ le_bytes 4 locktime))"

section \<open>The declared prefix and suffix\<close>

record sv2_cb_spec =
  cs_version :: u32
  cs_nsequence :: u32
  cs_locktime :: u32
  cs_ssig_prefix :: bytes
  cs_ssig_prefix_len :: byte
  cs_hole_len :: byte
  cs_outputs :: bytes
  cs_outputs_len :: u16
  cs_witness_reserved :: "bytes option"

text \<open>A \<open>NULL\<close> output list comes with \<open>outputs_len = 0\<close>.\<close>

definition sv2_cb_declare_parts :: "sv2_cb_spec \<Rightarrow> (bytes \<times> bytes) option" where
  "sv2_cb_declare_parts spec =
     (if cs_outputs_len spec = 0 then None
      else if cs_hole_len spec = 0 then None
      else
        let ssig_len = unat (cs_ssig_prefix_len spec) + unat (cs_hole_len spec)
        in if ssig_len > SV2_CB_MAX_SCRIPTSIG then None
           else
             let witness = (cs_witness_reserved spec \<noteq> None);
                 plen = 4 + (if witness then 2 else 0) + 1 + 36 +
                        sv2_compact_size_len (of_nat ssig_len) + unat (cs_ssig_prefix_len spec);
                 slen = 4 + unat (cs_outputs_len spec) + (if witness then 2 + 32 else 0) + 4
             in if plen > UINT16_MAX \<or> slen > UINT16_MAX then None
                else Some
                  (le_bytes 4 (cs_version spec) @ (if witness then [0x00, 0x01] else []) @ [0x01] @
                   null_prevout @ sv2_write_compact_size (of_nat ssig_len) @
                   take (unat (cs_ssig_prefix_len spec)) (cs_ssig_prefix spec),
                   le_bytes 4 (cs_nsequence spec) @
                   take (unat (cs_outputs_len spec)) (cs_outputs spec) @
                   (case cs_witness_reserved spec of None \<Rightarrow> []
                    | Some reserved \<Rightarrow> [0x01, 0x20] @ take 32 reserved) @
                   le_bytes 4 (cs_locktime spec)))"

section \<open>Output lists\<close>

definition read_output :: "(u64 \<times> bytes \<times> byte) reader" where
  "read_output p =
     (if \<not> sv2_have_bytes p 8 then None
      else let le64 = le_word (take 8 p); p = drop 8 p
           in do {
             (slen, p) \<leftarrow> sv2_read_compact_size p;
             if slen > 255 \<or> \<not> sv2_have_bytes p slen \<or> slen = 0 then None
             else Some ((le64, take (unat slen) p, ucast slen), drop (unat slen) p) })"

text \<open>The loop over the outputs after the first, refusing a total that would wrap.\<close>

fun walk_rest :: "nat \<Rightarrow> u64 \<Rightarrow> u64 reader" where
  "walk_rest 0 tot p = Some (tot, p)"
| "walk_rest (Suc n) tot p = do {
     ((v, _, _), p) \<leftarrow> read_output p;
     if v > - 1 - tot then None else walk_rest n (tot + v) p }"

record outputs_walk =
  ow_nout :: u64
  ow_first_script :: bytes
  ow_first_len :: byte
  ow_rest :: bytes
  ow_rest_value :: u64

definition walk_outputs :: "bytes \<Rightarrow> outputs_walk option" where
  "walk_outputs outputs =
     (if outputs = [] then None
      else do {
        (nout, p) \<leftarrow> sv2_read_compact_size outputs;
        if nout < 1 \<or> nout > SV2_MAX_PAYOUT_OUTS then None else do {
        ((_, first_script, first_len), from) \<leftarrow> read_output p;
        (tot, p) \<leftarrow> walk_rest (unat nout - 1) 0 from;
        Some \<lparr> ow_nout = nout, ow_first_script = first_script, ow_first_len = first_len,
               ow_rest = take (length from - length p) from, ow_rest_value = tot \<rparr> } })"

definition sv2_cb_build_outputs :: "nat \<Rightarrow> bytes \<Rightarrow> u64 \<Rightarrow> bytes \<Rightarrow> byte \<Rightarrow> bytes option" where
  "sv2_cb_build_outputs outsz payouts value commitment commitment_len = do {
     w \<leftarrow> walk_outputs payouts;
     let fixed = ow_rest_value w;
     if fixed > value then None
     else
       let tot = ow_nout w + (if commitment_len \<noteq> 0 then 1 else 0);
           need = sv2_compact_size_len tot + 8 + sv2_compact_size_len (ucast (ow_first_len w)) +
                  unat (ow_first_len w) + length (ow_rest w) + unat commitment_len
       in if need > outsz then None
          else Some
            (sv2_write_compact_size tot @ le_bytes 8 (value - fixed) @
             sv2_write_compact_size (ucast (ow_first_len w)) @
             take (unat (ow_first_len w)) (ow_first_script w) @ ow_rest w @
             take (unat commitment_len) commitment) }"

definition sv2_cb_outputs_count :: "bytes \<Rightarrow> int" where
  "sv2_cb_outputs_count outputs =
     (case walk_outputs outputs of None \<Rightarrow> -1 | Some w \<Rightarrow> uint (ow_nout w))"

definition sv2_cb_output_at :: "bytes \<Rightarrow> int \<Rightarrow> (u64 \<times> bytes \<times> byte) option" where
  "sv2_cb_output_at outputs idx =
     (if outputs = [] \<or> idx < 0 then None
      else do {
        (nout, p) \<leftarrow> sv2_read_compact_size outputs;
        if nout < 1 \<or> nout > SV2_MAX_PAYOUT_OUTS \<or> idx \<ge> uint nout then None else do {
        (_, p) \<leftarrow> read_seq read_output (nat idx) p;
        (out, p) \<leftarrow> read_output p;
        Some out } })"

definition sv2_cb_first_output_script :: "bytes \<Rightarrow> (bytes \<times> byte) option" where
  "sv2_cb_first_output_script outputs = map_option snd (sv2_cb_output_at outputs 0)"

section \<open>Reading outputs back\<close>

text \<open>What a blob of outputs says, read independently of the code that builds one.\<close>

definition outputs_of :: "bytes \<Rightarrow> ((u64 \<times> bytes \<times> byte) list \<times> bytes) option" where
  "outputs_of blob = do {
     (n, p) \<leftarrow> sv2_read_compact_size blob;
     read_seq read_output (unat n) p }"

definition out_value :: "(u64 \<times> bytes \<times> byte) list \<Rightarrow> nat" where
  "out_value outs = (\<Sum>(v, _)\<leftarrow>outs. unat v)"

interpretation ro: local_reader read_output
proof
  fix p x q assume a: "read_output p = Some (x, q)"
  then obtain slen p' where h: "sv2_have_bytes p 8"
    and r: "sv2_read_compact_size (drop 8 p) = Some (slen, p')"
    and g: "\<not> (slen > 255 \<or> \<not> sv2_have_bytes p' slen \<or> slen = 0)"
    and x: "x = (le_word (take 8 p), take (unat slen) p', ucast slen)" and q: "q = drop (unat slen) p'"
    by (auto simp: read_output_def Let_def bind_eq_Some_conv split: if_splits)
  obtain s where s: "drop 8 p = s @ p'" "\<And>r. sv2_read_compact_size (s @ r) = Some (slen, r)"
    using cs.rd_local [OF r] by auto
  define t where "t = take 8 p @ s @ take (unat slen) p'"
  have len8: "length (take 8 p) = 8" using h by (simp add: sv2_have_bytes_def)
  have "read_output (t @ r) = Some (x, r)" for r
    using g h by (simp add: read_output_def t_def x q sv2_have_bytes_def s(2) Let_def)
  moreover have "p = t @ q" using s(1) by (simp add: t_def q) (metis append_take_drop_id)
  ultimately show "\<exists>s. p = s @ q \<and> (\<forall>r. read_output (s @ r) = Some (x, r))" by blast
qed

lemma read_output_written:
  assumes "length s = unat n" and "n \<noteq> 0"
  shows "read_output (le_bytes 8 v @ sv2_write_compact_size (ucast n) @ s @ r) = Some ((v, s, n), r)"
proof -
  have "unat n \<le> 255" using unat_byte_lt [of n] by simp
  moreover have "unat n \<noteq> 0" using assms(2) by (simp add: word_unat_eq_iff)
  ultimately show ?thesis
    using assms
    by (simp add: read_output_def sv2_have_bytes_def compact_rt le_word_le_bytes
          take_bit_word_eq_self word_less_nat_alt word_unat_eq_iff)
qed

lemma read_output_fields: "read_output p = Some ((v, s, n), q) \<Longrightarrow> length s = unat n \<and> n \<noteq> 0"
  by (auto simp: read_output_def Let_def bind_eq_Some_conv sv2_have_bytes_def split: if_splits
        simp: word_less_nat_alt word_unat_eq_iff unsigned_ucast_eq unsigned_take_bit_eq
          take_bit_nat_eq_self)

lemma walk_rest_seq:
  "walk_rest n tot p = Some (t, q) \<longleftrightarrow>
    (\<exists>outs. read_seq read_output n p = Some (outs, q) \<and>
       unat tot + out_value outs < 2 ^ 64 \<and> unat t = unat tot + out_value outs)"
proof (induction n arbitrary: tot p)
  case 0
  then show ?case
    using unat_u64_lt [of tot] by (auto simp: out_value_def word_unat_eq_iff)
next
  case (Suc n)
  have wrap: "\<not> v > - 1 - tot \<longleftrightarrow> unat tot + unat v < 2 ^ 64" for v
    using unat_u64_lt [of tot] by (simp add: word_less_nat_alt unat_u64_rest) linarith
  have add: "unat tot + unat v < 2 ^ 64 \<Longrightarrow> unat (tot + v) = unat tot + unat v" for v
    by (simp add: unat_word_ariths)
  show ?case
  proof (cases "read_output p")
    case None
    then show ?thesis by simp
  next
    case (Some o1)
    obtain v s l p' where o1: "read_output p = Some ((v, s, l), p')"
      using Some by (cases o1) auto
    show ?thesis
    proof (cases "unat tot + unat v < 2 ^ 64")
      case False
      then show ?thesis by (auto simp: o1 wrap out_value_def bind_eq_Some_conv)
    next
      case True
      then show ?thesis
        using wrap [of v] by (auto simp: o1 Suc.IH add out_value_def bind_eq_Some_conv add.assoc)
    qed
  qed
qed

section \<open>What a walk of the blob establishes\<close>

lemma read_seq_Suc_Some:
  "read_seq rd (Suc n) p = Some (zs, q) \<longleftrightarrow>
    (\<exists>x p' xs. rd p = Some (x, p') \<and> read_seq rd n p' = Some (xs, q) \<and> zs = x # xs)"
  by (auto simp: bind_eq_Some_conv)

lemma walk_outputs_Some:
  assumes "walk_outputs payouts = Some w"
  obtains v0 outs q where "outputs_of payouts = Some ((v0, ow_first_script w, ow_first_len w) # outs, q)"
    and "length outs + 1 = unat (ow_nout w)" and "ow_nout w \<le> SV2_MAX_PAYOUT_OUTS"
    and "unat (ow_rest_value w) = out_value outs" and "out_value outs < 2 ^ 64"
    and "\<And>r. read_seq read_output (length outs) (ow_rest w @ r) = Some (outs, r)"
    and "length (ow_first_script w) = unat (ow_first_len w)" and "ow_first_len w \<noteq> 0"
proof -
  obtain nout p v0 s0 l0 from' tot q where c: "sv2_read_compact_size payouts = Some (nout, p)"
    and n: "\<not> nout < 1" "\<not> nout > SV2_MAX_PAYOUT_OUTS"
    and o: "read_output p = Some ((v0, s0, l0), from')"
    and r: "walk_rest (unat nout - 1) 0 from' = Some (tot, q)"
    and w: "w = \<lparr> ow_nout = nout, ow_first_script = s0, ow_first_len = l0,
               ow_rest = take (length from' - length q) from', ow_rest_value = tot \<rparr>"
    using assms by (auto simp: walk_outputs_def bind_eq_Some_conv split: if_splits)
  obtain outs where outs: "read_seq read_output (unat nout - 1) from' = Some (outs, q)"
    and tot: "out_value outs < 2 ^ 64" "unat tot = out_value outs"
    using r by (auto simp: walk_rest_seq)
  obtain s where s: "from' = s @ q" "\<And>r. read_seq read_output (unat nout - 1) (s @ r) = Some (outs, r)"
    using ro.seq_local [OF outs] by auto
  have len: "length outs = unat nout - 1" using read_seq_length [OF outs] .
  have pos: "Suc (unat nout - 1) = unat nout"
    using n(1) by (simp add: word_less_nat_alt)
  have "read_seq read_output (Suc (unat nout - 1)) p = Some ((v0, s0, l0) # outs, q)"
    using o outs by simp
  then have "read_seq read_output (unat nout) p = Some ((v0, s0, l0) # outs, q)"
    unfolding pos .
  then show thesis
    using that [of v0 outs q] c n tot s len pos read_output_fields [OF o]
    by (simp add: w outputs_of_def not_less)
qed

section \<open>Building outputs\<close>

text \<open>
  The first output takes what the fixed ones leave, the others and the commitment are copied,
  nothing else is in the list, and it fits in the buffer.
\<close>

lemma build_outputs_reads_back:
  assumes b: "sv2_cb_build_outputs outsz payouts value commitment clen = Some out"
    and c: "read_seq read_output (if clen \<noteq> 0 then 1 else 0) (take (unat clen) commitment) = Some (cs, [])"
  shows "\<exists>v0 s0 l0 outs q.
    outputs_of payouts = Some ((v0, s0, l0) # outs, q) \<and>
    outputs_of out = Some ((value - of_nat (out_value outs), s0, l0) # outs @ cs, []) \<and>
    out_value outs \<le> unat value \<and>
    out_value ((value - of_nat (out_value outs), s0, l0) # outs) = unat value"
proof -
  obtain w where w: "walk_outputs payouts = Some w"
    using b by (auto simp: sv2_cb_build_outputs_def bind_eq_Some_conv)
  obtain v0 outs q where o: "outputs_of payouts = Some ((v0, ow_first_script w, ow_first_len w) # outs, q)"
    and n: "length outs + 1 = unat (ow_nout w)" "ow_nout w \<le> SV2_MAX_PAYOUT_OUTS"
    and v: "unat (ow_rest_value w) = out_value outs" "out_value outs < 2 ^ 64"
    and r: "\<And>r. read_seq read_output (length outs) (ow_rest w @ r) = Some (outs, r)"
    and f: "length (ow_first_script w) = unat (ow_first_len w)" "ow_first_len w \<noteq> 0"
    using walk_outputs_Some [OF w] by blast
  let ?k = "if clen \<noteq> 0 then 1 else 0 :: u64"
  have out: "out = sv2_write_compact_size (ow_nout w + ?k) @ le_bytes 8 (value - ow_rest_value w) @
      sv2_write_compact_size (ucast (ow_first_len w)) @ ow_first_script w @ ow_rest w @
      take (unat clen) commitment" and le: "\<not> ow_rest_value w > value"
    using b f by (auto simp: sv2_cb_build_outputs_def w Let_def split: if_splits)
  have "unat (ow_nout w + ?k) = unat (ow_nout w) + unat ?k"
    using n(2) by (auto simp: unat_word_ariths SV2_MAX_PAYOUT_OUTS_def word_le_nat_alt)
  then have cnt: "unat (ow_nout w + ?k) = Suc (length outs + (if clen \<noteq> 0 then 1 else 0))"
    using n(1) by (simp split: if_splits)
  have app: "read_seq rd (a + b) p = Some (xs @ ys, q2)"
    if "read_seq rd a p = Some (xs, q1)" "read_seq rd b q1 = Some (ys, q2)"
    for rd :: "(u64 \<times> bytes \<times> byte) reader" and a b p xs ys q1 q2
    using that
  proof (induction a arbitrary: p xs)
    case (Suc a)
    then show ?case by (auto simp: read_seq_Suc_Some simp del: read_seq.simps(2))
  qed simp
  have val: "of_nat (out_value outs) = ow_rest_value w"
    by (metis v(1) word_unat_eq_iff unat_of_nat64 v(2))
  have "outputs_of out = Some ((value - ow_rest_value w, ow_first_script w, ow_first_len w) # outs @ cs, [])"
    using app [OF r c] f
    by (simp add: outputs_of_def out compact_rt cnt read_output_written)
  moreover have "unat (value - ow_rest_value w) = unat value - out_value outs"
    using le v by (simp add: unat_sub not_less)
  moreover have "out_value outs \<le> unat value"
    using le v by (simp add: word_less_nat_alt)
  ultimately show ?thesis
    using o val
    by (intro exI [of _ v0] exI [of _ "ow_first_script w"] exI [of _ "ow_first_len w"]
          exI [of _ outs] exI [of _ q])
       (simp add: out_value_def)
qed

lemma build_outputs_overclaim:
  assumes "outputs_of payouts = Some (o0 # outs, q)" and "unat value < out_value outs"
  shows "sv2_cb_build_outputs outsz payouts value commitment clen = None"
proof (cases "walk_outputs payouts")
  case (Some w)
  then obtain v0 outs' q' where
    "outputs_of payouts = Some ((v0, ow_first_script w, ow_first_len w) # outs', q')"
    and "unat (ow_rest_value w) = out_value outs'"
    by (rule walk_outputs_Some)
  with assms have "ow_rest_value w > value" by (simp add: word_less_nat_alt)
  then show ?thesis by (simp add: sv2_cb_build_outputs_def Some)
qed (simp add: sv2_cb_build_outputs_def)

lemma build_outputs_fits:
  assumes "sv2_cb_build_outputs outsz payouts value commitment clen = Some out"
    and "unat clen \<le> length commitment"
  shows "length out \<le> outsz"
proof -
  obtain w where w: "walk_outputs payouts = Some w"
    using assms(1) by (auto simp: sv2_cb_build_outputs_def bind_eq_Some_conv)
  then obtain v0 outs q where "length (ow_first_script w) = unat (ow_first_len w)"
    by (rule walk_outputs_Some)
  with assms w show ?thesis
    by (auto simp: sv2_cb_build_outputs_def Let_def length_write_compact split: if_splits)
qed

text \<open>Output \<open>idx\<close> of a blob is the one a full read of the blob has at that index.\<close>

lemma read_seq_prefix:
  "read_seq rd n p = Some (xs, q) \<Longrightarrow> i < n \<Longrightarrow>
    \<exists>p1 p2. read_seq rd i p = Some (take i xs, p1) \<and> rd p1 = Some (xs ! i, p2)"
proof (induction n arbitrary: p xs i)
  case (Suc n)
  then obtain x p' ys where x: "rd p = Some (x, p')" and ys: "read_seq rd n p' = Some (ys, q)"
    and xs: "xs = x # ys"
    by (auto simp: read_seq_Suc_Some simp del: read_seq.simps(2))
  show ?case
  proof (cases i)
    case 0
    with x xs show ?thesis by simp
  next
    case (Suc j)
    with Suc.prems(2) Suc.IH [OF ys, of j] x xs show ?thesis by auto
  qed
qed simp

lemma output_at_nth:
  assumes o: "outputs_of blob = Some (outs, q)" and n: "1 \<le> length outs" "length outs \<le> 16"
  shows "sv2_cb_output_at blob idx =
    (if 0 \<le> idx \<and> idx < int (length outs) then Some (outs ! nat idx) else None)"
proof -
  obtain nout p where c: "sv2_read_compact_size blob = Some (nout, p)"
    and r: "read_seq read_output (unat nout) p = Some (outs, q)"
    using o by (auto simp: outputs_of_def bind_eq_Some_conv)
  have len: "length outs = unat nout" using read_seq_length [OF r] .
  have g: "\<not> nout < 1" "\<not> nout > SV2_MAX_PAYOUT_OUTS" "blob \<noteq> []"
    using n len c
    by (auto simp: word_less_nat_alt SV2_MAX_PAYOUT_OUTS_def sv2_read_compact_size_def)
  have u: "uint nout = int (length outs)" by (simp add: len)
  show ?thesis
  proof (cases "0 \<le> idx \<and> idx < int (length outs)")
    case True
    then have "nat idx < unat nout" using len by linarith
    from read_seq_prefix [OF r this] show ?thesis
      using True g c u by (auto simp: sv2_cb_output_at_def)
  next
    case False
    then show ?thesis using g c u by (auto simp: sv2_cb_output_at_def)
  qed
qed

section \<open>The declared parts and the assembled coinbase\<close>

definition wf_spec :: "sv2_cb_spec \<Rightarrow> bool" where
  "wf_spec spec \<longleftrightarrow>
     length (cs_ssig_prefix spec) = unat (cs_ssig_prefix_len spec) \<and>
     length (cs_outputs spec) = unat (cs_outputs_len spec) \<and>
     (\<forall>r \<in> set_option (cs_witness_reserved spec). length r = 32)"

lemma length_null_prevout [simp]: "length null_prevout = 36"
  by (simp add: null_prevout_def)

lemma compact_small: "n < 0xfd \<Longrightarrow> sv2_write_compact_size (of_nat n) = [of_nat n]"
  by (simp add: write_compact_le word_less_nat_alt unat_of_nat word_unat_eq_iff unsigned_ucast_eq
        unsigned_take_bit_eq take_bit_eq_mod)

text \<open>The three shapes of one coinbase, around any extranonce that fills the hole.\<close>

lemma declared_is_assembled:
  assumes wf: "wf_spec spec" and parts: "sv2_cb_declare_parts spec = Some (pre, suf)"
    and en: "length en1 = unat l1" "length ext = unat l2" "unat l1 + unat l2 = unat (cs_hole_len spec)"
    and room: "50 + unat (cs_ssig_prefix_len spec) + unat (cs_hole_len spec) +
      unat (cs_outputs_len spec) \<le> outsz"
  shows "sv2_cb_assemble outsz (cs_version spec) (cs_nsequence spec) (cs_locktime spec)
      (cs_ssig_prefix spec, cs_ssig_prefix_len spec) (en1, l1) (ext, l2)
      (cs_outputs spec, cs_outputs_len spec) =
    Some (take 4 pre @ drop (if cs_witness_reserved spec = None then 4 else 6) pre @ en1 @ ext @
      take (4 + unat (cs_outputs_len spec)) suf @ drop (length suf - 4) suf)"
proof -
  let ?n = "unat (cs_ssig_prefix_len spec) + unat (cs_hole_len spec)"
  have n: "?n \<le> 100"
    using parts by (auto simp: sv2_cb_declare_parts_def Let_def SV2_CB_MAX_SCRIPTSIG_def split: if_splits)
  have sum: "unat (cs_ssig_prefix_len spec) + unat l1 + unat l2 = ?n" using en by simp
  have cs: "sv2_write_compact_size (of_nat (unat (cs_ssig_prefix_len spec) + unat (cs_hole_len spec))) =
      [of_nat ?n]"
    using n by (intro compact_small) simp
  have pre: "pre = le_bytes 4 (cs_version spec) @
      (if cs_witness_reserved spec \<noteq> None then [0, 1] else []) @ [1] @ null_prevout @ [of_nat ?n] @
      cs_ssig_prefix spec"
    and suf: "suf = le_bytes 4 (cs_nsequence spec) @ cs_outputs spec @
      (case cs_witness_reserved spec of None \<Rightarrow> [] | Some reserved \<Rightarrow> [0x01, 0x20] @ take 32 reserved) @
      le_bytes 4 (cs_locktime spec)"
    using parts wf by (auto simp: sv2_cb_declare_parts_def Let_def wf_spec_def cs simp del: of_nat_add
        split: if_splits)
  have "sv2_cb_assemble outsz (cs_version spec) (cs_nsequence spec) (cs_locktime spec)
      (cs_ssig_prefix spec, cs_ssig_prefix_len spec) (en1, l1) (ext, l2)
      (cs_outputs spec, cs_outputs_len spec) =
    Some (le_bytes 4 (cs_version spec) @ [1] @ null_prevout @ [of_nat ?n] @ cs_ssig_prefix spec @
      en1 @ ext @ le_bytes 4 (cs_nsequence spec) @ cs_outputs spec @ le_bytes 4 (cs_locktime spec))"
    using n room wf en by (simp add: sv2_cb_assemble_def Let_def sum wf_spec_def del: of_nat_add)
  moreover have "drop (length suf - 4) suf = le_bytes 4 (cs_locktime spec)"
    using drop_to_last [of "le_bytes 4 (cs_locktime spec)" 4 "le_bytes 4 (cs_nsequence spec) @ cs_outputs spec @
      (case cs_witness_reserved spec of None \<Rightarrow> [] | Some reserved \<Rightarrow> [0x01, 0x20] @ take 32 reserved)"]
    unfolding suf by (simp only: append_assoc length_le_bytes)
  ultimately show ?thesis
    using wf by (cases "cs_witness_reserved spec") (simp_all add: pre suf wf_spec_def)
qed

text \<open>\<open>tx_walk\<close> steps over whatever \<open>read_output\<close> accepts.\<close>

lemma walk_output_read: "read_output p = Some (x, q) \<Longrightarrow> walk_output p = Some ((), q)"
  by (auto simp: read_output_def walk_output_def skip_bytes_def Let_def bind_eq_Some_conv
        split: if_splits)

lemma walk_outputs_read:
  "read_seq read_output n p = Some (xs, q) \<Longrightarrow> read_seq walk_output n p = Some (replicate n (), q)"
proof (induction n arbitrary: p xs)
  case (Suc n)
  then show ?case
    by (auto simp: read_seq_Suc_Some dest!: walk_output_read simp del: read_seq.simps(2))
qed simp

lemma outputs_walk_append:
  assumes "outputs_of blob = Some (outs, [])"
  shows "\<exists>nout p. (\<forall>r. sv2_read_compact_size (blob @ r) = Some (nout, p @ r) \<and>
      read_seq walk_output (unat nout) (p @ r) = Some (replicate (unat nout) (), r)) \<and>
    unat nout = length outs"
proof -
  obtain nout p where c: "sv2_read_compact_size blob = Some (nout, p)"
    and r: "read_seq read_output (unat nout) p = Some (outs, [])"
    using assms by (auto simp: outputs_of_def bind_eq_Some_conv)
  obtain s where s: "blob = s @ p" "\<And>r. sv2_read_compact_size (s @ r) = Some (nout, r)"
    using cs.rd_local [OF c] by auto
  have "read_seq read_output (unat nout) (p @ r) = Some (outs, r)" for r
    using ro.seq_local [OF r] by auto
  then have "read_seq walk_output (unat nout) (p @ r) = Some (replicate (unat nout) (), r)" for r
    by (rule walk_outputs_read)
  then show ?thesis
    using s read_seq_length [OF r] by (intro exI [of _ nout] exI [of _ p]) simp
qed

lemma declared_txid:
  assumes wf: "wf_spec spec" and parts: "sv2_cb_declare_parts spec = Some (pre, suf)"
    and en: "length en1 = unat l1" "length ext = unat l2" "unat l1 + unat l2 = unat (cs_hole_len spec)"
    and outs: "outputs_of (cs_outputs spec) = Some (outs, [])" "length outs \<le> 100000"
    and asm: "sv2_cb_assemble outsz (cs_version spec) (cs_nsequence spec) (cs_locktime spec)
      (cs_ssig_prefix spec, cs_ssig_prefix_len spec) (en1, l1) (ext, l2)
      (cs_outputs spec, cs_outputs_len spec) = Some cb"
  shows "sv2_bitcoin_txid (pre @ en1 @ ext @ suf) = Some (gen_hash cb)"
proof -
  let ?n = "unat (cs_ssig_prefix_len spec) + unat (cs_hole_len spec)"
  let ?script = "cs_ssig_prefix spec @ en1 @ ext"
  define w where "w = (cs_witness_reserved spec \<noteq> None)"
  define mark :: bytes where "mark = (if w then [0, 1] else [])"
  define wit where "wit = (case cs_witness_reserved spec of None \<Rightarrow> []
      | Some reserved \<Rightarrow> [0x01, 0x20] @ reserved)"
  have n: "?n \<le> 100"
    using parts by (auto simp: sv2_cb_declare_parts_def Let_def SV2_CB_MAX_SCRIPTSIG_def split: if_splits)
  have cs: "sv2_write_compact_size (of_nat (unat (cs_ssig_prefix_len spec) + unat (cs_hole_len spec))) =
      [of_nat ?n]"
    using n by (intro compact_small) simp
  have sl: "length ?script = ?n" using wf en by (simp add: wf_spec_def)
  have one: "sv2_write_compact_size 1 = [1]" by (simp add: write_compact_le)
  define inp where "inp = \<lparr> bi_prevout = null_prevout, bi_script = ?script,
      bi_sequence = le_bytes 4 (cs_nsequence spec) \<rparr>"
  have ser: "ser_in inp = null_prevout @ [of_nat ?n] @ ?script @ le_bytes 4 (cs_nsequence spec)"
    unfolding inp_def ser_in_def ser_var_def btxin.simps sl cs by simp
  have wfi: "wf_in inp" using sl n by (simp add: inp_def wf_in_def)
  have trim: "take 32 r = r" if "cs_witness_reserved spec = Some r" for r
    using wf that by (simp add: wf_spec_def)
  have tx: "pre @ en1 @ ext @ suf = le_bytes 4 (cs_version spec) @ mark @
      (sv2_write_compact_size 1 @ ser_in inp @ cs_outputs spec @ wit @ le_bytes 4 (cs_locktime spec))"
    using parts wf trim
    by (auto simp: sv2_cb_declare_parts_def Let_def wf_spec_def cs ser one mark_def w_def wit_def
        simp del: of_nat_add split: if_splits option.splits)
  obtain nout p where o: "\<And>r. sv2_read_compact_size (cs_outputs spec @ r) = Some (nout, p @ r)"
      "\<And>r. read_seq walk_output (unat nout) (p @ r) = Some (replicate (unat nout) (), r)"
    and no: "unat nout = length outs"
    using outputs_walk_append [OF outs(1)] by auto
  have i: "read_seq walk_input (unat (1 :: u64)) (ser_in inp @ r) = Some ([()], r)" for r
    by (simp add: numeral_eq_Suc walk_input_ser [OF wfi])
  have wt: "walk_witnesses w 1 (wit @ r) = Some (if w then [()] else [], r)" for r
  proof (cases "cs_witness_reserved spec")
    case None
    then show ?thesis by (simp add: w_def wit_def walk_witnesses_def)
  next
    case (Some res)
    then have l: "length res = 32" using wf by (simp add: wf_spec_def)
    then have "wit = ser_stack [res]"
      by (simp add: wit_def Some ser_stack_def ser_var_def write_compact_le)
    moreover have "wf_stack [res]" by (simp add: wf_stack_def l)
    ultimately show ?thesis
      using walk_witness_ser [of "[res]" r] by (simp add: w_def Some walk_witnesses_def)
  qed
  have walk: "tx_walk (pre @ en1 @ ext @ suf) = Some
    \<lparr> tb_witness = w, tb_vin_start =
        sv2_write_compact_size 1 @ ser_in inp @ cs_outputs spec @ wit @ le_bytes 4 (cs_locktime spec),
      tb_vout_end = wit @ le_bytes 4 (cs_locktime spec), tb_locktime = le_bytes 4 (cs_locktime spec),
      tb_len = length (pre @ en1 @ ext @ suf) - length (le_bytes 4 (cs_locktime spec)) + 4 \<rparr>"
    unfolding tx
    by (rule tx_walk_intro [OF _ _ _ compact_rt _ _ i o(1) _ o(2) wt])
       (use outs(2) no in \<open>simp_all add: ser one mark_def sv2_have_bytes_def word_less_nat_alt\<close>)
  have cb: "cb = le_bytes 4 (cs_version spec) @ sv2_write_compact_size 1 @ ser_in inp @
      cs_outputs spec @ le_bytes 4 (cs_locktime spec)"
  proof -
    have sum: "unat (cs_ssig_prefix_len spec) + unat l1 + unat l2 = ?n" using en by simp
    show ?thesis
      using asm wf en
      by (auto simp: sv2_cb_assemble_def Let_def sum wf_spec_def ser one simp del: of_nat_add
          split: if_splits)
  qed
  show ?thesis
  proof (cases w)
    case True
    have "take 4 (pre @ en1 @ ext @ suf) = le_bytes 4 (cs_version spec)"
      unfolding tx by simp
    moreover have "take (length a + (length b + length c)) (a @ b @ c @ d) = a @ b @ c"
      for a b c d :: bytes
      by simp
    ultimately show ?thesis
      using True
      by (simp add: sv2_bitcoin_txid_def walk hash_nonwitness_def cb del: take_append)
  next
    case False
    then show ?thesis
      by (simp add: sv2_bitcoin_txid_def walk cb) (simp add: tx mark_def wit_def w_def)
  qed
qed

text \<open>
  The assembler writes one length byte for any script of up to 255 bytes, which is a
  CompactSize only below \<open>0xfd\<close>.
\<close>

lemma assemble_long_script:
  assumes "sv2_cb_assemble outsz ver nseq lock (ssig, l0) (en1, l1) (ext, l2) (outs, l3) = Some cb"
    and "253 \<le> unat l0 + unat l1 + unat l2"
  shows "cb ! 41 = of_nat (unat l0 + unat l1 + unat l2) \<and> 0xfd \<le> cb ! 41"
proof -
  have "unat l0 + unat l1 + unat l2 \<le> 255"
    using assms(1) by (auto simp: sv2_cb_assemble_def Let_def split: if_splits)
  moreover from this assms(1) have "cb ! 41 = of_nat (unat l0 + unat l1 + unat l2)"
    by (auto simp: sv2_cb_assemble_def Let_def nth_append split: if_splits)
  ultimately show ?thesis
    using assms(2) by (simp add: word_le_nat_alt unat_of_nat del: of_nat_add)
qed

end
