(* ===== verification/Coinbase_Final.thy ===== *)
theory Coinbase_Final
  imports Sv2_Cb
begin

text \<open>
  The coinbase finality check of \<^verbatim>\<open>src/src/coinbase_final.c\<close>, and Bitcoin's rule \<open>IsFinalTx\<close>
  it specialises.  The buffer is its \<open>cblen\<close> bytes; \<open>height\<close> is the signed 64 bit height as an
  \<open>int\<close>.
\<close>

datatype coinbase_final_t = CBF_FINAL | CBF_NONFINAL | CBF_UNKNOWN | CBF_MALFORMED

definition LOCKTIME_THRESHOLD :: u32 where "LOCKTIME_THRESHOLD = 500000000"
definition SEQUENCE_FINAL :: u32 where "SEQUENCE_FINAL = 0xffffffff"
definition COINB_SCRIPTLEN_OFS :: nat where "COINB_SCRIPTLEN_OFS = 41"
definition COINB_SCRIPT_OFS :: nat where "COINB_SCRIPT_OFS = 42"

definition le32_at :: "bytes \<Rightarrow> u32" where
  "le32_at p = ucast (p ! 0) OR push_bit 8 (ucast (p ! 1)) OR
     push_bit 16 (ucast (p ! 2)) OR push_bit 24 (ucast (p ! 3))"

text \<open>The class with the values left in \<open>*nsequence\<close> and \<open>*nlocktime\<close>.\<close>

definition coinbase_finality :: "bytes \<Rightarrow> int \<Rightarrow> coinbase_final_t \<times> u32 \<times> u32" where
  "coinbase_finality coinbase height =
     (let cblen = length coinbase in
      if cblen < COINB_SCRIPT_OFS + 8 then (CBF_MALFORMED, 0, 0)
      else
        let scriptlen = unat (coinbase ! COINB_SCRIPTLEN_OFS) in
        if scriptlen \<ge> 0xfd then (CBF_MALFORMED, 0, 0)
        else
          let seq_ofs = COINB_SCRIPT_OFS + scriptlen in
          if seq_ofs + 8 > cblen then (CBF_MALFORMED, 0, 0)
          else
            let seq = le32_at (drop seq_ofs coinbase);
                locktime = le32_at (drop (cblen - 4) coinbase)
            in (if locktime = 0 then CBF_FINAL
                else if seq = SEQUENCE_FINAL then CBF_FINAL
                else if locktime < LOCKTIME_THRESHOLD
                then (if uint locktime < height then CBF_FINAL else CBF_NONFINAL)
                else CBF_UNKNOWN, seq, locktime))"

section \<open>The consensus rule\<close>

text \<open>\<open>IsFinalTx\<close> for one input, a block at \<open>height\<close> with lock-time cutoff \<open>time\<close>.\<close>

definition is_final_tx :: "u32 \<Rightarrow> u32 \<Rightarrow> int \<Rightarrow> int \<Rightarrow> bool" where
  "is_final_tx seq locktime height time \<longleftrightarrow>
     locktime = 0 \<or>
     uint locktime < (if uint locktime < 500000000 then height else time) \<or>
     seq = 0xffffffff"

lemma le32_at_le_word: "4 \<le> length p \<Longrightarrow> le32_at p = le_word (take 4 p)"
  using length_ge_exhaust(3) [of p]
  by (auto simp: le32_at_def le_word_explicit simp del: le_word.simps)

lemma le32_at_le_bytes: "le32_at (le_bytes 4 v @ r) = (v :: u32)"
  by (simp add: le32_at_le_word le_word_le_bytes take_bit_word_eq_self)

text \<open>What the class says about the transaction, for every block time.\<close>

lemma finality_verdict:
  assumes "coinbase_finality cb height = (c, seq, lock)"
  shows "(c = CBF_FINAL \<longrightarrow> (\<forall>time. is_final_tx seq lock height time)) \<and>
    (c = CBF_NONFINAL \<longrightarrow> (\<forall>time. \<not> is_final_tx seq lock height time)) \<and>
    (c = CBF_UNKNOWN \<longrightarrow>
      is_final_tx seq lock height (uint lock + 1) \<and> \<not> is_final_tx seq lock height (uint lock))"
  using assms
  by (auto simp: coinbase_finality_def is_final_tx_def Let_def word_less_alt LOCKTIME_THRESHOLD_def
      SEQUENCE_FINAL_def split: if_splits)

lemma finality_of_shape:
  assumes "length pre = 41" and "unat sl < 0xfd" and "length script = unat sl"
  shows "coinbase_finality (pre @ [sl] @ script @ le_bytes 4 seq @ outs @ le_bytes 4 lock) height =
    (if lock = 0 \<or> seq = 0xffffffff \<or> (uint lock < 500000000 \<and> uint lock < height) then CBF_FINAL
     else if uint lock < 500000000 then CBF_NONFINAL else CBF_UNKNOWN, seq, lock)"
proof -
  let ?cb = "pre @ [sl] @ script @ le_bytes 4 seq @ outs @ le_bytes 4 lock"
  have b: "?cb ! COINB_SCRIPTLEN_OFS = sl"
    using assms(1) by (simp add: COINB_SCRIPTLEN_OFS_def nth_append)
  have s: "drop (COINB_SCRIPT_OFS + unat sl) ?cb = le_bytes 4 seq @ outs @ le_bytes 4 lock"
    using assms by (simp add: COINB_SCRIPT_OFS_def)
  have l: "drop (length ?cb - 4) ?cb = le_bytes 4 lock @ []"
    using drop_to_last [of "le_bytes 4 lock" 4 "pre @ [sl] @ script @ le_bytes 4 seq @ outs"]
    by (simp only: append_assoc length_le_bytes append_Nil2)
  have n: "length ?cb = COINB_SCRIPT_OFS + unat sl + 8 + length outs"
    using assms by (simp add: COINB_SCRIPT_OFS_def)
  have g: "\<not> length ?cb < COINB_SCRIPT_OFS + 8" "\<not> COINB_SCRIPT_OFS + unat sl + 8 > length ?cb"
    "\<not> unat sl \<ge> 0xfd"
    unfolding n using assms(2) by simp_all
  show ?thesis
    unfolding coinbase_finality_def Let_def b s l le32_at_le_bytes if_not_P [OF g(1)]
      if_not_P [OF g(2)] if_not_P [OF g(3)] SEQUENCE_FINAL_def LOCKTIME_THRESHOLD_def
    by (simp add: word_less_alt)
qed

text \<open>The assembled coinbase of a custom job is classified by the fields it was built from.\<close>

lemma assembled_finality:
  assumes "sv2_cb_assemble outsz ver nseq lock (ssig, l0) (en1, l1) (ext, l2) (outs, l3) = Some cb"
    and "unat l0 + unat l1 + unat l2 < 253"
    and "length ssig = unat l0" "length en1 = unat l1" "length ext = unat l2" "length outs = unat l3"
  shows "coinbase_finality cb height =
    (if lock = 0 \<or> nseq = 0xffffffff \<or> (uint lock < 500000000 \<and> uint lock < height) then CBF_FINAL
     else if uint lock < 500000000 then CBF_NONFINAL else CBF_UNKNOWN, nseq, lock)"
proof -
  let ?n = "unat l0 + unat l1 + unat l2"
  have u: "unat (of_nat ?n :: byte) = ?n"
    using assms(2) by (simp add: unat_of_nat del: of_nat_add)
  have "cb = (le_bytes 4 ver @ [1] @ null_prevout) @ [of_nat ?n] @ (ssig @ en1 @ ext) @
      le_bytes 4 nseq @ outs @ le_bytes 4 lock"
    using assms by (auto simp: sv2_cb_assemble_def Let_def split: if_splits)
  then show ?thesis
    using assms(2-5) u by (simp only:) (rule finality_of_shape, simp_all del: of_nat_add)
qed

end
