(* ===== verification/Sv2_Bridge.thy ===== *)
theory Sv2_Bridge
  imports Ck_Prelude
begin

text \<open>
  The work-source arbiter helpers of \<^verbatim>\<open>src/src/sv2_bridge.c\<close>: a ring of the last eight local
  tips.  The ring is proved to implement a bounded history, a list of tips with the most recent
  first; the locale \<open>tip_history\<close> is what a client may rely on, and everything about sequences
  of tips is proved inside it.
\<close>

section \<open>The ring\<close>

definition SV2_TIP_RING :: nat where "SV2_TIP_RING = 8"
definition SV2_TIP_NTIME_SKEW_SECS :: u64 where "SV2_TIP_NTIME_SKEW_SECS = 7200"

record sv2_tip_ring =
  tr_hash :: "bytes list"
  tr_nbits :: "u32 list"
  tr_ntime :: "u32 list"
  tr_count :: nat
  tr_newest :: nat

datatype sv2_tip_rel = SV2_TIP_NO_LOCAL | SV2_TIP_SAME | SV2_TIP_BEHIND | SV2_TIP_AHEAD

datatype sv2_tip_reject = SV2_TIP_OK | SV2_TIP_NBITS | SV2_TIP_NTIME_AHEAD | SV2_TIP_NTIME_BEHIND

text \<open>The ring as \<open>ckzalloc\<close> leaves it.\<close>

definition tip_ring_zero :: sv2_tip_ring where
  "tip_ring_zero =
     \<lparr> tr_hash = replicate SV2_TIP_RING (replicate 32 0), tr_nbits = replicate SV2_TIP_RING 0,
       tr_ntime = replicate SV2_TIP_RING 0, tr_count = 0, tr_newest = 0 \<rparr>"

definition sv2_tip_push :: "sv2_tip_ring \<Rightarrow> bytes \<Rightarrow> u32 \<Rightarrow> u32 \<Rightarrow> sv2_tip_ring" where
  "sv2_tip_push r hash nbits ntime =
     (if tr_count r \<noteq> 0 \<and> tr_hash r ! tr_newest r = hash then r
      else
        let newest = (if tr_count r \<noteq> 0 then (tr_newest r + 1) mod SV2_TIP_RING else 0)
        in r\<lparr>tr_newest := newest,
             tr_hash := (tr_hash r)[newest := hash],
             tr_nbits := (tr_nbits r)[newest := nbits],
             tr_ntime := (tr_ntime r)[newest := ntime],
             tr_count := (if tr_count r < SV2_TIP_RING then tr_count r + 1 else tr_count r)\<rparr>)"

definition sv2_tip_newest :: "sv2_tip_ring \<Rightarrow> bytes option" where
  "sv2_tip_newest r = (if tr_count r = 0 then None else Some (tr_hash r ! tr_newest r))"

definition sv2_tip_relation :: "sv2_tip_ring \<Rightarrow> bytes \<Rightarrow> sv2_tip_rel" where
  "sv2_tip_relation r pool_prev =
     (if tr_count r = 0 then SV2_TIP_NO_LOCAL
      else if tr_hash r ! tr_newest r = pool_prev then SV2_TIP_SAME
      else if list_ex (\<lambda>i. tr_hash r ! ((tr_newest r + SV2_TIP_RING - i) mod SV2_TIP_RING) = pool_prev)
                [1..<tr_count r]
      then SV2_TIP_BEHIND else SV2_TIP_AHEAD)"

definition sv2_tip_plausible :: "sv2_tip_ring \<Rightarrow> u32 \<Rightarrow> u32 \<Rightarrow> sv2_tip_reject" where
  "sv2_tip_plausible r pool_nbits pool_ntime =
     (if tr_count r = 0 then SV2_TIP_OK
      else
        let local_nbits = tr_nbits r ! tr_newest r;
            local_ntime = tr_ntime r ! tr_newest r
        in if pool_nbits \<noteq> local_nbits then SV2_TIP_NBITS
           else if (ucast pool_ntime :: u64) > ucast local_ntime + SV2_TIP_NTIME_SKEW_SECS
           then SV2_TIP_NTIME_AHEAD
           else if (ucast local_ntime :: u64) > ucast pool_ntime + SV2_TIP_NTIME_SKEW_SECS
           then SV2_TIP_NTIME_BEHIND
           else SV2_TIP_OK)"

section \<open>A bounded history\<close>

type_synonym tip = "bytes \<times> u32 \<times> u32"

definition tips_push :: "tip \<Rightarrow> tip list \<Rightarrow> tip list" where
  "tips_push t h = (if h \<noteq> [] \<and> fst (hd h) = fst t then h else take 8 (t # h))"

definition tips_relation :: "tip list \<Rightarrow> bytes \<Rightarrow> sv2_tip_rel" where
  "tips_relation h p =
     (case map fst h of [] \<Rightarrow> SV2_TIP_NO_LOCAL
      | t # older \<Rightarrow> if p = t then SV2_TIP_SAME else if p \<in> set older then SV2_TIP_BEHIND
                    else SV2_TIP_AHEAD)"

text \<open>Distance of two timestamps, without wrap-around.\<close>

definition tips_plausible :: "tip list \<Rightarrow> u32 \<Rightarrow> u32 \<Rightarrow> sv2_tip_reject" where
  "tips_plausible h nbits ntime =
     (case h of [] \<Rightarrow> SV2_TIP_OK
      | (_, b, t) # _ \<Rightarrow>
          if nbits \<noteq> b then SV2_TIP_NBITS
          else if uint ntime - uint t > 7200 then SV2_TIP_NTIME_AHEAD
          else if uint t - uint ntime > 7200 then SV2_TIP_NTIME_BEHIND
          else SV2_TIP_OK)"

section \<open>What a client of a tip history may rely on\<close>

locale tip_history =
  fixes empty :: 's
    and push :: "'s \<Rightarrow> bytes \<Rightarrow> u32 \<Rightarrow> u32 \<Rightarrow> 's"
    and relation :: "'s \<Rightarrow> bytes \<Rightarrow> sv2_tip_rel"
    and plausible :: "'s \<Rightarrow> u32 \<Rightarrow> u32 \<Rightarrow> sv2_tip_reject"
    and inv :: "'s \<Rightarrow> bool"
    and hist :: "'s \<Rightarrow> tip list"
  assumes inv_empty: "inv empty" and hist_empty: "hist empty = []"
    and inv_push: "inv s \<Longrightarrow> inv (push s h b t)"
    and hist_push: "inv s \<Longrightarrow> hist (push s h b t) = tips_push (h, b, t) (hist s)"
    and relation: "inv s \<Longrightarrow> relation s p = tips_relation (hist s) p"
    and plausible: "inv s \<Longrightarrow> plausible s b t = tips_plausible (hist s) b t"
begin

definition pushes :: "'s \<Rightarrow> tip list \<Rightarrow> 's" where
  "pushes = foldl (\<lambda>s (h, b, t). push s h b t)"

lemma inv_pushes: "inv s \<Longrightarrow> inv (pushes s ts)"
  by (induction ts arbitrary: s) (auto simp: pushes_def intro: inv_push)

lemma hist_pushes: "inv s \<Longrightarrow> hist (pushes s ts) = fold tips_push ts (hist s)"
  by (induction ts arbitrary: s) (auto simp: pushes_def inv_push hist_push)

lemma relation_after_push: "inv s \<Longrightarrow> relation (push s h b t) h = SV2_TIP_SAME"
  by (auto simp: relation inv_push hist_push tips_relation_def tips_push_def neq_Nil_conv)

lemma hist_length: "length (hist (pushes empty ts)) \<le> 8"
proof -
  have "length h \<le> 8 \<Longrightarrow> length (fold tips_push ts h) \<le> 8" for h
    by (induction ts arbitrary: h) (auto simp: tips_push_def)
  then show ?thesis by (simp add: hist_pushes inv_empty hist_empty)
qed

lemma fold_hist_push_distinct_adj:
  "length ts \<le> 8 \<Longrightarrow> distinct_adj (map fst ts) \<Longrightarrow> fold tips_push ts [] = rev ts"
proof (induction ts rule: rev_induct)
  case (snoc t ts)
  then have "fold tips_push ts [] = rev ts"
    by (simp add: distinct_adj_append_iff)
  moreover have "ts \<noteq> [] \<Longrightarrow> fst (last ts) \<noteq> fst t"
    using snoc.prems(2) by (simp add: distinct_adj_append_iff last_map)
  ultimately show ?case
    using snoc.prems(1) by (cases "ts = []") (simp_all add: tips_push_def [of t] hd_rev)
qed simp

text \<open>Up to eight recorded tips: the newest is ours, the older ones are behind, others ahead.\<close>

lemma relation_of_recorded:
  assumes "ts \<noteq> []" and "length ts \<le> 8" and "distinct_adj (map fst ts)"
  shows "relation (pushes empty ts) p =
    (if p = fst (last ts) then SV2_TIP_SAME
     else if p \<in> fst ` set ts then SV2_TIP_BEHIND else SV2_TIP_AHEAD)"
proof -
  obtain t us where ts: "ts = us @ [t]" using assms(1) by (metis rev_exhaust)
  have "relation (pushes empty ts) p = tips_relation (rev ts) p"
    by (simp add: relation inv_pushes inv_empty hist_pushes hist_empty
        fold_hist_push_distinct_adj [OF assms(2,3)])
  then show ?thesis by (auto simp: ts tips_relation_def)
qed

end

section \<open>The ring implements the history\<close>

definition ring_inv :: "sv2_tip_ring \<Rightarrow> bool" where
  "ring_inv r \<longleftrightarrow>
     length (tr_hash r) = SV2_TIP_RING \<and> length (tr_nbits r) = SV2_TIP_RING \<and>
     length (tr_ntime r) = SV2_TIP_RING \<and>
     tr_count r \<le> SV2_TIP_RING \<and> tr_newest r < SV2_TIP_RING \<and>
     (tr_count r < SV2_TIP_RING \<longrightarrow> tr_newest r = tr_count r - 1)"

definition ring_slot :: "sv2_tip_ring \<Rightarrow> nat \<Rightarrow> tip" where
  "ring_slot r k = (tr_hash r ! k, tr_nbits r ! k, tr_ntime r ! k)"

definition ring_at :: "sv2_tip_ring \<Rightarrow> nat \<Rightarrow> tip" where
  "ring_at r i = ring_slot r ((tr_newest r + SV2_TIP_RING - i) mod SV2_TIP_RING)"

definition ring_hist :: "sv2_tip_ring \<Rightarrow> tip list" where
  "ring_hist r = map (ring_at r) [0..<tr_count r]"

lemma ring_at_0: "ring_inv r \<Longrightarrow> ring_at r 0 = ring_slot r (tr_newest r)"
  by (simp add: ring_at_def ring_inv_def)

lemma ring_hist_nil [simp]: "ring_hist r = [] \<longleftrightarrow> tr_count r = 0"
  by (simp add: ring_hist_def)

lemma ring_hist_Cons:
  "ring_inv r \<Longrightarrow> tr_count r \<noteq> 0 \<Longrightarrow>
    ring_hist r = ring_slot r (tr_newest r) # map (ring_at r) [1..<tr_count r]"
  by (simp add: ring_hist_def upt_conv_Cons ring_at_0)

lemma ring_inv_push: "ring_inv r \<Longrightarrow> ring_inv (sv2_tip_push r h b t)"
  by (auto simp: ring_inv_def sv2_tip_push_def Let_def SV2_TIP_RING_def)

text \<open>Going back one more step from the new position is going back from the old one.\<close>

lemma ring_index_shift:
  assumes "n < 8" and "i \<le> 7"
  shows "((n + 1) mod 8 + 8 - Suc i) mod 8 = (n + 8 - i) mod (8 :: nat)"
proof (cases "n = 7")
  case True
  have "15 - i = (7 - i) + 8" using assms(2) by simp
  then have "(15 - i) mod 8 = 7 - i" by (simp only: mod_add_self2) (simp add: assms(2))
  then show ?thesis using True by simp
next
  case False
  then have "(n + 1) mod 8 = n + 1" using assms by simp
  moreover have "n + 1 + 8 - Suc i = n + 8 - i" by simp
  ultimately show ?thesis by (simp only:)
qed

lemma ring_index_new:
  assumes "n < 8" and "0 < i" and "i < 8"
  shows "((n + 8) - i) mod 8 \<noteq> (n :: nat)"
proof (cases "i \<le> n")
  case True
  then have "(n + 8 - i) mod 8 = n - i" using assms
    by (metis Nat.add_diff_assoc2 le_mod_geq less_imp_diff_less mod_add_self2 mod_less)
  then show ?thesis using True assms by simp
next
  case False
  then show ?thesis using assms by simp
qed

lemma ring_hist_push:
  assumes inv: "ring_inv r"
  shows "ring_hist (sv2_tip_push r h b t) = tips_push (h, b, t) (ring_hist r)"
proof (cases "tr_count r \<noteq> 0 \<and> tr_hash r ! tr_newest r = h")
  case True
  then show ?thesis
    by (simp add: sv2_tip_push_def tips_push_def ring_hist_Cons [OF inv] ring_slot_def)
next
  case False
  let ?r = "sv2_tip_push r h b t"
  define n where "n = (if tr_count r \<noteq> 0 then (tr_newest r + 1) mod 8 else 0)"
  have n: "n < 8" by (simp add: n_def)
  have len: "length (tr_hash r) = 8" "length (tr_nbits r) = 8" "length (tr_ntime r) = 8"
    "tr_count r \<le> 8" "tr_newest r < 8"
    using inv by (simp_all add: ring_inv_def SV2_TIP_RING_def)
  have new: "tr_newest ?r = n" and cnt: "tr_count ?r = min 8 (Suc (tr_count r))"
    using False by (auto simp: sv2_tip_push_def Let_def n_def SV2_TIP_RING_def inv
        simp del: One_nat_def) (use len in simp)+
  have slot: "ring_slot ?r k = (if k = n then (h, b, t) else ring_slot r k)" if "k < 8" for k
    using False that len n
    by (auto simp: ring_slot_def sv2_tip_push_def Let_def n_def SV2_TIP_RING_def)
  have at0: "ring_at ?r 0 = (h, b, t)"
    by (simp add: ring_at_def new slot SV2_TIP_RING_def n)
  have at: "ring_at ?r (Suc i) = ring_at r i" if "i < 7" "i < tr_count r" for i
  proof -
    have "tr_count r \<noteq> 0" using that by simp
    then have "(n + 8 - Suc i) mod 8 = (tr_newest r + 8 - i) mod 8"
      using ring_index_shift [OF len(5), of i] that by (simp add: n_def)
    moreover have "(n + 8 - Suc i) mod 8 \<noteq> n"
      using ring_index_new [OF n, of "Suc i"] that by simp
    ultimately show ?thesis
      by (simp add: ring_at_def new SV2_TIP_RING_def slot)
  qed
  have "ring_hist ?r = take 8 ((h, b, t) # ring_hist r)"
  proof (rule nth_equalityI)
    show "length (ring_hist ?r) = length (take 8 ((h, b, t) # ring_hist r))"
      using len by (simp add: ring_hist_def cnt)
    fix i assume "i < length (ring_hist ?r)"
    then have "i < min 8 (Suc (tr_count r))" by (simp add: ring_hist_def cnt)
    then show "ring_hist ?r ! i = take 8 ((h, b, t) # ring_hist r) ! i"
      using at0 at by (cases i) (simp_all add: ring_hist_def cnt del: upt_Suc)
  qed
  moreover have "\<not> (ring_hist r \<noteq> [] \<and> fst (hd (ring_hist r)) = h)"
    using False by (auto simp: ring_hist_Cons [OF inv] ring_slot_def)
  ultimately show ?thesis by (auto simp: tips_push_def)
qed

lemma ring_relation:
  assumes "ring_inv r"
  shows "sv2_tip_relation r p = tips_relation (ring_hist r) p"
proof (cases "tr_count r = 0")
  case False
  have "(\<lambda>i. tr_hash r ! ((tr_newest r + SV2_TIP_RING - i) mod SV2_TIP_RING)) = fst \<circ> ring_at r"
    by (simp add: ring_at_def ring_slot_def fun_eq_iff)
  then show ?thesis
    using False
    by (auto simp: sv2_tip_relation_def tips_relation_def ring_hist_Cons [OF assms]
        ring_slot_def ring_at_def list_ex_iff)
qed (simp add: sv2_tip_relation_def tips_relation_def ring_hist_def)

lemma unat_skew: "unat (ucast (t :: u32) + SV2_TIP_NTIME_SKEW_SECS) = unat t + 7200"
proof -
  have "unat t < 2 ^ 32" using unsigned_less [of t, where 'a = nat] by simp
  moreover from this have "take_bit 64 (unat t) = unat t" by (intro take_bit_nat_eq_self) simp
  then have "unat (ucast t :: u64) = unat t" by (simp add: unsigned_ucast_eq unsigned_take_bit_eq)
  ultimately show ?thesis by (simp add: unat_word_ariths SV2_TIP_NTIME_SKEW_SECS_def)
qed

lemma unat_ucast_32_64: "unat (ucast (t :: u32) :: u64) = unat t"
proof -
  have "unat t < 2 ^ 32" using unsigned_less [of t, where 'a = nat] by simp
  then have "take_bit 64 (unat t) = unat t" by (intro take_bit_nat_eq_self) simp
  then show ?thesis by (simp add: unsigned_ucast_eq unsigned_take_bit_eq)
qed

lemma ring_plausible:
  assumes "ring_inv r"
  shows "sv2_tip_plausible r b t = tips_plausible (ring_hist r) b t"
proof (cases "tr_count r = 0")
  case False
  have cmp: "(ucast x :: u64) > ucast y + SV2_TIP_NTIME_SKEW_SECS \<longleftrightarrow> uint x - uint y > 7200"
    for x y :: u32
  proof -
    have "uint x - uint y > 7200 \<longleftrightarrow> unat y + 7200 < unat x"
      unfolding uint_nat by linarith
    then show ?thesis by (simp add: word_less_nat_alt unat_skew unat_ucast_32_64)
  qed
  show ?thesis
    using False
    by (simp add: sv2_tip_plausible_def tips_plausible_def ring_hist_Cons [OF assms] ring_slot_def
        cmp Let_def)
qed (simp add: sv2_tip_plausible_def tips_plausible_def ring_hist_def)

lemma ring_inv_zero: "ring_inv tip_ring_zero"
  by (simp add: ring_inv_def tip_ring_zero_def SV2_TIP_RING_def)

interpretation ring: tip_history tip_ring_zero sv2_tip_push sv2_tip_relation sv2_tip_plausible
    ring_inv ring_hist
  by unfold_locales
     (simp_all add: ring_inv_zero ring_inv_push ring_hist_push ring_relation ring_plausible,
      simp add: tip_ring_zero_def ring_hist_def)

lemma ring_newest:
  "ring_inv r \<Longrightarrow> sv2_tip_newest r = (case ring_hist r of [] \<Rightarrow> None | t # _ \<Rightarrow> Some (fst t))"
  by (cases "tr_count r = 0")
     (simp_all add: sv2_tip_newest_def ring_hist_Cons ring_slot_def, simp add: ring_hist_def)

end
