(* ===== verification/Sv2_Conn.thy ===== *)
theory Sv2_Conn
  imports Sv2_Types
begin

text \<open>
  The admission code of \<^verbatim>\<open>src/src/sv2_conn.c\<close>: the handshake throttle (an open-addressed
  table of per-address windows and a global count of handshakes in flight) and the pre-session
  deadlines; the reassembly buffer is in \<open>Sv2_Transport\<close>.  The clock \<open>time(NULL)\<close> is an argument; every operation
  that takes \<open>g_hs_lock\<close> is one atomic step on the table, and the step relation \<open>hs_reach\<close>
  interleaves them in any order.
\<close>

section \<open>The handshake throttle\<close>

definition SV2_HS_BUCKETS :: nat where "SV2_HS_BUCKETS = 512"
definition SV2_HS_MAX_PER_MIN :: nat where "SV2_HS_MAX_PER_MIN = 30"
definition SV2_HS_MAX_GLOBAL :: nat where "SV2_HS_MAX_GLOBAL = 256"
definition SV2_HS_WINDOW_SECS :: int where "SV2_HS_WINDOW_SECS = 60"
definition SV2_HS_BUCKET_TTL :: int where "SV2_HS_BUCKET_TTL = 120"

record sv2_hs_bucket =
  hb_addr :: bytes
  hb_window_start :: int
  hb_count :: nat
  hb_used :: bool

text \<open>The statics \<open>g_hs\<close> and \<open>g_hs_global_inflight\<close>.\<close>

record hs_state =
  g_hs :: "sv2_hs_bucket list"
  g_hs_global_inflight :: nat

definition hs_init :: hs_state where
  "hs_init = \<lparr> g_hs = replicate SV2_HS_BUCKETS
       \<lparr> hb_addr = [], hb_window_start = 0, hb_count = 0, hb_used = False \<rparr>,
     g_hs_global_inflight = 0 \<rparr>"

text \<open>An address is the bytes of the C string before its NUL.\<close>

definition hs_hash :: "bytes \<Rightarrow> nat" where
  "hs_hash addr =
     unat (fold (\<lambda>c h. (push_bit 5 h + h) + ucast c) addr (5381 :: u32)) mod SV2_HS_BUCKETS"

definition hs_claim_bucket :: "bytes \<Rightarrow> int \<Rightarrow> sv2_hs_bucket" where
  "hs_claim_bucket address_name now =
     \<lparr> hb_addr = take 63 address_name, hb_window_start = now, hb_count = 0, hb_used = True \<rparr>"

definition hs_bucket_stale :: "sv2_hs_bucket \<Rightarrow> int \<Rightarrow> bool" where
  "hs_bucket_stale b now \<longleftrightarrow> hb_used b \<and> now \<ge> hb_window_start b + SV2_HS_BUCKET_TTL"

text \<open>
  The probe loop of \<open>hs_lookup\<close> over the remaining positions; a returned pointer is the index
  of the bucket, with the table after a claim.
\<close>

fun hs_probe ::
  "sv2_hs_bucket list \<Rightarrow> bytes \<Rightarrow> bool \<Rightarrow> int \<Rightarrow> nat option \<Rightarrow> nat list \<Rightarrow>
    sv2_hs_bucket list \<times> nat option"
where
  "hs_probe bs addr create now stale [] =
     (case stale of
        Some k \<Rightarrow> if create then (bs[k := hs_claim_bucket addr now], Some k) else (bs, None)
      | None \<Rightarrow> (bs, None))"
| "hs_probe bs addr create now stale (k # ks) =
     (if hb_used (bs ! k) \<and> hb_addr (bs ! k) = addr then (bs, Some k)
      else if \<not> hb_used (bs ! k) then
        (if \<not> create then (bs, None) else (bs[k := hs_claim_bucket addr now], Some k))
      else hs_probe bs addr create now
             (if create \<and> stale = None \<and> hs_bucket_stale (bs ! k) now then Some k else stale) ks)"

definition hs_lookup ::
  "sv2_hs_bucket list \<Rightarrow> bytes \<Rightarrow> bool \<Rightarrow> int \<Rightarrow> sv2_hs_bucket list \<times> nat option" where
  "hs_lookup bs address_name create now =
     hs_probe bs address_name create now None
       (map (\<lambda>i. (hs_hash address_name + i) mod SV2_HS_BUCKETS) [0..<SV2_HS_BUCKETS])"

definition sv2_handshake_try_reserve :: "bytes \<Rightarrow> int \<Rightarrow> hs_state \<Rightarrow> bool \<times> hs_state" where
  "sv2_handshake_try_reserve address_name now st =
     (if address_name = [] then (False, st)
      else if g_hs_global_inflight st \<ge> SV2_HS_MAX_GLOBAL then (False, st)
      else
        case hs_lookup (g_hs st) address_name True now of
          (bs, None) \<Rightarrow> (False, st\<lparr>g_hs := bs\<rparr>)
        | (bs, Some k) \<Rightarrow>
            let b = bs ! k;
                b = (if now \<ge> hb_window_start b + SV2_HS_WINDOW_SECS
                     then b\<lparr>hb_window_start := now, hb_count := 0\<rparr> else b)
            in if hb_count b \<ge> SV2_HS_MAX_PER_MIN then (False, st\<lparr>g_hs := bs[k := b]\<rparr>)
               else (True, st\<lparr>g_hs := bs[k := b\<lparr>hb_count := hb_count b + 1\<rparr>],
                              g_hs_global_inflight := g_hs_global_inflight st + 1\<rparr>))"

definition sv2_handshake_release :: "hs_state \<Rightarrow> hs_state" where
  "sv2_handshake_release st =
     (if g_hs_global_inflight st > 0
      then st\<lparr>g_hs_global_inflight := g_hs_global_inflight st - 1\<rparr> else st)"

section \<open>Runs\<close>

text \<open>
  \<open>hs_reach st log clock\<close>: some interleaving of reservations and releases under a clock that
  does not go backwards leads to \<open>st\<close>, with \<open>log\<close> the granted reservations, newest first.
  Addresses are what \<open>inet_ntop\<close> prints: below 64 bytes.
\<close>

inductive hs_reach :: "hs_state \<Rightarrow> (bytes \<times> int) list \<Rightarrow> int \<Rightarrow> bool" where
  start: "hs_reach hs_init [] clock"
| reserve:
    "hs_reach st log clock \<Longrightarrow> clock \<le> now \<Longrightarrow> length addr < 64 \<Longrightarrow>
      sv2_handshake_try_reserve addr now st = (ok, st') \<Longrightarrow>
      hs_reach st' (if ok then (addr, now) # log else log) now"
| release: "hs_reach st log clock \<Longrightarrow> hs_reach (sv2_handshake_release st) log clock"

section \<open>Lookup\<close>

abbreviation used_by :: "sv2_hs_bucket list \<Rightarrow> bytes \<Rightarrow> nat \<Rightarrow> bool" where
  "used_by bs a k \<equiv> hb_used (bs ! k) \<and> hb_addr (bs ! k) = a"

definition pos :: "bytes \<Rightarrow> nat \<Rightarrow> nat" where
  "pos a i = (hs_hash a + i) mod SV2_HS_BUCKETS"

lemma pos_less [simp]: "pos a i < 512"
  by (simp add: pos_def SV2_HS_BUCKETS_def)

lemma pos_onto: assumes "k < 512" shows "\<exists>i < 512. k = pos a i"
proof -
  have h: "hs_hash a < 512" by (simp add: hs_hash_def SV2_HS_BUCKETS_def)
  have "(hs_hash a + (k + 512 - hs_hash a) mod 512) mod 512 = (k + 512) mod 512"
    using h by (simp only: mod_add_right_eq) simp
  then have "k = pos a ((k + 512 - hs_hash a) mod 512)"
    using assms by (simp add: pos_def SV2_HS_BUCKETS_def)
  then show ?thesis by (intro exI [of _ "(k + 512 - hs_hash a) mod 512"]) simp
qed

text \<open>
  The table invariant of linear probing: a used bucket is reached from its address's hash over
  used buckets only, and no address is in two buckets.
\<close>

definition chained :: "sv2_hs_bucket list \<Rightarrow> bool" where
  "chained bs \<longleftrightarrow>
     length bs = 512 \<and>
     (\<forall>k < 512. hb_used (bs ! k) \<longrightarrow>
       (\<exists>i < 512. k = pos (hb_addr (bs ! k)) i \<and> (\<forall>j < i. hb_used (bs ! pos (hb_addr (bs ! k)) j)))) \<and>
     (\<forall>k < 512. \<forall>l < 512. hb_used (bs ! k) \<and> hb_used (bs ! l) \<and> hb_addr (bs ! k) = hb_addr (bs ! l)
       \<longrightarrow> k = l)"

lemma hs_probe_cases:
  assumes "hs_probe bs a True now stale ks = (bs', r)"
  shows "(\<exists>k \<in> set ks. used_by bs a k \<and> r = Some k \<and> bs' = bs) \<or>
    (\<exists>pre k post. ks = pre @ k # post \<and> \<not> hb_used (bs ! k) \<and>
       (\<forall>j \<in> set pre. hb_used (bs ! j) \<and> hb_addr (bs ! j) \<noteq> a) \<and>
       r = Some k \<and> bs' = bs[k := hs_claim_bucket a now]) \<or>
    ((\<forall>j \<in> set ks. hb_used (bs ! j) \<and> hb_addr (bs ! j) \<noteq> a) \<and>
      ((\<exists>k. (stale = Some k \<or> k \<in> set ks \<and> hs_bucket_stale (bs ! k) now) \<and>
         r = Some k \<and> bs' = bs[k := hs_claim_bucket a now]) \<or>
       r = None \<and> bs' = bs))"
  using assms
proof (induction ks arbitrary: stale)
  case Nil
  then show ?case by (auto split: option.splits)
next
  case (Cons k ks)
  show ?case
  proof (cases "hb_used (bs ! k)")
    case False
    then show ?thesis
      using Cons.prems by (intro disjI2 disjI1 exI [of _ "[]"] exI [of _ k] exI [of _ ks]) simp
  next
    case used: True
    show ?thesis
    proof (cases "hb_addr (bs ! k) = a")
      case True
      with used Cons.prems show ?thesis by auto
    next
      case False
      let ?s = "if stale = None \<and> hs_bucket_stale (bs ! k) now then Some k else stale"
      have "hs_probe bs a True now ?s ks = (bs', r)"
        using used False Cons.prems by simp
      from Cons.IH [OF this] show ?thesis
      proof (elim disjE)
        assume "\<exists>pre l post. ks = pre @ l # post \<and> \<not> hb_used (bs ! l) \<and>
          (\<forall>j \<in> set pre. hb_used (bs ! j) \<and> hb_addr (bs ! j) \<noteq> a) \<and>
          r = Some l \<and> bs' = bs[l := hs_claim_bucket a now]"
        then obtain pre l post where "ks = pre @ l # post" "\<not> hb_used (bs ! l)"
          "\<forall>j \<in> set pre. hb_used (bs ! j) \<and> hb_addr (bs ! j) \<noteq> a"
          "r = Some l" "bs' = bs[l := hs_claim_bucket a now]" by blast
        with used False show ?thesis
          by (intro disjI2 disjI1 exI [of _ "k # pre"] exI [of _ l] exI [of _ post]) simp
      qed (use used False in \<open>auto split: if_splits\<close>)
    qed
  qed
qed

text \<open>A successful lookup: the address's own bucket, or a fresh claim where nothing is lost.\<close>

lemma hs_lookup_spec:
  assumes ch: "chained bs" and l: "hs_lookup bs a True now = (bs', r)" and len: "length a < 64"
  shows "(\<exists>k < 512. used_by bs a k \<and> r = Some k \<and> bs' = bs) \<or>
    (r = None \<and> bs' = bs) \<or>
    ((\<forall>j < 512. \<not> used_by bs a j) \<and>
     (\<exists>k < 512. r = Some k \<and> bs' = bs[k := hs_claim_bucket a now] \<and>
       (\<not> hb_used (bs ! k) \<or> hs_bucket_stale (bs ! k) now) \<and> chained bs'))"
proof -
  let ?ks = "map (pos a) [0..<512]"
  have ks: "set ?ks = {..<512}"
    using pos_onto [of _ a] by (auto simp: image_iff Bex_def)
  have L: "length bs = 512" using ch by (simp add: chained_def)
  have claim: "hb_used (hs_claim_bucket a now)" "hb_addr (hs_claim_bucket a now) = a"
    using len by (simp_all add: hs_claim_bucket_def)
  have chain: "\<And>k. k < 512 \<Longrightarrow> hb_used (bs ! k) \<Longrightarrow>
      \<exists>i < 512. k = pos (hb_addr (bs ! k)) i \<and> (\<forall>j < i. hb_used (bs ! pos (hb_addr (bs ! k)) j))"
    and uniq: "\<And>k m. k < 512 \<Longrightarrow> m < 512 \<Longrightarrow> hb_used (bs ! k) \<Longrightarrow> hb_used (bs ! m) \<Longrightarrow>
      hb_addr (bs ! k) = hb_addr (bs ! m) \<Longrightarrow> k = m"
    using ch by (auto simp: chained_def)
  have fresh: "chained (bs[k := hs_claim_bucket a now])"
    if k: "k < 512" "\<forall>j < 512. \<not> used_by bs a j" "i < 512" "k = pos a i"
      "\<forall>j < i. hb_used (bs ! pos a j)" for k i
  proof -
    let ?bs = "bs[k := hs_claim_bucket a now]"
    have at: "?bs ! m = (if m = k then hs_claim_bucket a now else bs ! m)" if "m < 512" for m
      using that L by (simp add: nth_list_update)
    have mono: "hb_used (bs ! m) \<Longrightarrow> m < 512 \<Longrightarrow> hb_used (?bs ! m)" for m
      by (simp add: at claim)
    have "\<exists>i < 512. m = pos (hb_addr (?bs ! m)) i \<and> (\<forall>j < i. hb_used (?bs ! pos (hb_addr (?bs ! m)) j))"
      if "m < 512" "hb_used (?bs ! m)" for m
    proof (cases "m = k")
      case True
      have "hb_addr (?bs ! k) = a" using k(1) by (simp add: at claim)
      then show ?thesis
        unfolding True using k(3-5) mono by (intro exI [of _ i]) simp
    next
      case False
      then show ?thesis using chain [of m] that mono by (fastforce simp: at)
    qed
    moreover have "m = n" if "m < 512" "n < 512" "hb_used (?bs ! m)" "hb_used (?bs ! n)"
      "hb_addr (?bs ! m) = hb_addr (?bs ! n)" for m n
      using that k(2) uniq [of m n] by (auto simp: at claim split: if_splits)
    ultimately show ?thesis unfolding chained_def using L by simp
  qed
  have map: "map (\<lambda>i. (hs_hash a + i) mod SV2_HS_BUCKETS) [0..<SV2_HS_BUCKETS] = ?ks"
    by (simp add: pos_def SV2_HS_BUCKETS_def)
  have "hs_probe bs a True now None ?ks = (bs', r)"
    using l unfolding hs_lookup_def map .
  from hs_probe_cases [OF this] show ?thesis
  proof (elim disjE)
    assume "\<exists>k \<in> set ?ks. used_by bs a k \<and> r = Some k \<and> bs' = bs"
    then show ?thesis unfolding ks by blast
  next
    assume "\<exists>pre k post. ?ks = pre @ k # post \<and> \<not> hb_used (bs ! k) \<and>
       (\<forall>j \<in> set pre. hb_used (bs ! j) \<and> hb_addr (bs ! j) \<noteq> a) \<and>
       r = Some k \<and> bs' = bs[k := hs_claim_bucket a now]"
    then obtain pre k post where s: "?ks = pre @ k # post" "\<not> hb_used (bs ! k)"
      "\<forall>j \<in> set pre. hb_used (bs ! j) \<and> hb_addr (bs ! j) \<noteq> a"
      "r = Some k" "bs' = bs[k := hs_claim_bucket a now]" by blast
    have i: "length pre < 512" using arg_cong [OF s(1), of length] by simp
    have pk: "k = pos a (length pre)" using arg_cong [OF s(1), of "\<lambda>xs. xs ! length pre"] i by simp
    have pj: "hb_used (bs ! pos a j) \<and> hb_addr (bs ! pos a j) \<noteq> a" if "j < length pre" for j
    proof -
      have "pre ! j = pos a j"
        using arg_cong [OF s(1), of "\<lambda>xs. xs ! j"] i that by (simp add: nth_append)
      then show ?thesis using s(3) that by (metis nth_mem)
    qed
    have none: "\<not> used_by bs a m" if m: "m < 512" for m
    proof
      assume u: "used_by bs a m"
      then obtain i' where i': "m = pos a i'" "\<forall>j < i'. hb_used (bs ! pos a j)"
        using chain [OF m] by auto
      consider "i' < length pre" | "i' = length pre" | "length pre < i'" by linarith
      then show False using i' pj pk s(2) u by cases auto
    qed
    have "k < 512" by (simp add: pk)
    then show ?thesis
      using s(2,4,5) none fresh [of k "length pre"] pj pk i by auto
  next
    assume a1: "(\<forall>j \<in> set ?ks. hb_used (bs ! j) \<and> hb_addr (bs ! j) \<noteq> a) \<and>
      ((\<exists>k. (None = Some k \<or> k \<in> set ?ks \<and> hs_bucket_stale (bs ! k) now) \<and>
         r = Some k \<and> bs' = bs[k := hs_claim_bucket a now]) \<or> r = None \<and> bs' = bs)"
    then have all: "\<And>j. j < 512 \<Longrightarrow> hb_used (bs ! j) \<and> hb_addr (bs ! j) \<noteq> a" unfolding ks by blast
    show ?thesis
    proof (cases r)
      case None
      then show ?thesis using a1 by auto
    next
      case (Some k)
      then have k: "k < 512" "hs_bucket_stale (bs ! k) now" "bs' = bs[k := hs_claim_bucket a now]"
        using a1 unfolding ks by auto
      obtain i where "i < 512" "k = pos a i" using pos_onto [OF k(1)] by blast
      then have "chained bs'" using fresh [of k i] all k by auto
      then show ?thesis using Some k all by auto
    qed
  qed
qed

section \<open>The rate bound\<close>

definition times :: "bytes \<Rightarrow> (bytes \<times> int) list \<Rightarrow> int list" where
  "times a log = map snd (filter (\<lambda>(b, _). b = a) log)"

definition cnt :: "int \<Rightarrow> int \<Rightarrow> int list \<Rightarrow> nat" where
  "cnt lo hi ts = length (filter (\<lambda>t. lo \<le> t \<and> t < hi) ts)"

lemma cnt_Cons [simp]: "cnt lo hi (t # ts) = (if lo \<le> t \<and> t < hi then 1 else 0) + cnt lo hi ts"
  by (simp add: cnt_def)

lemma times_Cons: "times a ((b, t) # log) = (if b = a then t # times a log else times a log)"
  by (simp add: times_def)

lemma cnt_mono: "lo' \<le> lo \<Longrightarrow> hi \<le> hi' \<Longrightarrow> cnt lo hi ts \<le> cnt lo' hi' ts"
  by (induction ts) (auto simp: cnt_def)

lemma cnt_split: "lo \<le> mid \<Longrightarrow> mid \<le> hi \<Longrightarrow> cnt lo hi ts = cnt lo mid ts + cnt mid hi ts"
  by (induction ts) (auto simp: cnt_def)

lemma cnt_mem: "t \<in> set ts \<Longrightarrow> lo \<le> t \<Longrightarrow> t < hi \<Longrightarrow> 1 \<le> cnt lo hi ts"
  by (induction ts) auto

lemma cnt_zero: "(\<And>t. t \<in> set ts \<Longrightarrow> t < lo) \<Longrightarrow> cnt lo hi ts = 0"
proof (induction ts)
  case Nil
  then show ?case by (simp add: cnt_def)
next
  case (Cons t ts)
  then have "t < lo" and "cnt lo hi ts = 0" by simp_all
  then show ?case by simp
qed

text \<open>
  What a bucket's window says about its address's grants: all of the window are counted, the
  window opened with a grant, and the window before left at most 29 of its grants in the last
  59 seconds before this one.
\<close>

definition good :: "int list \<Rightarrow> int \<Rightarrow> nat \<Rightarrow> bool" where
  "good ts ws c \<longleftrightarrow>
     c = cnt ws (ws + 60) ts \<and> c \<le> 30 \<and> ws \<in> set ts \<and> cnt (ws - 59) ws ts \<le> 29 \<and>
     (\<forall>t \<in> set ts. t < ws + 60)"

lemma good_first: "(\<And>t. t \<in> set ts \<Longrightarrow> t < now - 60) \<Longrightarrow> good (now # ts) now 1"
  using cnt_zero [of ts now "now + 60"] cnt_zero [of ts "now - 59" now]
  by (force simp: good_def)

lemma good_next_window:
  assumes g: "good ts ws c" and n: "ws + 60 \<le> now"
  shows "good (now # ts) now 1"
proof -
  have t: "\<And>t. t \<in> set ts \<Longrightarrow> t < now" using g n by (force simp: good_def)
  have "cnt (now - 59) now ts \<le> cnt (ws + 1) now ts" using n by (intro cnt_mono) simp_all
  also have "\<dots> = cnt (ws + 1) (ws + 60) ts"
    using cnt_split [of "ws + 1" "ws + 60" now ts] n cnt_zero [of ts "ws + 60" now] g
    by (simp add: good_def)
  also have "\<dots> \<le> 29"
    using cnt_split [of ws "ws + 1" "ws + 60" ts] cnt_mem [of ws ts ws "ws + 1"] g
    by (simp add: good_def)
  finally show ?thesis
    using t n cnt_zero [of ts now "now + 60"] by (force simp: good_def)
qed

lemma good_same_window:
  assumes "good ts ws c" and "c < 30" and "ws \<le> now" and "now < ws + 60"
  shows "good (now # ts) ws (c + 1)"
  using assms by (auto simp: good_def)

text \<open>Then no 60 seconds that hold the newest grant hold more than 59 of them.\<close>

lemma good_bound:
  assumes "good ts ws c" and "ws \<le> now" and "T \<le> now" and "now < T + 60"
  shows "cnt T (T + 60) ts \<le> 59"
proof (cases "T \<le> ws - 59")
  case True
  then have "T = ws - 59" "now = ws" using assms(2-4) by auto
  then have "cnt T (T + 60) ts = cnt (ws - 59) ws ts + cnt ws (ws + 1) ts"
    using cnt_split [of "ws - 59" ws "ws + 1" ts] by (simp add: add.commute)
  also have "\<dots> \<le> 29 + 30"
    using assms(1) cnt_mono [of ws ws "ws + 1" "ws + 60" ts] by (simp add: good_def)
  finally show ?thesis by simp
next
  case False
  have "cnt T (T + 60) ts \<le> cnt (ws - 59) (ws + 60) ts + cnt (ws + 60) (max (T + 60) (ws + 60)) ts"
    using cnt_split [of "ws - 59" "ws + 60" "max (T + 60) (ws + 60)" ts] False
      cnt_mono [of "ws - 59" T "T + 60" "max (T + 60) (ws + 60)" ts] by simp
  also have "cnt (ws + 60) (max (T + 60) (ws + 60)) ts = 0"
    using assms(1) by (intro cnt_zero) (simp add: good_def)
  finally show ?thesis
    using cnt_split [of "ws - 59" ws "ws + 60" ts] assms(1) by (simp add: good_def)
qed

section \<open>The invariant of the throttle\<close>

definition hs_inv :: "hs_state \<Rightarrow> (bytes \<times> int) list \<Rightarrow> int \<Rightarrow> bool" where
  "hs_inv st log clock \<longleftrightarrow>
     chained (g_hs st) \<and> g_hs_global_inflight st \<le> SV2_HS_MAX_GLOBAL \<and>
     (\<forall>k < 512. hb_used (g_hs st ! k) \<longrightarrow>
        hb_window_start (g_hs st ! k) \<le> clock \<and>
        good (times (hb_addr (g_hs st ! k)) log) (hb_window_start (g_hs st ! k)) (hb_count (g_hs st ! k))) \<and>
     (\<forall>a. (\<forall>k < 512. \<not> used_by (g_hs st) a k) \<longrightarrow> (\<forall>t \<in> set (times a log). t < clock - 60)) \<and>
     (\<forall>a T. cnt T (T + 60) (times a log) \<le> 59)"

lemma hs_inv_init: "hs_inv hs_init [] clock"
  by (simp add: hs_inv_def hs_init_def chained_def SV2_HS_BUCKETS_def times_def cnt_def)

lemma hs_inv_clock: "hs_inv st log clock \<Longrightarrow> clock \<le> now \<Longrightarrow> hs_inv st log now"
  unfolding hs_inv_def by (elim conjE, intro conjI allI impI ballI) (fastforce | simp)+

lemma hs_inv_inflight:
  "hs_inv st log clock \<Longrightarrow> n \<le> SV2_HS_MAX_GLOBAL \<Longrightarrow>
    hs_inv (st\<lparr>g_hs_global_inflight := n\<rparr>) log clock"
  by (simp add: hs_inv_def)

text \<open>A grant to \<open>a\<close> through bucket \<open>k\<close>, which holds \<open>a\<close> with a good window afterwards.\<close>

lemma hs_inv_grant:
  assumes inv: "hs_inv st log now" and ch: "chained bs" and k: "k < 512" "used_by bs a k"
    and others: "\<And>j. j < 512 \<Longrightarrow> j \<noteq> k \<Longrightarrow> bs ! j = g_hs st ! j"
    and lost: "\<And>t. hb_used (g_hs st ! k) \<Longrightarrow> hb_addr (g_hs st ! k) \<noteq> a \<Longrightarrow>
      t \<in> set (times (hb_addr (g_hs st ! k)) log) \<Longrightarrow> t < now - 60"
    and g: "good (now # times a log) (hb_window_start (bs ! k)) (hb_count (bs ! k))"
      "hb_window_start (bs ! k) \<le> now"
    and n: "n \<le> SV2_HS_MAX_GLOBAL"
  shows "hs_inv (st\<lparr>g_hs := bs, g_hs_global_inflight := n\<rparr>) ((a, now) # log) now"
proof -
  have uniq: "j = k" if "j < 512" "used_by bs a j" for j
    using ch k that unfolding chained_def by blast
  have "hb_window_start (bs ! j) \<le> now \<and>
      good (times (hb_addr (bs ! j)) ((a, now) # log)) (hb_window_start (bs ! j)) (hb_count (bs ! j))"
    if "j < 512" "hb_used (bs ! j)" for j
  proof (cases "j = k")
    case True
    then show ?thesis using g k by (simp add: times_Cons)
  next
    case False
    then have "hb_addr (bs ! j) \<noteq> a" using uniq that by auto
    then show ?thesis
      using inv that others [OF that(1) False] by (simp add: times_Cons hs_inv_def)
  qed
  moreover have "t < now - 60"
    if b: "\<forall>j < 512. \<not> used_by bs b j" and t: "t \<in> set (times b ((a, now) # log))" for b t
  proof -
    have ba: "b \<noteq> a" using b k by auto
    show ?thesis
    proof (cases "used_by (g_hs st) b k")
      case True
      then show ?thesis using lost ba t by (auto simp: times_Cons)
    next
      case False
      then have "\<forall>j < 512. \<not> used_by (g_hs st) b j" using b others by metis
      then show ?thesis using inv ba t by (auto simp: hs_inv_def times_Cons)
    qed
  qed
  moreover have "cnt T (T + 60) (times b ((a, now) # log)) \<le> 59" for b T
  proof (cases "b = a \<and> T \<le> now \<and> now < T + 60")
    case True
    then show ?thesis using good_bound [OF g] by (simp add: times_Cons)
  next
    case False
    then have "cnt T (T + 60) (times b ((a, now) # log)) = cnt T (T + 60) (times b log)"
      by (auto simp: times_Cons)
    then show ?thesis using inv by (simp add: hs_inv_def)
  qed
  ultimately show ?thesis using ch n by (simp add: hs_inv_def)
qed

lemma chained_update:
  assumes "chained bs" and "k < 512" and "hb_used b = hb_used (bs ! k)"
    and "hb_addr b = hb_addr (bs ! k)"
  shows "chained (bs[k := b])"
proof -
  have L: "length bs = 512" using assms(1) by (simp add: chained_def)
  have "hb_used (bs[k := b] ! m) = hb_used (bs ! m) \<and> hb_addr (bs[k := b] ! m) = hb_addr (bs ! m)"
    if "m < 512" for m
    using assms(2-4) L that by (simp add: nth_list_update)
  then show ?thesis using assms(1) unfolding chained_def by simp
qed

lemma try_reserve_inv:
  assumes inv: "hs_inv st log now" and len: "length addr < 64"
    and r: "sv2_handshake_try_reserve addr now st = (ok, st')"
  shows "hs_inv st' (if ok then (addr, now) # log else log) now"
proof (cases "addr = [] \<or> g_hs_global_inflight st \<ge> SV2_HS_MAX_GLOBAL")
  case True
  then have "sv2_handshake_try_reserve addr now st = (False, st)"
    by (auto simp: sv2_handshake_try_reserve_def)
  then show ?thesis using r inv by simp
next
  case False
  obtain bs res where l: "hs_lookup (g_hs st) addr True now = (bs, res)"
    by (cases "hs_lookup (g_hs st) addr True now")
  have ch: "chained (g_hs st)" and L: "length (g_hs st) = 512"
    using inv by (simp_all add: hs_inv_def chained_def)
  let ?n = "g_hs_global_inflight st + 1"
  have n: "?n \<le> SV2_HS_MAX_GLOBAL" using False by simp
  have old: "\<And>k. k < 512 \<Longrightarrow> hb_used (g_hs st ! k) \<Longrightarrow> hb_window_start (g_hs st ! k) \<le> now \<and>
      good (times (hb_addr (g_hs st ! k)) log) (hb_window_start (g_hs st ! k)) (hb_count (g_hs st ! k))"
    using inv by (simp add: hs_inv_def)
  consider (own) k where "k < 512" "used_by (g_hs st) addr k" "res = Some k" "bs = g_hs st"
    | (none) "res = None" "bs = g_hs st"
    | (new) k where "\<And>j. j < 512 \<Longrightarrow> \<not> used_by (g_hs st) addr j" "k < 512" "res = Some k"
        "bs = (g_hs st)[k := hs_claim_bucket addr now]"
        "\<not> hb_used (g_hs st ! k) \<or> hs_bucket_stale (g_hs st ! k) now" "chained bs"
    using hs_lookup_spec [OF ch l len] by blast
  then show ?thesis
  proof cases
    case none
    then show ?thesis using r l False inv by (simp add: sv2_handshake_try_reserve_def)
  next
    case own
    let ?b = "g_hs st ! k"
    let ?ws = "hb_window_start ?b"
    let ?new = "now \<ge> ?ws + SV2_HS_WINDOW_SECS"
    let ?b1 = "if ?new then ?b\<lparr>hb_window_start := now, hb_count := 0\<rparr> else ?b"
    let ?b2 = "?b1\<lparr>hb_count := hb_count ?b1 + 1\<rparr>"
    have g: "?ws \<le> now" "good (times addr log) ?ws (hb_count ?b)" using old [OF own(1)] own(2) by auto
    show ?thesis
    proof (cases "hb_count ?b1 \<ge> SV2_HS_MAX_PER_MIN")
      case True
      then have "?b1 = ?b" by (simp add: SV2_HS_MAX_PER_MIN_def split: if_splits)
      then have "ok = False" "st' = st"
        using r l own False True by (simp_all add: sv2_handshake_try_reserve_def Let_def)
      then show ?thesis using inv by simp
    next
      case grant: False
      have ok: "ok" and st': "st' = st\<lparr>g_hs := (g_hs st)[k := ?b2], g_hs_global_inflight := ?n\<rparr>"
        using r l own False grant by (auto simp: sv2_handshake_try_reserve_def Let_def)
      have at: "(g_hs st)[k := ?b2] ! k = ?b2" using own(1) L by simp
      have "good (now # times addr log) (hb_window_start ?b2) (hb_count ?b2)"
        using good_next_window [OF g(2), of now] good_same_window [OF g(2) _ g(1)] grant
        by (auto simp: SV2_HS_WINDOW_SECS_def SV2_HS_MAX_PER_MIN_def)
      moreover have "hb_window_start ?b2 \<le> now" using g(1) by simp
      moreover have "chained ((g_hs st)[k := ?b2])"
        using own by (intro chained_update ch) auto
      ultimately have "hs_inv (st\<lparr>g_hs := (g_hs st)[k := ?b2], g_hs_global_inflight := ?n\<rparr>)
          ((addr, now) # log) now"
        using own n by (intro hs_inv_grant [OF inv, where k = k]) (simp_all only: at, auto)
      then show ?thesis using ok st' by simp
    qed
  next
    case new
    let ?b2 = "(hs_claim_bucket addr now)\<lparr>hb_count := 1\<rparr>"
    let ?bs = "(g_hs st)[k := ?b2]"
    have c: "bs ! k = hs_claim_bucket addr now" using new(2,4) L by simp
    have ok: "ok" and st': "st' = st\<lparr>g_hs := ?bs, g_hs_global_inflight := ?n\<rparr>"
      using r l new(3) False c
      by (auto simp: sv2_handshake_try_reserve_def Let_def hs_claim_bucket_def
          SV2_HS_WINDOW_SECS_def SV2_HS_MAX_PER_MIN_def new(4))
    have at: "?bs ! k = ?b2" using new(2) L by simp
    have first: "t < now - 60" if "t \<in> set (times addr log)" for t
    proof -
      have "\<forall>a. (\<forall>k < 512. \<not> used_by (g_hs st) a k) \<longrightarrow> (\<forall>t \<in> set (times a log). t < now - 60)"
        using inv unfolding hs_inv_def by blast
      then show ?thesis using new(1) that by blast
    qed
    have lost: "t < now - 60" if "hb_used (g_hs st ! k)" "t \<in> set (times (hb_addr (g_hs st ! k)) log)" for t
      using old [OF new(2) that(1)] new(5) that
      by (auto simp: hs_bucket_stale_def SV2_HS_BUCKET_TTL_def good_def)
    have "good (now # times addr log) (hb_window_start ?b2) (hb_count ?b2)"
      using good_first [of "times addr log" now] first by (simp add: hs_claim_bucket_def)
    moreover have "chained ?bs"
      using chained_update [OF new(6,2), of ?b2] c by (simp add: new(4))
    ultimately have "hs_inv (st\<lparr>g_hs := ?bs, g_hs_global_inflight := ?n\<rparr>) ((addr, now) # log) now"
      using new(2) n len lost
      by (intro hs_inv_grant [OF inv, where k = k])
         (simp_all only: at, auto simp: hs_claim_bucket_def)
    then show ?thesis using ok st' by simp
  qed
qed

lemma hs_reach_inv: "hs_reach st log clock \<Longrightarrow> hs_inv st log clock"
proof (induction rule: hs_reach.induct)
  case (start clock)
  then show ?case by (rule hs_inv_init)
next
  case (reserve st log clock now addr ok st')
  then show ?case by (intro try_reserve_inv [OF hs_inv_clock]) auto
next
  case (release st log clock)
  then show ?case
    using hs_inv_inflight [OF release.IH, of "g_hs_global_inflight st - 1"] hs_inv_def
    by (auto simp: sv2_handshake_release_def)
qed

text \<open>The slots granted and not yet released, and the grants of one address in any minute.\<close>

lemma hs_reach_inflight: "hs_reach st log clock \<Longrightarrow> g_hs_global_inflight st \<le> SV2_HS_MAX_GLOBAL"
  using hs_reach_inv by (simp add: hs_inv_def)

lemma hs_reach_rate:
  "hs_reach st log clock \<Longrightarrow>
    length (filter (\<lambda>(b, t). b = a \<and> T \<le> t \<and> t < T + 60) log) \<le> 59"
proof -
  assume "hs_reach st log clock"
  then have "cnt T (T + 60) (times a log) \<le> 59" using hs_reach_inv by (simp add: hs_inv_def)
  moreover have "cnt T (T + 60) (times a log) =
      length (filter (\<lambda>(b, t). b = a \<and> T \<le> t \<and> t < T + 60) log)"
    by (induction log) (auto simp: cnt_def times_def)
  ultimately show ?thesis by simp
qed

section \<open>Pre-session deadlines\<close>

definition SV2_IDLE_HANDSHAKE_TIMEOUT :: int where "SV2_IDLE_HANDSHAKE_TIMEOUT = 10"
definition SV2_IDLE_SETUP_TIMEOUT :: int where "SV2_IDLE_SETUP_TIMEOUT = 60"
definition SV2_IDLE_CHANNEL_TIMEOUT :: int where "SV2_IDLE_CHANNEL_TIMEOUT = 60"

text \<open>The return value with what is stored in \<open>*timeout\<close> (nothing with a channel).\<close>

definition sv2_pre_session_expired :: "bool \<Rightarrow> int \<Rightarrow> bool \<Rightarrow> int \<Rightarrow> int \<Rightarrow> bool \<times> int option" where
  "sv2_pre_session_expired hs_inflight setup_time has_channel accept_time now =
     (if has_channel then (False, None)
      else
        let (limit, begin_time) =
              (if hs_inflight then (SV2_IDLE_HANDSHAKE_TIMEOUT, accept_time)
               else if setup_time = 0 then (SV2_IDLE_SETUP_TIMEOUT, accept_time)
               else (SV2_IDLE_CHANNEL_TIMEOUT, setup_time))
        in (now - begin_time > limit, Some limit))"

lemma pre_session_bound:
  assumes "accept_time + 120 < now" and "setup_time \<le> accept_time + 60"
  shows "fst (sv2_pre_session_expired hs setup_time has_channel accept_time now) \<longleftrightarrow> \<not> has_channel"
  using assms
  by (simp add: sv2_pre_session_expired_def SV2_IDLE_HANDSHAKE_TIMEOUT_def
      SV2_IDLE_SETUP_TIMEOUT_def SV2_IDLE_CHANNEL_TIMEOUT_def)

end
