(* ===== verification/Sv2_Noise.thy ===== *)
theory Sv2_Noise
  imports Sv2_Types
begin

text \<open>
  The transport framing of \<^verbatim>\<open>src/src/sv2_noise.c\<close>: cipher states with their nonce counters,
  the nonce watermark, and the encryption and decryption of one SV2 frame in chunks of at most
  65519 bytes of plaintext.  The AEAD of libsodium is two parameters, \<open>seal\<close> and \<open>opn\<close>, of a key,
  a nonce and a text (the additional data is empty in the transport); \<open>aead_laws\<close> is the
  documented behaviour of ChaCha20-Poly1305 the code relies on.  The handshake, the keys and
  the certificates, which are calls of libsecp256k1 and libsodium, are not modelled: a session
  here is one whose key schedule is done or not.
\<close>

type_synonym aead_seal = "bytes \<Rightarrow> bytes \<Rightarrow> bytes \<Rightarrow> bytes"
type_synonym aead_open = "bytes \<Rightarrow> bytes \<Rightarrow> bytes \<Rightarrow> bytes option"

definition aead_laws :: "aead_seal \<Rightarrow> aead_open \<Rightarrow> bool" where
  "aead_laws seal opn \<longleftrightarrow>
     (\<forall>k n pt. opn k n (seal k n pt) = Some pt \<and> length (seal k n pt) = length pt + 16)"

section \<open>Cipher states\<close>

record cipher_state =
  cs_k :: bytes
  cs_n :: u64
  cs_has_key :: bool

definition SV2_NOISE_NONCE_WATERMARK :: u64 where
  "SV2_NOISE_NONCE_WATERMARK = - 1 - push_bit 20 1"

definition noise_frame_chunk_count :: "u32 \<Rightarrow> u64" where
  "noise_frame_chunk_count pt_payload_len =
     (if pt_payload_len \<noteq> 0
      then 1 + (ucast pt_payload_len + of_nat SV2_NOISE_MAX_PT_CHUNK - 1) div
               of_nat SV2_NOISE_MAX_PT_CHUNK
      else 1)"

definition noise_nonce_has_budget :: "cipher_state \<Rightarrow> u64 \<Rightarrow> bool" where
  "noise_nonce_has_budget c need \<longleftrightarrow>
     \<not> (\<not> cs_has_key c \<or> need < 1) \<and> \<not> cs_n c \<ge> SV2_NOISE_NONCE_WATERMARK \<and>
     \<not> need > SV2_NOISE_NONCE_WATERMARK - cs_n c"

definition cs_init_empty :: cipher_state where
  "cs_init_empty = \<lparr> cs_k = replicate 32 0, cs_n = 0, cs_has_key = False \<rparr>"

definition cs_init_key :: "bytes \<Rightarrow> cipher_state" where
  "cs_init_key key = \<lparr> cs_k = take 32 key, cs_n = 0, cs_has_key = True \<rparr>"

definition noise_nonce :: "u64 \<Rightarrow> bytes" where
  "noise_nonce n = replicate 4 0 @ map (\<lambda>i. ucast (drop_bit (8 * i) n AND 0xff)) [0..<8]"

text \<open>Both return the text, or \<open>None\<close> for \<open>false\<close>, with the cipher state after the call.\<close>

definition cs_encrypt :: "aead_seal \<Rightarrow> cipher_state \<Rightarrow> bytes \<Rightarrow> bytes option \<times> cipher_state" where
  "cs_encrypt seal c pt =
     (if \<not> cs_has_key c then (None, c)
      else (Some (seal (cs_k c) (noise_nonce (cs_n c)) pt), c\<lparr>cs_n := cs_n c + 1\<rparr>))"

definition cs_decrypt :: "aead_open \<Rightarrow> cipher_state \<Rightarrow> bytes \<Rightarrow> bytes option \<times> cipher_state" where
  "cs_decrypt opn c ct =
     (if \<not> cs_has_key c then (None, c)
      else if length ct < SV2_NOISE_MAC_LEN then (None, c)
      else case opn (cs_k c) (noise_nonce (cs_n c)) ct of
             None \<Rightarrow> (None, c)
           | Some pt \<Rightarrow> (Some pt, c\<lparr>cs_n := cs_n c + 1\<rparr>))"

section \<open>Frames\<close>

text \<open>The fields of \<open>struct sv2_noise_session\<close> the transport uses.\<close>

record noise_session =
  ns_send_cs :: cipher_state
  ns_recv_cs :: cipher_state
  ns_handshake_done :: bool
  ns_hdr_pending :: bool
  ns_hdr_pt :: bytes
  ns_pending_pt_len :: u32
  ns_pending_need :: nat

function noise_encrypt_chunks ::
  "aead_seal \<Rightarrow> cipher_state \<Rightarrow> bytes \<Rightarrow> nat \<Rightarrow> bytes option \<times> cipher_state" where
  "noise_encrypt_chunks seal c pp remaining =
     (if remaining > 0 then
        let chunk_pt = (if remaining > SV2_NOISE_MAX_PT_CHUNK then SV2_NOISE_MAX_PT_CHUNK else remaining)
        in case cs_encrypt seal c (take chunk_pt pp) of
             (None, c) \<Rightarrow> (None, c)
           | (Some ct, c) \<Rightarrow>
               (case noise_encrypt_chunks seal c (drop chunk_pt pp) (remaining - chunk_pt) of
                  (None, c) \<Rightarrow> (None, c)
                | (Some cts, c) \<Rightarrow> (Some (ct @ cts), c))
      else (Some [], c))"
  by auto

termination noise_encrypt_chunks
  by (relation "measure (\<lambda>(_, _, _, remaining). remaining)")
     (auto simp: SV2_NOISE_MAX_PT_CHUNK_def SV2_NOISE_MAX_CT_LEN_def SV2_NOISE_MAC_LEN_def)

function noise_decrypt_chunks ::
  "aead_open \<Rightarrow> cipher_state \<Rightarrow> bytes \<Rightarrow> nat \<Rightarrow> bytes option \<times> cipher_state" where
  "noise_decrypt_chunks opn c cp remaining_pt =
     (if remaining_pt > 0 then
        let chunk_pt = (if remaining_pt > SV2_NOISE_MAX_PT_CHUNK then SV2_NOISE_MAX_PT_CHUNK
                        else remaining_pt);
            chunk_ct = chunk_pt + SV2_NOISE_MAC_LEN
        in case cs_decrypt opn c (take chunk_ct cp) of
             (None, c) \<Rightarrow> (None, c)
           | (Some pt, c) \<Rightarrow>
               if length pt \<noteq> chunk_pt then (None, c)
               else (case noise_decrypt_chunks opn c (drop chunk_ct cp) (remaining_pt - chunk_pt) of
                       (None, c) \<Rightarrow> (None, c)
                     | (Some pts, c) \<Rightarrow> (Some (pt @ pts), c))
      else (Some [], c))"
  by auto

termination noise_decrypt_chunks
  by (relation "measure (\<lambda>(_, _, _, remaining). remaining)")
     (auto simp: SV2_NOISE_MAX_PT_CHUNK_def SV2_NOISE_MAX_CT_LEN_def SV2_NOISE_MAC_LEN_def)

declare noise_encrypt_chunks.simps [simp del] noise_decrypt_chunks.simps [simp del]

definition sv2_noise_encrypt_frame ::
  "aead_seal \<Rightarrow> noise_session \<Rightarrow> bytes \<Rightarrow> bytes option \<times> noise_session" where
  "sv2_noise_encrypt_frame seal s plain =
     (if \<not> ns_handshake_done s \<or> length plain < SV2_FRAME_HEADER_LEN then (None, s)
      else case sv2_decode_header plain of
        None \<Rightarrow> (None, s)
      | Some fr \<Rightarrow>
          if length plain \<noteq> SV2_FRAME_HEADER_LEN + unat (fr_msg_length fr) then (None, s)
          else if \<not> noise_nonce_has_budget (ns_send_cs s) (noise_frame_chunk_count (fr_msg_length fr))
          then (None, s)
          else
            case cs_encrypt seal (ns_send_cs s) (take SV2_FRAME_HEADER_LEN plain) of
              (None, c) \<Rightarrow> (None, s\<lparr>ns_send_cs := c\<rparr>)
            | (Some hdr_ct, c) \<Rightarrow>
                if length hdr_ct \<noteq> SV2_ENCRYPTED_HEADER_LEN then (None, s\<lparr>ns_send_cs := c\<rparr>)
                else (case noise_encrypt_chunks seal c (drop SV2_FRAME_HEADER_LEN plain)
                             (unat (fr_msg_length fr)) of
                        (None, c) \<Rightarrow> (None, s\<lparr>ns_send_cs := c\<rparr>)
                      | (Some cts, c) \<Rightarrow> (Some (hdr_ct @ cts), s\<lparr>ns_send_cs := c\<rparr>)))"

text \<open>The return codes \<open>-1\<close>, \<open>-2\<close> and \<open>0\<close>, the last with \<open>*plain\<close> and \<open>*consumed\<close>.\<close>

datatype decrypt_rc = Need_more | Fatal | Frame bytes nat

definition noise_decrypt_payload ::
  "aead_open \<Rightarrow> noise_session \<Rightarrow> bytes \<Rightarrow> bytes \<Rightarrow> u32 \<Rightarrow> nat \<Rightarrow> decrypt_rc \<times> noise_session" where
  "noise_decrypt_payload opn s inb hdr_pt pt_len need =
     (case noise_decrypt_chunks opn (ns_recv_cs s) (drop SV2_ENCRYPTED_HEADER_LEN inb) (unat pt_len) of
        (None, c) \<Rightarrow> (Fatal, s\<lparr>ns_recv_cs := c\<rparr>)
      | (Some payload_pt, c) \<Rightarrow> (Frame (hdr_pt @ payload_pt) need, s\<lparr>ns_recv_cs := c\<rparr>))"

definition sv2_noise_decrypt_frame ::
  "aead_open \<Rightarrow> noise_session \<Rightarrow> bytes \<Rightarrow> decrypt_rc \<times> noise_session" where
  "sv2_noise_decrypt_frame opn s inb =
     (if \<not> ns_handshake_done s then (Fatal, s)
      else if ns_hdr_pending s then
        (if length inb < ns_pending_need s then (Need_more, s)
         else
           let hdr_pt = ns_hdr_pt s; pt_len = ns_pending_pt_len s; need = ns_pending_need s;
               s = s\<lparr>ns_hdr_pending := False, ns_pending_need := 0, ns_pending_pt_len := 0\<rparr>;
               pay_chunks = noise_frame_chunk_count pt_len - 1
           in if pay_chunks \<noteq> 0 \<and> \<not> noise_nonce_has_budget (ns_recv_cs s) pay_chunks then (Fatal, s)
              else noise_decrypt_payload opn s inb hdr_pt pt_len need)
      else if length inb < SV2_ENCRYPTED_HEADER_LEN then (Need_more, s)
      else if \<not> noise_nonce_has_budget (ns_recv_cs s) 1 then (Fatal, s)
      else
        case cs_decrypt opn (ns_recv_cs s) (take SV2_ENCRYPTED_HEADER_LEN inb) of
          (None, c) \<Rightarrow> (Fatal, s\<lparr>ns_recv_cs := c\<rparr>)
        | (Some hdr_pt, c) \<Rightarrow>
            let s = s\<lparr>ns_recv_cs := c\<rparr> in
            if length hdr_pt \<noteq> SV2_FRAME_HEADER_LEN then (Fatal, s)
            else case sv2_decode_header hdr_pt of
              None \<Rightarrow> (Fatal, s)
            | Some fr \<Rightarrow>
                let pt_len = fr_msg_length fr;
                    need = SV2_ENCRYPTED_HEADER_LEN + unat (sv2_pt_len_to_ct_len pt_len);
                    pay_chunks = noise_frame_chunk_count pt_len - 1
                in if pay_chunks \<noteq> 0 \<and> \<not> noise_nonce_has_budget (ns_recv_cs s) pay_chunks
                   then (Fatal, s)
                   else if length inb < need then
                     (Need_more, s\<lparr>ns_hdr_pt := hdr_pt, ns_pending_pt_len := pt_len,
                                    ns_pending_need := need, ns_hdr_pending := True\<rparr>)
                   else noise_decrypt_payload opn s inb hdr_pt pt_len need)"

section \<open>Chunk arithmetic\<close>

lemmas noise_consts =
  SV2_NOISE_MAX_PT_CHUNK_def SV2_NOISE_MAX_CT_LEN_def SV2_NOISE_MAC_LEN_def
  SV2_ENCRYPTED_HEADER_LEN_def SV2_FRAME_HEADER_LEN_def

text \<open>Bytes of ciphertext and AEAD calls for \<open>n\<close> bytes of payload, as natural numbers.\<close>

definition ct_len :: "nat \<Rightarrow> nat" where
  "ct_len n = (n div 65519) * 65535 + (if n mod 65519 > 0 then n mod 65519 + 16 else 0)"

definition chunk_count :: "nat \<Rightarrow> nat" where
  "chunk_count n = (n + 65518) div 65519"

lemma ct_len_step: "65519 < n \<Longrightarrow> ct_len n = 65535 + ct_len (n - 65519)"
  by (simp add: ct_len_def le_div_geq le_mod_geq)

lemma ct_len_small: "0 < n \<Longrightarrow> n \<le> 65519 \<Longrightarrow> ct_len n = n + 16"
  by (cases "n = 65519") (simp_all add: ct_len_def)

lemma chunk_count_step: "65519 < n \<Longrightarrow> chunk_count n = Suc (chunk_count (n - 65519))"
  by (simp add: chunk_count_def le_div_geq)

lemma chunk_count_small: "0 < n \<Longrightarrow> n \<le> 65519 \<Longrightarrow> chunk_count n = 1"
  unfolding chunk_count_def by (rule div_nat_eqI) simp_all

lemma pt_len_to_ct_len_nat:
  assumes "unat n \<le> 0xffffff"
  shows "unat (sv2_pt_len_to_ct_len n) = ct_len (unat n)"
proof -
  have d: "unat n div 65519 \<le> 256"
  proof -
    have "unat n div 65519 \<le> 0xffffff div 65519" using assms by (rule div_le_mono)
    then show ?thesis by simp
  qed
  have m: "unat n mod 65519 < 65519" by simp
  show ?thesis
    using d m
    by (simp add: sv2_pt_len_to_ct_len_def Let_def ct_len_def noise_consts unat_word_ariths
        word_less_nat_alt unat_div unat_mod)
qed

lemma frame_chunk_count_nat:
  assumes "unat n \<le> 0xffffff"
  shows "unat (noise_frame_chunk_count n) = 1 + chunk_count (unat n)"
proof -
  have u: "unat (ucast n :: u64) = unat n"
    using assms by (simp add: unsigned_ucast_eq unsigned_take_bit_eq take_bit_nat_eq_self)
  have d: "(unat n + 65518) div 65519 \<le> 300"
  proof -
    have "(unat n + 65518) div 65519 \<le> (0xffffff + 65518) div 65519"
      using assms by (intro div_le_mono) simp
    then show ?thesis by simp
  qed
  show ?thesis
  proof (cases "n = 0")
    case True
    then show ?thesis by (simp add: noise_frame_chunk_count_def chunk_count_def)
  next
    case False
    have "unat (ucast n + 65519 - 1 :: u64) = unat n + 65518"
      using assms u by (simp add: unat_word_ariths)
    then show ?thesis
      using False d by (simp add: noise_frame_chunk_count_def noise_consts chunk_count_def
          unat_word_ariths unat_div)
  qed
qed

section \<open>Sealing and opening\<close>

lemma aead_open_seal: "aead_laws seal opn \<Longrightarrow> opn k n (seal k n pt) = Some pt"
  by (simp add: aead_laws_def)

lemma aead_seal_length: "aead_laws seal opn \<Longrightarrow> length (seal k n pt) = length pt + 16"
  by (simp add: aead_laws_def)

definition advance :: "nat \<Rightarrow> cipher_state \<Rightarrow> cipher_state" where
  "advance k c = c\<lparr>cs_n := cs_n c + of_nat k\<rparr>"

lemma advance_simps [simp]:
  "cs_k (advance k c) = cs_k c" "cs_has_key (advance k c) = cs_has_key c"
  "cs_n (advance k c) = cs_n c + of_nat k"
  "advance j (advance k c) = advance (k + j) c" "advance 0 c = c"
  by (simp_all add: advance_def add.assoc)

lemma cs_encrypt_keyed:
  "cs_has_key c \<Longrightarrow> cs_encrypt seal c pt = (Some (seal (cs_k c) (noise_nonce (cs_n c)) pt), advance 1 c)"
  by (simp add: cs_encrypt_def advance_def)

lemma cs_decrypt_sealed:
  "aead_laws seal opn \<Longrightarrow> cs_has_key c \<Longrightarrow>
    cs_decrypt opn c (seal (cs_k c) (noise_nonce (cs_n c)) pt) = (Some pt, advance 1 c)"
  by (simp add: cs_decrypt_def advance_def aead_open_seal aead_seal_length noise_consts)

text \<open>Chunk by chunk, the same counters on both sides.\<close>

lemma chunks_roundtrip:
  assumes laws: "aead_laws seal opn"
  shows "cs_has_key c \<Longrightarrow> length pp = n \<Longrightarrow>
    \<exists>ct. noise_encrypt_chunks seal c pp n = (Some ct, advance (chunk_count n) c) \<and>
      length ct = ct_len n \<and>
      (\<forall>r. noise_decrypt_chunks opn c (ct @ r) n = (Some pp, advance (chunk_count n) c))"
proof (induction n arbitrary: c pp rule: less_induct)
  case (less n)
  show ?case
  proof (cases "n = 0")
    case True
    then show ?thesis
      using less.prems by (simp add: noise_encrypt_chunks.simps [of _ _ _ 0]
          noise_decrypt_chunks.simps [of _ _ _ 0] chunk_count_def ct_len_def)
  next
    case False
    define k where "k = (if n > SV2_NOISE_MAX_PT_CHUNK then SV2_NOISE_MAX_PT_CHUNK else n)"
    define s where "s = seal (cs_k c) (noise_nonce (cs_n c)) (take k pp)"
    have k: "0 < k" "k \<le> n" using False by (auto simp: k_def noise_consts)
    have ls: "length s = k + 16" using k less.prems(2) by (simp add: s_def aead_seal_length [OF laws])
    have "n - k < n" "cs_has_key (advance 1 c)" "length (drop k pp) = n - k"
      using k less.prems by simp_all
    from less.IH [OF this] obtain ct where ct:
      "noise_encrypt_chunks seal (advance 1 c) (drop k pp) (n - k) =
        (Some ct, advance (chunk_count (n - k)) (advance 1 c))"
      "length ct = ct_len (n - k)"
      "\<And>r. noise_decrypt_chunks opn (advance 1 c) (ct @ r) (n - k) =
        (Some (drop k pp), advance (chunk_count (n - k)) (advance 1 c))" by blast
    have cc: "chunk_count n = Suc (chunk_count (n - k))"
      using chunk_count_step [of n] chunk_count_small [of n] False
      by (auto simp: k_def noise_consts chunk_count_def [of 0])
    have cl: "ct_len n = k + 16 + ct_len (n - k)"
      using ct_len_step [of n] ct_len_small [of n] False
      by (auto simp: k_def noise_consts ct_len_def [of 0])
    have "noise_encrypt_chunks seal c pp n = (Some (s @ ct), advance (chunk_count n) c)"
      using False ct(1) less.prems(1) cc
      by (subst noise_encrypt_chunks.simps)
         (simp add: cs_encrypt_keyed flip: k_def s_def)
    moreover have "noise_decrypt_chunks opn c ((s @ ct) @ r) n = (Some pp, advance (chunk_count n) c)" for r
    proof -
      have "cs_decrypt opn c s = (Some (take k pp), advance 1 c)"
        unfolding s_def by (rule cs_decrypt_sealed [OF laws less.prems(1)])
      moreover have "take (k + SV2_NOISE_MAC_LEN) ((s @ ct) @ r) = s"
        and "drop (k + SV2_NOISE_MAC_LEN) ((s @ ct) @ r) = ct @ r"
        using ls by (simp_all add: noise_consts)
      ultimately show ?thesis
        using False ct(3) [of r] k less.prems(2) cc
        by (subst noise_decrypt_chunks.simps) (simp add: Let_def flip: k_def)
    qed
    ultimately show ?thesis using ls ct(2) cl by auto
  qed
qed

section \<open>One frame\<close>

text \<open>
  The bytes of a frame sealed from cipher state \<open>c\<close>: header, then payload chunks.  \<open>valid_frame\<close>
  is a well-formed plaintext frame.
\<close>

definition valid_frame :: "bytes \<Rightarrow> bool" where
  "valid_frame f \<longleftrightarrow>
     (\<exists>fr. sv2_decode_header f = Some fr \<and> length f = SV2_FRAME_HEADER_LEN + unat (fr_msg_length fr))"

definition payload_len :: "bytes \<Rightarrow> nat" where
  "payload_len f = length f - SV2_FRAME_HEADER_LEN"

definition sealed_header :: "aead_seal \<Rightarrow> cipher_state \<Rightarrow> bytes \<Rightarrow> bytes" where
  "sealed_header seal c f = seal (cs_k c) (noise_nonce (cs_n c)) (take SV2_FRAME_HEADER_LEN f)"

definition sealed_payload :: "aead_seal \<Rightarrow> cipher_state \<Rightarrow> bytes \<Rightarrow> bytes" where
  "sealed_payload seal c f =
     the (fst (noise_encrypt_chunks seal (advance 1 c) (drop SV2_FRAME_HEADER_LEN f) (payload_len f)))"

definition sealed_frame :: "aead_seal \<Rightarrow> cipher_state \<Rightarrow> bytes \<Rightarrow> bytes" where
  "sealed_frame seal c f = sealed_header seal c f @ sealed_payload seal c f"

definition frame_ops :: "bytes \<Rightarrow> nat" where
  "frame_ops f = 1 + chunk_count (payload_len f)"

lemma decode_header_take: "sv2_decode_header (take 6 f) = sv2_decode_header f"
proof (cases "length f < 6")
  case False
  have "take 6 f ! i = f ! i" if "i < 6" for i using that by simp
  then show ?thesis
    using False by (simp add: sv2_decode_header_def SV2_FRAME_HEADER_LEN_def)
qed simp

lemma decode_header_length: "sv2_decode_header f = Some fr \<Longrightarrow> unat (fr_msg_length fr) \<le> 0xffffff"
  by (auto simp: sv2_decode_header_def Let_def SV2_MAX_PAYLOAD_def word_less_nat_alt split: if_splits)

lemma valid_frameD:
  assumes "valid_frame f"
  obtains fr where "sv2_decode_header f = Some fr" and "unat (fr_msg_length fr) = payload_len f"
    and "length f = 6 + payload_len f" and "payload_len f \<le> 0xffffff"
proof -
  obtain fr where fr: "sv2_decode_header f = Some fr"
      "length f = SV2_FRAME_HEADER_LEN + unat (fr_msg_length fr)"
    using assms unfolding valid_frame_def by blast
  show thesis
    using that [OF fr(1)] fr(2) decode_header_length [OF fr(1)]
    by (simp add: payload_len_def SV2_FRAME_HEADER_LEN_def)
qed

lemma sealed_lengths:
  assumes "aead_laws seal opn" and "cs_has_key c" and "valid_frame f"
  shows "length (sealed_header seal c f) = 22"
    and "length (sealed_payload seal c f) = ct_len (payload_len f)"
    and "length (sealed_frame seal c f) = 22 + ct_len (payload_len f)"
proof -
  from valid_frameD [OF assms(3)] have l: "length f = 6 + payload_len f" by metis
  then show h: "length (sealed_header seal c f) = 22"
    by (simp add: sealed_header_def aead_seal_length [OF assms(1)] noise_consts)
  show p: "length (sealed_payload seal c f) = ct_len (payload_len f)"
    using chunks_roundtrip [OF assms(1), of "advance 1 c" "drop SV2_FRAME_HEADER_LEN f" "payload_len f"]
      assms(2) l
    by (auto simp: sealed_payload_def noise_consts)
  show "length (sealed_frame seal c f) = 22 + ct_len (payload_len f)"
    by (simp add: sealed_frame_def h p)
qed

definition nonce_limit :: nat where "nonce_limit = unat SV2_NOISE_NONCE_WATERMARK"

lemma nonce_limit_eq: "nonce_limit = 18446744073708503039"
  by (simp add: nonce_limit_def SV2_NOISE_NONCE_WATERMARK_def)

lemma budget_nat:
  "noise_nonce_has_budget c need \<longleftrightarrow>
    cs_has_key c \<and> 1 \<le> unat need \<and> unat (cs_n c) + unat need \<le> nonce_limit"
proof -
  have "unat (SV2_NOISE_NONCE_WATERMARK - cs_n c) = nonce_limit - unat (cs_n c)"
    if "cs_n c < SV2_NOISE_NONCE_WATERMARK"
    using that by (simp add: nonce_limit_def unat_sub word_less_nat_alt word_le_nat_alt)
  then show ?thesis
    by (auto simp: noise_nonce_has_budget_def word_less_nat_alt word_le_nat_alt not_le
        simp flip: nonce_limit_def)
qed

lemma encrypt_frame_sealed:
  assumes laws: "aead_laws seal opn" and d: "ns_handshake_done s" and v: "valid_frame f"
    and b: "cs_has_key (ns_send_cs s)"
      "unat (cs_n (ns_send_cs s)) + frame_ops f \<le> nonce_limit"
  shows "sv2_noise_encrypt_frame seal s f =
    (Some (sealed_frame seal (ns_send_cs s) f), s\<lparr>ns_send_cs := advance (frame_ops f) (ns_send_cs s)\<rparr>)"
proof -
  let ?c = "ns_send_cs s"
  obtain fr where fr: "sv2_decode_header f = Some fr" "unat (fr_msg_length fr) = payload_len f"
    "length f = 6 + payload_len f" "payload_len f \<le> 0xffffff" using valid_frameD [OF v] by metis
  have hdr: "cs_encrypt seal ?c (take SV2_FRAME_HEADER_LEN f) = (Some (sealed_header seal ?c f), advance 1 ?c)"
    by (simp add: cs_encrypt_keyed [OF b(1)] sealed_header_def)
  obtain ct where ct: "noise_encrypt_chunks seal (advance 1 ?c) (drop SV2_FRAME_HEADER_LEN f) (payload_len f) =
      (Some ct, advance (chunk_count (payload_len f)) (advance 1 ?c))"
    using chunks_roundtrip [OF laws, of "advance 1 ?c" "drop SV2_FRAME_HEADER_LEN f" "payload_len f"]
      b(1) fr(3) by (auto simp: noise_consts)
  have bud: "noise_nonce_has_budget ?c (noise_frame_chunk_count (fr_msg_length fr))"
    using b frame_chunk_count_nat [of "fr_msg_length fr"] fr
    by (simp add: budget_nat frame_ops_def)
  show ?thesis
    using d fr hdr ct bud sealed_lengths(1) [OF laws b(1) v]
    by (simp add: sv2_noise_encrypt_frame_def sealed_frame_def sealed_payload_def frame_ops_def noise_consts)
qed

section \<open>Receiving a frame in pieces\<close>

text \<open>
  The receiver waits for frame \<open>f\<close> sealed from \<open>c\<close>: before its header, or with the header
  decrypted and stashed.
\<close>

definition expects :: "noise_session \<Rightarrow> cipher_state \<Rightarrow> bytes \<Rightarrow> bool" where
  "expects r c f \<longleftrightarrow>
     ns_handshake_done r \<and>
     (\<not> ns_hdr_pending r \<and> ns_recv_cs r = c \<or>
      ns_hdr_pending r \<and> ns_recv_cs r = advance 1 c \<and> ns_hdr_pt r = take 6 f \<and>
      unat (ns_pending_pt_len r) = payload_len f \<and>
      ns_pending_need r = 22 + ct_len (payload_len f))"

definition room_for :: "cipher_state \<Rightarrow> nat \<Rightarrow> bool" where
  "room_for c k \<longleftrightarrow> cs_has_key c \<and> unat (cs_n c) + k \<le> nonce_limit"

lemma room_for_advance:
  "room_for c (j + k) \<Longrightarrow> room_for (advance j c) k \<and> unat (cs_n (advance j c)) = unat (cs_n c) + j"
  by (auto simp: room_for_def nonce_limit_eq unat_word_ariths unat_of_nat)

lemma decrypt_payload_sealed:
  assumes laws: "aead_laws seal opn" and v: "valid_frame f" and k: "cs_has_key c"
    and c: "ns_recv_cs s = advance 1 c" and n: "unat pt_len = payload_len f"
  shows "noise_decrypt_payload opn s (sealed_frame seal c f @ tail) (take 6 f) pt_len need =
    (Frame f need, s\<lparr>ns_recv_cs := advance (frame_ops f) c\<rparr>)"
proof -
  from valid_frameD [OF v] have l: "length f = 6 + payload_len f" by metis
  then have p: "length (drop SV2_FRAME_HEADER_LEN f) = payload_len f" by (simp add: noise_consts)
  obtain ct where ct: "noise_encrypt_chunks seal (advance 1 c) (drop SV2_FRAME_HEADER_LEN f) (payload_len f) =
      (Some ct, advance (chunk_count (payload_len f)) (advance 1 c))"
    "\<And>r. noise_decrypt_chunks opn (advance 1 c) (ct @ r) (payload_len f) =
      (Some (drop SV2_FRAME_HEADER_LEN f), advance (chunk_count (payload_len f)) (advance 1 c))"
    using chunks_roundtrip [OF laws _ p, of "advance 1 c"] k by auto
  have "drop SV2_ENCRYPTED_HEADER_LEN (sealed_frame seal c f @ tail) = ct @ tail"
    using sealed_lengths(1) [OF laws k v] ct(1)
    by (simp add: sealed_frame_def sealed_payload_def noise_consts)
  moreover have "take 6 f @ drop SV2_FRAME_HEADER_LEN f = f" by (simp add: noise_consts)
  ultimately show ?thesis
    using ct(2) [of tail] by (simp only: noise_decrypt_payload_def c n frame_ops_def) simp
qed

lemma decrypt_frame_step:
  assumes laws: "aead_laws seal opn" and v: "valid_frame f" and room: "room_for c (frame_ops f)"
    and ex: "expects r c f" and pre: "inb @ fut = sealed_frame seal c f @ tail"
  shows "if length inb < 22 + ct_len (payload_len f)
    then \<exists>r'. sv2_noise_decrypt_frame opn r inb = (Need_more, r') \<and> expects r' c f \<and>
      ns_send_cs r' = ns_send_cs r
    else \<exists>r'. sv2_noise_decrypt_frame opn r inb = (Frame f (22 + ct_len (payload_len f)), r') \<and>
      ns_handshake_done r' \<and> \<not> ns_hdr_pending r' \<and> ns_recv_cs r' = advance (frame_ops f) c \<and>
      ns_send_cs r' = ns_send_cs r"
proof -
  let ?need = "22 + ct_len (payload_len f)"
  have key: "cs_has_key c" using room by (simp add: room_for_def)
  obtain fr where fr: "sv2_decode_header f = Some fr" "unat (fr_msg_length fr) = payload_len f"
    "length f = 6 + payload_len f" "payload_len f \<le> 0xffffff" using valid_frameD [OF v] by metis
  have need: "unat (sv2_pt_len_to_ct_len (fr_msg_length fr)) = ct_len (payload_len f)"
    using pt_len_to_ct_len_nat [of "fr_msg_length fr"] fr by simp
  have fin: "\<exists>tail'. inb = sealed_frame seal c f @ tail'" if "\<not> length inb < ?need"
  proof -
    let ?s = "sealed_frame seal c f"
    have "length ?s \<le> length inb" using that sealed_lengths(3) [OF laws key v] by simp
    moreover from this have "take (length ?s) inb = ?s"
      using arg_cong [OF pre, of "take (length ?s)"] by simp
    ultimately show ?thesis by (metis append_take_drop_id)
  qed
  have pay: "noise_frame_chunk_count n - 1 \<noteq> 0 \<longrightarrow>
      noise_nonce_has_budget (advance 1 c) (noise_frame_chunk_count n - 1)"
    if "unat n = payload_len f" for n
  proof
    assume nz: "noise_frame_chunk_count n - 1 \<noteq> 0"
    have "unat (noise_frame_chunk_count n) = frame_ops f"
      using frame_chunk_count_nat [of n] that fr(4) by (simp add: frame_ops_def)
    moreover from this have "unat (noise_frame_chunk_count n - 1) = chunk_count (payload_len f)"
      by (simp add: unat_sub word_le_nat_alt frame_ops_def)
    moreover from this nz have "chunk_count (payload_len f) \<noteq> 0" by (metis unat_eq_zero)
    ultimately show "noise_nonce_has_budget (advance 1 c) (noise_frame_chunk_count n - 1)"
      using room_for_advance [of c 1 "chunk_count (payload_len f)"] room
      by (simp add: budget_nat frame_ops_def room_for_def)
  qed
  have hs: "ns_handshake_done r" using ex by (simp add: expects_def)
  show ?thesis
  proof (cases "ns_hdr_pending r")
    case True
    let ?r = "r\<lparr>ns_hdr_pending := False, ns_pending_need := 0, ns_pending_pt_len := 0\<rparr>"
    have p: "ns_recv_cs r = advance 1 c" "ns_hdr_pt r = take 6 f"
      "unat (ns_pending_pt_len r) = payload_len f" "ns_pending_need r = ?need"
      using ex True by (auto simp: expects_def)
    show ?thesis
    proof (cases "length inb < ?need")
      case short: True
      then show ?thesis using ex True p hs by (simp add: sv2_noise_decrypt_frame_def)
    next
      case full: False
      then obtain tail' where t: "inb = sealed_frame seal c f @ tail'" using fin by blast
      have "noise_decrypt_payload opn ?r inb (take 6 f) (ns_pending_pt_len r) ?need =
          (Frame f ?need, ?r\<lparr>ns_recv_cs := advance (frame_ops f) c\<rparr>)"
        unfolding t by (rule decrypt_payload_sealed [OF laws v key]) (simp_all add: p)
      then show ?thesis
        using full True p hs pay [OF p(3)]
        by (auto simp: sv2_noise_decrypt_frame_def Let_def)
    qed
  next
    case False
    then have c: "ns_recv_cs r = c" using ex by (simp add: expects_def)
    let ?r = "r\<lparr>ns_recv_cs := advance 1 c\<rparr>"
    show ?thesis
    proof (cases "length inb < 22")
      case True
      then show ?thesis using ex False hs by (simp add: sv2_noise_decrypt_frame_def noise_consts)
    next
      case hdr: False
      have tk: "take SV2_ENCRYPTED_HEADER_LEN inb = sealed_header seal c f"
      proof -
        have "take 22 inb = take 22 (inb @ fut)" using hdr by simp
        also have "\<dots> = sealed_header seal c f"
          using sealed_lengths(1) [OF laws key v] by (simp add: pre sealed_frame_def)
        finally show ?thesis by (simp add: noise_consts)
      qed
      have dec: "cs_decrypt opn c (take SV2_ENCRYPTED_HEADER_LEN inb) = (Some (take 6 f), advance 1 c)"
        unfolding tk sealed_header_def
        using cs_decrypt_sealed [OF laws key] by (simp add: noise_consts)
      have b1: "noise_nonce_has_budget c 1"
        using room by (simp add: budget_nat room_for_def frame_ops_def)
      have l6: "length (take 6 f) = SV2_FRAME_HEADER_LEN" using fr(3) by (simp add: noise_consts)
      have h22: "\<not> length inb < SV2_ENCRYPTED_HEADER_LEN" using hdr by (simp add: noise_consts)
      have n22: "SV2_ENCRYPTED_HEADER_LEN + unat (sv2_pt_len_to_ct_len (fr_msg_length fr)) = ?need"
        by (simp add: need noise_consts)
      have step: "sv2_noise_decrypt_frame opn r inb =
          (if length inb < ?need then
             (Need_more, ?r\<lparr>ns_hdr_pt := take 6 f, ns_pending_pt_len := fr_msg_length fr,
                            ns_pending_need := ?need, ns_hdr_pending := True\<rparr>)
           else noise_decrypt_payload opn ?r inb (take 6 f) (fr_msg_length fr) ?need)"
        using hs False c b1 dec l6 h22 fr(1) decode_header_take [of f] pay [OF fr(2)]
        by (simp add: sv2_noise_decrypt_frame_def Let_def n22) blast
      show ?thesis
      proof (cases "length inb < ?need")
        case True
        then show ?thesis
          using step hs fr(2) by (simp add: expects_def)
      next
        case full: False
        then obtain tail' where t: "inb = sealed_frame seal c f @ tail'" using fin by blast
        have "noise_decrypt_payload opn ?r inb (take 6 f) (fr_msg_length fr) ?need =
            (Frame f ?need, ?r\<lparr>ns_recv_cs := advance (frame_ops f) c\<rparr>)"
          unfolding t by (rule decrypt_payload_sealed [OF laws v key]) (simp_all add: fr)
        then show ?thesis using step full hs False by simp
      qed
    qed
  qed
qed

section \<open>Nonces\<close>

lemma noise_nonce_le: "noise_nonce n = replicate 4 0 @ le_bytes 8 n"
  by (simp add: noise_nonce_def le_bytes_def)

lemma noise_nonce_inj: assumes "noise_nonce m = noise_nonce n" shows "m = n"
proof -
  have le_back: "le_word (le_bytes 8 v) = v" for v :: u64
    by (simp add: le_word_le_bytes take_bit_word_eq_self)
  have "le_bytes 8 m = le_bytes 8 n" using assms by (simp add: noise_nonce_le)
  then show ?thesis by (metis le_back)
qed

text \<open>
  A frame is sealed exactly when it is well formed and its AEAD calls stay below the watermark;
  the counter then moves past all of them without wrapping, and otherwise does not move.
\<close>

lemma encrypt_frame_outcome:
  assumes laws: "aead_laws seal opn"
    and r: "sv2_noise_encrypt_frame seal s f = (out, s')"
  shows "if ns_handshake_done s \<and> valid_frame f \<and> room_for (ns_send_cs s) (frame_ops f)
    then out = Some (sealed_frame seal (ns_send_cs s) f) \<and>
      unat (cs_n (ns_send_cs s')) = unat (cs_n (ns_send_cs s)) + frame_ops f \<and>
      unat (cs_n (ns_send_cs s')) \<le> nonce_limit
    else out = None \<and> s' = s"
proof (cases "ns_handshake_done s \<and> valid_frame f \<and> room_for (ns_send_cs s) (frame_ops f)")
  case True
  then have d: "ns_handshake_done s" and v: "valid_frame f" and b: "cs_has_key (ns_send_cs s)"
    "unat (cs_n (ns_send_cs s)) + frame_ops f \<le> nonce_limit" by (simp_all add: room_for_def)
  then show ?thesis
    using encrypt_frame_sealed [OF laws d v b] r room_for_advance [of "ns_send_cs s" "frame_ops f" 0]
    by (simp add: room_for_def)
next
  case False
  have "sv2_noise_encrypt_frame seal s f = (None, s)"
  proof (cases "ns_handshake_done s \<and> valid_frame f")
    case True
    then obtain fr where fr: "sv2_decode_header f = Some fr" "unat (fr_msg_length fr) = payload_len f"
      "length f = 6 + payload_len f" "payload_len f \<le> 0xffffff" using valid_frameD by metis
    have "\<not> noise_nonce_has_budget (ns_send_cs s) (noise_frame_chunk_count (fr_msg_length fr))"
      using False True frame_chunk_count_nat [of "fr_msg_length fr"] fr
      by (simp add: budget_nat frame_ops_def room_for_def)
    then show ?thesis using fr by (simp add: sv2_noise_encrypt_frame_def)
  next
    case bad: False
    then show ?thesis
      by (auto simp: sv2_noise_encrypt_frame_def valid_frame_def split: option.splits)
  qed
  then show ?thesis using r unfolding if_not_P [OF False] by simp
qed

end
