(* ===== verification/Sv2_Transport.thy ===== *)
theory Sv2_Transport
  imports Sv2_Noise
begin

text \<open>
  The reassembly buffer and the frame loop of \<^verbatim>\<open>src/src/sv2_conn.c\<close> over the noise transport:
  \<open>rx_append\<close>, \<open>sv2_conn_feed\<close> once the handshake is complete, \<open>sv2_conn_encrypt\<close>.  The doubling
  loop of \<open>rx_append\<close> does not end for a capacity of zero, so it is a partial function; that
  it returns on every reachable connection is part of what is proved.  The stream theorem at
  the end says that frames encrypted by one peer and cut into reads anywhere arrive at the
  other in order and intact.
\<close>

section \<open>The connection\<close>

record sv2_conn =
  cn_noise :: noise_session
  cn_rx :: bytes
  cn_rx_cap :: nat
  cn_rx_max :: nat
  cn_hs_inflight :: bool

definition sv2_conn_new :: "noise_session \<Rightarrow> sv2_conn" where
  "sv2_conn_new noise =
     \<lparr> cn_noise = noise, cn_rx = [], cn_rx_cap = SV2_RX_CAP_INITIAL,
       cn_rx_max = sv2_rx_max_for_payload (of_nat SV2_MAX_MINING_PAYLOAD), cn_hs_inflight = False \<rparr>"

definition sv2_conn_set_rx_max :: "sv2_conn \<Rightarrow> nat \<Rightarrow> sv2_conn" where
  "sv2_conn_set_rx_max c rx_max =
     (if rx_max < SV2_RX_CAP_INITIAL then c
      else c\<lparr>cn_rx_max := rx_max,
             cn_rx_cap := (if cn_rx_cap c > rx_max then rx_max else cn_rx_cap c)\<rparr>)"

partial_function (option) rx_grow :: "nat \<Rightarrow> nat \<Rightarrow> nat option" where
  "rx_grow ncap need = (if ncap < need then rx_grow (ncap * 2) need else Some ncap)"

text \<open>
  The outer option is whether the call returns, the inner one whether it returns \<open>true\<close>.
  The buffer holds \<open>rx_len\<close> bytes of \<open>rx_cap\<close>.
\<close>

definition rx_append :: "sv2_conn \<Rightarrow> bytes \<Rightarrow> sv2_conn option option" where
  "rx_append c data =
     (let need = length (cn_rx c) + length data in
      if need > cn_rx_max c then Some None
      else if need > cn_rx_cap c then do {
        ncap \<leftarrow> rx_grow (cn_rx_cap c) need;
        let ncap = (if ncap > cn_rx_max c then cn_rx_max c else ncap);
        if ncap < need then Some None
        else Some (Some (c\<lparr>cn_rx_cap := ncap, cn_rx := cn_rx c @ data\<rparr>)) }
      else Some (Some (c\<lparr>cn_rx := cn_rx c @ data\<rparr>)))"

section \<open>The frame loop\<close>

lemma decrypt_frame_consumes:
  assumes "sv2_noise_decrypt_frame opn s inb = (Frame f n, s')"
  shows "n \<le> length inb \<and> \<not> ns_hdr_pending s' \<and> (22 \<le> n \<or> ns_hdr_pending s)"
proof -
  have p: "m = n \<and> ns_hdr_pending s' = ns_hdr_pending s1"
    if "noise_decrypt_payload opn s1 inb h l m = (Frame f n, s')" for s1 h l m
    using that by (auto simp: noise_decrypt_payload_def split: prod.splits option.splits)
  show ?thesis
    using assms
    by (auto simp: sv2_noise_decrypt_frame_def Let_def noise_consts dest!: p
        split: if_splits prod.splits option.splits)
qed

text \<open>\<open>while (c->rx_len > 0)\<close>: whether no fatal error came up, the frames, session and buffer left.\<close>

function feed_loop ::
  "aead_open \<Rightarrow> noise_session \<Rightarrow> bytes \<Rightarrow> bytes list \<Rightarrow> bool \<times> bytes list \<times> noise_session \<times> bytes"
where
  "feed_loop opn s rx frames =
     (if rx = [] then (True, frames, s, rx)
      else case sv2_noise_decrypt_frame opn s rx of
             (Need_more, s) \<Rightarrow> (True, frames, s, rx)
           | (Fatal, s) \<Rightarrow> (False, frames, s, rx)
           | (Frame plain consumed, s) \<Rightarrow> feed_loop opn s (drop consumed rx) (frames @ [plain]))"
  by auto

termination feed_loop
proof (relation "measure (\<lambda>(_, s, rx, _). 2 * length rx + (if ns_hdr_pending s then 1 else 0))",
    goal_cases)
  case 1
  then show ?case by simp
next
  case (2 opn s rx frames rc s' plain consumed)
  have "sv2_noise_decrypt_frame opn s rx = (Frame plain consumed, s')"
    using 2(2,3) by simp
  from decrypt_frame_consumes [OF this] show ?case
    using 2(1) by (cases rx) (auto simp: not_le)
qed

declare feed_loop.simps [simp del]

text \<open>
  \<open>sv2_conn_feed\<close> with the handshake complete: the return value and the frames handed out.
  A buffer that drained gives its memory back.
\<close>

definition sv2_conn_feed :: "aead_open \<Rightarrow> sv2_conn \<Rightarrow> bytes \<Rightarrow> (bool \<times> bytes list \<times> sv2_conn) option" where
  "sv2_conn_feed opn c data = do {
     r \<leftarrow> rx_append c data;
     case r of
       None \<Rightarrow> Some (False, [], c)
     | Some c \<Rightarrow>
         let (ok, frames, s, rx) = feed_loop opn (cn_noise c) (cn_rx c) [];
             c = c\<lparr>cn_noise := s, cn_rx := rx\<rparr>
         in if \<not> ok then Some (False, frames, c)
            else if rx = [] \<and> cn_rx_cap c > SV2_RX_CAP_INITIAL
            then Some (True, frames, c\<lparr>cn_rx_cap := SV2_RX_CAP_INITIAL\<rparr>)
            else Some (True, frames, c) }"

definition sv2_conn_encrypt :: "aead_seal \<Rightarrow> sv2_conn \<Rightarrow> bytes \<Rightarrow> bytes option \<times> sv2_conn" where
  "sv2_conn_encrypt seal c plain =
     (if \<not> ns_handshake_done (cn_noise c) then (None, c)
      else let (out, s) = sv2_noise_encrypt_frame seal (cn_noise c) plain
           in (out, c\<lparr>cn_noise := s\<rparr>))"

section \<open>The buffer invariant\<close>

definition conn_ok :: "sv2_conn \<Rightarrow> bool" where
  "conn_ok c \<longleftrightarrow> length (cn_rx c) \<le> cn_rx_cap c \<and> cn_rx_cap c \<le> cn_rx_max c \<and>
     SV2_RX_CAP_INITIAL \<le> cn_rx_cap c"

lemma rx_grow_returns:
  "0 < ncap \<Longrightarrow> \<exists>m. rx_grow ncap need = Some m \<and> ncap \<le> m \<and> need \<le> m \<and> (need \<le> ncap \<or> m < 2 * need)"
proof (induction "need - ncap" arbitrary: ncap rule: less_induct)
  case less
  show ?case
  proof (cases "ncap < need")
    case True
    then have "need - ncap * 2 < need - ncap" "0 < ncap * 2" using less.prems by simp_all
    from less.hyps [OF this] obtain m where "rx_grow (ncap * 2) need = Some m" "ncap * 2 \<le> m"
      "need \<le> m" "need \<le> ncap * 2 \<or> m < 2 * need" by blast
    moreover have "rx_grow ncap need = rx_grow (ncap * 2) need"
      using True by (subst rx_grow.simps) simp
    ultimately show ?thesis
      using True by (cases "need \<le> ncap * 2")
        (auto simp: rx_grow.simps [of "ncap * 2"] split: if_splits)
  next
    case False
    then show ?thesis by (subst rx_grow.simps) simp
  qed
qed

lemma rx_append_cases:
  assumes "conn_ok c"
  shows "if length (cn_rx c) + length data > cn_rx_max c then rx_append c data = Some None
    else \<exists>cap. rx_append c data = Some (Some (c\<lparr>cn_rx_cap := cap, cn_rx := cn_rx c @ data\<rparr>)) \<and>
      conn_ok (c\<lparr>cn_rx_cap := cap, cn_rx := cn_rx c @ data\<rparr>)"
proof -
  let ?need = "length (cn_rx c) + length data"
  have "0 < cn_rx_cap c" using assms by (simp add: conn_ok_def SV2_RX_CAP_INITIAL_def)
  from rx_grow_returns [OF this, of ?need] obtain m
    where m: "rx_grow (cn_rx_cap c) ?need = Some m" "cn_rx_cap c \<le> m" "?need \<le> m" by blast
  show ?thesis
  proof (cases "?need > cn_rx_cap c")
    case True
    then show ?thesis
      using assms m
      by (auto simp: rx_append_def Let_def conn_ok_def
          intro: exI [of _ "if m > cn_rx_max c then cn_rx_max c else m"])
  next
    case False
    then show ?thesis
      using assms
      by (auto simp: rx_append_def Let_def conn_ok_def intro!: exI [of _ "cn_rx_cap c"])
  qed
qed

lemma feed_loop_shrinks:
  "feed_loop opn s rx frames = (ok, frames', s', rx') \<Longrightarrow> length rx' \<le> length rx"
proof (induction opn s rx frames arbitrary: ok frames' s' rx' rule: feed_loop.induct)
  case (1 opn s rx frames)
  show ?case
  proof (cases "rx = []")
    case True
    then show ?thesis using "1.prems" by (simp add: feed_loop.simps [of opn s "[]" frames])
  next
    case False
    obtain rc s1 where d: "sv2_noise_decrypt_frame opn s rx = (rc, s1)" by force
    show ?thesis
    proof (cases rc)
      case (Frame plain consumed)
      then have "feed_loop opn s1 (drop consumed rx) (frames @ [plain]) = (ok, frames', s', rx')"
        using "1.prems" False d by (simp add: feed_loop.simps [of opn s rx frames])
      from "1.IH" [OF False d [symmetric] Frame this] show ?thesis by simp
    qed (use "1.prems" False d in \<open>auto simp: feed_loop.simps [of opn s rx frames]\<close>)
  qed
qed

text \<open>Whatever the peer sends, a feed returns and keeps the buffer within its ceiling.\<close>

lemma conn_feed_bounded:
  assumes "conn_ok c"
  shows "\<exists>ok frames c'. sv2_conn_feed opn c data = Some (ok, frames, c') \<and> conn_ok c' \<and>
    cn_rx_max c' = cn_rx_max c"
proof (cases "length (cn_rx c) + length data > cn_rx_max c")
  case True
  then show ?thesis using rx_append_cases [OF assms, of data] assms
    by (intro exI [of _ False]) (simp add: sv2_conn_feed_def)
next
  case False
  then obtain cap where a: "rx_append c data = Some (Some (c\<lparr>cn_rx_cap := cap, cn_rx := cn_rx c @ data\<rparr>))"
    "conn_ok (c\<lparr>cn_rx_cap := cap, cn_rx := cn_rx c @ data\<rparr>)"
    using rx_append_cases [OF assms, of data] by auto
  obtain ok frames s rx where l: "feed_loop opn (cn_noise c) (cn_rx c @ data) [] = (ok, frames, s, rx)"
    by (metis prod_cases4)
  have "length rx \<le> length (cn_rx c @ data)" by (rule feed_loop_shrinks [OF l])
  then show ?thesis using a l by (auto simp: sv2_conn_feed_def Let_def conn_ok_def)
qed

section \<open>The stream\<close>

fun stream :: "aead_seal \<Rightarrow> cipher_state \<Rightarrow> bytes list \<Rightarrow> bytes" where
  "stream seal c [] = []"
| "stream seal c (f # fs) = sealed_frame seal c f @ stream seal (advance (frame_ops f) c) fs"

definition total_ops :: "bytes list \<Rightarrow> nat" where
  "total_ops fs = sum_list (map frame_ops fs)"

text \<open>Sending frames one after the other produces the stream.\<close>

fun encrypt_all :: "aead_seal \<Rightarrow> sv2_conn \<Rightarrow> bytes list \<Rightarrow> bytes option" where
  "encrypt_all seal c [] = Some []"
| "encrypt_all seal c (f # fs) =
     (case sv2_conn_encrypt seal c f of
        (None, _) \<Rightarrow> None
      | (Some ct, c) \<Rightarrow> map_option (\<lambda>r. ct @ r) (encrypt_all seal c fs))"

lemma encrypt_all_stream:
  assumes laws: "aead_laws seal opn"
  shows "ns_handshake_done (cn_noise s) \<Longrightarrow> list_all valid_frame fs \<Longrightarrow>
    room_for (ns_send_cs (cn_noise s)) (total_ops fs) \<Longrightarrow>
    encrypt_all seal s fs = Some (stream seal (ns_send_cs (cn_noise s)) fs)"
proof (induction fs arbitrary: s)
  case (Cons f fs)
  let ?c = "ns_send_cs (cn_noise s)"
  let ?s = "s\<lparr>cn_noise := (cn_noise s)\<lparr>ns_send_cs := advance (frame_ops f) ?c\<rparr>\<rparr>"
  have room: "room_for ?c (frame_ops f + total_ops fs)" using Cons.prems by (simp add: total_ops_def)
  have "sv2_conn_encrypt seal s f = (Some (sealed_frame seal ?c f), ?s)"
    using encrypt_frame_sealed [OF laws, of "cn_noise s" f] Cons.prems room
    by (simp add: sv2_conn_encrypt_def room_for_def)
  moreover have "encrypt_all seal ?s fs = Some (stream seal (advance (frame_ops f) ?c) fs)"
    using Cons.IH [of ?s] Cons.prems room_for_advance [OF room] by simp
  ultimately show ?case by simp
qed simp

text \<open>
  \<open>sync r c fs rx fut\<close>: the receiver \<open>r\<close> with \<open>rx\<close> buffered and \<open>fut\<close> still to come will see
  exactly the frames \<open>fs\<close>, the sender being at \<open>c\<close>.
\<close>

definition sync ::
  "aead_seal \<Rightarrow> noise_session \<Rightarrow> cipher_state \<Rightarrow> bytes list \<Rightarrow> bytes \<Rightarrow> bytes \<Rightarrow> bool" where
  "sync seal r c fs rx fut \<longleftrightarrow>
     rx @ fut = stream seal c fs \<and> list_all valid_frame fs \<and> room_for c (total_ops fs) \<and>
     (case fs of [] \<Rightarrow> ns_handshake_done r \<and> \<not> ns_hdr_pending r \<and> ns_recv_cs r = c
      | f # _ \<Rightarrow> expects r c f)"

lemma sync_ready:
  assumes "ns_handshake_done r" "\<not> ns_hdr_pending r" "ns_recv_cs r = c"
    and "rx @ fut = stream seal c fs" "list_all valid_frame fs" "room_for c (total_ops fs)"
  shows "sync seal r c fs rx fut"
  using assms by (auto simp: sync_def expects_def split: list.split)

lemma feed_loop_stream:
  assumes laws: "aead_laws seal opn"
  shows "sync seal r c fs rx fut \<Longrightarrow>
    \<exists>fs1 fs2 r' c' rx'. feed_loop opn r rx acc = (True, acc @ fs1, r', rx') \<and> fs = fs1 @ fs2 \<and>
      sync seal r' c' fs2 rx' fut \<and>
      (rx' = [] \<or> fs2 \<noteq> [] \<and> length rx' < 22 + ct_len (payload_len (hd fs2)))"
proof (induction fs arbitrary: r c rx acc)
  case Nil
  then have "rx = []" by (simp add: sync_def)
  then show ?case
    using Nil by (intro exI [of _ "[]"] exI [of _ r] exI [of _ c]) (simp add: feed_loop.simps [of opn r "[]" acc])
next
  case (Cons f fs)
  let ?need = "22 + ct_len (payload_len f)"
  show ?case
  proof (cases "rx = []")
    case True
    then show ?thesis
      using Cons.prems
      by (intro exI [of _ "[]"] exI [of _ "f # fs"] exI [of _ r] exI [of _ c] exI [of _ "[]"])
         (simp add: feed_loop.simps [of opn r "[]" acc])
  next
    case False
    have s: "rx @ fut = sealed_frame seal c f @ stream seal (advance (frame_ops f) c) fs"
      "valid_frame f" "list_all valid_frame fs" "room_for c (frame_ops f + total_ops fs)" "expects r c f"
      using Cons.prems by (simp_all add: sync_def total_ops_def)
    have room: "room_for c (frame_ops f)" using s(4) by (simp add: room_for_def)
    note step = decrypt_frame_step [OF laws s(2) room s(5) s(1)]
    show ?thesis
    proof (cases "length rx < ?need")
      case True
      then obtain r' where r': "sv2_noise_decrypt_frame opn r rx = (Need_more, r')" "expects r' c f"
        using step by auto
      then have "sync seal r' c (f # fs) rx fut" using Cons.prems by (simp add: sync_def)
      then show ?thesis
        using r'(1) True False
        by (intro exI [of _ "[]"] exI [of _ "f # fs"] exI [of _ r'] exI [of _ c] exI [of _ rx])
           (simp add: feed_loop.simps [of opn r rx acc])
    next
      case full: False
      then obtain r' where r': "sv2_noise_decrypt_frame opn r rx = (Frame f ?need, r')"
        "ns_handshake_done r'" "\<not> ns_hdr_pending r'" "ns_recv_cs r' = advance (frame_ops f) c"
        using step by auto
      have len: "length (sealed_frame seal c f) = ?need"
        using sealed_lengths(3) [OF laws _ s(2)] room by (simp add: room_for_def)
      have "drop ?need rx @ fut = stream seal (advance (frame_ops f) c) fs"
        using arg_cong [OF s(1), of "drop ?need"] len full by simp
      then have "sync seal r' (advance (frame_ops f) c) fs (drop ?need rx) fut"
        using r' s(3) room_for_advance [OF s(4)] by (intro sync_ready) simp_all
      from Cons.IH [OF this, of "acc @ [f]"] obtain fs1 fs2 r2 c2 rx2 where
        "feed_loop opn r' (drop ?need rx) (acc @ [f]) = (True, (acc @ [f]) @ fs1, r2, rx2)"
        "fs = fs1 @ fs2" "sync seal r2 c2 fs2 rx2 fut"
        "rx2 = [] \<or> fs2 \<noteq> [] \<and> length rx2 < 22 + ct_len (payload_len (hd fs2))" by blast
      then show ?thesis
        using r'(1) False
        by (intro exI [of _ "f # fs1"] exI [of _ fs2] exI [of _ r2] exI [of _ c2] exI [of _ rx2])
           (simp add: feed_loop.simps [of opn r rx acc])
    qed
  qed
qed

section \<open>Segments\<close>

fun feed_segments :: "aead_open \<Rightarrow> sv2_conn \<Rightarrow> bytes list \<Rightarrow> (bool \<times> bytes list \<times> sv2_conn) option" where
  "feed_segments opn c [] = Some (True, [], c)"
| "feed_segments opn c (d # ds) = do {
     (ok, frames, c) \<leftarrow> sv2_conn_feed opn c d;
     if \<not> ok then Some (False, frames, c)
     else do { (ok, more, c) \<leftarrow> feed_segments opn c ds; Some (ok, frames @ more, c) } }"

lemma ct_len_chunks: "ct_len n = n + 16 * chunk_count n"
proof (induction n rule: less_induct)
  case (less n)
  consider "n = 0" | "0 < n" "n \<le> 65519" | "65519 < n" by linarith
  then show ?case
  proof cases
    case 1
    then show ?thesis by (simp add: ct_len_def chunk_count_def)
  next
    case 2
    then show ?thesis by (simp add: ct_len_small chunk_count_small)
  next
    case 3
    then show ?thesis
      using less.IH [of "n - 65519"] by (simp add: ct_len_step chunk_count_step)
  qed
qed

lemma ct_len_mono: "m \<le> n \<Longrightarrow> ct_len m \<le> ct_len n"
  unfolding ct_len_chunks chunk_count_def by (intro add_mono mult_le_mono div_le_mono) simp_all

text \<open>
  Any cut of the stream into reads of at most one socket read: with the ceiling sized for the
  largest payload allowed, no read is refused, every frame comes out once, in order, and
  nothing is left over.
\<close>

lemma feed_segments_stream:
  assumes laws: "aead_laws seal opn" and P: "unat P \<le> 0xffffff"
  shows "conn_ok c \<Longrightarrow> cn_rx_max c = sv2_rx_max_for_payload P \<Longrightarrow>
    list_all (\<lambda>d. length d \<le> SV2_RX_READ_CHUNK) segs \<Longrightarrow>
    list_all (\<lambda>f. payload_len f \<le> unat P) fs \<Longrightarrow>
    sync seal (cn_noise c) k fs (cn_rx c) (concat segs) \<Longrightarrow>
    cn_rx c = [] \<or> fs \<noteq> [] \<and> length (cn_rx c) < 22 + ct_len (payload_len (hd fs)) \<Longrightarrow>
    \<exists>c'. feed_segments opn c segs = Some (True, fs, c') \<and> cn_rx c' = [] \<and> conn_ok c'"
proof (induction segs arbitrary: c k fs)
  case Nil
  have "fs = []"
  proof (cases fs)
    case (Cons f fs')
    have "length (cn_rx c) = length (sealed_frame seal k f) + length (stream seal (advance (frame_ops f) k) fs')"
      using Nil.prems(5) arg_cong [of "cn_rx c" "stream seal k fs" length] by (simp add: sync_def Cons)
    moreover have "length (sealed_frame seal k f) = 22 + ct_len (payload_len f)"
      using Nil.prems(5) sealed_lengths(3) [OF laws] by (simp add: sync_def Cons room_for_def)
    ultimately show ?thesis using Nil.prems(6) by (auto simp: Cons)
  qed simp
  then show ?case using Nil.prems by (simp add: sync_def)
next
  case (Cons d segs)
  have "length (cn_rx c) \<le> 22 + ct_len (unat P)"
  proof (cases "cn_rx c = []")
    case False
    then obtain f fs' where "fs = f # fs'" "length (cn_rx c) < 22 + ct_len (payload_len f)"
      using Cons.prems(6) by (cases fs) auto
    then show ?thesis using Cons.prems(4) ct_len_mono [of "payload_len f" "unat P"] by simp
  qed simp
  then have fits: "\<not> length (cn_rx c) + length d > cn_rx_max c"
    using Cons.prems(2,3) pt_len_to_ct_len_nat [OF P]
    by (simp add: sv2_rx_max_for_payload_def noise_consts)
  then obtain cap where a: "rx_append c d = Some (Some (c\<lparr>cn_rx_cap := cap, cn_rx := cn_rx c @ d\<rparr>))"
    using rx_append_cases [OF Cons.prems(1), of d] by auto
  have "sync seal (cn_noise c) k fs (cn_rx c @ d) (concat segs)"
    using Cons.prems(5) by (simp add: sync_def)
  from feed_loop_stream [OF laws this, of "[]"] obtain fs1 fs2 r' k' rx' where
    l: "feed_loop opn (cn_noise c) (cn_rx c @ d) [] = (True, fs1, r', rx')" and fs: "fs = fs1 @ fs2"
    and s: "sync seal r' k' fs2 rx' (concat segs)"
    and e: "rx' = [] \<or> fs2 \<noteq> [] \<and> length rx' < 22 + ct_len (payload_len (hd fs2))" by auto
  obtain c' where f: "sv2_conn_feed opn c d = Some (True, fs1, c')" and c': "cn_noise c' = r'" "cn_rx c' = rx'"
    by (cases "rx' = [] \<and> cap > SV2_RX_CAP_INITIAL") (auto simp: sv2_conn_feed_def a l Let_def)
  have ok: "conn_ok c'" "cn_rx_max c' = cn_rx_max c"
    using conn_feed_bounded [OF Cons.prems(1), of opn d] f by auto
  have "\<exists>c''. feed_segments opn c' segs = Some (True, fs2, c'') \<and> cn_rx c'' = [] \<and> conn_ok c''"
    using Cons.prems(2-4) fs s e c' ok by (intro Cons.IH [where k = k']) simp_all
  then show ?case using f fs by auto
qed

lemma noise_stream_delivered:
  assumes laws: "aead_laws seal opn" and P: "unat P \<le> 0xffffff"
    and snd: "ns_handshake_done (cn_noise tx)" "room_for (ns_send_cs (cn_noise tx)) (total_ops fs)"
    and rcv: "ns_handshake_done (cn_noise rx)" "\<not> ns_hdr_pending (cn_noise rx)"
      "ns_recv_cs (cn_noise rx) = ns_send_cs (cn_noise tx)" "cn_rx rx = []"
      "conn_ok rx" "cn_rx_max rx = sv2_rx_max_for_payload P"
    and frames: "list_all (\<lambda>f. valid_frame f \<and> payload_len f \<le> unat P) fs"
    and cut: "encrypt_all seal tx fs = Some (concat segs)"
      "list_all (\<lambda>d. length d \<le> SV2_RX_READ_CHUNK) segs"
  shows "\<exists>rx'. feed_segments opn rx segs = Some (True, fs, rx') \<and> cn_rx rx' = []"
proof -
  have v: "list_all valid_frame fs" "list_all (\<lambda>f. payload_len f \<le> unat P) fs"
    using frames by (simp_all add: list_all_iff)
  have "concat segs = stream seal (ns_send_cs (cn_noise tx)) fs"
    using encrypt_all_stream [OF laws snd(1) v(1) snd(2)] cut(1) by simp
  then have "sync seal (cn_noise rx) (ns_send_cs (cn_noise tx)) fs (cn_rx rx) (concat segs)"
    using rcv snd v by (intro sync_ready) simp_all
  from feed_segments_stream [OF laws P rcv(5,6) cut(2) v(2) this] rcv(4) show ?thesis by auto
qed

end
