(* ===== verification/Positional.thy ===== *)
theory Positional
  imports Main
begin

text \<open>
  Positional notation: the number a digit list denotes, most significant digit first, and the
  digits of a number at a fixed length.  The address codecs (base 32, 58 and 256) are stated
  over it.
\<close>

definition val :: "nat \<Rightarrow> nat list \<Rightarrow> nat" where
  "val b ds = foldl (\<lambda>a d. a * b + d) 0 ds"

fun digits :: "nat \<Rightarrow> nat \<Rightarrow> nat \<Rightarrow> nat list" where
  "digits b 0 x = []"
| "digits b (Suc n) x = digits b n (x div b) @ [x mod b]"

lemma val_Nil [simp]: "val b [] = 0"
  by (simp add: val_def)

lemma val_snoc [simp]: "val b (ds @ [d]) = val b ds * b + d"
  by (simp add: val_def)

lemma val_append: "val b (xs @ ys) = val b xs * b ^ length ys + val b ys"
proof (induction ys rule: rev_induct)
  case Nil
  then show ?case by simp
next
  case (snoc y ys)
  have "val b (xs @ ys @ [y]) = val b (xs @ ys) * b + y"
    using val_snoc [of b "xs @ ys" y] by simp
  then show ?case by (simp add: snoc.IH algebra_simps)
qed

lemma val_Cons: "val b (d # ds) = d * b ^ length ds + val b ds"
  using val_append [of b "[d]" ds] by (simp add: val_def)

lemma val_less: "\<forall>d\<in>set ds. d < b \<Longrightarrow> val b ds < b ^ length ds"
proof (induction ds rule: rev_induct)
  case Nil
  then show ?case by simp
next
  case (snoc d ds)
  then have "val b ds + 1 \<le> b ^ length ds" and "d < b" by auto
  then have "(val b ds + 1) * b \<le> b ^ length ds * b" by (intro mult_right_mono) auto
  with \<open>d < b\<close> show ?case by (simp add: algebra_simps)
qed

lemma val_replicate_0 [simp]: "val b (replicate n 0) = 0"
  by (induction n) (simp_all add: val_Cons)

lemma length_digits [simp]: "length (digits b n x) = n"
  by (induction n arbitrary: x) auto

lemma digits_less: "0 < b \<Longrightarrow> d \<in> set (digits b n x) \<Longrightarrow> d < b"
  by (induction n arbitrary: x) auto

lemma val_digits: "val b (digits b n x) = x mod b ^ n"
proof (induction n arbitrary: x)
  case 0
  then show ?case by simp
next
  case (Suc n)
  show ?case
    by (simp add: Suc.IH mod_mult2_eq [of x b "b ^ n"] algebra_simps)
qed

lemma val_digits_id: "x < b ^ n \<Longrightarrow> val b (digits b n x) = x"
  by (simp add: val_digits)

lemma digits_val: "\<forall>d\<in>set ds. d < b \<Longrightarrow> digits b (length ds) (val b ds) = ds"
proof (induction ds rule: rev_induct)
  case Nil
  then show ?case by simp
next
  case (snoc d ds)
  then show ?case by simp
qed

lemma val_inject:
  assumes "val b xs = val b ys" and "length xs = length ys"
    and "\<forall>d\<in>set xs. d < b" and "\<forall>d\<in>set ys. d < b"
  shows "xs = ys"
proof -
  have "xs = digits b (length xs) (val b xs)" using digits_val assms(3) by simp
  also have "\<dots> = digits b (length ys) (val b ys)" using assms(1,2) by (simp only:)
  also have "\<dots> = ys" using digits_val assms(4) by simp
  finally show ?thesis .
qed

lemma val_take_le: "0 < b \<Longrightarrow> val b (take n ds) \<le> val b ds"
proof -
  assume "0 < b"
  then have "1 \<le> b ^ length (drop n ds)" by simp
  then have "val b (take n ds) * 1 \<le> val b (take n ds) * b ^ length (drop n ds)"
    by (intro mult_left_mono) auto
  then show ?thesis using val_append [of b "take n ds" "drop n ds"]
    by (simp only: append_take_drop_id)
qed

lemma val_eq_0: "0 < b \<Longrightarrow> val b ds = 0 \<longleftrightarrow> (\<forall>d\<in>set ds. d = 0)"
  by (induction ds) (auto simp: val_Cons)

end
