(* ===== verification/Checksum.thy ===== *)
theory Checksum
  imports Ck_Prelude Positional
begin

text \<open>
  The algebra behind the two address checksums, CashAddr's of eight values and Bech32's of six:
  a register of \<open>m\<close> five-bit values that is shifted and has the next value added to it, where
  the shift is linear.  The locale \<open>linear_checksum\<close> states what the code's step must satisfy;
  inside it are the two facts the decoders rest on: the checksum values are determined by what
  precedes them, and an error burst no longer than the checksum never goes unseen.
\<close>

section \<open>Words of five bits\<close>

lemma small_word:
  "unat (c :: 'a::len word) < 2 ^ k \<Longrightarrow> take_bit k c = c"
  by (simp add: word_unat_eq_iff unsigned_take_bit_eq take_bit_nat_eq_self)

lemma take_bit_word_less: "take_bit k c = c \<Longrightarrow> unat (c :: 'a::len word) < 2 ^ k"
  by (metis unsigned_take_bit_eq take_bit_nat_less_exp)

lemma unat_less_32: "w < 32 \<longleftrightarrow> unat w < 32" for w :: byte
  by (simp add: word_less_nat_alt)

lemma xor_less_32: "v < 32 \<Longrightarrow> w < 32 \<Longrightarrow> v XOR w < 32" for v w :: byte
  using small_word [of v 5] small_word [of w 5] take_bit_word_less [of 5 "v XOR w"]
  by (simp add: unat_less_32)

lemma and_1f_less: "c AND 0x1f < 32" for c :: byte
proof -
  have "(0x1f :: byte) = mask 5" by (simp add: mask_eq_exp_minus_1)
  then have "c AND 0x1f = take_bit 5 c" by (simp only: take_bit_eq_mask)
  then have "take_bit 5 (c AND 0x1f) = c AND 0x1f" by (simp only: take_bit_take_bit min.idem)
  then show ?thesis using take_bit_word_less [of 5 "c AND 0x1f"] by (simp add: unat_less_32)
qed

lemma unat_ucast_byte [simp]:
  "8 \<le> LENGTH('a) \<Longrightarrow> unat (ucast (v :: byte) :: 'a::len word) = unat v"
  using unat_byte_lt [of v] power_increasing [of 8 "LENGTH('a)" "2::nat"]
  by (simp add: unsigned_ucast_eq take_bit_nat_eq_self)

lemma map2_xor_zero:
  "length d = length e \<Longrightarrow> map2 (XOR) d e = replicate (length e) 0 \<Longrightarrow> d = e" for d e :: bytes
proof (induction d e rule: list_induct2)
  case Nil
  then show ?case by simp
next
  case (Cons v vs w ws)
  have "v XOR w = 0" using Cons.prems by simp
  then have "v XOR (v XOR w) = v" by simp
  then have "w = v" by (simp add: xor.assoc [symmetric])
  then show ?case using Cons by simp
qed

lemma xor_move: "a XOR b = c \<longleftrightarrow> b = a XOR c" for a b c :: "'a::len word"
  by (auto simp: xor.assoc [symmetric])

lemma map_unat_of_nat: "\<forall>d\<in>set ds. d < 32 \<Longrightarrow> map unat (map of_nat ds :: bytes) = ds"
  by (induction ds) (simp_all add: unat_of_nat)

lemma map_of_nat_unat: "map of_nat (map unat cs) = (cs :: bytes)"
  by (induction cs) simp_all

lemma map_unat_inject: "map unat xs = map unat ys \<Longrightarrow> xs = (ys :: bytes)"
  by (erule map_injective) (simp add: inj_def word_unat_eq_iff)

lemma val_bytes_inject:
  assumes "val 256 (map unat xs) = val 256 (map unat ys)" and "length xs = length (ys :: bytes)"
  shows "xs = ys"
  using assms unat_byte_lt by (intro map_unat_inject val_inject [where b = 256]) auto

lemma digits32_words:
  assumes "\<forall>c\<in>set cs. c < 32" and "x < 32 ^ length (cs :: bytes)"
  shows "val 32 (map unat cs) = x \<longleftrightarrow> cs = map of_nat (digits 32 (length cs) x)"
proof
  assume v: "val 32 (map unat cs) = x"
  have "map unat cs = digits 32 (length cs) x"
    using digits_val [of "map unat cs" 32] assms(1) by (simp add: v word_less_nat_alt)
  then show "cs = map of_nat (digits 32 (length cs) x)"
    using map_of_nat_unat [of cs] by simp
next
  assume "cs = map of_nat (digits 32 (length cs) x)"
  then have "map unat cs = map unat (map of_nat (digits 32 (length cs) x) :: bytes)"
    by (rule arg_cong)
  also have "\<dots> = digits 32 (length cs) x"
    by (rule map_unat_of_nat) (auto dest: digits_less [rotated])
  finally show "val 32 (map unat cs) = x"
    using val_digits_id [OF assms(2)] by simp
qed

lemma set_digits_words: "\<forall>w\<in>set (map of_nat (digits 32 n x) :: bytes). w < 32"
proof -
  have "d mod 256 < 32" if "d \<in> set (digits 32 n x)" for d
    using digits_less [of 32 d n x] that by simp
  then show ?thesis by (auto simp: word_less_nat_alt unat_of_nat)
qed

section \<open>The register\<close>

definition run :: "('a::len word \<Rightarrow> 'a word) \<Rightarrow> 'a word \<Rightarrow> bytes \<Rightarrow> 'a word" where
  "run shift c ws = foldl (\<lambda>c v. shift c XOR ucast v) c ws"

lemma run_simps [simp]:
  "run shift c [] = c" "run shift c (w # ws) = run shift (shift c XOR ucast w) ws"
  "run shift c (us @ ws) = run shift (run shift c us) ws"
  by (simp_all add: run_def)

definition checksum_values :: "('a::len word \<Rightarrow> 'a word) \<Rightarrow> nat \<Rightarrow> 'a word \<Rightarrow> bytes \<Rightarrow> bytes" where
  "checksum_values shift m target xs =
     map of_nat (digits 32 m (unat (run shift 1 (xs @ replicate m 0) XOR target)))"

locale linear_checksum =
  fixes shift :: "'a::len word \<Rightarrow> 'a word" and m :: nat
  assumes wide: "8 \<le> LENGTH('a)" "5 * m \<le> LENGTH('a)" "2 \<le> m"
    and shift_xor: "shift (a XOR b) = shift a XOR shift b"
    and shift_bound: "unat (shift c) < 2 ^ (5 * m)"
    and shift_small: "unat c < 2 ^ (5 * (m - 1)) \<Longrightarrow> shift c = push_bit 5 c"
    and shift_zero: "unat c < 2 ^ (5 * m) \<Longrightarrow> shift c = 0 \<Longrightarrow> c = 0"
begin

lemma run_xor:
  "length vs = length ws \<Longrightarrow>
    run shift a vs XOR run shift b ws = run shift (a XOR b) (map2 (XOR) vs ws)"
proof (induction vs ws arbitrary: a b rule: list_induct2)
  case Nil
  then show ?case by simp
next
  case (Cons v vs w ws)
  have "ucast (v XOR w) = (ucast v XOR ucast w :: 'a word)"
    by (rule bit_word_eqI) (auto simp: bit_simps)
  then have "(shift a XOR ucast v) XOR (shift b XOR ucast w) = shift (a XOR b) XOR ucast (v XOR w)"
    by (simp only: shift_xor xor.assoc xor.commute xor.left_commute)
  then show ?case by (simp add: Cons.IH)
qed

lemma run_bound:
  assumes "unat c < 2 ^ (5 * m)" and "\<forall>w\<in>set ws. w < 32"
  shows "unat (run shift c ws) < 2 ^ (5 * m)"
  using assms
proof (induction ws arbitrary: c)
  case Nil
  then show ?case by simp
next
  case (Cons w ws)
  have "(32::nat) \<le> 2 ^ (5 * m)"
    using power_increasing [of 5 "5 * m" "2::nat"] wide(3) by simp
  then have "unat (ucast w :: 'a word) < 2 ^ (5 * m)"
    using Cons.prems(2) wide(1) by (simp add: unat_less_32)
  then have "take_bit (5 * m) (shift c XOR ucast w) = shift c XOR ucast w"
    using small_word [OF shift_bound] by (simp add: small_word)
  then show ?case using Cons by (simp add: take_bit_word_less)
qed

lemma run_zeros:
  assumes "unat c < 2 ^ (5 * m)" and "run shift c (replicate n 0) = 0"
  shows "c = 0"
  using assms
proof (induction n arbitrary: c)
  case 0
  then show ?case by simp
next
  case (Suc n)
  have "shift c = 0"
    using Suc.prems(2) Suc.IH [of "shift c"] shift_bound by simp
  then show ?case using shift_zero [OF Suc.prems(1)] by simp
qed

text \<open>The values fill the register without a carry.\<close>

lemma unat_run_0:
  assumes "\<forall>w\<in>set ws. w < 32" and "length ws \<le> m"
  shows "unat (run shift 0 ws) = val 32 (map unat ws)"
  using assms
proof (induction ws rule: rev_induct)
  case Nil
  then show ?case by simp
next
  case (snoc w ws)
  then have w: "unat w < 32" and ws: "\<forall>w\<in>set ws. w < 32" and l: "length ws \<le> m - 1"
    by (auto simp: unat_less_32)
  have ih: "unat (run shift 0 ws) = val 32 (map unat ws)" using snoc ws by simp
  have "val 32 (map unat ws) < 32 ^ length (map unat ws)"
    using ws by (intro val_less) (auto simp: unat_less_32)
  also have "\<dots> \<le> 32 ^ (m - 1)" using l by (intro power_increasing) simp_all
  also have "\<dots> = 2 ^ (5 * (m - 1))" by (simp add: power_mult)
  finally have b: "unat (run shift 0 ws) < 2 ^ (5 * (m - 1))" by (simp add: ih)
  have "take_bit 5 (ucast w :: 'a word) = ucast w" using w wide(1) by (intro small_word) simp
  then have "push_bit 5 (run shift 0 ws) AND ucast w = 0"
    by (intro bit_word_eqI)
      (metis (full_types) bit_0_eq bit_and_iff bit_push_bit_iff bit_take_bit_iff bot_apply
        bot_bool_def not_less)
  then have "run shift 0 (ws @ [w]) = run shift 0 ws * 32 + ucast w"
    by (simp add: shift_small [OF b] push_bit_eq_mult disjunctive_add_eq_xor)
  moreover have "unat (run shift 0 ws) * 32 + unat w < 2 ^ LENGTH('a)"
  proof -
    have "unat (run shift 0 ws) * 32 + unat w < (unat (run shift 0 ws) + 1) * 32" using w by simp
    also have "\<dots> \<le> 2 ^ (5 * (m - 1)) * 2 ^ 5" using b by (intro mult_le_mono) simp_all
    also have "\<dots> = 2 ^ (5 * m)" using wide(3) by (cases m) (simp_all add: power_add)
    also have "\<dots> \<le> 2 ^ LENGTH('a)" using wide(2) by (intro power_increasing) simp_all
    finally show ?thesis .
  qed
  moreover have "run shift 0 ws * 32 + ucast w = of_nat (unat (run shift 0 ws) * 32 + unat w)"
    by simp
  ultimately have "unat (run shift 0 (ws @ [w])) = unat (run shift 0 ws) * 32 + unat w"
    by (simp only: unat_of_nat mod_less)
  then show ?case by (simp add: ih)
qed

lemma run_0_inject:
  assumes "\<forall>w\<in>set ws. w < 32" and "\<forall>v\<in>set vs. v < 32" and "length ws = length vs"
    and "length vs \<le> m" and "run shift 0 ws = run shift 0 vs"
  shows "ws = vs"
  using assms unat_run_0 [of ws] unat_run_0 [of vs]
  by (intro map_unat_inject val_inject [where b = 32]) (auto simp: unat_less_32)

lemma run_split: "run shift c ws = run shift c (replicate (length ws) 0) XOR run shift 0 ws"
proof -
  have "map2 (XOR) ws (replicate (length ws) 0) = ws"
    by (intro nth_equalityI) simp_all
  then have "run shift c (replicate (length ws) 0) XOR run shift c ws = run shift 0 ws"
    using run_xor [of ws "replicate (length ws) 0" c c] by (simp add: xor.commute)
  then show ?thesis by (rule iffD1 [OF xor_move])
qed

text \<open>The checksum values are determined by what precedes them.\<close>

lemma checksum_unique:
  assumes "length cs = m" and "\<forall>c\<in>set cs. c < 32" and "\<forall>x\<in>set xs. x < 32"
    and "unat target < 2 ^ (5 * m)"
  shows "run shift 1 (xs @ cs) = target \<longleftrightarrow> cs = checksum_values shift m target xs"
proof -
  let ?p = "run shift 1 (xs @ replicate m 0)"
  have p1: "unat (1 :: 'a word) < 2 ^ (5 * m)"
    using wide(3) one_less_power [of "2::nat" "5 * m"] by simp
  have "run shift 1 (xs @ cs) = ?p XOR run shift 0 cs"
    using run_split [of "run shift 1 xs" cs] assms(1) by simp
  then have "run shift 1 (xs @ cs) = target \<longleftrightarrow> val 32 (map unat cs) = unat (?p XOR target)"
    using assms by (simp only: xor_move) (simp add: word_unat_eq_iff unat_run_0)
  moreover have "unat (?p XOR target) < 32 ^ length cs"
  proof -
    have "unat ?p < 2 ^ (5 * m)" using assms(3) p1 by (intro run_bound) auto
    then have "unat (?p XOR target) < 2 ^ (5 * m)"
      using assms(4) by (intro take_bit_word_less) (simp add: small_word)
    then show ?thesis by (simp add: assms(1) power_mult)
  qed
  ultimately show ?thesis
    using digits32_words [OF assms(2)] assms(1) by (simp add: checksum_values_def)
qed

text \<open>Strings with one checksum that differ only within \<open>m\<close> consecutive values are equal.\<close>

lemma burst:
  assumes "run shift 1 (xs @ d @ ys) = run shift 1 (xs @ e @ ys)" and "length d = length e"
    and "length e \<le> m" and "\<forall>w\<in>set d. w < 32" and "\<forall>w\<in>set e. w < 32"
  shows "d = e"
proof -
  let ?s = "run shift 1 xs"
  let ?x = "map2 (XOR) d e"
  have "run shift ?s d XOR run shift ?s e = run shift 0 ?x"
    using run_xor [OF assms(2), of ?s ?s] by simp
  moreover have "map2 (XOR) ys ys = replicate (length ys) 0"
    by (intro nth_equalityI) simp_all
  ultimately have "run shift (run shift 0 ?x) (replicate (length ys) 0) =
      run shift ?s (d @ ys) XOR run shift ?s (e @ ys)"
    using run_xor [of ys ys "run shift ?s d" "run shift ?s e"] by simp
  also have "\<dots> = 0" using assms(1) by simp
  finally have z: "run shift (run shift 0 ?x) (replicate (length ys) 0) = 0" .
  have x: "\<forall>w\<in>set ?x. w < 32"
    using assms(4,5) by (auto intro!: xor_less_32 dest: set_zip_leftD set_zip_rightD)
  have "unat (run shift 0 ?x) < 2 ^ (5 * m)"
    using x by (intro run_bound) simp_all
  from run_zeros [OF this z] have "run shift 0 ?x = run shift 0 (replicate (length e) 0)"
    using assms(3) by (simp add: word_unat_eq_iff unat_run_0)
  then have "?x = replicate (length e) 0"
    using x assms(2,3) by (intro run_0_inject) auto
  then show "d = e" by (rule map2_xor_zero [OF assms(2)])
qed

end

end
