(* ===== verification/Cashaddr.thy ===== *)
theory Cashaddr
  imports Checksum
begin

text \<open>
  The CashAddr decoder of \<^verbatim>\<open>src/src/cashaddr_simple.c\<close>: the pre-authorisation path that turns a
  miner's username into the hash160 it is paid to.  A C string is the list of its bytes before
  the NUL; an argument that may be \<open>NULL\<close> in the code is never so here.  The decoder is
  characterised against the encoder of the CashAddr format, and the checksum is shown to catch
  every burst of up to eight characters.
\<close>

section \<open>The C library on strings\<close>

definition tolower :: "byte \<Rightarrow> byte" where
  "tolower c = (if 0x41 \<le> c \<and> c \<le> 0x5a then c + 0x20 else c)"

definition strchr :: "bytes \<Rightarrow> byte \<Rightarrow> nat option" where
  "strchr s c = (if c \<in> set s then Some (length (takeWhile (\<lambda>x. x \<noteq> c) s)) else None)"

text \<open>\<open>strncasecmp(a, b, n) == 0\<close>.\<close>

definition strncaseeq :: "bytes \<Rightarrow> bytes \<Rightarrow> nat \<Rightarrow> bool" where
  "strncaseeq a b n \<longleftrightarrow> map tolower (take n a) = map tolower (take n b)"

section \<open>The code\<close>

definition CHARSET_REV :: "int list" where
  "CHARSET_REV =
     [-1, -1, -1, -1, -1, -1, -1, -1, -1, -1, -1, -1, -1, -1, -1, -1,
      -1, -1, -1, -1, -1, -1, -1, -1, -1, -1, -1, -1, -1, -1, -1, -1,
      -1, -1, -1, -1, -1, -1, -1, -1, -1, -1, -1, -1, -1, -1, -1, -1,
      15, -1, 10, 17, 21, 20, 26, 30, 7, 5, -1, -1, -1, -1, -1, -1,
      -1, -1, -1, -1, -1, -1, -1, -1, -1, -1, -1, -1, -1, -1, -1, -1,
      -1, -1, -1, -1, -1, -1, -1, -1, -1, -1, -1, -1, -1, -1, -1, -1,
      -1, 29, -1, 24, 13, 25, 9, 8, 23, -1, 18, 22, 31, 27, 19, -1,
      1, 0, 3, 16, 11, 28, 12, 14, 6, 4, 2, -1, -1, -1, -1, -1]"

definition polymod_step :: "u64 \<Rightarrow> byte \<Rightarrow> u64" where
  "polymod_step c v =
     (let c0 = ucast (drop_bit 35 c) :: byte;
          c = push_bit 5 (c AND 0x07ffffffff) XOR ucast v;
          c = (if c0 AND 0x01 \<noteq> 0 then c XOR 0x98f2bc8e61 else c);
          c = (if c0 AND 0x02 \<noteq> 0 then c XOR 0x79b76d99e2 else c);
          c = (if c0 AND 0x04 \<noteq> 0 then c XOR 0xf33e5fb3c4 else c);
          c = (if c0 AND 0x08 \<noteq> 0 then c XOR 0xae2eabe2a8 else c)
      in if c0 AND 0x10 \<noteq> 0 then c XOR 0x1e4f43e470 else c)"

definition polymod :: "bytes \<Rightarrow> u64" where
  "polymod values = foldl polymod_step 1 values"

text \<open>
  The inner loop writes at most one byte for each input value; \<open>acc\<close> keeps its 32 bits, so the
  bits already written are shifted out of it or left above the ones still pending.
\<close>

function emit_bytes :: "u32 \<Rightarrow> nat \<Rightarrow> bytes \<Rightarrow> nat \<times> bytes" where
  "emit_bytes acc bits out =
     (if 8 \<le> bits
      then emit_bytes acc (bits - 8) (out @ [ucast (drop_bit (bits - 8) acc AND 0xff)])
      else (bits, out))"
  by pat_completeness auto

termination by (relation "measure (\<lambda>(_, bits, _). bits)") auto

declare emit_bytes.simps [simp del]

fun convert_loop :: "bytes \<Rightarrow> u32 \<Rightarrow> nat \<Rightarrow> bytes \<Rightarrow> (u32 \<times> nat \<times> bytes) option" where
  "convert_loop [] acc bits out = Some (acc, bits, out)"
| "convert_loop (value # rest) acc bits out =
     (if 32 \<le> value then None
      else let acc = push_bit 5 acc OR ucast value;
               (bits, out) = emit_bytes acc (bits + 5) out
           in convert_loop rest acc bits out)"

definition convert_bits_5to8 :: "bytes \<Rightarrow> bytes option" where
  "convert_bits_5to8 ins = do {
     (acc, bits, out) \<leftarrow> convert_loop ins 0 0 [];
     if 5 \<le> bits \<or> (0 < bits \<and> push_bit (8 - bits) acc AND 0xff \<noteq> 0) then None else Some out }"

definition case_is_consistent :: "bytes \<Rightarrow> bool" where
  "case_is_consistent s \<longleftrightarrow>
     \<not> ((\<exists>c\<in>set s. 0x61 \<le> c \<and> c \<le> 0x7a) \<and> (\<exists>c\<in>set s. 0x41 \<le> c \<and> c \<le> 0x5a))"

text \<open>The part of the address after the separator, when the prefix is the expected one.\<close>

definition cashaddr_payload_of :: "bytes \<Rightarrow> bytes \<Rightarrow> bytes option" where
  "cashaddr_payload_of addr expected_prefix =
     (case strchr addr 0x3a of
        Some prefix_len \<Rightarrow>
          if prefix_len \<noteq> length expected_prefix \<or>
             \<not> strncaseeq addr expected_prefix prefix_len
          then None else Some (drop (prefix_len + 1) addr)
      | None \<Rightarrow> Some addr)"

fun charset_values :: "bytes \<Rightarrow> bytes option" where
  "charset_values [] = Some []"
| "charset_values (c # cs) =
     (if c AND 0x80 \<noteq> 0 then None
      else let value = CHARSET_REV ! unat (tolower c) in
        if value < 0 then None
        else do { vs \<leftarrow> charset_values cs; Some (word_of_int value # vs) })"

definition checksum_ok :: "bytes \<Rightarrow> bytes \<Rightarrow> bool" where
  "checksum_ok expected_prefix data \<longleftrightarrow>
     length expected_prefix + 1 + length data \<le> 1 + 20 + 112 \<and>
     polymod (map (\<lambda>c. c AND 0x1f) expected_prefix @ [0] @ data) = 1"

definition cashaddr_decode_checked :: "bytes \<Rightarrow> bytes \<Rightarrow> (bytes \<times> bool) option" where
  "cashaddr_decode_checked addr expected_prefix =
     (if \<not> case_is_consistent addr then None
      else do {
        payload \<leftarrow> cashaddr_payload_of addr expected_prefix;
        if length payload < 14 \<or> 112 < length payload then None
        else do {
          data \<leftarrow> charset_values payload;
          if length data < 9 then None
          else if \<not> checksum_ok expected_prefix data then None
          else do {
            decoded \<leftarrow> convert_bits_5to8 (take (length data - 8) data);
            if length decoded < 21 then None
            else if length decoded \<noteq> 21 then None
            else
              let version = decoded ! 0; type = drop_bit 3 version AND 0x0f in
              if version AND 0x80 \<noteq> 0 then None
              else if type \<noteq> 0 \<and> type \<noteq> 1 then None
              else Some (take 20 (drop 1 decoded), type = 1) } } })"

text \<open>\<open>''bitcoincash''\<close>\<close>

definition bitcoincash :: bytes where
  "bitcoincash = [0x62, 0x69, 0x74, 0x63, 0x6f, 0x69, 0x6e, 0x63, 0x61, 0x73, 0x68]"

definition cashaddr_decode_simple :: "bytes \<Rightarrow> (bytes \<times> bool) option" where
  "cashaddr_decode_simple addr = cashaddr_decode_checked addr bitcoincash"

definition hash160_to_p2pkh_script :: "bytes \<Rightarrow> bytes" where
  "hash160_to_p2pkh_script hash160 = [0x76, 0xa9, 0x14] @ take 20 hash160 @ [0x88, 0xac]"

definition hash160_to_p2sh_script :: "bytes \<Rightarrow> bytes" where
  "hash160_to_p2sh_script hash160 = [0xa9, 0x14] @ take 20 hash160 @ [0x87]"

text \<open>The length returned is that of the list; \<open>0\<close> is \<open>None\<close>.\<close>

definition cashaddr_to_script :: "bytes \<Rightarrow> bytes option" where
  "cashaddr_to_script addr = do {
     (hash160, is_p2sh) \<leftarrow> cashaddr_decode_simple addr;
     Some (if is_p2sh then hash160_to_p2sh_script hash160 else hash160_to_p2pkh_script hash160) }"

section \<open>The format\<close>

text \<open>\<open>qpzry9x8gf2tvdw0s3jn54khce6mua7l\<close>\<close>

definition bech32_charset :: bytes where
  "bech32_charset =
     [0x71, 0x70, 0x7a, 0x72, 0x79, 0x39, 0x78, 0x38, 0x67, 0x66, 0x32, 0x74, 0x76, 0x64, 0x77, 0x30,
      0x73, 0x33, 0x6a, 0x6e, 0x35, 0x34, 0x6b, 0x68, 0x63, 0x65, 0x36, 0x6d, 0x75, 0x61, 0x37, 0x6c]"

definition expand_prefix :: "bytes \<Rightarrow> bytes" where
  "expand_prefix prefix = map (\<lambda>c. c AND 0x1f) prefix @ [0]"

text \<open>The eight checksum values of a prefix and the data values before them.\<close>

definition cashaddr_checksum :: "bytes \<Rightarrow> bytes \<Rightarrow> bytes" where
  "cashaddr_checksum prefix data =
     map of_nat (digits 32 8 (unat (polymod (expand_prefix prefix @ data @ replicate 8 0) XOR 1)))"

text \<open>Version byte and hash, 168 bits, as 34 values of five bits, the last one padded by two.\<close>

definition cashaddr_data :: "byte \<Rightarrow> bytes \<Rightarrow> bytes" where
  "cashaddr_data version hash160 = map of_nat (digits 32 34 (val 256 (map unat (version # hash160)) * 4))"

definition cashaddr_encode :: "bytes \<Rightarrow> byte \<Rightarrow> bytes \<Rightarrow> bytes" where
  "cashaddr_encode prefix version hash160 =
     (let data = cashaddr_data version hash160 in
      map (\<lambda>v. bech32_charset ! unat v) (data @ cashaddr_checksum prefix data))"

section \<open>The checksum step\<close>

definition poly_gen :: "nat \<Rightarrow> u64 \<Rightarrow> u64 \<Rightarrow> u64" where
  "poly_gen n G c = (if bit c n then G else 0)"

definition polymod_shift :: "u64 \<Rightarrow> u64" where
  "polymod_shift c = polymod_step c 0"

lemma c0_bits:
  "(ucast (drop_bit 35 (c :: u64)) :: byte) AND 0x01 \<noteq> 0 \<longleftrightarrow> bit c 35"
  "(ucast (drop_bit 35 c) :: byte) AND 0x02 \<noteq> 0 \<longleftrightarrow> bit c 36"
  "(ucast (drop_bit 35 c) :: byte) AND 0x04 \<noteq> 0 \<longleftrightarrow> bit c 37"
  "(ucast (drop_bit 35 c) :: byte) AND 0x08 \<noteq> 0 \<longleftrightarrow> bit c 38"
  "(ucast (drop_bit 35 c) :: byte) AND 0x10 \<noteq> 0 \<longleftrightarrow> bit c 39"
proof -
  have m: "(w :: byte) AND push_bit k 1 \<noteq> 0 \<longleftrightarrow> bit w k" if "k < 8" for w k
    using that by (simp add: and_exp_eq_0_iff_not_bit)
  have b: "bit (ucast (drop_bit 35 c) :: byte) k \<longleftrightarrow> bit c (35 + k)" if "k < 8" for k
    using that by (auto simp: bit_simps)
  show "(ucast (drop_bit 35 (c :: u64)) :: byte) AND 0x01 \<noteq> 0 \<longleftrightarrow> bit c 35"
    using m [of 0 "ucast (drop_bit 35 c)"] b [of 0] by simp
  show "(ucast (drop_bit 35 (c :: u64)) :: byte) AND 0x02 \<noteq> 0 \<longleftrightarrow> bit c 36"
    using m [of 1 "ucast (drop_bit 35 c)"] b [of 1] by simp
  show "(ucast (drop_bit 35 (c :: u64)) :: byte) AND 0x04 \<noteq> 0 \<longleftrightarrow> bit c 37"
    using m [of 2 "ucast (drop_bit 35 c)"] b [of 2] by simp
  show "(ucast (drop_bit 35 (c :: u64)) :: byte) AND 0x08 \<noteq> 0 \<longleftrightarrow> bit c 38"
    using m [of 3 "ucast (drop_bit 35 c)"] b [of 3] by simp
  show "(ucast (drop_bit 35 (c :: u64)) :: byte) AND 0x10 \<noteq> 0 \<longleftrightarrow> bit c 39"
    using m [of 4 "ucast (drop_bit 35 c)"] b [of 4] by simp
qed

lemma if_xor64: "(if P then x XOR y else x) = x XOR (if P then y else 0 :: u64)"
  by simp

lemma polymod_step_eq:
  "polymod_step c v = push_bit 5 (c AND 0x07ffffffff) XOR ucast v XOR poly_gen 35 0x98f2bc8e61 c XOR
     poly_gen 36 0x79b76d99e2 c XOR poly_gen 37 0xf33e5fb3c4 c XOR poly_gen 38 0xae2eabe2a8 c XOR
     poly_gen 39 0x1e4f43e470 c"
  by (simp only: polymod_step_def Let_def c0_bits if_xor64 poly_gen_def xor.assoc)

lemma poly_gen_xor: "poly_gen n G (a XOR b) = poly_gen n G a XOR poly_gen n G b"
  by (auto simp: poly_gen_def bit_xor_iff)

lemma polymod_step_shift: "polymod_step c v = polymod_shift c XOR ucast v"
  by (simp add: polymod_shift_def polymod_step_eq ac_simps)

lemma polymod_shift_xor: "polymod_shift (a XOR b) = polymod_shift a XOR polymod_shift b"
proof -
  have "push_bit 5 ((a XOR b) AND m) = push_bit 5 (a AND m) XOR push_bit 5 (b AND m)" for m
    by (rule bit_word_eqI) (auto simp: bit_simps)
  then show ?thesis
    by (simp only: polymod_shift_def polymod_step_eq poly_gen_xor unsigned_0 xor.right_neutral xor.left_neutral
        xor.assoc xor.commute xor.left_commute)
qed

lemma take_bit_poly_gen: "take_bit k (poly_gen n G c) = poly_gen n (take_bit k G) c"
  by (simp add: poly_gen_def)

lemma polymod_shift_parts:
  "polymod_shift c = push_bit 5 (c AND 0x07ffffffff) XOR poly_gen 35 0x98f2bc8e61 c XOR
     poly_gen 36 0x79b76d99e2 c XOR poly_gen 37 0xf33e5fb3c4 c XOR poly_gen 38 0xae2eabe2a8 c XOR
     poly_gen 39 0x1e4f43e470 c"
  by (simp only: polymod_shift_def polymod_step_eq unsigned_0 xor.left_neutral)

lemma polymod_shift_40: "unat (polymod_shift c) < 2 ^ 40"
proof -
  have "(0x07ffffffff :: u64) = mask 35" by (simp add: mask_eq_exp_minus_1)
  then have "take_bit 40 (push_bit 5 (c AND 0x07ffffffff)) = push_bit 5 (c AND 0x07ffffffff)"
    by (simp only: take_bit_push_bit take_bit_eq_mask [symmetric]) simp
  moreover have "take_bit 40 (poly_gen n G c) = poly_gen n G c" if "take_bit 40 G = G" for n G
    using that by (simp add: take_bit_poly_gen)
  ultimately have "take_bit 40 (polymod_shift c) = polymod_shift c"
    by (simp only: polymod_shift_parts take_bit_xor take_bit_poly_gen) simp
  then have "unat (polymod_shift c) = take_bit 40 (unat (polymod_shift c))"
    by (metis unsigned_take_bit_eq)
  then show ?thesis by (metis take_bit_nat_less_exp)
qed

text \<open>The five bits shifted out come back as the five low ones: nothing is lost.\<close>

lemma polymod_shift_low: "take_bit 5 (polymod_shift c) = take_bit 5 (drop_bit 35 c)"
proof -
  have "take_bit 5 (polymod_shift c) =
      poly_gen 35 (2 ^ 0) c XOR poly_gen 36 (2 ^ 1) c XOR poly_gen 37 (2 ^ 2) c XOR poly_gen 38 (2 ^ 3) c XOR poly_gen 39 (2 ^ 4) c"
    by (simp only: polymod_shift_parts take_bit_xor take_bit_poly_gen) (simp add: take_bit_push_bit)
  moreover have "bit (poly_gen k (2 ^ i) c) n \<longleftrightarrow> n < 64 \<and> n = i \<and> bit c k" for k i n
    by (auto simp: poly_gen_def bit_exp_iff)
  ultimately have b: "bit (take_bit 5 (polymod_shift c)) n \<longleftrightarrow>
      (n = 0 \<and> bit c 35) \<or> (n = 1 \<and> bit c 36) \<or> (n = 2 \<and> bit c 37) \<or> (n = 3 \<and> bit c 38) \<or>
      (n = 4 \<and> bit c 39)" for n
    by (simp only: bit_xor_iff) auto
  show ?thesis
  proof (rule bit_word_eqI)
    fix n :: nat
    have "n < 5 \<longleftrightarrow> n = 0 \<or> n = 1 \<or> n = 2 \<or> n = 3 \<or> n = 4" by arith
    then show "bit (take_bit 5 (polymod_shift c)) n \<longleftrightarrow> bit (take_bit 5 (drop_bit 35 c)) n"
      by (simp only: b) (auto simp: bit_take_bit_iff bit_drop_bit_eq)
  qed
qed

lemma polymod_shift_0: "polymod_shift 0 = 0"
  by (simp add: polymod_shift_parts poly_gen_def)

lemma polymod_shift_small: "unat c < 2 ^ 35 \<Longrightarrow> polymod_shift c = push_bit 5 c"
proof -
  assume "unat c < 2 ^ 35"
  then have s: "take_bit 35 c = c" by (rule small_word)
  have "\<not> bit c n" if "35 \<le> n" for n
    using that by (metis bit_take_bit_iff not_less s)
  moreover have "(0x07ffffffff :: u64) = mask 35" by (simp add: mask_eq_exp_minus_1)
  then have "c AND 0x07ffffffff = c" using s by (simp only: take_bit_eq_mask)
  ultimately show ?thesis by (simp add: polymod_shift_parts poly_gen_def)
qed

lemma polymod_shift_inj: "unat c < 2 ^ 40 \<Longrightarrow> polymod_shift c = 0 \<Longrightarrow> c = 0"
proof -
  assume s: "unat c < 2 ^ 40" and z: "polymod_shift c = 0"
  have c: "take_bit 40 c = c" using s by (rule small_word)
  have "take_bit 5 (drop_bit 35 c) = 0"
    using polymod_shift_low [of c] by (simp add: z)
  then have h: "\<not> bit (take_bit 5 (drop_bit 35 c)) (n - 35)" for n
    by simp
  have nb: "\<not> bit c n" if "35 \<le> n" for n
  proof (cases "n < 40")
    case True
    with that h [of n] show ?thesis by (simp add: bit_take_bit_iff bit_drop_bit_eq)
  next
    case False
    then show ?thesis by (metis bit_take_bit_iff c)
  qed
  then have "take_bit 35 c = c"
    by (intro bit_word_eqI) (metis bit_take_bit_iff not_less)
  then have "unat c < 2 ^ 35"
    by (metis unsigned_take_bit_eq take_bit_nat_less_exp)
  from polymod_shift_small [OF this] z have "push_bit 5 c = 0" by simp
  then have "\<not> bit (push_bit 5 c) (n + 5)" for n by simp
  then have "\<not> bit c n" if "n < 35" for n
    using that by (auto simp: bit_push_bit_iff)
  with nb show "c = 0" by (intro bit_word_eqI) (metis bit_0_eq bot_apply bot_bool_def not_less)
qed


interpretation ca: linear_checksum polymod_shift 8
proof
  show "polymod_shift (a XOR b) = polymod_shift a XOR polymod_shift b" for a b
    by (rule polymod_shift_xor)
  show "unat (polymod_shift c) < 2 ^ (5 * 8)" for c
    using polymod_shift_40 by simp
  show "unat c < 2 ^ (5 * (8 - 1)) \<Longrightarrow> polymod_shift c = push_bit 5 c" for c
    using polymod_shift_small by simp
  show "unat c < 2 ^ (5 * 8) \<Longrightarrow> polymod_shift c = 0 \<Longrightarrow> c = 0" for c
    using polymod_shift_inj by simp
qed simp_all

lemma polymod_run: "polymod vs = run polymod_shift 1 vs"
proof -
  have "polymod_step = (\<lambda>c v. polymod_shift c XOR ucast v)"
    by (intro ext) (rule polymod_step_shift)
  then show ?thesis by (simp add: polymod_def run_def)
qed

lemma cashaddr_checksum_run:
  "cashaddr_checksum prefix data = checksum_values polymod_shift 8 1 (expand_prefix prefix @ data)"
  by (simp add: cashaddr_checksum_def checksum_values_def polymod_run)

section \<open>Regrouping bits\<close>

text \<open>
  The bytes written and the pending bits of \<open>acc\<close> are together the bits read so far.
\<close>

definition regrouped :: "nat \<Rightarrow> nat \<Rightarrow> u32 \<Rightarrow> nat \<Rightarrow> bytes \<Rightarrow> bool" where
  "regrouped n x acc bits out \<longleftrightarrow>
     x = val 256 (map unat out) * 2 ^ bits + unat (take_bit bits acc) \<and>
     8 * length out + bits = 5 * n \<and> bits < 8"

lemma emit_bytes_8: "bits < 8 \<Longrightarrow> emit_bytes acc bits out = (bits, out)"
  by (simp add: emit_bytes.simps)

lemma emit_bytes_16:
  "8 \<le> bits \<Longrightarrow> bits < 16 \<Longrightarrow>
    emit_bytes acc bits out = (bits - 8, out @ [ucast (drop_bit (bits - 8) acc AND 0xff)])"
  by (subst emit_bytes.simps) (simp add: emit_bytes_8)

lemma unat_take_bit_push:
  assumes "k < 8" and "v < (32 :: byte)"
  shows "unat (take_bit (k + 5) (push_bit 5 acc OR ucast v :: u32)) = unat (take_bit k acc) * 32 + unat v"
proof -
  have "take_bit 5 v = v" using assms(2)
    by (simp add: word_unat_eq_iff unsigned_take_bit_eq take_bit_nat_eq_self word_less_nat_alt)
  then have b: "bit v n \<Longrightarrow> n < 5" for n by (metis bit_take_bit_iff)
  have d: "push_bit 5 acc AND ucast v = (0 :: u32)"
    by (rule bit_word_eqI) (auto simp: bit_simps dest: b)
  have "take_bit (k + 5) (push_bit 5 acc OR ucast v :: u32) = push_bit 5 (take_bit k acc) OR ucast v"
    using assms(1) by (intro bit_word_eqI) (auto simp: bit_simps dest: b)
  also have "\<dots> = push_bit 5 (take_bit k acc) + ucast v"
    by (subst disjunctive_add_eq_or) (auto simp: bit_eq_iff bit_simps dest: b)
  finally have e: "take_bit (k + 5) (push_bit 5 acc OR ucast v :: u32) = take_bit k acc * 32 + ucast v"
    by (simp add: push_bit_eq_mult)
  have "unat (take_bit k acc) < 2 ^ k" by (simp add: unsigned_take_bit_eq)
  also have "(2::nat) ^ k \<le> 2 ^ 8" using assms(1) by (intro power_increasing) simp_all
  finally have "unat (take_bit k acc) < 256" by simp
  moreover have "unat v < 32" using assms(2) by (simp add: word_less_nat_alt)
  moreover have "unat (ucast v :: u32) = unat v"
    using unat_byte_lt [of v] by (simp add: unsigned_ucast_eq take_bit_nat_eq_self)
  ultimately show ?thesis
    unfolding e by (simp add: unat_word_ariths)
qed

lemma unat_split_byte:
  "unat (take_bit (k + 8) (a :: u32)) =
    unat (ucast (drop_bit k a AND 0xff) :: byte) * 2 ^ k + unat (take_bit k a)"
proof -
  have "unat (ucast (drop_bit k a AND 0xff) :: byte) = unat a div 2 ^ k mod 256"
    by (simp add: unsigned_ucast_eq unat_drop_bit_eq take_bit_eq_mod flip: drop_bit_eq_div)
  then show ?thesis
    using mod_mult2_eq [of "unat a" "2 ^ k" 256]
    by (simp add: unsigned_take_bit_eq power_add) (simp add: take_bit_eq_mod power_add)
qed

lemma regrouped_step:
  assumes "regrouped n x acc bits out" and "v < (32 :: byte)"
  shows "case emit_bytes (push_bit 5 acc OR ucast v) (bits + 5) out of (bits', out') \<Rightarrow>
    regrouped (Suc n) (x * 32 + unat v) (push_bit 5 acc OR ucast v) bits' out'"
proof -
  let ?a = "push_bit 5 acc OR ucast v :: u32"
  have r: "x = val 256 (map unat out) * 2 ^ bits + unat (take_bit bits acc)"
      "8 * length out + bits = 5 * n" "bits < 8"
    using assms(1) by (auto simp: regrouped_def)
  have t: "unat (take_bit (bits + 5) ?a) = unat (take_bit bits acc) * 32 + unat v"
    by (rule unat_take_bit_push [OF r(3) assms(2)])
  show ?thesis
  proof (cases "bits + 5 < 8")
    case True
    then show ?thesis
      using r by (simp add: emit_bytes_8 regrouped_def t power_add algebra_simps del: take_bit_or)
  next
    case False
    define k where "k = bits + 5 - 8"
    have k: "bits + 5 = k + 8" "k < 8" using False r(3) by (auto simp: k_def)
    let ?o = "ucast (drop_bit k ?a AND 0xff) :: byte"
    have "unat (take_bit (k + 8) ?a) = unat ?o * 2 ^ k + unat (take_bit k ?a)"
      by (rule unat_split_byte)
    then have "x * 32 + unat v = val 256 (map unat out) * (2 ^ bits * 32) + unat ?o * 2 ^ k + unat (take_bit k ?a)"
      using t unfolding r(1) k(1) by (simp add: algebra_simps del: take_bit_or drop_bit_or ucast_and_ff)
    also have "(2::nat) ^ bits * 32 = 2 ^ k * 256"
      using arg_cong [OF k(1), of "\<lambda>m. (2::nat) ^ m"] by (simp add: power_add)
    finally have x: "x * 32 + unat v = val 256 (map unat (out @ [?o])) * 2 ^ k + unat (take_bit k ?a)"
      by (simp add: algebra_simps)
    have l: "8 * length (out @ [?o]) + k = 5 * Suc n" using r(2) k(1) by simp
    have e: "emit_bytes ?a (bits + 5) out = (k, out @ [?o])"
      using k r(3) by (subst emit_bytes_16) simp_all
    show ?thesis using x l k(2) unfolding e regrouped_def prod.case by blast
  qed
qed

lemma convert_loop_regrouped:
  assumes "regrouped n x acc bits out" and "\<forall>v\<in>set ins. v < 32"
  shows "\<exists>acc' bits' out'. convert_loop ins acc bits out = Some (acc', bits', out') \<and>
    regrouped (n + length ins) (x * 32 ^ length ins + val 32 (map unat ins)) acc' bits' out'"
  using assms
proof (induction ins arbitrary: n x acc bits out)
  case Nil
  then show ?case by simp
next
  case (Cons v ins)
  obtain bits' out' where e: "emit_bytes (push_bit 5 acc OR ucast v) (bits + 5) out = (bits', out')"
    by fastforce
  have "regrouped (Suc n) (x * 32 + unat v) (push_bit 5 acc OR ucast v) bits' out'"
    using regrouped_step [OF Cons.prems(1), of v] Cons.prems(2) by (simp add: e)
  from Cons.IH [OF this] Cons.prems(2) show ?case
    by (simp add: e not_le val_Cons algebra_simps)
qed

lemma pad_zero:
  assumes "bits < 8"
  shows "(0 < bits \<and> push_bit (8 - bits) acc AND 0xff \<noteq> (0 :: u32)) \<longleftrightarrow> take_bit bits acc \<noteq> 0"
proof -
  have "push_bit (8 - bits) acc AND 0xff = take_bit 8 (push_bit (8 - bits) acc)"
    by (rule and_ff_take_bit)
  also have "\<dots> = push_bit (8 - bits) (take_bit bits acc)"
    using assms by (simp add: take_bit_push_bit)
  also have "\<dots> = 0 \<longleftrightarrow> take_bit bits acc = 0"
  proof
    assume "push_bit (8 - bits) (take_bit bits acc) = 0"
    then have "\<not> bit (push_bit (8 - bits) (take_bit bits acc)) (n + (8 - bits))" for n by simp
    then show "take_bit bits acc = 0" using assms
      by (intro bit_word_eqI) (auto simp: bit_simps)
  qed simp
  finally show ?thesis by (cases "bits = 0") auto
qed

lemma convert_loop_range: "convert_loop ins acc bits out = Some r \<Longrightarrow> \<forall>v\<in>set ins. v < 32"
  by (induction ins arbitrary: acc bits out) (auto simp: not_le Let_def split: if_split_asm prod.split_asm)

text \<open>
  What the conversion accepts: values of five bits whose number is that of whole bytes shifted
  by fewer than five zero bits.
\<close>

lemma convert_bits_5to8_iff:
  "convert_bits_5to8 ins = Some out \<longleftrightarrow>
    (\<forall>v\<in>set ins. v < 32) \<and> length out = 5 * length ins div 8 \<and>
    5 * length ins mod 8 < 5 \<and>
    val 32 (map unat ins) = val 256 (map unat out) * 2 ^ (5 * length ins mod 8)"
proof (cases "\<forall>v\<in>set ins. v < 32")
  case True
  have "regrouped 0 0 0 0 []" by (simp add: regrouped_def)
  from convert_loop_regrouped [OF this True] obtain acc bits o' where
    l: "convert_loop ins 0 0 [] = Some (acc, bits, o')" and
    r: "regrouped (length ins) (val 32 (map unat ins)) acc bits o'"
    by auto
  let ?n = "length ins"
  have v: "val 32 (map unat ins) = val 256 (map unat o') * 2 ^ bits + unat (take_bit bits acc)"
    and b: "8 * length o' + bits = 5 * ?n" "bits < 8"
    using r by (simp_all add: regrouped_def)
  then have m: "5 * ?n mod 8 = bits" "5 * ?n div 8 = length o'"
    by (simp_all flip: b(1))
  have c: "convert_bits_5to8 ins = (if 5 \<le> bits \<or> take_bit bits acc \<noteq> 0 then None else Some o')"
    by (simp add: convert_bits_5to8_def l pad_zero [OF b(2)])
  have "out = o' \<and> take_bit bits acc = 0"
    if "length out = length o'" "val 32 (map unat ins) = val 256 (map unat out) * 2 ^ bits"
  proof -
    have t: "unat (take_bit bits acc) < 2 ^ bits" by (simp add: unsigned_take_bit_eq)
    have e: "val 256 (map unat o') * 2 ^ bits + unat (take_bit bits acc) = val 256 (map unat out) * 2 ^ bits"
      using v that(2) by simp
    then have "(val 256 (map unat o') * 2 ^ bits + unat (take_bit bits acc)) div 2 ^ bits = val 256 (map unat out)"
      by simp
    then have "val 256 (map unat o') = val 256 (map unat out)" using t by simp
    moreover from this e have "unat (take_bit bits acc) = 0" by simp
    ultimately show ?thesis using val_bytes_inject that(1) by (simp add: word_unat_eq_iff)
  qed
  with v True show ?thesis unfolding m c by (auto simp: not_le)
next
  case False
  then have "convert_loop ins 0 0 [] = None"
    using convert_loop_range by (meson not_Some_eq option.exhaust)
  with False show ?thesis by (auto simp: convert_bits_5to8_def)
qed

section \<open>The alphabet\<close>

lemma charset_table:
  "list_all (\<lambda>v. CHARSET_REV ! unat (tolower (bech32_charset ! v)) = int v \<and>
     tolower (bech32_charset ! v) = bech32_charset ! v \<and> bech32_charset ! v AND 0x80 = 0) [0..<32]"
  by (simp add: upt_rec CHARSET_REV_def bech32_charset_def tolower_def)

lemma charset_table_rev:
  "list_all (\<lambda>c. CHARSET_REV ! c < 0 \<or> 
     CHARSET_REV ! c < 32 \<and> bech32_charset ! nat (CHARSET_REV ! c) = (of_nat c :: byte) \<or> (65 \<le> c \<and> c \<le> 90)) [0..<128]"
  by (simp add: upt_rec CHARSET_REV_def bech32_charset_def)

lemma and_80: "c AND 0x80 = 0 \<longleftrightarrow> unat c < 128" for c :: byte
proof -
  have "c AND 2 ^ 7 = 0 \<longleftrightarrow> \<not> bit c 7" by (rule and_exp_eq_0_iff_not_bit)
  also have "\<dots> \<longleftrightarrow> take_bit 7 c = c"
  proof
    assume b: "\<not> bit c 7"
    show "take_bit 7 c = c"
    proof (rule bit_word_eqI)
      fix n assume "n < LENGTH(8)"
      then have "n < 7 \<or> n = 7" by auto
      then show "bit (take_bit 7 c) n \<longleftrightarrow> bit c n" using b by (auto simp: bit_take_bit_iff)
    qed
  qed (metis bit_take_bit_iff less_irrefl)
  also have "\<dots> \<longleftrightarrow> unat c < 2 ^ 7"
    by (metis unsigned_take_bit_eq take_bit_nat_less_exp take_bit_nat_eq_self word_unat_eq_iff)
  finally show ?thesis by simp
qed

lemma unat_tolower: "unat (tolower c) = (if 65 \<le> unat c \<and> unat c \<le> 90 then unat c + 32 else unat c)"
  by (auto simp: tolower_def word_le_nat_alt unat_word_ariths)

lemma tolower_tolower [simp]: "tolower (tolower c) = tolower c"
  by (simp add: word_unat_eq_iff unat_tolower)

lemma charset_rev_iff:
  assumes "unat c < 128"
  shows "0 \<le> CHARSET_REV ! unat (tolower c) \<Longrightarrow> CHARSET_REV ! unat (tolower c) < 32 \<and>
      bech32_charset ! nat (CHARSET_REV ! unat (tolower c)) = tolower c"
proof -
  let ?t = "unat (tolower c)"
  assume "0 \<le> CHARSET_REV ! ?t"
  moreover have t: "?t < 128" "\<not> (65 \<le> ?t \<and> ?t \<le> 90)"
    using assms by (auto simp: unat_tolower)
  have "CHARSET_REV ! ?t < 0 \<or> CHARSET_REV ! ?t < 32 \<and> bech32_charset ! nat (CHARSET_REV ! ?t) = of_nat ?t \<or>
      65 \<le> ?t \<and> ?t \<le> 90"
    using bspec [OF charset_table_rev [unfolded list_all_iff], of ?t] t(1) by (simp only: set_upt) simp
  ultimately show ?thesis using t(2) by simp
qed

lemma charset_values_iff:
  "charset_values s = Some vs \<longleftrightarrow>
    (\<forall>v\<in>set vs. v < 32) \<and> map tolower s = map (\<lambda>v. bech32_charset ! unat v) vs"
proof (induction s arbitrary: vs)
  case Nil
  then show ?case by auto
next
  case (Cons c s)
  let ?v = "CHARSET_REV ! unat (tolower c)"
  have one: "c AND 0x80 = 0 \<and> 0 \<le> ?v \<and> v = word_of_int ?v \<longleftrightarrow>
      v < 32 \<and> tolower c = bech32_charset ! unat v" for v :: byte
  proof
    assume a: "c AND 0x80 = 0 \<and> 0 \<le> ?v \<and> v = word_of_int ?v"
    from charset_rev_iff [of c] a have r: "?v < 32" "bech32_charset ! nat ?v = tolower c"
      by (auto simp: and_80)
    have "v = of_nat (nat ?v)" using a by simp
    then have "unat v = nat ?v" using r(1) by (simp only: unat_of_nat) simp
    then show "v < 32 \<and> tolower c = bech32_charset ! unat v"
      using r a by (simp add: word_less_nat_alt)
  next
    assume a: "v < 32 \<and> tolower c = bech32_charset ! unat v"
    let ?x = "bech32_charset ! unat v"
    have "unat v \<in> set [0..<32]" using a by (simp add: word_less_nat_alt)
    from bspec [OF charset_table [unfolded list_all_iff] this]
    have h: "CHARSET_REV ! unat (tolower ?x) = int (unat v) \<and> tolower ?x = ?x \<and> ?x AND 0x80 = 0" .
    then have "?v = int (unat v)" and "tolower c AND 0x80 = 0"
      using a by metis+
    then show "c AND 0x80 = 0 \<and> 0 \<le> ?v \<and> v = word_of_int ?v"
      by (auto simp: and_80 unat_tolower split: if_split_asm)
  qed
  have "charset_values (c # s) = Some vs \<longleftrightarrow> (\<exists>v vs'. vs = v # vs' \<and>
      (c AND 0x80 = 0 \<and> 0 \<le> ?v \<and> v = word_of_int ?v) \<and> charset_values s = Some vs')"
    by (auto simp: Let_def bind_eq_Some_conv not_less)
  then show ?case
    unfolding one Cons.IH by (cases vs) auto
qed

section \<open>What is accepted\<close>

lemma checksum_ok_iff:
  assumes "\<forall>v\<in>set data. v < 32" and "8 \<le> length data"
    and "length prefix + 1 + length data \<le> 133"
  shows "checksum_ok prefix data \<longleftrightarrow>
    drop (length data - 8) data = cashaddr_checksum prefix (take (length data - 8) data)"
proof -
  let ?d = "take (length data - 8) data" and ?c = "drop (length data - 8) data"
  have "\<forall>x\<in>set (expand_prefix prefix @ ?d). x < 32"
    using assms(1) and_1f_less by (auto simp: expand_prefix_def dest: in_set_takeD)
  from ca.checksum_unique [OF _ _ this, of ?c 1] assms
  have "run polymod_shift 1 ((expand_prefix prefix @ ?d) @ ?c) = 1 \<longleftrightarrow>
      ?c = checksum_values polymod_shift 8 1 (expand_prefix prefix @ ?d)"
    by (simp add: in_set_dropD)
  moreover have "(expand_prefix prefix @ ?d) @ ?c = map (\<lambda>c. c AND 0x1f) prefix @ [0] @ data"
    by (simp add: expand_prefix_def)
  ultimately show ?thesis
    using assms(3) by (simp only: checksum_ok_def cashaddr_checksum_run polymod_run) simp
qed

lemma length_cashaddr_checksum [simp]: "length (cashaddr_checksum prefix data) = 8"
  by (simp add: cashaddr_checksum_def)

lemma length_cashaddr_data [simp]: "length (cashaddr_data v h) = 34"
  by (simp add: cashaddr_data_def)

lemma cashaddr_data_val:
  assumes "length h = 20" and "\<forall>v\<in>set ins. v < 32" and "length ins = 34"
  shows "val 32 (map unat ins) = val 256 (map unat (v # h)) * 4 \<longleftrightarrow> ins = cashaddr_data v h"
proof -
  have "val 256 (map unat (v # h)) < 256 ^ length (map unat (v # h))"
    using unat_byte_lt by (intro val_less) auto
  then have "val 256 (map unat (v # h)) * 4 < 32 ^ length ins"
    using assms(1,3) by simp
  from digits32_words [OF assms(2) this] show ?thesis
    by (simp add: cashaddr_data_def assms(3))
qed

text \<open>The version bytes the decoder takes for a P2PKH and a P2SH hash.\<close>

definition version_is :: "byte \<Rightarrow> bool \<Rightarrow> bool" where
  "version_is v p2sh \<longleftrightarrow> v AND 0x80 = 0 \<and> drop_bit 3 v AND 0x0f = (if p2sh then 1 else 0)"

lemma decode_data:
  assumes "\<forall>v\<in>set ins. v < 32"
  shows "(\<exists>d. convert_bits_5to8 ins = Some d \<and> length d = 21 \<and> version_is (d ! 0) t \<and> take 20 (drop 1 d) = h) \<longleftrightarrow>
    (\<exists>v. length h = 20 \<and> version_is v t \<and> ins = cashaddr_data v h)"
proof
  assume "\<exists>d. convert_bits_5to8 ins = Some d \<and> length d = 21 \<and> version_is (d ! 0) t \<and> take 20 (drop 1 d) = h"
  then obtain d where d: "convert_bits_5to8 ins = Some d" "length d = 21" "version_is (d ! 0) t"
    "take 20 (drop 1 d) = h" by blast
  obtain v h' where vh: "d = v # h'" using d(2) by (cases d) auto
  have c: "5 * length ins div 8 = 21" "5 * length ins mod 8 < 5"
      "val 32 (map unat ins) = val 256 (map unat d) * 2 ^ (5 * length ins mod 8)"
    using d(1,2) by (simp_all add: convert_bits_5to8_iff)
  have n: "length ins = 34" using c(1,2) by presburger
  have "ins = cashaddr_data v h"
    using c(3) d(2,4) vh assms n by (subst cashaddr_data_val [symmetric]) auto
  then show "\<exists>v. length h = 20 \<and> version_is v t \<and> ins = cashaddr_data v h"
    using d vh by auto
next
  assume "\<exists>v. length h = 20 \<and> version_is v t \<and> ins = cashaddr_data v h"
  then obtain v where v: "length h = 20" "version_is v t" "ins = cashaddr_data v h" by blast
  then have "length ins = 34" by simp
  then have "val 32 (map unat ins) = val 256 (map unat (v # h)) * 4"
    using cashaddr_data_val [OF v(1) assms, of v] v(3) by blast
  then have "convert_bits_5to8 ins = Some (v # h)"
    unfolding convert_bits_5to8_iff using assms \<open>length ins = 34\<close> v(1) by simp
  then show "\<exists>d. convert_bits_5to8 ins = Some d \<and> length d = 21 \<and> version_is (d ! 0) t \<and> take 20 (drop 1 d) = h"
    using v by auto
qed

lemma type_bit: "\<not> (t \<noteq> 0 \<and> t \<noteq> 1) \<Longrightarrow> (t = 1) = p \<longleftrightarrow> t = (if p then 1 else (0 :: byte))"
  by auto

lemma cashaddr_decode_cases:
  "cashaddr_decode_checked addr prefix = Some (h, t) \<longleftrightarrow>
    case_is_consistent addr \<and>
    (\<exists>p data d. cashaddr_payload_of addr prefix = Some p \<and> 14 \<le> length p \<and> length p \<le> 112 \<and>
      charset_values p = Some data \<and> 9 \<le> length data \<and> checksum_ok prefix data \<and>
      convert_bits_5to8 (take (length data - 8) data) = Some d \<and> length d = 21 \<and>
      version_is (d ! 0) t \<and> take 20 (drop 1 d) = h)"
  (is "?l \<longleftrightarrow> ?r")
proof
  assume ?l
  then show ?r
    unfolding cashaddr_decode_checked_def version_is_def
    by (auto simp: bind_eq_Some_conv Let_def not_less split: if_split_asm)
next
  assume ?r
  then obtain p data d where "case_is_consistent addr" "cashaddr_payload_of addr prefix = Some p"
      "14 \<le> length p" "length p \<le> 112" "charset_values p = Some data" "9 \<le> length data"
      "checksum_ok prefix data" "convert_bits_5to8 (take (length data - 8) data) = Some d"
      "length d = 21" "version_is (d ! 0) t" "take 20 (drop 1 d) = h"
    by blast
  then show ?l
    by (auto simp add: cashaddr_decode_checked_def version_is_def Let_def split: if_split_asm)
qed

lemma cashaddr_decode_iff:
  assumes "length prefix \<le> 90"
  shows "cashaddr_decode_checked addr prefix = Some (h, t) \<longleftrightarrow>
    case_is_consistent addr \<and>
    (\<exists>p v. cashaddr_payload_of addr prefix = Some p \<and> length h = 20 \<and> version_is v t \<and>
      map tolower p = cashaddr_encode prefix v h)" (is "?l \<longleftrightarrow> ?r")
proof
  assume ?l
  then obtain p data d where c: "case_is_consistent addr" "cashaddr_payload_of addr prefix = Some p"
      and l: "charset_values p = Some data" "9 \<le> length data"
      and k: "checksum_ok prefix data" and d: "convert_bits_5to8 (take (length data - 8) data) = Some d"
      "length d = 21" "version_is (d ! 0) t" "take 20 (drop 1 d) = h"
    unfolding cashaddr_decode_cases by blast
  let ?i = "take (length data - 8) data"
  have v: "\<forall>v\<in>set data. v < 32" and m: "map tolower p = map (\<lambda>v. bech32_charset ! unat v) data"
    using l(1) by (auto simp: charset_values_iff)
  then have vi: "\<forall>v\<in>set ?i. v < 32" by (auto dest: in_set_takeD)
  obtain v where v2: "length h = 20" "version_is v t" "?i = cashaddr_data v h"
    using decode_data [OF vi, of t h] d by blast
  have "drop (length data - 8) data = cashaddr_checksum prefix ?i"
    using k by (subst (asm) checksum_ok_iff) (use v l(2) k in \<open>auto simp: checksum_ok_def\<close>)
  then have "data = cashaddr_data v h @ cashaddr_checksum prefix (cashaddr_data v h)"
    using v2(3) append_take_drop_id [of "length data - 8" data] by metis
  then show ?r using c v2 m by (auto simp: cashaddr_encode_def Let_def)
next
  assume ?r
  then obtain p v where r: "case_is_consistent addr" "cashaddr_payload_of addr prefix = Some p"
      "length h = 20" "version_is v t" "map tolower p = cashaddr_encode prefix v h" by blast
  let ?i = "cashaddr_data v h"
  let ?data = "?i @ cashaddr_checksum prefix ?i"
  have v: "\<forall>v\<in>set ?data. v < 32"
    using set_digits_words by (auto simp: cashaddr_data_def cashaddr_checksum_def)
  then have c: "charset_values p = Some ?data"
    using r(5) by (simp add: charset_values_iff cashaddr_encode_def Let_def)
  have "checksum_ok prefix ?data"
    using assms v by (subst checksum_ok_iff) simp_all
  moreover obtain d where "convert_bits_5to8 ?i = Some d" "length d = 21" "version_is (d ! 0) t"
      "take 20 (drop 1 d) = h"
    using decode_data [of ?i t h] v r by auto
  moreover have "length p = 42" using arg_cong [OF r(5), of length] by (simp add: cashaddr_encode_def Let_def)
  ultimately show ?l using r c unfolding cashaddr_decode_cases by force
qed

text \<open>
  The low three bits of the version byte, the size field of the format, are not looked at: every
  hash has eight accepted encodings of each type.
\<close>

lemma version_is_iff: "version_is v t \<longleftrightarrow> unat v div 8 = (if t then 1 else 0)"
proof -
  have "(0x0f :: byte) = mask 4" by (simp add: mask_eq_exp_minus_1)
  then have "unat (drop_bit 3 v AND 0x0f) = take_bit 4 (drop_bit 3 (unat v))"
    by (simp only: take_bit_eq_mask [symmetric] unsigned_take_bit_eq unat_drop_bit_eq)
  also have "\<dots> = unat v div 8 mod 16"
    by (simp add: take_bit_eq_mod drop_bit_eq_div)
  finally have "drop_bit 3 v AND 0x0f = (if t then 1 else 0) \<longleftrightarrow> unat v div 8 mod 16 = (if t then 1 else 0)"
    by (simp add: word_unat_eq_iff)
  moreover have "unat v < 128 \<Longrightarrow> unat v div 8 mod 16 = unat v div 8" by simp
  moreover have "unat v div 8 = 0 \<or> unat v div 8 = 1 \<Longrightarrow> unat v < 128" by auto
  ultimately show ?thesis by (auto simp: version_is_def and_80)
qed

lemma charset_values_append:
  "charset_values (a @ b) = do { x \<leftarrow> charset_values a; y \<leftarrow> charset_values b; Some (x @ y) }"
  by (induction a) (auto simp: Let_def split: Option.bind_splits)

text \<open>
  Two accepted addresses that differ only within eight consecutive payload characters differ
  only in letter case.
\<close>

lemma cashaddr_burst:
  assumes "cashaddr_decode_checked a prefix = Some r" and "cashaddr_decode_checked b prefix = Some r'"
    and "cashaddr_payload_of a prefix = Some (x @ d @ y)" and "cashaddr_payload_of b prefix = Some (x @ e @ y)"
    and "length d = length e" and "length e \<le> 8"
  shows "map tolower d = map tolower e"
proof -
  obtain da where a: "charset_values (x @ d @ y) = Some da" "checksum_ok prefix da"
    using assms(1,3) by (cases r) (auto simp: cashaddr_decode_cases)
  obtain db where b: "charset_values (x @ e @ y) = Some db" "checksum_ok prefix db"
    using assms(2,4) by (cases r') (auto simp: cashaddr_decode_cases)
  obtain vx vd ve vy where v: "charset_values d = Some vd" "charset_values e = Some ve"
      "da = vx @ vd @ vy" "db = vx @ ve @ vy"
    using a(1) b(1) by (auto simp: charset_values_append bind_eq_Some_conv)
  have i: "map tolower d = map (\<lambda>v. bech32_charset ! unat v) vd" "\<forall>w\<in>set vd. w < 32"
      "map tolower e = map (\<lambda>v. bech32_charset ! unat v) ve" "\<forall>w\<in>set ve. w < 32"
    using v(1,2) by (auto simp: charset_values_iff)
  have l: "length vd = length ve" "length ve \<le> 8"
    using arg_cong [OF i(1), of length] arg_cong [OF i(3), of length] assms(5,6) by simp_all
  have "polymod ((expand_prefix prefix @ vx) @ vd @ vy) = polymod ((expand_prefix prefix @ vx) @ ve @ vy)"
    using a(2) b(2) by (simp add: checksum_ok_def expand_prefix_def v)
  then have "run polymod_shift 1 ((expand_prefix prefix @ vx) @ vd @ vy) =
      run polymod_shift 1 ((expand_prefix prefix @ vx) @ ve @ vy)"
    by (simp only: polymod_run)
  from ca.burst [OF this l i(2,4)] show ?thesis by (simp add: i)
qed

lemma cashaddr_prefixed:
  assumes "0x3a \<notin> set prefix"
  shows "cashaddr_payload_of (prefix @ 0x3a # p) prefix = Some p"
proof -
  have "strchr (prefix @ 0x3a # p) 0x3a = Some (length prefix)"
    using assms by (subst strchr_def, subst takeWhile_append2) auto
  then show ?thesis by (simp add: cashaddr_payload_of_def strncaseeq_def)
qed

lemma cashaddr_bare: "0x3a \<notin> set p \<Longrightarrow> cashaddr_payload_of p prefix = Some p"
  by (simp add: cashaddr_payload_of_def strchr_def)

lemma charset_lower:
  "list_all (\<lambda>c. c \<noteq> 0x3a \<and> \<not> (0x41 \<le> c \<and> c \<le> 0x5a) \<and> c \<noteq> 0) bech32_charset" "length bech32_charset = 32"
  by (simp_all add: bech32_charset_def)

lemma cashaddr_encode_chars:
  "c \<in> set (cashaddr_encode prefix v h) \<Longrightarrow> c \<noteq> 0x3a \<and> \<not> (0x41 \<le> c \<and> c \<le> 0x5a) \<and> c \<noteq> 0"
proof -
  assume "c \<in> set (cashaddr_encode prefix v h)"
  then obtain w where "c = bech32_charset ! unat w"
    "w \<in> set (cashaddr_data v h @ cashaddr_checksum prefix (cashaddr_data v h))"
    by (auto simp: cashaddr_encode_def Let_def)
  moreover from this have "w < 32"
    using set_digits_words by (auto simp: cashaddr_data_def cashaddr_checksum_def)
  ultimately have "c \<in> set bech32_charset"
    using charset_lower(2) by (auto simp: word_less_nat_alt)
  then show ?thesis using charset_lower(1) by (auto simp: list_all_iff)
qed

lemma lower_case_consistent: "\<forall>c\<in>set s. \<not> (0x41 \<le> c \<and> c \<le> 0x5a) \<Longrightarrow> case_is_consistent s"
  by (auto simp: case_is_consistent_def)

lemma tolower_lower: "\<forall>c\<in>set s. \<not> (0x41 \<le> c \<and> c \<le> 0x5a) \<Longrightarrow> map tolower s = s"
  by (induction s) (auto simp: tolower_def)

lemma cashaddr_roundtrip:
  assumes "length h = 20" and "version_is v t" and "length prefix \<le> 90"
    and "\<forall>c\<in>set prefix. c \<noteq> 0x3a \<and> \<not> (0x41 \<le> c \<and> c \<le> 0x5a)"
  shows "cashaddr_decode_checked (prefix @ 0x3a # cashaddr_encode prefix v h) prefix = Some (h, t)"
    and "cashaddr_decode_checked (cashaddr_encode prefix v h) prefix = Some (h, t)"
proof -
  let ?e = "cashaddr_encode prefix v h"
  have e: "\<forall>c\<in>set ?e. c \<noteq> 0x3a \<and> \<not> (0x41 \<le> c \<and> c \<le> 0x5a)"
    using cashaddr_encode_chars by blast
  then have "map tolower ?e = ?e" by (intro tolower_lower) blast
  moreover have "case_is_consistent ?e" "case_is_consistent (prefix @ 0x3a # ?e)"
    using e assms(4) by (auto intro!: lower_case_consistent)
  ultimately show "cashaddr_decode_checked (prefix @ 0x3a # ?e) prefix = Some (h, t)"
      "cashaddr_decode_checked ?e prefix = Some (h, t)"
    unfolding cashaddr_decode_iff [OF assms(3)]
    using assms e cashaddr_prefixed [of prefix ?e] cashaddr_bare [of ?e prefix] by auto
qed

end
