(* ===== verification/Bch_Address.thy ===== *)
theory Bch_Address
  imports Cashaddr Sha2
begin

text \<open>
  Address classification and construction of \<^verbatim>\<open>src/src/libckpool.c\<close>: which string pays which
  script (\<open>bch_classify_address\<close>, \<open>bch_address_to_script\<close>) and back (\<open>txn_to_address\<close>), with the
  Base58Check and Bech32 routines below them.  An integer carry that the code keeps in an \<open>int\<close>
  and that cannot overflow it is a \<open>nat\<close>; a destination and its size are the returned list and
  the size argument.
\<close>

section \<open>Base58\<close>

definition b58tobin_tbl :: "int list" where
  "b58tobin_tbl =
     [-1, -1, -1, -1, -1, -1, -1, -1, -1, -1, -1, -1, -1, -1, -1, -1,
      -1, -1, -1, -1, -1, -1, -1, -1, -1, -1, -1, -1, -1, -1, -1, -1,
      -1, -1, -1, -1, -1, -1, -1, -1, -1, -1, -1, -1, -1, -1, -1, -1,
      -1, 0, 1, 2, 3, 4, 5, 6, 7, 8, -1, -1, -1, -1, -1, -1,
      -1, 9, 10, 11, 12, 13, 14, 15, 16, -1, 17, 18, 19, 20, 21, -1,
      22, 23, 24, 25, 26, 27, 28, 29, 30, 31, 32, -1, -1, -1, -1, -1,
      -1, 33, 34, 35, 36, 37, 38, 39, 40, 41, 42, 43, -1, 44, 45, 46,
      47, 48, 49, 50, 51, 52, 53, 54, 55, 56, 57]"

definition b58_digit32 :: "byte \<Rightarrow> u32" where
  "b58_digit32 c =
     (if length b58tobin_tbl \<le> unat c then 0xffffffff else word_of_int (b58tobin_tbl ! unat c))"

text \<open>The inner loop runs from the last word to the first, handing the carry on.\<close>

fun b58_mul32 :: "u32 list \<Rightarrow> u32 \<Rightarrow> u32 list \<times> u32" where
  "b58_mul32 [] c = ([], c)"
| "b58_mul32 (w # ws) c =
     (let (ws, c) = b58_mul32 ws c;
          t = ucast w * 58 + ucast c :: u64
      in (ucast (t AND 0xffffffff) # ws, ucast (drop_bit 32 (t AND 0x3f00000000))))"

definition htobe32_bytes :: "u32 \<Rightarrow> bytes" where
  "htobe32_bytes w = rev (le_bytes 4 w)"

definition b58tobin :: "bytes \<Rightarrow> bytes" where
  "b58tobin b58 =
     (let bin32 = foldl (\<lambda>bin32 ch. fst (b58_mul32 bin32 (b58_digit32 ch))) (replicate 7 0) b58
      in ucast (hd bin32 AND 0xff) # concat (map htobe32_bytes (tl bin32)))"

definition bch_b58_alphabet :: bytes where
  "bch_b58_alphabet =
     [0x31, 0x32, 0x33, 0x34, 0x35, 0x36, 0x37, 0x38, 0x39, 0x41, 0x42, 0x43,
      0x44, 0x45, 0x46, 0x47, 0x48, 0x4a, 0x4b, 0x4c, 0x4d, 0x4e, 0x50, 0x51,
      0x52, 0x53, 0x54, 0x55, 0x56, 0x57, 0x58, 0x59, 0x5a, 0x61, 0x62, 0x63,
      0x64, 0x65, 0x66, 0x67, 0x68, 0x69, 0x6a, 0x6b, 0x6d, 0x6e, 0x6f, 0x70,
      0x71, 0x72, 0x73, 0x74, 0x75, 0x76, 0x77, 0x78, 0x79, 0x7a]"

fun b58_mul :: "bytes \<Rightarrow> nat \<Rightarrow> bytes \<times> nat" where
  "b58_mul [] carry = ([], carry)"
| "b58_mul (b # bs) carry =
     (let (bs, carry) = b58_mul bs carry;
          carry = carry + 58 * unat b
      in (of_nat (carry mod 256) # bs, carry div 256))"

fun b58decode_loop :: "bytes \<Rightarrow> bytes \<Rightarrow> bytes option" where
  "b58decode_loop [] out25 = Some out25"
| "b58decode_loop (c # s) out25 =
     (case strchr bch_b58_alphabet c of
        None \<Rightarrow> None
      | Some p \<Rightarrow>
          let (out25, carry) = b58_mul out25 p
          in if carry \<noteq> 0 then None else b58decode_loop s out25)"

definition bch_b58decode_strict :: "bytes \<Rightarrow> bytes option" where
  "bch_b58decode_strict s =
     (if s = [] \<or> 100 < length s then None else b58decode_loop s (replicate 25 0))"

section \<open>Classification\<close>

datatype bch_addr_type_t =
  BCH_ADDR_INVALID | BCH_ADDR_CASHADDR_P2PKH | BCH_ADDR_CASHADDR_P2SH |
  BCH_ADDR_LEGACY_P2PKH | BCH_ADDR_LEGACY_P2SH

definition bchtest :: bytes where "bchtest = [0x62, 0x63, 0x68, 0x74, 0x65, 0x73, 0x74]"

definition bchreg :: bytes where "bchreg = [0x62, 0x63, 0x68, 0x72, 0x65, 0x67]"

definition bch_addr_is_cashaddr_shaped :: "bytes \<Rightarrow> bool" where
  "bch_addr_is_cashaddr_shaped addr =
     (case strchr addr 0x3a of
        Some prefix_len \<Rightarrow>
          (prefix_len = 11 \<and> strncaseeq addr bitcoincash 11) \<or>
          (prefix_len = 7 \<and> strncaseeq addr bchtest 7) \<or>
          (prefix_len = 6 \<and> strncaseeq addr bchreg 6)
      | None \<Rightarrow> length addr = 42)"

text \<open>\<open>strcasecmp(a, b) == 0\<close>.\<close>

definition strcaseeq :: "bytes \<Rightarrow> bytes \<Rightarrow> bool" where
  "strcaseeq a b \<longleftrightarrow> map tolower a = map tolower b"

text \<open>The classifiers leave the caller's \<open>hash160\<close> alone unless the address is valid.\<close>

definition bch_classify_legacy :: "bytes \<Rightarrow> bytes \<Rightarrow> bytes \<Rightarrow> bch_addr_type_t \<times> bytes" where
  "bch_classify_legacy addr cashaddr_prefix hash160 =
     (case bch_b58decode_strict addr of
        None \<Rightarrow> (BCH_ADDR_INVALID, hash160)
      | Some decoded \<Rightarrow>
          let chk2 = sha256 (sha256 (take 21 decoded)) in
          if take 4 chk2 \<noteq> take 4 (drop 21 decoded) then (BCH_ADDR_INVALID, hash160)
          else
            let version = decoded ! 0; mainnet = strcaseeq cashaddr_prefix bitcoincash in
            if (mainnet \<and> version = 0x00) \<or> (\<not> mainnet \<and> version = 0x6f)
            then (BCH_ADDR_LEGACY_P2PKH, take 20 (drop 1 decoded))
            else if (mainnet \<and> version = 0x05) \<or> (\<not> mainnet \<and> version = 0xc4)
            then (BCH_ADDR_LEGACY_P2SH, take 20 (drop 1 decoded))
            else (BCH_ADDR_INVALID, hash160))"

definition bch_classify_address :: "bytes \<Rightarrow> bytes \<Rightarrow> bytes \<Rightarrow> bch_addr_type_t \<times> bytes" where
  "bch_classify_address addr cashaddr_prefix hash160 =
     (if bch_addr_is_cashaddr_shaped addr then
        case cashaddr_decode_checked addr cashaddr_prefix of
          Some (h, is_p2sh) \<Rightarrow>
            (if is_p2sh then BCH_ADDR_CASHADDR_P2SH else BCH_ADDR_CASHADDR_P2PKH, h)
        | None \<Rightarrow> (BCH_ADDR_INVALID, hash160)
      else bch_classify_legacy addr cashaddr_prefix hash160)"

text \<open>The script, or \<open>None\<close> for the length 0; the local \<open>hash160\<close> is read only when it was set.\<close>

definition bch_address_to_script :: "bytes \<Rightarrow> bytes \<Rightarrow> bytes option" where
  "bch_address_to_script addr cashaddr_prefix =
     (let (type, hash160) = bch_classify_address addr cashaddr_prefix (replicate 20 0) in
      case type of
        BCH_ADDR_CASHADDR_P2PKH \<Rightarrow> Some (hash160_to_p2pkh_script hash160)
      | BCH_ADDR_LEGACY_P2PKH \<Rightarrow> Some (hash160_to_p2pkh_script hash160)
      | BCH_ADDR_CASHADDR_P2SH \<Rightarrow> Some (hash160_to_p2sh_script hash160)
      | BCH_ADDR_LEGACY_P2SH \<Rightarrow> Some (hash160_to_p2sh_script hash160)
      | BCH_ADDR_INVALID \<Rightarrow> None)"

section \<open>From script to address\<close>

function b58_push :: "nat \<Rightarrow> bytes" where
  "b58_push carry = (if carry = 0 then [] else of_nat (carry mod 58) # b58_push (carry div 58))"
  by pat_completeness auto

termination by (relation "measure (\<lambda>carry. carry)") auto

declare b58_push.simps [simp del]

text \<open>The digits, least significant first, times 256 plus the next byte.\<close>

fun b58_add :: "bytes \<Rightarrow> nat \<Rightarrow> bytes" where
  "b58_add [] carry = b58_push carry"
| "b58_add (d # ds) carry =
     (let carry = carry + push_bit 8 (unat d)
      in of_nat (carry mod 58) # b58_add ds (carry div 58))"

definition b58check_encode :: "nat \<Rightarrow> byte \<Rightarrow> bytes \<Rightarrow> bytes option" where
  "b58check_encode outsz ver hash20 =
     (let payload = ver # take 20 hash20;
          payload = payload @ take 4 (gen_hash payload);
          zeros = length (takeWhile (\<lambda>b. b = 0) payload);
          digits = foldl (\<lambda>digits b. b58_add digits (unat b)) [0] (drop zeros payload);
          digits = rev (dropWhile (\<lambda>d. d = 0) (rev digits))
      in if outsz \<le> zeros + length digits then None
         else Some (replicate zeros 0x31 @ map (\<lambda>d. bch_b58_alphabet ! unat d) (rev digits)))"

definition b58check_version :: "bytes \<Rightarrow> int" where
  "b58check_version s =
     (if length s < 26 \<or> 35 < length s then -1
      else if \<exists>c\<in>set s. c \<notin> set bch_b58_alphabet then -1
      else
        let bin = b58tobin s; check = gen_hash (take 21 bin) in
        if take 4 check \<noteq> take 4 (drop 21 bin) then -1 else uint (bin ! 0))"

definition bech32_polymod_step :: "u32 \<Rightarrow> u32" where
  "bech32_polymod_step pre =
     (let b = ucast (drop_bit 25 pre) :: byte in
      push_bit 5 (pre AND 0x1ffffff) XOR
      (if drop_bit 0 b AND 1 \<noteq> 0 then 0x3b6a57b2 else 0) XOR
      (if drop_bit 1 b AND 1 \<noteq> 0 then 0x26508e6d else 0) XOR
      (if drop_bit 2 b AND 1 \<noteq> 0 then 0x1ea119fa else 0) XOR
      (if drop_bit 3 b AND 1 \<noteq> 0 then 0x3d4233dd else 0) XOR
      (if drop_bit 4 b AND 1 \<noteq> 0 then 0x2a1462b3 else 0))"

definition bech32_hrp_chk :: "bytes \<Rightarrow> u32" where
  "bech32_hrp_chk hrp =
     (let chk = foldl (\<lambda>chk c. bech32_polymod_step chk XOR ucast (drop_bit 5 c)) 1 hrp;
          chk = bech32_polymod_step chk
      in foldl (\<lambda>chk c. bech32_polymod_step chk XOR ucast (c AND 0x1f)) chk hrp)"

fun bech32_data_chk :: "u32 \<Rightarrow> bytes \<Rightarrow> u32 option" where
  "bech32_data_chk chk [] = Some chk"
| "bech32_data_chk chk (c # s) =
     (case strchr bech32_charset (tolower c) of
        None \<Rightarrow> None
      | Some pos \<Rightarrow> bech32_data_chk (bech32_polymod_step chk XOR of_nat pos) s)"

definition bech32_hrp_is :: "bytes \<Rightarrow> bytes \<Rightarrow> bool" where
  "bech32_hrp_is s hrp =
     (let hrplen = length hrp in
      if length s < hrplen + 8 \<or> 90 < length s then False
      else if \<not> strncaseeq s hrp hrplen \<or> s ! hrplen \<noteq> 0x31 then False
      else case bech32_data_chk (bech32_hrp_chk hrp) (drop (hrplen + 1) s) of
             None \<Rightarrow> False
           | Some chk \<Rightarrow> chk = 1 \<or> chk = 0x2bc830a3)"

function emit_fives :: "u32 \<Rightarrow> nat \<Rightarrow> bytes \<Rightarrow> nat \<times> bytes" where
  "emit_fives acc bits out =
     (if 5 \<le> bits
      then emit_fives acc (bits - 5) (out @ [ucast (drop_bit (bits - 5) acc AND 0x1f)])
      else (bits, out))"
  by pat_completeness auto

termination by (relation "measure (\<lambda>(_, bits, _). bits)") auto

declare emit_fives.simps [simp del]

fun to5_loop :: "bytes \<Rightarrow> u32 \<Rightarrow> nat \<Rightarrow> bytes \<Rightarrow> u32 \<times> nat \<times> bytes" where
  "to5_loop [] acc bits out = (acc, bits, out)"
| "to5_loop (b # bs) acc bits out =
     (let acc = push_bit 8 acc OR ucast b;
          (bits, out) = emit_fives acc (bits + 8) out
      in to5_loop bs acc bits out)"

definition convert_bits_to5 :: "bytes \<Rightarrow> bytes" where
  "convert_bits_to5 ins =
     (let (acc, bits, out) = to5_loop ins 0 0 []
      in if bits \<noteq> 0 then out @ [ucast (push_bit (5 - bits) acc AND 0x1f)] else out)"

definition bech32_encode :: "nat \<Rightarrow> bytes \<Rightarrow> bytes \<Rightarrow> u32 \<Rightarrow> bytes option" where
  "bech32_encode outsz hrp data xorval =
     (if outsz \<le> length hrp + 1 + length data + 6 then None
      else
        let chk = foldl (\<lambda>chk d. bech32_polymod_step chk XOR ucast d) (bech32_hrp_chk hrp) data;
            chk = (bech32_polymod_step ^^ 6) chk XOR xorval
        in Some (hrp @ [0x31] @ map (\<lambda>d. bech32_charset ! unat d) data @
             map (\<lambda>i. bech32_charset ! unat (drop_bit ((5 - i) * 5) chk AND 0x1f)) [0..<6]))"

definition hrp_bc :: bytes where "hrp_bc = [0x62, 0x63]"

definition hrp_tb :: bytes where "hrp_tb = [0x74, 0x62]"

definition hrp_bcrt :: bytes where "hrp_bcrt = [0x62, 0x63, 0x72, 0x74]"

text \<open>The chain \<open>ref\<close> names: its Bech32 prefix, and its P2PKH and P2SH version bytes.\<close>

definition address_chain :: "bytes \<Rightarrow> bytes \<times> byte \<times> byte" where
  "address_chain ref =
     (if ref = [] then (hrp_bc, 0x00, 0x05)
      else
        let refver = b58check_version ref in
        if bech32_hrp_is ref hrp_bcrt then (hrp_bcrt, 0x6f, 0xc4)
        else if bech32_hrp_is ref hrp_tb \<or> refver = 0x6f \<or> refver = 0xc4
        then (hrp_tb, 0x6f, 0xc4)
        else (hrp_bc, 0x00, 0x05))"

text \<open>A \<open>NULL\<close> reference and the empty one are both the empty list.\<close>

definition txn_to_address :: "nat \<Rightarrow> bytes \<Rightarrow> bytes \<Rightarrow> bytes option" where
  "txn_to_address alen script ref =
     (let (hrp, p2pkh, p2sh) = address_chain ref; slen = length script in
      if slen = 25 \<and> script ! 0 = 0x76 \<and> script ! 1 = 0xa9 \<and> script ! 2 = 0x14 \<and>
         script ! 23 = 0x88 \<and> script ! 24 = 0xac
      then b58check_encode alen p2pkh (drop 3 script)
      else if slen = 23 \<and> script ! 0 = 0xa9 \<and> script ! 1 = 0x14 \<and> script ! 22 = 0x87
      then b58check_encode alen p2sh (drop 2 script)
      else if slen < 4 then None
      else if script ! 0 \<noteq> 0 \<and> (script ! 0 < 0x51 \<or> 0x60 < script ! 0) then None
      else
        let ver = (if script ! 0 \<noteq> 0 then script ! 0 - 0x50 else 0);
            plen = unat (script ! 1) in
        if plen < 2 \<or> 40 < plen \<or> plen \<noteq> slen - 2 then None
        else if ver = 0 \<and> plen \<noteq> 20 \<and> plen \<noteq> 32 then None
        else bech32_encode alen hrp (ver # convert_bits_to5 (take plen (drop 2 script)))
               (if ver \<noteq> 0 then 0x2bc830a3 else 1))"

section \<open>Base58 numbers\<close>

definition bytes_val :: "bytes \<Rightarrow> nat" where
  "bytes_val bs = val 256 (map unat bs)"

lemma bytes_val_less: "bytes_val bs < 256 ^ length bs"
  unfolding bytes_val_def using val_less [of "map unat bs" 256] unat_byte_lt by auto

lemma bytes_val_Cons: "bytes_val (b # bs) = unat b * 256 ^ length bs + bytes_val bs"
  by (simp add: bytes_val_def val_Cons)

lemma bytes_val_append: "bytes_val (xs @ ys) = bytes_val xs * 256 ^ length ys + bytes_val ys"
  by (simp add: bytes_val_def val_append)

lemma bytes_val_inject: "bytes_val xs = bytes_val ys \<Longrightarrow> length xs = length ys \<Longrightarrow> xs = ys"
  unfolding bytes_val_def by (rule val_bytes_inject)

lemma b58_mul_val:
  "b58_mul bs carry = (bs', carry') \<Longrightarrow>
    length bs' = length bs \<and>
    bytes_val bs' + carry' * 256 ^ length bs = 58 * bytes_val bs + carry"
proof (induction bs arbitrary: bs' carry')
  case Nil
  then show ?case by (simp add: bytes_val_def)
next
  case (Cons b bs)
  obtain xs c where m: "b58_mul bs carry = (xs, c)" by fastforce
  let ?c = "c + 58 * unat b"
  have r: "bs' = of_nat (?c mod 256) # xs" "carry' = ?c div 256"
    using Cons.prems by (simp_all add: m Let_def)
  from Cons.IH [OF m] have i: "length xs = length bs"
      "bytes_val xs + c * 256 ^ length bs = 58 * bytes_val bs + carry" by auto
  define lo hi where "lo = ?c mod 256" and "hi = ?c div 256"
  have lh: "lo + hi * 256 = ?c" "unat (of_nat lo :: byte) = lo"
    by (simp_all add: lo_def hi_def unat_of_nat)
  have "bytes_val bs' + carry' * 256 ^ Suc (length bs) =
      (lo + hi * 256) * 256 ^ length bs + bytes_val xs"
    unfolding r(1,2) lo_def [symmetric] hi_def [symmetric]
    by (simp add: bytes_val_Cons i(1) lh(2) algebra_simps)
  also have "\<dots> = 58 * bytes_val (b # bs) + carry"
    unfolding lh(1) using i(2) by (simp add: bytes_val_Cons algebra_simps)
  finally show ?case using r(1) i(1) by simp
qed

definition b58_index :: "byte \<Rightarrow> nat" where
  "b58_index c = length (takeWhile (\<lambda>x. x \<noteq> c) bch_b58_alphabet)"

definition b58_val :: "bytes \<Rightarrow> nat" where
  "b58_val s = val 58 (map b58_index s)"

lemma strchr_b58:
  "strchr bch_b58_alphabet c = (if c \<in> set bch_b58_alphabet then Some (b58_index c) else None)"
  by (simp add: strchr_def b58_index_def)

lemma b58decode_loop_val:
  "b58decode_loop s acc = Some out \<longleftrightarrow>
    set s \<subseteq> set bch_b58_alphabet \<and> length out = length acc \<and>
    bytes_val out = bytes_val acc * 58 ^ length s + b58_val s"
proof (induction s arbitrary: acc)
  case Nil
  then show ?case using bytes_val_inject by (auto simp: b58_val_def)
next
  case (Cons c s)
  obtain acc' carry where m: "b58_mul acc (b58_index c) = (acc', carry)" by fastforce
  from b58_mul_val [OF m] have l: "length acc' = length acc"
    and v: "bytes_val acc' + carry * 256 ^ length acc = 58 * bytes_val acc + b58_index c" by auto
  have s: "bytes_val acc * 58 ^ length (c # s) + b58_val (c # s) =
      (bytes_val acc' + carry * 256 ^ length acc) * 58 ^ length s + b58_val s"
    by (simp add: v b58_val_def val_Cons algebra_simps)
  show ?case
  proof (cases "carry = 0")
    case True
    then show ?thesis by (simp add: strchr_b58 m Cons.IH l) (use s in auto)
  next
    case False
    have "256 ^ length acc * 1 \<le> (bytes_val acc' + carry * 256 ^ length acc) * 58 ^ length s"
      using False by (intro mult_le_mono) (auto simp: add_increasing)
    then have "bytes_val out \<noteq> bytes_val acc * 58 ^ length (c # s) + b58_val (c # s)"
      if "length out = length acc"
      using bytes_val_less [of out] that unfolding s by auto
    then show ?thesis using False by (auto simp: strchr_b58 m)
  qed
qed

lemma bytes_val_zeros [simp]: "bytes_val (replicate n 0) = 0"
  by (simp add: bytes_val_def)

lemma b58decode_strict_iff:
  "bch_b58decode_strict s = Some out \<longleftrightarrow>
    s \<noteq> [] \<and> length s \<le> 100 \<and> set s \<subseteq> set bch_b58_alphabet \<and> length out = 25 \<and>
    bytes_val out = b58_val s"
  by (auto simp: bch_b58decode_strict_def b58decode_loop_val)

section \<open>The two decoders agree\<close>

definition words_val :: "u32 list \<Rightarrow> nat" where
  "words_val ws = val (2 ^ 32) (map unat ws)"

lemma words_val_Cons: "words_val (w # ws) = unat w * (2 ^ 32) ^ length ws + words_val ws"
  by (simp add: words_val_def val_Cons)

lemma words_val_less: "words_val ws < (2 ^ 32) ^ length ws"
proof -
  have "unat w < 2 ^ 32" for w :: u32 using unsigned_less [of w, where 'a = nat] by simp
  then show ?thesis unfolding words_val_def using val_less [of "map unat ws" "2 ^ 32"] by auto
qed

lemma mul32_step:
  assumes "unat (c :: u32) < 58" and "t = ucast (w :: u32) * 58 + (ucast c :: u64)"
  shows "unat (ucast (drop_bit 32 (t AND 0x3f00000000)) :: u32) = (unat w * 58 + unat c) div 2 ^ 32"
    and "unat (ucast (t AND 0xffffffff) :: u32) = (unat w * 58 + unat c) mod 2 ^ 32"
proof -
  have w: "unat w < 2 ^ 32" using unsigned_less [of w, where 'a = nat] by simp
  have u: "unat (ucast x :: u64) = unat x" for x :: u32
    using unsigned_less [of x, where 'a = nat]
    by (simp add: unsigned_ucast_eq take_bit_nat_eq_self)
  have "unat w * 58 + unat c < 2 ^ 38" using w assms(1) by simp
  then have t: "unat t = unat w * 58 + unat c"
    unfolding assms(2) by (simp add: unat_word_ariths u)
  have m: "(0xffffffff :: u64) = mask 32" "(0x3f00000000 :: u64) = push_bit 32 (mask 6)"
    by (simp_all add: mask_eq_exp_minus_1)
  show "unat (ucast (t AND 0xffffffff) :: u32) = (unat w * 58 + unat c) mod 2 ^ 32"
    by (simp only: m(1) take_bit_eq_mask [symmetric])
      (simp add: unsigned_ucast_eq unsigned_take_bit_eq t, simp add: take_bit_eq_mod)
  have "drop_bit 32 (t AND push_bit 32 (mask 6)) = take_bit 6 (drop_bit 32 t)"
    by (rule bit_word_eqI) (auto simp: bit_simps)
  then have "unat (drop_bit 32 (t AND 0x3f00000000)) = (unat w * 58 + unat c) div 2 ^ 32 mod 2 ^ 6"
    by (simp only: m(2)) (simp add: unsigned_take_bit_eq unat_drop_bit_eq t, simp add: take_bit_eq_mod drop_bit_eq_div)
  also have "\<dots> = (unat w * 58 + unat c) div 2 ^ 32" using w assms(1) by simp
  finally show "unat (ucast (drop_bit 32 (t AND 0x3f00000000)) :: u32) = (unat w * 58 + unat c) div 2 ^ 32"
    using w assms(1) by (simp add: unsigned_ucast_eq take_bit_nat_eq_self)
qed

lemma b58_mul32_val:
  "b58_mul32 ws c = (ws', c') \<Longrightarrow> unat c < 58 \<Longrightarrow>
    length ws' = length ws \<and> unat c' < 58 \<and>
    words_val ws' + unat c' * (2 ^ 32) ^ length ws = 58 * words_val ws + unat c"
proof (induction ws arbitrary: ws' c')
  case Nil
  then show ?case by (simp add: words_val_def)
next
  case (Cons w ws)
  obtain xs d where m: "b58_mul32 ws c = (xs, d)" by fastforce
  from Cons.IH [OF m Cons.prems(2)] have d: "unat d < 58" and l: "length xs = length ws"
    and v: "words_val xs + unat d * (2 ^ 32) ^ length ws = 58 * words_val ws + unat c" by auto
  define hi lo where "hi = (unat w * 58 + unat d) div 2 ^ 32" and "lo = (unat w * 58 + unat d) mod 2 ^ 32"
  have e: "lo + hi * 2 ^ 32 = unat w * 58 + unat d" by (simp add: hi_def lo_def)
  have "unat w < 2 ^ 32" using unsigned_less [of w, where 'a = nat] by simp
  then have h: "hi < 58" using d unfolding hi_def by simp
  obtain x where r: "ws' = x # xs" "unat x = lo" "unat c' = hi"
    using Cons.prems(1) mul32_step [OF d refl] by (auto simp: m Let_def hi_def lo_def)
  have "words_val ws' + unat c' * (2 ^ 32) ^ Suc (length ws) =
      (lo + hi * 2 ^ 32) * (2 ^ 32) ^ length ws + words_val xs"
    unfolding r words_val_Cons l by (simp add: algebra_simps)
  also have "\<dots> = 58 * words_val (w # ws) + unat c"
    unfolding e words_val_Cons using v by (simp add: algebra_simps)
  finally show ?case using r l h by simp
qed

lemma b58_digit32_index:
  "list_all (\<lambda>c. b58_digit32 c = of_nat (b58_index c) \<and> b58_index c < 58) bch_b58_alphabet"
  by (simp add: bch_b58_alphabet_def b58_digit32_def b58tobin_tbl_def b58_index_def)

lemma b58tobin_words:
  assumes "set s \<subseteq> set bch_b58_alphabet" and "words_val ws * 58 ^ length s + b58_val s < (2 ^ 32) ^ length ws"
  shows "length (foldl (\<lambda>w ch. fst (b58_mul32 w (b58_digit32 ch))) ws s) = length ws \<and>
    words_val (foldl (\<lambda>w ch. fst (b58_mul32 w (b58_digit32 ch))) ws s) =
      words_val ws * 58 ^ length s + b58_val s"
  using assms
proof (induction s arbitrary: ws)
  case Nil
  then show ?case by (simp add: b58_val_def)
next
  case (Cons c s)
  obtain ws' c' where m: "b58_mul32 ws (b58_digit32 c) = (ws', c')" by fastforce
  have "b58_digit32 c = of_nat (b58_index c)" "b58_index c < 58"
    using b58_digit32_index Cons.prems(1) by (auto simp: list_all_iff)
  then have d: "unat (b58_digit32 c) = b58_index c" "unat (b58_digit32 c) < 58"
    by (simp_all add: unat_of_nat)
  have v: "length ws' = length ws"
      "words_val ws' + unat c' * (2 ^ 32) ^ length ws = 58 * words_val ws + b58_index c"
    using b58_mul32_val [OF m d(2)] by (simp_all add: d(1))
  have s: "words_val ws * 58 ^ length (c # s) + b58_val (c # s) =
      (words_val ws' + unat c' * (2 ^ 32) ^ length ws) * 58 ^ length s + b58_val s"
    unfolding v(2) by (simp add: b58_val_def val_Cons algebra_simps)
  have "unat c' = 0"
  proof (rule ccontr)
    assume "unat c' \<noteq> 0"
    then have "(2 ^ 32) ^ length ws * 1 \<le> (words_val ws' + unat c' * (2 ^ 32) ^ length ws) * 58 ^ length s"
      by (intro mult_le_mono) (auto simp: add_increasing)
    then show False using Cons.prems(2) unfolding s by simp
  qed
  then show ?case
    using Cons.IH [of ws'] Cons.prems s v(1) by (simp add: m)
qed

lemma bytes_val_htobe32: "bytes_val (htobe32_bytes w) = unat w" "length (htobe32_bytes w) = 4"
proof -
  have u: "[0..<4] = [0, 1, 2, 3 :: nat]" by (simp add: upt_rec)
  have d: "digits 256 (Suc (Suc (Suc (Suc 0)))) x =
      [x div 256 div 256 div 256 mod 256, x div 256 div 256 mod 256, x div 256 mod 256, x mod 256]" for x
    by simp
  have b: "unat (ucast (drop_bit k w) :: byte) = unat w div 2 ^ k mod 256" for k
    by (simp add: unsigned_ucast_eq unat_drop_bit_eq, simp add: take_bit_eq_mod drop_bit_eq_div)
  have "map unat (htobe32_bytes w) =
      [unat w div 2 ^ 24 mod 256, unat w div 2 ^ 16 mod 256, unat w div 2 ^ 8 mod 256, unat w div 2 ^ 0 mod 256]"
    unfolding htobe32_bytes_def le_bytes_def u list.map b rev.simps append.simps
    using b [of 8] b [of 16] b [of 24] b [of 0] by simp
  also have "\<dots> = digits 256 (Suc (Suc (Suc (Suc 0)))) (unat w)"
    unfolding d by (simp add: div_mult2_eq [symmetric])
  finally have "map unat (htobe32_bytes w) = digits 256 4 (unat w)"
    by (simp add: numeral_3_eq_3 eval_nat_numeral del: digits.simps)
  moreover have "unat w < 256 ^ 4" using unsigned_less [of w, where 'a = nat] by simp
  ultimately show "bytes_val (htobe32_bytes w) = unat w"
    unfolding bytes_val_def by (simp only: val_digits_id)
qed (simp add: htobe32_bytes_def)

lemma bytes_val_words: "bytes_val (concat (map htobe32_bytes ws)) = words_val ws \<and>
    length (concat (map htobe32_bytes ws)) = 4 * length ws"
proof (induction ws)
  case Nil
  then show ?case by (simp add: words_val_def bytes_val_def)
next
  case (Cons w ws)
  then show ?case
    by (simp add: bytes_val_append words_val_Cons bytes_val_htobe32 power_mult)
qed

lemma b58tobin_strict:
  assumes "bch_b58decode_strict s = Some out"
  shows "b58tobin s = out"
proof -
  have s: "set s \<subseteq> set bch_b58_alphabet" and o: "length out = 25" "bytes_val out = b58_val s"
    using assms by (auto simp: b58decode_strict_iff)
  then have b: "b58_val s < 2 ^ 200" using bytes_val_less [of out] by simp
  have z: "words_val (replicate 7 0) = 0" by (simp add: words_val_def)
  let ?ws = "foldl (\<lambda>w ch. fst (b58_mul32 w (b58_digit32 ch))) (replicate 7 0) s"
  have "words_val (replicate 7 0) * 58 ^ length s + b58_val s < (2 ^ 32) ^ length (replicate 7 (0::u32))"
    unfolding z using b by simp
  from b58tobin_words [OF s this] have l: "length ?ws = 7" and v: "words_val ?ws = b58_val s"
    unfolding z by simp_all
  obtain w ws where w: "?ws = w # ws" "length ws = 6" using l by (cases ?ws) auto
  have "unat w * 2 ^ 192 \<le> b58_val s" using v unfolding w(1) by (simp add: words_val_Cons w(2))
  with b have "unat w < 2 ^ 8" by simp
  then have "unat (ucast (w AND 0xff) :: byte) = unat w"
    by (simp add: unsigned_ucast_eq take_bit_nat_eq_self)
  then have "bytes_val (b58tobin s) = b58_val s" "length (b58tobin s) = 25"
    using bytes_val_words [of ws] v w(2) unfolding b58tobin_def Let_def w(1)
    by (simp_all add: bytes_val_Cons words_val_Cons power_mult)
  then show ?thesis using o by (intro bytes_val_inject) simp_all
qed

section \<open>Base58Check encoding\<close>

text \<open>The number of a digit list kept least significant first.\<close>

definition le58 :: "bytes \<Rightarrow> nat" where
  "le58 ds = val 58 (map unat (rev ds))"

lemma le58_Cons: "le58 (d # ds) = unat d + 58 * le58 ds"
  by (simp add: le58_def)

lemma b58_push_val: "le58 (b58_push n) = n \<and> (\<forall>d\<in>set (b58_push n). unat d < 58)"
proof (induction n rule: b58_push.induct)
  case (1 n)
  have "unat (of_nat (n mod 58) :: byte) = n mod 58"
    using mod_less_divisor [of 58 n] by (simp add: unat_of_nat)
  then show ?case using 1
    by (subst (1 2) b58_push.simps) (auto simp: le58_Cons le58_def)
qed

lemma b58_add_val:
  "le58 (b58_add ds n) = 256 * le58 ds + n \<and> (\<forall>d\<in>set (b58_add ds n). unat d < 58)"
proof (induction ds arbitrary: n)
  case Nil
  then show ?case using b58_push_val [of n] by (simp add: le58_def)
next
  case (Cons d ds)
  let ?c = "n + push_bit 8 (unat d)"
  have "unat (of_nat (?c mod 58) :: byte) = ?c mod 58"
    using mod_less_divisor [of 58 ?c] by (simp add: unat_of_nat)
  moreover have "?c mod 58 + 58 * (?c div 58) = n + 256 * unat d"
    by (simp add: push_bit_eq_mult)
  ultimately show ?case
    using Cons.IH [of "?c div 58"] by (simp add: Let_def le58_Cons algebra_simps)
qed

lemma b58_adds_val:
  assumes "\<forall>d\<in>set ds. unat d < 58"
  shows "le58 (foldl (\<lambda>ds b. b58_add ds (unat b)) ds bs) = le58 ds * 256 ^ length bs + bytes_val bs \<and>
    (\<forall>d\<in>set (foldl (\<lambda>ds b. b58_add ds (unat b)) ds bs). unat d < 58)"
  using assms
proof (induction bs arbitrary: ds)
  case Nil
  then show ?case by (simp add: bytes_val_def)
next
  case (Cons b bs)
  from Cons.IH [of "b58_add ds (unat b)"] b58_add_val [of ds "unat b"] show ?case
    by (simp add: bytes_val_Cons algebra_simps)
qed

lemma val_dropWhile_zeros: "val 58 (map unat (dropWhile (\<lambda>d. d = 0) ds)) = val 58 (map unat ds)"
  by (induction ds) (auto simp: val_Cons)

lemma bytes_val_dropWhile: "bytes_val (dropWhile (\<lambda>d. d = 0) bs) = bytes_val bs"
  by (induction bs) (auto simp: bytes_val_Cons)

lemma b58_alphabet_index:
  "list_all (\<lambda>n. b58_index (bch_b58_alphabet ! n) = n) [0..<58]" "length bch_b58_alphabet = 58"
  by (simp_all add: upt_rec bch_b58_alphabet_def b58_index_def)

lemma b58_val_alphabet:
  "\<forall>d\<in>set ds. unat d < 58 \<Longrightarrow>
    b58_val (map (\<lambda>d. bch_b58_alphabet ! unat d) ds) = val 58 (map unat ds)"
  unfolding b58_val_def
  using b58_alphabet_index(1) by (intro arg_cong [where f = "val 58"]) (auto simp: list_all_iff)

lemma b58_ones: "b58_val (replicate n 0x31 @ s) = b58_val s"
proof -
  have "b58_index 0x31 = 0" by (simp add: b58_index_def bch_b58_alphabet_def)
  then show ?thesis by (simp add: b58_val_def val_append)
qed

text \<open>The characters of 25 bytes: at most 35, as the code's comment says.\<close>

lemma digits58_length:
  assumes "ds \<noteq> []" and "hd ds \<noteq> 0" and "val 58 ds < 256 ^ n" and "n \<le> 25"
  shows "length ds \<le> n + 10"
proof (rule ccontr)
  assume l: "\<not> length ds \<le> n + 10"
  obtain d es where ds: "ds = d # es" "d \<noteq> 0" using assms(1,2) by (cases ds) auto
  have "58 ^ (n + 10) \<le> (58::nat) ^ length es" using l ds by (intro power_increasing) auto
  also have "\<dots> \<le> d * 58 ^ length es" using ds(2) by simp
  also have "\<dots> \<le> val 58 ds" by (simp add: ds(1) val_Cons)
  finally have "58 ^ (n + 10) < (256::nat) ^ n" using assms(3) by simp
  then have "58 ^ (n + 10) * 58 ^ (25 - n) < (256::nat) ^ n * 256 ^ (25 - n)"
    by (intro mult_less_le_imp_less power_mono) simp_all
  then have "(58::nat) ^ 35 < 256 ^ 25"
    using assms(4) by (simp flip: power_add)
  then show False by simp
qed

lemma b58check_encode_payload:
  assumes "length h = 20" and p_def: "p = (ver # h) @ take 4 (gen_hash (ver # h))"
  shows "\<exists>s. b58check_encode outsz ver h = (if outsz \<le> length s then None else Some s) \<and>
    length s \<le> 35 \<and> bch_b58decode_strict s = Some p"
proof -
  define z where "z = length (takeWhile (\<lambda>b. b = 0) p)"
  define ds where "ds = foldl (\<lambda>ds b. b58_add ds (unat b)) [0] (drop z p)"
  define es where "es = dropWhile (\<lambda>d. d = 0) (rev ds)"
  define s where "s = replicate z 0x31 @ map (\<lambda>d. bch_b58_alphabet ! unat d) es"
  have l: "length p = 25" by (simp add: p_def assms(1))
  have dw: "drop z p = dropWhile (\<lambda>b. b = 0) p" unfolding z_def by (rule dropWhile_eq_drop [symmetric])
  have bp: "bytes_val (drop z p) = bytes_val p" unfolding dw by (rule bytes_val_dropWhile)
  have v: "le58 ds = bytes_val p" and small: "\<forall>d\<in>set ds. unat d < 58"
    using b58_adds_val [of "[0]" "drop z p"] by (simp_all add: ds_def bp le58_Cons, simp add: le58_def)
  have es: "val 58 (map unat es) = bytes_val p" "\<forall>d\<in>set es. unat d < 58"
    using v small unfolding es_def by (auto simp: le58_def val_dropWhile_zeros dest: set_dropWhileD)
  have z: "z \<le> 25" using length_takeWhile_le [of "\<lambda>b. b = 0" p] l by (simp add: z_def)
  have len: "length s \<le> 35"
  proof (cases "es = []")
    case True
    then show ?thesis using z by (simp add: s_def)
  next
    case False
    have "hd es \<noteq> 0" using False hd_dropWhile [of "\<lambda>d. d = 0" "rev ds"] by (simp add: es_def)
    then have "hd (map unat es) \<noteq> 0" using False by (simp add: hd_map unat_gt_0)
    moreover have "val 58 (map unat es) < 256 ^ (25 - z)"
      using bytes_val_less [of "drop z p"] es(1) l bp by simp
    ultimately have "length (map unat es) \<le> 25 - z + 10"
      using False by (intro digits58_length) simp_all
    then show ?thesis using z by (simp add: s_def)
  qed
  have alpha: "set s \<subseteq> set bch_b58_alphabet"
  proof -
    have "(0x31 :: byte) \<in> set bch_b58_alphabet" by (simp add: bch_b58_alphabet_def)
    then show ?thesis using es(2) b58_alphabet_index(2) by (auto simp: s_def intro!: nth_mem)
  qed
  have "s \<noteq> []"
  proof
    assume "s = []"
    then have "es = []" and z0: "z = 0" by (simp_all add: s_def)
    then have "bytes_val p = 0" using es(1) by simp
    moreover obtain b q where p: "p = b # q" using l by (cases p) auto
    ultimately have "b = 0" by (simp add: bytes_val_Cons word_unat_eq_iff)
    then show False using z0 by (simp add: z_def p)
  qed
  moreover have "b58_val s = bytes_val p"
    using es by (simp add: s_def b58_ones b58_val_alphabet)
  ultimately have "bch_b58decode_strict s = Some p"
    using alpha len l by (simp add: b58decode_strict_iff)
  moreover have "b58check_encode outsz ver h = (if outsz \<le> length s then None else Some s)"
    using assms(1) by (simp add: b58check_encode_def Let_def p_def s_def es_def ds_def z_def)
  ultimately show ?thesis using len by blast
qed

section \<open>Round trips\<close>

lemma b58_no_colon: "0x3a \<notin> set bch_b58_alphabet"
  by (simp add: bch_b58_alphabet_def)

lemma legacy_not_cashaddr_shaped:
  assumes "bch_b58decode_strict s = Some out" and "length s \<noteq> 42"
  shows "\<not> bch_addr_is_cashaddr_shaped s"
proof -
  have "0x3a \<notin> set s" using assms(1) b58_no_colon by (auto simp: b58decode_strict_iff)
  then show ?thesis using assms(2) by (simp add: bch_addr_is_cashaddr_shaped_def strchr_def)
qed

text \<open>The version byte a script type has on the network the prefix selects.\<close>

definition legacy_version :: "bool \<Rightarrow> bool \<Rightarrow> byte" where
  "legacy_version mainnet p2sh =
     (if mainnet then (if p2sh then 0x05 else 0x00) else (if p2sh then 0xc4 else 0x6f))"

definition pays :: "bool \<Rightarrow> bytes \<Rightarrow> bytes" where
  "pays p2sh h = (if p2sh then hash160_to_p2sh_script h else hash160_to_p2pkh_script h)"

lemma base58_to_script:
  assumes "length h = 20" and "ver = legacy_version (strcaseeq prefix bitcoincash) p2sh"
    and "b58check_encode outsz ver h = Some s"
  shows "bch_address_to_script s prefix = Some (pays p2sh h)"
proof -
  let ?p = "(ver # h) @ take 4 (gen_hash (ver # h))"
  from b58check_encode_payload [OF assms(1) refl, of outsz ver] assms(3)
  have d: "length s \<le> 35" "bch_b58decode_strict s = Some ?p"
    by (auto split: if_splits)
  have "\<not> bch_addr_is_cashaddr_shaped s"
    using legacy_not_cashaddr_shaped [OF d(2)] d(1) by simp
  moreover have "take 21 ?p = ver # h" "take 4 (drop 21 ?p) = take 4 (gen_hash (ver # h))"
      "?p ! 0 = ver" "take 20 (drop 1 ?p) = h"
    using assms(1) by simp_all
  ultimately show ?thesis
    using assms(1,2) d(2)
    by (auto simp: bch_address_to_script_def bch_classify_address_def bch_classify_legacy_def
        Let_def gen_hash_def legacy_version_def pays_def)
qed

lemma pays_shape:
  assumes "length h = 20"
  shows "length (hash160_to_p2pkh_script h) = 25" "length (hash160_to_p2sh_script h) = 23"
    "hash160_to_p2pkh_script h ! 23 = 0x88" "hash160_to_p2pkh_script h ! 24 = 0xac"
    "hash160_to_p2sh_script h ! 22 = 0x87"
  using assms by (simp_all add: hash160_to_p2pkh_script_def hash160_to_p2sh_script_def nth_append)

lemma txn_to_address_pays:
  assumes "length h = 20" and "address_chain ref = (hrp, p2pkh, p2sh)"
  shows "txn_to_address alen (pays is_p2sh h) ref =
    b58check_encode alen (if is_p2sh then p2sh else p2pkh) h"
proof (cases is_p2sh)
  case True
  then show ?thesis using assms pays_shape [OF assms(1)]
    by (simp add: txn_to_address_def pays_def)
      (simp add: hash160_to_p2sh_script_def b58check_encode_def)
next
  case False
  then show ?thesis using assms pays_shape [OF assms(1)]
    by (simp add: txn_to_address_def pays_def)
      (simp add: hash160_to_p2pkh_script_def b58check_encode_def)
qed

text \<open>
  The chain \<open>txn_to_address\<close> writes the address for is the one \<open>bch_classify_address\<close> reads it
  under: then the two are inverse.
\<close>

lemma address_chain_versions:
  "address_chain ref = (hrp, p2pkh, p2sh) \<Longrightarrow>
    p2pkh = legacy_version (hrp = hrp_bc) False \<and> p2sh = legacy_version (hrp = hrp_bc) True"
  by (auto simp: address_chain_def Let_def legacy_version_def hrp_bc_def hrp_tb_def hrp_bcrt_def
      split: if_split_asm)

lemma script_address_script:
  assumes "length h = 20" and "36 \<le> alen"
    and "strcaseeq prefix bitcoincash \<longleftrightarrow> fst (address_chain ref) = hrp_bc"
  shows "\<exists>s. txn_to_address alen (pays is_p2sh h) ref = Some s \<and>
    bch_address_to_script s prefix = Some (pays is_p2sh h)"
proof -
  obtain hrp p2pkh p2sh where c: "address_chain ref = (hrp, p2pkh, p2sh)"
    using prod_cases3 by blast
  let ?v = "if is_p2sh then p2sh else p2pkh"
  have v: "?v = legacy_version (strcaseeq prefix bitcoincash) is_p2sh"
    using address_chain_versions [OF c] assms(3) c by simp
  obtain s where "b58check_encode alen ?v h = Some s"
    using b58check_encode_payload [OF assms(1) refl, of alen ?v] assms(2) by (auto split: if_splits)
  with base58_to_script [OF assms(1) v this] show ?thesis
    by (simp add: txn_to_address_pays [OF assms(1) c])
qed

text \<open>
  Leading ones are zero digits: the strict decoder takes any number of them, so a legacy address
  has as many accepted spellings as fit in a hundred characters.
\<close>

lemma leading_ones_ignored:
  assumes "bch_b58decode_strict s = Some out" and "n + length s \<le> 100"
  shows "bch_b58decode_strict (replicate n 0x31 @ s) = Some out"
proof -
  have "(0x31 :: byte) \<in> set bch_b58_alphabet" by (simp add: bch_b58_alphabet_def)
  then show ?thesis using assms by (auto simp: b58decode_strict_iff b58_ones)
qed

lemma leading_ones_paid:
  assumes "bch_b58decode_strict s = Some out" and "n + length s \<le> 100" and "n + length s \<noteq> 42"
    and "length s \<noteq> 42"
  shows "bch_address_to_script (replicate n 0x31 @ s) prefix = bch_address_to_script s prefix"
  using leading_ones_ignored [OF assms(1,2)] assms
    legacy_not_cashaddr_shaped [OF assms(1,4)]
    legacy_not_cashaddr_shaped [OF leading_ones_ignored [OF assms(1,2)]]
  by (simp add: bch_address_to_script_def bch_classify_address_def bch_classify_legacy_def)

section \<open>Bech32\<close>

lemma bech32_step_eq:
  "bech32_polymod_step c = push_bit 5 (c AND 0x1ffffff) XOR (if bit c 25 then 0x3b6a57b2 else 0) XOR
    (if bit c 26 then 0x26508e6d else 0) XOR (if bit c 27 then 0x1ea119fa else 0) XOR
    (if bit c 28 then 0x3d4233dd else 0) XOR (if bit c 29 then 0x2a1462b3 else 0)"
proof -
  have "(drop_bit k (ucast (drop_bit 25 c) :: byte) AND 1 \<noteq> 0) = bit c (25 + k)" if "k < 8" for k
  proof -
    have "drop_bit k (ucast (drop_bit 25 c) :: byte) AND 1 \<noteq> 0 \<longleftrightarrow> bit (drop_bit k (ucast (drop_bit 25 c) :: byte)) 0"
      using and_exp_eq_0_iff_not_bit [of "drop_bit k (ucast (drop_bit 25 c) :: byte)" 0] by simp
    also have "\<dots> \<longleftrightarrow> bit c (25 + k)" using that by (simp add: bit_simps)
    finally show ?thesis .
  qed
  from this [of 0] this [of 1] this [of 2] this [of 3] this [of 4] show ?thesis
    by (simp only: bech32_polymod_step_def Let_def) simp
qed

lemma bech32_step_xor:
  "bech32_polymod_step (a XOR b) = bech32_polymod_step a XOR bech32_polymod_step b"
proof -
  have p: "push_bit 5 ((a XOR b) AND m) = push_bit 5 (a AND m) XOR push_bit 5 (b AND m)" for m :: u32
    by (rule bit_word_eqI) (auto simp: bit_simps)
  have g: "(if bit (a XOR b) n then G else 0) = (if bit a n then G else 0) XOR (if bit b n then G else 0 :: u32)" for n G
    by (simp add: bit_xor_iff)
  show ?thesis
    by (simp only: bech32_step_eq p g xor.assoc xor.commute xor.left_commute)
qed

lemma bech32_mask: "(0x1ffffff :: u32) = mask 25"
  by (simp add: mask_eq_exp_minus_1)

lemma bech32_step_bound: "unat (bech32_polymod_step c) < 2 ^ 30"
proof -
  have "take_bit 30 (push_bit 5 (c AND 0x1ffffff)) = push_bit 5 (c AND 0x1ffffff)"
    by (simp only: take_bit_push_bit bech32_mask take_bit_eq_mask [symmetric]) simp
  moreover have "take_bit 30 (if P then G else 0) = (if P then G else 0)" if "take_bit 30 G = G" for P and G :: u32
    using that by simp
  ultimately have "take_bit 30 (bech32_polymod_step c) = bech32_polymod_step c"
    unfolding bech32_step_eq take_bit_xor by simp
  then show ?thesis by (rule take_bit_word_less)
qed

lemma bech32_step_small: "unat c < 2 ^ 25 \<Longrightarrow> bech32_polymod_step c = push_bit 5 c"
proof -
  assume "unat c < 2 ^ 25"
  then have s: "take_bit 25 c = c" by (rule small_word)
  have "\<not> bit c n" if "25 \<le> n" for n
    using that by (metis bit_take_bit_iff not_less s)
  moreover have "c AND 0x1ffffff = c" using s by (simp only: bech32_mask take_bit_eq_mask)
  ultimately show ?thesis by (simp add: bech32_step_eq)
qed

text \<open>The five generators are independent in their low five bits.\<close>

lemma bech32_step_zero:
  assumes "unat c < 2 ^ 30" and "bech32_polymod_step c = 0"
  shows "c = 0"
proof -
  have "take_bit 5 (push_bit 5 (c AND 0x1ffffff)) = 0"
    by (simp add: take_bit_push_bit)
  then have "take_bit 5 (bech32_polymod_step c) = 
      (if bit c 25 then 0x12 else 0) XOR (if bit c 26 then 0x0d else 0) XOR (if bit c 27 then 0x1a else 0) XOR
      (if bit c 28 then 0x1d else 0) XOR (if bit c 29 then 0x13 else 0)"
    unfolding bech32_step_eq take_bit_xor by simp
  with assms(2) have "\<not> bit c 25 \<and> \<not> bit c 26 \<and> \<not> bit c 27 \<and> \<not> bit c 28 \<and> \<not> bit c 29"
    by (simp split: if_split_asm)
  moreover have "take_bit 30 c = c" using assms(1) by (rule small_word)
  then have "\<not> bit c n" if "30 \<le> n" for n using that by (metis bit_take_bit_iff not_less)
  moreover have "n = 25 \<or> n = 26 \<or> n = 27 \<or> n = 28 \<or> n = 29" if "25 \<le> n" "n < 30" for n :: nat
    using that by arith
  ultimately have h: "\<not> bit c n" if "25 \<le> n" for n
    using that by (metis not_le)
  then have "take_bit 25 c = c"
    by (intro bit_word_eqI) (metis bit_take_bit_iff not_less)
  then have "push_bit 5 c = 0"
    using bech32_step_small [of c] take_bit_word_less [of 25 c] assms(2) by simp
  then have "\<not> bit (push_bit 5 c) (n + 5)" for n by simp
  then have "\<not> bit c n" if "n < 25" for n
    using that by (auto simp: bit_push_bit_iff)
  with h show "c = 0" by (intro bit_word_eqI) (metis bit_0_eq bot_apply bot_bool_def not_less)
qed

interpretation b32: linear_checksum bech32_polymod_step 6
proof
  show "bech32_polymod_step (a XOR b) = bech32_polymod_step a XOR bech32_polymod_step b" for a b
    by (rule bech32_step_xor)
  show "unat (bech32_polymod_step c) < 2 ^ (5 * 6)" for c
    using bech32_step_bound by simp
  show "unat c < 2 ^ (5 * (6 - 1)) \<Longrightarrow> bech32_polymod_step c = push_bit 5 c" for c
    using bech32_step_small by simp
  show "unat c < 2 ^ (5 * 6) \<Longrightarrow> bech32_polymod_step c = 0 \<Longrightarrow> c = 0" for c
    using bech32_step_zero by simp
qed simp_all

lemma bech32_charset_index:
  "list_all (\<lambda>n. strchr bech32_charset (tolower (bech32_charset ! n)) = Some n) [0..<32]"
  by (simp add: upt_rec bech32_charset_def strchr_def tolower_def)

lemma bech32_data_chk_run:
  "\<forall>d\<in>set ds. d < 32 \<Longrightarrow>
    bech32_data_chk chk (map (\<lambda>d. bech32_charset ! unat d) ds) = Some (run bech32_polymod_step chk ds)"
proof (induction ds arbitrary: chk)
  case Nil
  then show ?case by simp
next
  case (Cons d ds)
  have "unat d \<in> set [0..<32]" using Cons.prems by (simp add: unat_less_32)
  from bspec [OF bech32_charset_index [unfolded list_all_iff] this]
  have "strchr bech32_charset (tolower (bech32_charset ! unat d)) = Some (unat d)" .
  moreover have "of_nat (unat d) = (ucast d :: u32)" by simp
  ultimately show ?case using Cons by simp
qed

lemma run_pow: "run shift c (replicate n 0) = (shift ^^ n) c"
  by (induction n arbitrary: c) (simp_all add: funpow_swap1)

lemma unat_five: "unat (ucast (x AND 0x1f) :: byte) = unat (x AND 0x1f :: u32)"
    "unat (x AND 0x1f :: u32) = unat x mod 32"
proof -
  have m: "(0x1f :: u32) = mask 5" by (simp add: mask_eq_exp_minus_1)
  have a: "unat (x AND 0x1f :: u32) = take_bit 5 (unat x)"
    by (simp only: m take_bit_eq_mask [symmetric] unsigned_take_bit_eq)
  show "unat (ucast (x AND 0x1f) :: byte) = unat (x AND 0x1f :: u32)"
    using take_bit_nat_less_exp [of 5 "unat x"] by (simp add: unsigned_ucast_eq a take_bit_nat_eq_self)
  show "unat (x AND 0x1f :: u32) = unat x mod 32" unfolding a by (simp add: take_bit_eq_mod)
qed

lemma unat_drop_bit32: "unat (drop_bit k (c :: u32)) = unat c div 2 ^ k"
  by (simp add: unat_drop_bit_eq, simp add: drop_bit_eq_div)

lemma map_unat_fives:
  "map (unat \<circ> (\<lambda>i. ucast (drop_bit ((5 - i) * 5) (c :: u32) AND 0x1f) :: byte)) [0..<6] = digits 32 6 (unat c)"
proof -
  have u: "[0..<6] = [0, 1, 2, 3, 4, 5 :: nat]" by (simp add: upt_rec)
  have d: "digits 32 (Suc (Suc (Suc (Suc (Suc (Suc 0)))))) x =
      [x div 32 div 32 div 32 div 32 div 32 mod 32, x div 32 div 32 div 32 div 32 mod 32,
       x div 32 div 32 div 32 mod 32, x div 32 div 32 mod 32, x div 32 mod 32, x mod 32]" for x
    by simp
  have "map (unat \<circ> (\<lambda>i. ucast (drop_bit ((5 - i) * 5) c AND 0x1f) :: byte)) [0..<6] =
      digits 32 (Suc (Suc (Suc (Suc (Suc (Suc 0)))))) (unat c)"
    unfolding u d by (simp add: unat_five unat_drop_bit32 div_mult2_eq [symmetric])
  then show ?thesis by (simp add: eval_nat_numeral del: digits.simps)
qed

text \<open>What \<open>bech32_encode\<close> writes is recognised under its own prefix.\<close>

lemma bech32_encode_recognised:
  assumes e: "bech32_encode outsz hrp data xorval = Some s" and d: "\<forall>d\<in>set data. d < 32" "data \<noteq> []"
    and l: "length hrp + length data + 7 \<le> 90" and x: "xorval = 1 \<or> xorval = 0x2bc830a3"
  shows "bech32_hrp_is s hrp"
proof -
  let ?h = "bech32_hrp_chk hrp"
  let ?q = "run bech32_polymod_step ?h data"
  define chk where "chk = (bech32_polymod_step ^^ 6) ?q XOR xorval"
  define cs where "cs = map (\<lambda>i. ucast (drop_bit ((5 - i) * 5) chk AND 0x1f) :: byte) [0..<6]"
  have x30: "unat xorval < 2 ^ 30" using x by auto
  have "unat ((bech32_polymod_step ^^ 6) ?q) < 2 ^ 30"
  proof -
    have "(6 :: nat) = Suc 5" by simp
    then show ?thesis using bech32_step_bound by (simp only: funpow.simps o_apply)
  qed
  then have c30: "unat chk < 2 ^ 30"
    unfolding chk_def using x30 by (intro take_bit_word_less) (simp add: small_word)
  have "map unat cs = digits 32 6 (unat chk)"
    by (simp add: cs_def map_unat_fives)
  moreover from this have "unat c < 32" if "c \<in> set cs" for c
    using digits_less [of 32 "unat c" 6 "unat chk"] that by (metis imageI list.set_map zero_less_numeral)
  ultimately have cs: "\<forall>c\<in>set cs. c < 32" and v: "val 32 (map unat cs) = unat chk"
    using val_digits_id [of "unat chk" 32 6] c30 by (auto simp: unat_less_32)
  have "run bech32_polymod_step 0 cs = chk"
    using b32.unat_run_0 [OF cs] v by (simp add: cs_def word_unat_eq_iff)
  then have "run bech32_polymod_step ?h (data @ cs) = xorval"
    using b32.run_split [of ?q cs] by (simp add: cs_def run_pow chk_def xor.assoc [symmetric])
  moreover have s: "s = hrp @ 0x31 # map (\<lambda>d. bech32_charset ! unat d) (data @ cs)"
    using e unfolding bech32_encode_def Let_def map_append cs_def map_map o_def unat_five(1)
    by (simp add: chk_def run_def split: if_splits)
  moreover have "length (data @ cs) = length data + 6" "\<forall>d\<in>set (data @ cs). d < 32"
    using d(1) cs by (auto simp: cs_def)
  ultimately obtain ds where "s = hrp @ 0x31 # map (\<lambda>d. bech32_charset ! unat d) ds"
      "run bech32_polymod_step ?h ds = xorval" "length ds = length data + 6" "\<forall>d\<in>set ds. d < 32"
    by blast
  moreover have "1 \<le> length data" using d(2) by (cases data) auto
  ultimately show ?thesis
    using x l by (auto simp: bech32_hrp_is_def Let_def strncaseeq_def nth_append bech32_data_chk_run)
qed

section \<open>Witness programs\<close>

lemma emit_fives_props:
  "bits < 13 \<Longrightarrow> emit_fives acc bits out = (bits', out') \<Longrightarrow> (\<forall>d\<in>set out. d < 32) \<Longrightarrow>
    bits' < 5 \<and> 5 * length out' + bits' = 5 * length out + bits \<and> (\<forall>d\<in>set out'. d < 32)"
proof (induction acc bits out arbitrary: bits' out' rule: emit_fives.induct)
  case (1 acc bits out)
  have "(ucast (drop_bit k acc AND 0x1f) :: byte) < 32" for k
    by (simp only: unat_less_32 unat_five)
  then show ?case
    using 1 by (subst (asm) (2) emit_fives.simps) (auto split: if_split_asm)
qed

lemma to5_loop_props:
  assumes "bits < 5" and "to5_loop bs acc bits out = (acc', bits', out')" and "\<forall>d\<in>set out. d < 32"
  shows "bits' < 5 \<and> 5 * length out' + bits' = 5 * length out + bits + 8 * length bs \<and> (\<forall>d\<in>set out'. d < 32)"
  using assms
proof (induction bs arbitrary: acc bits out)
  case Nil
  then show ?case by simp
next
  case (Cons b bs)
  let ?a = "push_bit 8 acc OR ucast b :: u32"
  obtain k o1 where e: "emit_fives ?a (bits + 8) out = (k, o1)" by fastforce
  have p: "k < 5" "5 * length o1 + k = 5 * length out + (bits + 8)" "\<forall>d\<in>set o1. d < 32"
    using emit_fives_props [OF _ e Cons.prems(3)] Cons.prems(1) by auto
  have "to5_loop bs ?a k o1 = (acc', bits', out')"
    using Cons.prems(2) by (simp add: e Let_def)
  from Cons.IH [OF p(1) this p(3)] p(2) show ?case by simp
qed

lemma convert_bits_to5_props:
  "(\<forall>d\<in>set (convert_bits_to5 bs). d < 32) \<and> 5 * length (convert_bits_to5 bs) \<le> 8 * length bs + 4"
proof -
  obtain acc bits out where l: "to5_loop bs 0 0 [] = (acc, bits, out)" using prod_cases3 by blast
  have "(ucast (push_bit k acc AND 0x1f) :: byte) < 32" for k
    by (simp only: unat_less_32 unat_five)
  then show ?thesis
    using to5_loop_props [OF _ l] by (auto simp: convert_bits_to5_def l)
qed

lemma address_chain_hrp: "fst (address_chain ref) \<in> {hrp_bc, hrp_tb, hrp_bcrt}"
  by (simp add: address_chain_def Let_def)

lemma other_hrp:
  assumes "bech32_hrp_is s hrp_tb"
  shows "\<not> bech32_hrp_is s hrp_bcrt"
proof
  have hd: "tolower (s ! 0) = tolower (h ! 0)" if "bech32_hrp_is s h" "h \<noteq> []" for h
  proof -
    have "map tolower (take (length h) s) = map tolower h"
      using that(1) by (simp add: bech32_hrp_is_def Let_def strncaseeq_def split: if_split_asm)
    moreover have "s \<noteq> []" using that(1) by (auto simp: bech32_hrp_is_def Let_def)
    ultimately show ?thesis using that(2) by (cases s; cases h) auto
  qed
  assume "bech32_hrp_is s hrp_bcrt"
  from hd [OF this] hd [OF assms] show False
    by (simp add: hrp_bcrt_def hrp_tb_def tolower_def)
qed

text \<open>
  The address of a witness program is recognised as one of the chain it was written for.
\<close>

lemma witness_address_recognised:
  assumes "txn_to_address alen script ref = Some s"
    and "\<not> (length script = 25 \<and> script ! 0 = 0x76)" and "\<not> (length script = 23 \<and> script ! 0 = 0xa9)"
  shows "bech32_hrp_is s (fst (address_chain ref)) \<and>
    (fst (address_chain ref) \<noteq> hrp_bc \<longrightarrow> address_chain s = address_chain ref)"
proof -
  obtain hrp p2pkh p2sh where c: "address_chain ref = (hrp, p2pkh, p2sh)"
    using prod_cases3 by blast
  let ?ver = "if script ! 0 \<noteq> 0 then script ! 0 - 0x50 else 0"
  let ?data = "?ver # convert_bits_to5 (take (unat (script ! 1)) (drop 2 script))"
  have e: "bech32_encode alen hrp ?data (if ?ver \<noteq> 0 then 0x2bc830a3 else 1) = Some s"
    and p: "unat (script ! 1) \<le> 40" and v: "script ! 0 \<noteq> 0 \<longrightarrow> 0x51 \<le> script ! 0 \<and> script ! 0 \<le> 0x60"
    using assms by (auto simp: txn_to_address_def c Let_def split: if_split_asm)
  have "?ver < 32"
    using v by (auto simp: unat_less_32 word_le_nat_alt unat_sub)
  moreover have "length hrp \<le> 4"
    using address_chain_hrp [of ref] c by (auto simp: hrp_bc_def hrp_tb_def hrp_bcrt_def)
  moreover have "5 * length (convert_bits_to5 (take (unat (script ! 1)) (drop 2 script))) \<le> 8 * 40 + 4"
    using convert_bits_to5_props [of "take (unat (script ! 1)) (drop 2 script)"] p by auto
  ultimately have r: "bech32_hrp_is s hrp"
    using convert_bits_to5_props
    by (intro bech32_encode_recognised [OF e]) auto
  moreover have "s \<noteq> []" using r by (auto simp: bech32_hrp_is_def Let_def)
  ultimately show ?thesis
    using c other_hrp [of s] address_chain_hrp [of ref]
    by (auto simp: address_chain_def Let_def split: if_split_asm)
qed

end
