(* ===== verification/Demo_Values.thy ===== *)
theory Demo_Values
  imports Sv2_Codec_Mining Sv2_Codec_Jd Merkle Coinbase_Final Sv2_Bridge Sv2_Conn Sv2_Transport Bch_Address
begin

text \<open>
  Concrete inputs for the examples of the root theory, with the facts that say the hypotheses
  of the properties hold for them: a two-read transport stream, a first handshake, a coinbase
  specification, a payout blob, a transaction, messages.
\<close>

section \<open>Transport\<close>

text \<open>A concrete cipher for the examples: the tag is sixteen zero bytes.\<close>

definition plain_seal :: aead_seal where
  "plain_seal k n pt = pt @ replicate 16 0"

definition plain_open :: aead_open where
  "plain_open k n ct = Some (take (length ct - 16) ct)"

definition demo_session :: noise_session where
  "demo_session =
     \<lparr> ns_send_cs = cs_init_key (replicate 32 7), ns_recv_cs = cs_init_key (replicate 32 7),
       ns_handshake_done = True, ns_hdr_pending = False, ns_hdr_pt = [],
       ns_pending_pt_len = 0, ns_pending_need = 0 \<rparr>"

lemma plain_aead: "aead_laws plain_seal plain_open"
  by (simp add: aead_laws_def plain_seal_def plain_open_def)

definition demo_frame :: bytes where "demo_frame = [0, 0, 0x1f, 2, 0, 0, 0xaa, 0xbb]"

definition demo_segments :: "bytes list" where
  "demo_segments =
     [[0, 0, 0x1f], [2, 0, 0] @ replicate 16 0 @ [0xaa], 0xbb # replicate 16 0]"

lemma demo_frame_valid: "valid_frame demo_frame" "payload_len demo_frame = 2" "frame_ops demo_frame = 2"
proof -
  have "sv2_decode_header demo_frame = Some \<lparr> fr_extension_type = 0, fr_msg_type = 0x1f,
      fr_msg_length = 2, fr_payload = None, fr_owned = None \<rparr>"
    by (simp add: demo_frame_def sv2_decode_header_def SV2_FRAME_HEADER_LEN_def SV2_MAX_PAYLOAD_def)
  then show "valid_frame demo_frame"
    by (simp add: valid_frame_def SV2_FRAME_HEADER_LEN_def) (simp add: demo_frame_def)
  show p: "payload_len demo_frame = 2"
    by (simp add: payload_len_def demo_frame_def SV2_FRAME_HEADER_LEN_def)
  show "frame_ops demo_frame = 2" by (simp add: frame_ops_def p chunk_count_def)
qed

lemma demo_sealed:
  "encrypt_all plain_seal (sv2_conn_new demo_session) [demo_frame] = Some (concat demo_segments)"
proof -
  let ?c = "cs_init_key (replicate 32 7)"
  have "noise_encrypt_chunks plain_seal (advance 1 ?c) [0xaa, 0xbb] 2 =
      (Some ([0xaa, 0xbb] @ replicate 16 0), advance 2 ?c)"
    by (simp add: noise_encrypt_chunks.simps [of _ _ _ 2] noise_encrypt_chunks.simps [of _ _ _ 0]
        noise_consts cs_encrypt_def plain_seal_def cs_init_key_def advance_def)
  then have "stream plain_seal ?c [demo_frame] = concat demo_segments"
    by (simp add: sealed_frame_def sealed_header_def sealed_payload_def demo_frame_valid
        SV2_FRAME_HEADER_LEN_def demo_segments_def) (simp add: demo_frame_def plain_seal_def)
  moreover have "encrypt_all plain_seal (sv2_conn_new demo_session) [demo_frame] =
      Some (stream plain_seal ?c [demo_frame])"
    using encrypt_all_stream [OF plain_aead, of "sv2_conn_new demo_session" "[demo_frame]"]
    by (simp add: sv2_conn_new_def demo_session_def demo_frame_valid room_for_def total_ops_def
        nonce_limit_eq cs_init_key_def)
  ultimately show ?thesis by simp
qed

section \<open>Handshakes\<close>

lemma demo_reserve: "fst (sv2_handshake_try_reserve [49] 5 hs_init)"
proof -
  have h: "hs_hash [49] < 512" by (simp add: hs_hash_def SV2_HS_BUCKETS_def)
  have u: "[0..<512] = 0 # [1..<512]"
    using upt_conv_Cons [of 0 512] by (simp only: One_nat_def)
  have "hs_lookup (g_hs hs_init) [49] True 5 =
      ((g_hs hs_init)[hs_hash [49] := hs_claim_bucket [49] 5], Some (hs_hash [49]))"
    using h unfolding hs_lookup_def SV2_HS_BUCKETS_def u list.map
    by (simp only: hs_probe.simps hs_init_def hs_state.simps SV2_HS_BUCKETS_def nth_replicate
        mod_less add_0_right sv2_hs_bucket.simps simp_thms if_True if_False)
  moreover have "(g_hs hs_init)[hs_hash [49] := b] ! hs_hash [49] = b" for b
    using h by (intro nth_list_update_eq) (simp add: hs_init_def SV2_HS_BUCKETS_def)
  moreover have "g_hs_global_inflight hs_init = 0" by (simp add: hs_init_def)
  ultimately show ?thesis
    by (simp add: sv2_handshake_try_reserve_def SV2_HS_MAX_GLOBAL_def Let_def
        hs_claim_bucket_def SV2_HS_WINDOW_SECS_def SV2_HS_MAX_PER_MIN_def)
qed

section \<open>Coinbases and transactions\<close>

definition demo_outputs :: bytes where
  "demo_outputs = [1, 100, 0, 0, 0, 0, 0, 0, 0, 1, 0x51]"

definition demo_spec :: sv2_cb_spec where
  "demo_spec = \<lparr> cs_version = 2, cs_nsequence = 0xffffffff, cs_locktime = 0,
     cs_ssig_prefix = [3, 1, 2, 3], cs_ssig_prefix_len = 4, cs_hole_len = 8,
     cs_outputs = demo_outputs, cs_outputs_len = 11,
     cs_witness_reserved = Some (replicate 32 0) \<rparr>"

lemma demo_outputs_read: "outputs_of demo_outputs = Some ([(100, [0x51], 1)], [])"
  by (simp add: outputs_of_def demo_outputs_def sv2_read_compact_size_def read_output_def
      sv2_have_bytes_def Let_def)

lemma demo_wf: "wf_spec demo_spec" by (simp add: wf_spec_def demo_spec_def demo_outputs_def)

lemma demo_parts: "\<exists>pre suf. sv2_cb_declare_parts demo_spec = Some (pre, suf)"
  by (simp add: sv2_cb_declare_parts_def demo_spec_def Let_def SV2_CB_MAX_SCRIPTSIG_def UINT16_MAX_def
     sv2_compact_size_len_def)

lemma demo_asm: "\<exists>cb. sv2_cb_assemble 200 (cs_version demo_spec) (cs_nsequence demo_spec) (cs_locktime demo_spec)
      (cs_ssig_prefix demo_spec, cs_ssig_prefix_len demo_spec) ([1,2,3,4], 4) ([5,6,7,8], 4)
      (cs_outputs demo_spec, cs_outputs_len demo_spec) = Some cb"
  by (simp add: sv2_cb_assemble_def demo_spec_def Let_def)

definition demo_payouts :: bytes where
  "demo_payouts = [2, 0, 0, 0, 0, 0, 0, 0, 0, 1, 0x51, 30, 0, 0, 0, 0, 0, 0, 0, 1, 0x52]"

definition demo_commitment :: bytes where
  "demo_commitment = [0, 0, 0, 0, 0, 0, 0, 0, 1, 0x6a]"

lemma demo_build: "\<exists>out. sv2_cb_build_outputs 200 demo_payouts 100 demo_commitment 10 = Some out"
  by (simp add: sv2_cb_build_outputs_def walk_outputs_def demo_payouts_def sv2_read_compact_size_def
      read_output_def sv2_have_bytes_def Let_def SV2_MAX_PAYOUT_OUTS_def
      sv2_compact_size_len_def)
lemma demo_comm: "read_seq read_output (if (10::byte) \<noteq> 0 then 1 else 0) (take (unat (10::byte)) demo_commitment) = Some ([(0,[0x6a],1)], [])"
  by (simp add: demo_commitment_def sv2_read_compact_size_def
      read_output_def sv2_have_bytes_def Let_def)

definition demo_tx :: btx where
  "demo_tx = \<lparr> bt_version = [2, 0, 0, 0],
     bt_ins = [\<lparr> bi_prevout = replicate 36 0, bi_script = [0x51], bi_sequence = replicate 4 0xff \<rparr>],
     bt_outs = [\<lparr> bo_value = replicate 8 1, bo_script = [0x52, 0x53] \<rparr>],
     bt_segwit = True, bt_stacks = [[[1, 2, 3]]], bt_locktime = replicate 4 0 \<rparr>"

lemma demo_tx_wf: "wf_tx demo_tx"
  by (simp add: wf_tx_def demo_tx_def wf_in_def wf_out_def wf_stack_def)

section \<open>Messages\<close>

definition demo_setup :: sv2_setup_connection where
  "demo_setup = \<lparr> sc_protocol = 0, sc_min_version = 2, sc_max_version = 2, sc_flags = 5,
     sc_endpoint_host = c_buf 256 [0x61, 0x62], sc_endpoint_port = 3336,
     sc_vendor = c_buf 256 [0x76], sc_hardware_version = c_buf 256 [],
     sc_firmware = c_buf 256 [], sc_device_id = c_buf 256 [0x31] \<rparr>"

definition demo_declare :: sv2_declare_mining_job where
  "demo_declare = \<lparr> dmj_request_id = 7, dmj_mining_job_token = c_buf 255 [1, 2],
     dmj_mining_job_token_len = 2, dmj_version = 0x20000000,
     dmj_coinbase_tx_prefix = [1, 2, 3], dmj_coinbase_tx_prefix_len = 3,
     dmj_coinbase_tx_suffix = [4, 5], dmj_coinbase_tx_suffix_len = 2,
     dmj_wtxid_list = replicate 32 9, dmj_wtxid_count = 1,
     dmj_excess_data = [], dmj_excess_data_len = 0 \<rparr>"

definition demo_custom :: sv2_set_custom_mining_job where
  "demo_custom = \<lparr> scm_channel_id = 1, scm_request_id = 2, scm_mining_job_token = c_buf 255 [9],
     scm_mining_job_token_len = 1, scm_version = 0x20000000, scm_prev_hash = replicate 32 3,
     scm_min_ntime = 100, scm_nbits = 0x1d00ffff, scm_coinbase_tx_version = 2,
     scm_coinbase_prefix = c_buf 255 [3, 1, 2, 3], scm_coinbase_prefix_len = 4,
     scm_coinbase_tx_input_nSequence = 0xffffffff, scm_coinbase_tx_outputs = demo_outputs,
     scm_coinbase_tx_outputs_len = 11, scm_coinbase_tx_locktime = 0, scm_merkle_count = 1,
     scm_merkle_path = path_buf [replicate 32 5] \<rparr>"

definition demo_ext_job :: sv2_new_extended_mining_job where
  "demo_ext_job = \<lparr> nem_channel_id = 1, nem_job_id = 2, nem_min_ntime_present = True,
     nem_min_ntime = 50, nem_version = 0x20000000, nem_version_rolling_allowed = True,
     nem_merkle_count = 1, nem_merkle_path = path_buf [replicate 32 5],
     nem_coinbase_tx_prefix = [1, 2], nem_coinbase_tx_prefix_len = 2,
     nem_coinbase_tx_suffix = [3], nem_coinbase_tx_suffix_len = 1 \<rparr>"

definition demo_missing :: sv2_provide_missing_transactions_success where
  "demo_missing = \<lparr> pms_request_id = 7, pms_tx_count = 2,
     pms_transactions = [[1, 2, 3], [4]], pms_tx_lens = [3, 1] \<rparr>"

lemma strlen_c_buf: "0 \<notin> set bs \<Longrightarrow> strlen (c_buf n bs) = length bs"
  by (simp add: strlen_def cstr_c_buf)

lemma demo_ok:
  "ok_setup_connection demo_setup" "ok_declare_mining_job demo_declare"
  "ok_set_custom_mining_job demo_custom" "ok_new_extended_mining_job demo_ext_job"
  "ok_provide_missing_transactions_success demo_missing"
  by (simp add: ok_setup_connection_def demo_setup_def str_field_c_buf,
      simp add: ok_declare_mining_job_def demo_declare_def blob_field_c_buf SV2_MAX_JD_TXNS_def
        SV2_MAX_JD_PAYLOAD_def sv2_declare_mining_job_encoded_size_def,
      simp add: ok_set_custom_mining_job_def demo_custom_def blob_field_c_buf path_field_path_buf
        demo_outputs_def,
      simp add: ok_new_extended_mining_job_def demo_ext_job_def path_field_path_buf,
      simp add: ok_provide_missing_transactions_success_def demo_missing_def txs_field_def
        SV2_MAX_TX_BYTES_def SV2_MAX_JD_TXNS_def SV2_MAX_JD_PAYLOAD_def
        sv2_provide_missing_tx_success_encoded_size_def upt_rec)

text \<open>A published cash address, in lower and in upper case, and the script it pays.\<close>

definition demo_payload :: bytes where
  "demo_payload =
     [0x71,0x70,0x6d,0x32,0x71,0x73,0x7a,0x6e,0x68,0x6b,0x73,0x32,0x33,0x7a,0x37,0x36,0x32,0x39,
      0x6d,0x6d,0x73,0x36,0x73,0x34,0x63,0x77,0x65,0x66,0x37,0x34,0x76,0x63,0x77,0x76,0x79,0x32,
      0x32,0x67,0x64,0x78,0x36,0x61]"

definition demo_hash20 :: bytes where
  "demo_hash20 = map of_nat [118,160,64,83,189,160,168,139,218,81,119,184,106,21,195,178,159,85,152,115]"

lemma demo_address_lower: "cashaddr_decode_checked demo_payload bitcoincash = Some (demo_hash20, False)"
  by code_simp

lemma demo_address_upper:
  "cashaddr_decode_checked (map (\<lambda>c. if 0x61 \<le> c then c - 0x20 else c) demo_payload) bitcoincash =
    Some (demo_hash20, False)"
  by code_simp

lemma demo_address_payload: "cashaddr_payload_of demo_payload bitcoincash = Some demo_payload"
  by code_simp

end
