(* ===== verification/Jd_Payout.thy ===== *)
theory Jd_Payout
  imports Sv2_Cb Bch_Address
begin

text \<open>
  The payout side of the job declaration server, \<^verbatim>\<open>src/src/sv2_jd.c\<close>: the extranonce gap of a
  declared coinbase, the accounting of its spendable outputs, the payout rule, and the output
  list handed out with a token.  \<open>jd_env\<close> is what the file reads of the rest of the program at
  one moment: the clock, the configuration, the pool's tip and the answers of the node.
\<close>

section \<open>What the server reads of its surroundings\<close>

text \<open>
  \<open>env_tip\<close> is the answer of \<open>stratifier_sv2_tip_for_jd\<close> (version, time, bits, previous hash),
  \<open>env_tip2\<close> and \<open>env_now2\<close> the answers when the same call asks again after it released the lock,
  \<open>env_checkaddr\<close> the node's verdict on an address, \<open>env_check_block\<close> its verdict on a candidate
  block with a reason, \<open>None\<close> when the call itself failed, \<open>env_queue_ok\<close> whether the worker queue
  took a job, and \<open>env_meets_nbits\<close> the floating-point comparison of a header with a target.
\<close>

record jd_env =
  env_now :: int
  env_now2 :: int
  env_btcsolo :: bool
  env_regtest :: bool
  env_btcaddress :: "bytes option"
  env_cashaddr_prefix :: bytes
  env_nonce1length :: int
  env_nonce2length :: int
  env_tip :: "(u32 \<times> u32 \<times> u32 \<times> bytes) option"
  env_tip2 :: "(u32 \<times> u32 \<times> u32 \<times> bytes) option"
  env_tip_height :: int
  env_checkaddr :: "bytes \<Rightarrow> bool"
  env_svc_ready :: bool
  env_check_block :: "bytes \<Rightarrow> (bool \<times> bytes) option"
  env_queue_ok :: bool
  env_meets_nbits :: "bytes \<Rightarrow> u32 \<Rightarrow> bool"

section \<open>The extranonce gap\<close>

definition derive_coinbase_enonce_len :: "bytes \<Rightarrow> byte option" where
  "derive_coinbase_enonce_len prefix =
     (if length prefix < 42 then None
      else
        let p = drop 4 prefix;
            p = (if sv2_have_bytes p 2 \<and> p ! 0 = 0x00 \<and> p ! 1 \<noteq> 0x00 then drop 2 p else p)
        in case p of [] \<Rightarrow> None
           | b # p \<Rightarrow>
               if b \<noteq> 0x01 then None
               else do {
                 (_, p) \<leftarrow> skip_bytes 36 p;
                 (sslen, p) \<leftarrow> sv2_read_compact_size p;
                 if sslen > 10000 then None
                 else
                   let ss_in_prefix = length p
                   in if ss_in_prefix > unat sslen then None
                      else if unat sslen - ss_in_prefix > 255 then None
                      else Some (of_nat (unat sslen - ss_in_prefix)) })"

section \<open>The payout rule\<close>

text \<open>The two running sums are \<open>uint64_t\<close> and wrap.\<close>

definition account_spendable_out :: "bytes \<Rightarrow> bytes \<Rightarrow> u64 \<Rightarrow> u64 \<times> u64 \<Rightarrow> u64 \<times> u64" where
  "account_spendable_out payout out_script value =
     (\<lambda>(payout_value, other_value).
        if value = 0 then (payout_value, other_value)
        else if out_script = payout then (payout_value + value, other_value)
        else (payout_value, other_value + value))"

definition pool_min_payout :: "jd_env \<Rightarrow> u64" where
  "pool_min_payout env =
     (let interval = (if env_regtest env then 150 else 210000); height = env_tip_height env
      in if env_btcsolo env \<or> height < 1 then 0
         else
           let halvings = (height + 1) div interval
           in if halvings \<ge> 64 then 0 else drop_bit (nat halvings) 5000000000)"

definition payout_rule_ok :: "jd_env \<Rightarrow> u64 \<times> u64 \<Rightarrow> bool" where
  "payout_rule_ok env =
     (\<lambda>(payout_value, other_value).
        if payout_value = 0 then False
        else if env_btcsolo env then True
        else if other_value \<noteq> 0 then False
        else \<not> payout_value < pool_min_payout env)"

text \<open>One output of a list: its value and its script.\<close>

definition read_spendable :: "(u64 \<times> bytes) reader" where
  "read_spendable p =
     (if \<not> sv2_have_bytes p 8 then None
      else let v = le_word (take 8 p); p = drop 8 p
           in do {
             (slen, p) \<leftarrow> sv2_read_compact_size p;
             if \<not> sv2_have_bytes p slen then None
             else Some ((v, take (unat slen) p), drop (unat slen) p) })"

fun account_outs :: "bytes \<Rightarrow> nat \<Rightarrow> u64 \<times> u64 \<Rightarrow> (u64 \<times> u64) reader" where
  "account_outs script 0 sums p = Some (sums, p)"
| "account_outs script (Suc n) sums p = do {
     ((v, s), p) \<leftarrow> read_spendable p;
     account_outs script n (account_spendable_out script s v sums) p }"

definition outputs_blob_funds_payout :: "jd_env \<Rightarrow> bytes \<Rightarrow> bytes \<Rightarrow> bool" where
  "outputs_blob_funds_payout env blob script =
     (if blob = [] \<or> script = [] then False
      else case sv2_read_compact_size blob of None \<Rightarrow> False
           | Some (nout, p) \<Rightarrow>
               if nout > 10000 then False
               else case account_outs script (unat nout) (0, 0) p of None \<Rightarrow> False
                    | Some (sums, p) \<Rightarrow> payout_rule_ok env sums)"

text \<open>The sums of a full coinbase, and the verdict with the flag \<open>*parse_ok\<close>.\<close>

definition coinbase_spendable :: "bytes \<Rightarrow> bytes \<Rightarrow> (u64 \<times> u64) option" where
  "coinbase_spendable tx script =
     (let p = drop 4 tx;
          p = (if sv2_have_bytes p 2 \<and> p ! 0 = 0x00 \<and> p ! 1 = 0x01 then drop 2 p else p)
      in do {
        (nin, p) \<leftarrow> sv2_read_compact_size p;
        if nin > 100000 then None else do {
        (_, p) \<leftarrow> read_seq walk_input (unat nin) p;
        (nout, p) \<leftarrow> sv2_read_compact_size p;
        if nout > 100000 then None else do {
        (sums, p) \<leftarrow> account_outs script (unat nout) (0, 0) p;
        Some sums } } })"

definition coinbase_tx_funds_payout :: "jd_env \<Rightarrow> bytes \<Rightarrow> bytes \<Rightarrow> bool \<times> bool" where
  "coinbase_tx_funds_payout env tx script =
     (if length tx < 10 \<or> script = [] then (False, False)
      else case coinbase_spendable tx script of None \<Rightarrow> (False, False)
           | Some sums \<Rightarrow> (payout_rule_ok env sums, True))"

section \<open>The outputs of an allocation\<close>

definition extract_first_output_script :: "bytes \<Rightarrow> bytes option" where
  "extract_first_output_script outputs = do {
     (script, slen) \<leftarrow> sv2_cb_first_output_script outputs;
     Some (take (unat slen) script) }"

text \<open>
  The account of an identity is what stands before its first dot or underscore.  The buffers
  \<open>account\<close> and \<open>script\<close> have 128 and 64 bytes.
\<close>

definition account_of :: "bytes \<Rightarrow> bytes option" where
  "account_of user_identifier =
     (let account = takeWhile (\<lambda>c. c \<noteq> 0x2e \<and> c \<noteq> 0x5f) (cstr user_identifier)
      in if account = [] \<or> length account \<ge> 128 then None else Some account)"

definition build_allocate_outputs :: "jd_env \<Rightarrow> nat \<Rightarrow> bytes \<Rightarrow> bytes" where
  "build_allocate_outputs env outsz user_identifier =
     (if outsz < 2 then []
      else
        let addr =
              (if env_btcsolo env then
                 (case account_of user_identifier of None \<Rightarrow> None
                  | Some account \<Rightarrow> if env_checkaddr env account then Some account else None)
               else env_btcaddress env)
        in case addr of None \<Rightarrow> []
           | Some addr \<Rightarrow>
               (case bch_address_to_script addr (env_cashaddr_prefix env) of None \<Rightarrow> []
                | Some script \<Rightarrow>
                    if length script < 1 \<or> length script > 40 then []
                    else if outsz < 1 + 8 + 1 + length script then []
                    else [0x01] @ replicate 8 0 @ [of_nat (length script)] @ script))"

section \<open>The sums of a list of outputs\<close>

definition paid :: "bytes \<Rightarrow> (u64 \<times> bytes) list \<Rightarrow> nat" where
  "paid script outs = (\<Sum>(v, s)\<leftarrow>outs. if s = script then unat v else 0)"

definition diverted :: "bytes \<Rightarrow> (u64 \<times> bytes) list \<Rightarrow> nat" where
  "diverted script outs = (\<Sum>(v, s)\<leftarrow>outs. if s = script then 0 else unat v)"

lemma account_outs_read:
  "account_outs script n sums p = map_option
     (\<lambda>(outs, q). (foldl (\<lambda>sums (v, s). account_spendable_out script s v sums) sums outs, q))
     (read_seq read_spendable n p)"
proof (induction n arbitrary: sums p)
  case (Suc n)
  then show ?case
    by (cases "read_spendable p"; cases "read_seq read_spendable n (snd (the (read_spendable p)))")
       (auto split: prod.splits)
qed simp

lemma account_foldl:
  "foldl (\<lambda>sums (v, s). account_spendable_out script s v sums) (a, b) outs =
    (a + of_nat (paid script outs), b + of_nat (diverted script outs))"
proof (induction outs arbitrary: a b)
  case (Cons x outs)
  obtain v s where x: "x = (v, s)" by fastforce
  have "account_spendable_out script s v (a, b) =
      (a + of_nat (if s = script then unat v else 0), b + of_nat (if s = script then 0 else unat v))"
    by (simp add: account_spendable_out_def)
  then show ?case
    by (simp add: x Cons.IH paid_def diverted_def)
qed (simp add: paid_def diverted_def)

lemma account_outs_sums:
  "account_outs script n (0, 0) p = Some (sums, q) \<longleftrightarrow>
    (\<exists>outs. read_seq read_spendable n p = Some (outs, q) \<and>
      sums = (of_nat (paid script outs), of_nat (diverted script outs)))"
  by (auto simp: account_outs_read account_foldl)

text \<open>An output the pool's own reader accepts is read the same way here.\<close>

definition plain_out :: "u64 \<times> bytes \<times> byte \<Rightarrow> u64 \<times> bytes" where
  "plain_out = (\<lambda>(v, s, l). (v, s))"

lemma read_spendable_output: "read_output p = Some (x, q) \<Longrightarrow> read_spendable p = Some (plain_out x, q)"
  by (auto simp: read_output_def read_spendable_def plain_out_def Let_def bind_eq_Some_conv split: if_splits)

lemma read_spendables:
  "read_seq read_output n p = Some (xs, q) \<Longrightarrow> read_seq read_spendable n p = Some (map plain_out xs, q)"
proof (induction n arbitrary: p xs)
  case (Suc n)
  then show ?case
    by (auto simp: read_seq_Suc_Some dest!: read_spendable_output simp del: read_seq.simps(2))
qed simp

lemma spendables_append:
  assumes "outputs_of blob = Some (outs, [])"
  shows "\<exists>nout p. (\<forall>r. sv2_read_compact_size (blob @ r) = Some (nout, p @ r) \<and>
      read_seq read_spendable (unat nout) (p @ r) = Some (map plain_out outs, r)) \<and>
    unat nout = length outs"
proof -
  obtain nout p where c: "sv2_read_compact_size blob = Some (nout, p)"
    and r: "read_seq read_output (unat nout) p = Some (outs, [])"
    using assms by (auto simp: outputs_of_def bind_eq_Some_conv)
  obtain s where s: "blob = s @ p" "\<And>r. sv2_read_compact_size (s @ r) = Some (nout, r)"
    using cs.rd_local [OF c] by auto
  have "read_seq read_spendable (unat nout) (p @ r) = Some (map plain_out outs, r)" for r
    using ro.seq_local [OF r] by (intro read_spendables) auto
  then show ?thesis
    using s read_seq_length [OF r] by (intro exI [of _ nout] exI [of _ p]) simp
qed

section \<open>The rule on outputs whose values do not wrap\<close>

lemma payout_rule_iff:
  assumes "p < 2 ^ 64" and "d < 2 ^ 64"
  shows "payout_rule_ok env (of_nat p, of_nat d) \<longleftrightarrow>
    p \<noteq> 0 \<and> (env_btcsolo env \<or> d = 0 \<and> unat (pool_min_payout env) \<le> p)"
  using assms unat_of_nat64 [of p] unat_of_nat64 [of d]
  by (auto simp: payout_rule_ok_def word_unat_eq_iff word_less_nat_alt not_less)

lemma outputs_blob_funds_iff:
  assumes "outputs_of blob = Some (outs, [])" and "length outs \<le> 10000" and "script \<noteq> []"
    and "paid script (map plain_out outs) < 2 ^ 64" and "diverted script (map plain_out outs) < 2 ^ 64"
  shows "outputs_blob_funds_payout env blob script \<longleftrightarrow>
    paid script (map plain_out outs) \<noteq> 0 \<and>
    (env_btcsolo env \<or> diverted script (map plain_out outs) = 0 \<and>
       unat (pool_min_payout env) \<le> paid script (map plain_out outs))"
proof -
  obtain nout p where c: "\<And>r. sv2_read_compact_size (blob @ r) = Some (nout, p @ r)"
    and r: "\<And>r. read_seq read_spendable (unat nout) (p @ r) = Some (map plain_out outs, r)"
    and n: "unat nout = length outs"
    using spendables_append [OF assms(1)] by blast
  have "blob \<noteq> []" using c [of "[]"] by (auto simp: sv2_read_compact_size_def)
  moreover have "\<not> nout > 10000" using n assms(2) by (simp add: word_less_nat_alt)
  moreover have "account_outs script (unat nout) (0, 0) p =
      Some ((of_nat (paid script (map plain_out outs)), of_nat (diverted script (map plain_out outs))), [])"
    using r [of "[]"] by (simp add: account_outs_read account_foldl)
  ultimately show ?thesis
    using c [of "[]"] assms(3) payout_rule_iff [OF assms(4,5)]
    by (simp add: outputs_blob_funds_payout_def)
qed

text \<open>
  The sums are taken modulo \<open>2 ^ 64\<close>: diverted values that total a multiple of it count as
  nothing diverted.
\<close>

lemma outputs_blob_funds_wrapped:
  assumes "outputs_of blob = Some (outs, [])" and "length outs \<le> 10000" and "script \<noteq> []"
    and "paid script (map plain_out outs) < 2 ^ 64" and "diverted script (map plain_out outs) mod 2 ^ 64 = 0"
    and "paid script (map plain_out outs) \<noteq> 0"
    and "unat (pool_min_payout env) \<le> paid script (map plain_out outs)"
  shows "outputs_blob_funds_payout env blob script"
proof -
  obtain nout p where c: "\<And>r. sv2_read_compact_size (blob @ r) = Some (nout, p @ r)"
    and r: "\<And>r. read_seq read_spendable (unat nout) (p @ r) = Some (map plain_out outs, r)"
    and n: "unat nout = length outs"
    using spendables_append [OF assms(1)] by blast
  have "blob \<noteq> []" using c [of "[]"] by (auto simp: sv2_read_compact_size_def)
  moreover have "\<not> nout > 10000" using n assms(2) by (simp add: word_less_nat_alt)
  moreover have "account_outs script (unat nout) (0, 0) p =
      Some ((of_nat (paid script (map plain_out outs)), of_nat (diverted script (map plain_out outs))), [])"
    using r [of "[]"] by (simp add: account_outs_read account_foldl)
  moreover have "(of_nat (diverted script (map plain_out outs)) :: u64) = 0"
    using assms(5) by (simp add: word_unat_eq_iff unat_of_nat)
  moreover have "payout_rule_ok env (of_nat (paid script (map plain_out outs)), 0)"
    using assms(6,7) payout_rule_iff [OF assms(4), of 0 env] by simp
  ultimately show ?thesis
    using c [of "[]"] assms(3) by (simp add: outputs_blob_funds_payout_def)
qed

section \<open>The coinbase a client declares\<close>

text \<open>The parts \<open>sv2_cb_declare_parts\<close> writes, spelled out.\<close>

lemma declared_forms:
  assumes wf: "wf_spec spec" and parts: "sv2_cb_declare_parts spec = Some (pre, suf)"
  obtains n mark wit where "n = unat (cs_ssig_prefix_len spec) + unat (cs_hole_len spec)" "n \<le> 100"
    "mark = [] \<or> mark = [0x00, 0x01]"
    "pre = le_bytes 4 (cs_version spec) @ mark @ 0x01 # null_prevout @
       sv2_write_compact_size (of_nat n) @ cs_ssig_prefix spec"
    "suf = le_bytes 4 (cs_nsequence spec) @ cs_outputs spec @ wit @ le_bytes 4 (cs_locktime spec)"
    "length (cs_ssig_prefix spec) = unat (cs_ssig_prefix_len spec)"
proof -
  let ?n = "unat (cs_ssig_prefix_len spec) + unat (cs_hole_len spec)"
  let ?mark = "if cs_witness_reserved spec \<noteq> None then [0x00, 0x01] else [] :: bytes"
  let ?wit = "case cs_witness_reserved spec of None \<Rightarrow> []
    | Some reserved \<Rightarrow> [0x01, 0x20] @ take 32 reserved"
  have "?n \<le> 100"
    using parts by (auto simp: sv2_cb_declare_parts_def Let_def SV2_CB_MAX_SCRIPTSIG_def split: if_splits)
  moreover have "?mark = [] \<or> ?mark = [0x00, 0x01]" by simp
  moreover have "pre = le_bytes 4 (cs_version spec) @ ?mark @ 0x01 # null_prevout @
      sv2_write_compact_size (of_nat ?n) @ cs_ssig_prefix spec"
    and "suf = le_bytes 4 (cs_nsequence spec) @ cs_outputs spec @ ?wit @ le_bytes 4 (cs_locktime spec)"
    using parts wf by (auto simp: sv2_cb_declare_parts_def Let_def wf_spec_def simp del: of_nat_add
        split: if_splits)
  moreover have "length (cs_ssig_prefix spec) = unat (cs_ssig_prefix_len spec)"
    using wf by (simp add: wf_spec_def)
  ultimately show thesis by (rule that [OF refl])
qed

text \<open>
  The gap the server derives from a declared prefix is the hole the client left, with or without
  the BIP141 marker.
\<close>

lemma derived_gap_is_hole:
  assumes wf: "wf_spec spec" and parts: "sv2_cb_declare_parts spec = Some (pre, suf)"
  shows "derive_coinbase_enonce_len pre = Some (cs_hole_len spec)"
proof -
  obtain n mark wit where n: "n = unat (cs_ssig_prefix_len spec) + unat (cs_hole_len spec)" "n \<le> 100"
    and m: "mark = [] \<or> mark = [0x00, 0x01]"
    and p: "pre = le_bytes 4 (cs_version spec) @ mark @ 0x01 # null_prevout @
       sv2_write_compact_size (of_nat n) @ cs_ssig_prefix spec"
    and sf: "suf = le_bytes 4 (cs_nsequence spec) @ cs_outputs spec @ wit @ le_bytes 4 (cs_locktime spec)"
    and l: "length (cs_ssig_prefix spec) = unat (cs_ssig_prefix_len spec)"
    by (rule declared_forms [OF wf parts])
  let ?q = "0x01 # null_prevout @ sv2_write_compact_size (of_nat n) @ cs_ssig_prefix spec"
  have c: "length (sv2_write_compact_size (of_nat n)) = 1"
    using n(2) by (simp add: compact_small)
  have d: "drop 4 pre = mark @ ?q" by (simp add: p)
  have s: "(if sv2_have_bytes (mark @ ?q) 2 \<and> (mark @ ?q) ! 0 = 0x00 \<and> (mark @ ?q) ! 1 \<noteq> 0x00
      then drop 2 (mark @ ?q) else mark @ ?q) = ?q"
    using m by (auto simp: sv2_have_bytes_def)
  have "skip_bytes 36 (null_prevout @ r) = Some ((), r)" for r
    by (simp add: skip_bytes_def sv2_have_bytes_def)
  moreover have "unat (of_nat n :: u64) = n" using n(2) by (intro unat_of_nat64) simp
  ultimately show ?thesis
    unfolding derive_coinbase_enonce_len_def Let_def d s
    using m n c l by (auto simp: compact_rt p word_less_nat_alt)
qed

text \<open>What the server adds up in a declared coinbase, whatever bytes fill the hole.\<close>

lemma coinbase_spendable_declared:
  assumes wf: "wf_spec spec" and parts: "sv2_cb_declare_parts spec = Some (pre, suf)"
    and en: "length en = unat (cs_hole_len spec)"
    and outs: "outputs_of (cs_outputs spec) = Some (outs, [])" "length outs \<le> 100000"
  shows "coinbase_spendable (pre @ en @ suf) script =
    Some (of_nat (paid script (map plain_out outs)), of_nat (diverted script (map plain_out outs)))"
proof -
  obtain n mark wit where n: "n = unat (cs_ssig_prefix_len spec) + unat (cs_hole_len spec)" "n \<le> 100"
    and m: "mark = [] \<or> mark = [0x00, 0x01]"
    and p: "pre = le_bytes 4 (cs_version spec) @ mark @ 0x01 # null_prevout @
       sv2_write_compact_size (of_nat n) @ cs_ssig_prefix spec"
    and sf: "suf = le_bytes 4 (cs_nsequence spec) @ cs_outputs spec @ wit @ le_bytes 4 (cs_locktime spec)"
    and l: "length (cs_ssig_prefix spec) = unat (cs_ssig_prefix_len spec)"
    by (rule declared_forms [OF wf parts])
  define inp where "inp = \<lparr> bi_prevout = null_prevout, bi_script = cs_ssig_prefix spec @ en,
      bi_sequence = le_bytes 4 (cs_nsequence spec) \<rparr>"
  have sl: "length (cs_ssig_prefix spec @ en) = n" using l en n by simp
  have wfi: "wf_in inp" using sl n(2) by (simp add: inp_def wf_in_def)
  have one: "sv2_write_compact_size 1 = [1]" by (simp add: write_compact_le)
  let ?tail = "wit @ le_bytes 4 (cs_locktime spec)"
  let ?q = "sv2_write_compact_size 1 @ ser_in inp @ cs_outputs spec @ ?tail"
  have tx: "drop 4 (pre @ en @ suf) = mark @ ?q"
    unfolding ser_in_def ser_var_def inp_def btxin.simps sl by (simp add: p sf one)
  have s: "(if sv2_have_bytes (mark @ ?q) 2 \<and> (mark @ ?q) ! 0 = 0x00 \<and> (mark @ ?q) ! 1 = 0x01
      then drop 2 (mark @ ?q) else mark @ ?q) = ?q"
    using m by (auto simp: sv2_have_bytes_def one)
  obtain nout r where c: "\<And>t. sv2_read_compact_size (cs_outputs spec @ t) = Some (nout, r @ t)"
    and r: "\<And>t. read_seq read_spendable (unat nout) (r @ t) = Some (map plain_out outs, t)"
    and no: "unat nout = length outs"
    using spendables_append [OF outs(1)] by blast
  have "\<not> nout > 100000" using no outs(2) by (simp add: word_less_nat_alt)
  then show ?thesis
    unfolding coinbase_spendable_def Let_def tx s
    using c r by (simp add: compact_rt walk_input_ser [OF wfi] account_outs_read account_foldl)
qed

lemma declared_coinbase_funds:
  assumes "wf_spec spec" and "sv2_cb_declare_parts spec = Some (pre, suf)"
    and "length en = unat (cs_hole_len spec)"
    and "outputs_of (cs_outputs spec) = Some (outs, [])" and "length outs \<le> 100000" and "script \<noteq> []"
    and "paid script (map plain_out outs) < 2 ^ 64" and "diverted script (map plain_out outs) < 2 ^ 64"
  shows "coinbase_tx_funds_payout env (pre @ en @ suf) script =
    (paid script (map plain_out outs) \<noteq> 0 \<and>
      (env_btcsolo env \<or> diverted script (map plain_out outs) = 0 \<and>
         unat (pool_min_payout env) \<le> paid script (map plain_out outs)), True)"
proof -
  have "10 \<le> length (pre @ en @ suf)"
    using assms(1,2) by (rule declared_forms) (simp add: le_bytes_def)
  then show ?thesis
    unfolding coinbase_tx_funds_payout_def coinbase_spendable_declared [OF assms(1-5)]
    using assms(6) payout_rule_iff [OF assms(7,8)] by simp
qed

text \<open>
  The outputs a client builds from the list it was handed, one output with the pool's script: the
  whole claimable value goes to that script, and a commitment of value 0 diverts nothing.
\<close>

lemma paid_append [simp]: "paid s (xs @ ys) = paid s xs + paid s ys"
  by (simp add: paid_def)

lemma diverted_append [simp]: "diverted s (xs @ ys) = diverted s xs + diverted s ys"
  by (simp add: diverted_def)

lemma worthless: "\<forall>(v, s, l)\<in>set outs. v = 0 \<Longrightarrow> paid t (map plain_out outs) = 0 \<and> diverted t (map plain_out outs) = 0"
  by (induction outs) (auto simp: paid_def diverted_def plain_out_def)

lemma allocate_blob:
  assumes h: "script \<noteq> []" "length script \<le> 40"
  shows "[0x01] @ replicate 8 0 @ [of_nat (length script)] @ script =
      sv2_write_compact_size 1 @ le_bytes 8 (0 :: u64) @
      sv2_write_compact_size (ucast (of_nat (length script) :: byte)) @ script @ []" (is "?blob = ?ser")
    and "read_output (le_bytes 8 (0 :: u64) @
      sv2_write_compact_size (ucast (of_nat (length script) :: byte)) @ script @ []) =
      Some ((0, script, of_nat (length script)), [])"
proof -
  have l: "unat (of_nat (length script) :: byte) = length script" using h(2) by (simp add: unat_of_nat)
  have "le_bytes 8 (0 :: u64) = replicate 8 0" by (rule nth_equalityI) simp_all
  moreover have "(ucast (of_nat (length script) :: byte) :: u64) = of_nat (length script)"
    using l h(2) by (simp add: word_unat_eq_iff unsigned_ucast_eq unsigned_take_bit_eq unat_of_nat
        take_bit_nat_eq_self)
  then have "sv2_write_compact_size (ucast (of_nat (length script) :: byte)) = [of_nat (length script)]"
    using compact_small [of "length script"] h(2) by simp
  ultimately show "?blob = ?ser" by (simp add: write_compact_le)
  have "(of_nat (length script) :: byte) \<noteq> 0" using h l by auto
  then show "read_output (le_bytes 8 (0 :: u64) @
      sv2_write_compact_size (ucast (of_nat (length script) :: byte)) @ script @ []) =
      Some ((0, script, of_nat (length script)), [])"
    using l read_output_written [of script "of_nat (length script)" 0 "[]"] by simp
qed

text \<open>The script the server keeps of the list it hands out.\<close>

lemma extract_allocated:
  assumes "script \<noteq> []" and "length script \<le> 40"
  shows "extract_first_output_script ([0x01] @ replicate 8 0 @ [of_nat (length script)] @ script) = Some script"
proof -
  have "unat (of_nat (length script) :: byte) = length script" using assms(2) by (simp add: unat_of_nat)
  moreover have "sv2_write_compact_size 1 \<noteq> []" by (simp add: write_compact_le)
  ultimately show ?thesis
    unfolding extract_first_output_script_def sv2_cb_first_output_script_def sv2_cb_output_at_def allocate_blob(1) [OF assms]
    using allocate_blob(2) [OF assms] by (simp add: compact_rt SV2_MAX_PAYOUT_OUTS_def)
qed

lemma allocated_outputs_pay_pool:
  assumes h: "script \<noteq> []" "length script \<le> 40"
    and b: "sv2_cb_build_outputs outsz ([0x01] @ replicate 8 0 @ [of_nat (length script)] @ script) value
      commitment clen = Some out"
    and c: "read_seq read_output (if clen \<noteq> 0 then 1 else 0) (take (unat clen) commitment) = Some (cs, [])"
    and z: "\<forall>(v, s, l)\<in>set cs. v = 0"
  shows "\<exists>outs. outputs_of out = Some (outs, []) \<and> length outs \<le> 2 \<and>
    paid script (map plain_out outs) = unat value \<and> diverted script (map plain_out outs) = 0"
proof -
  let ?blob = "[0x01] @ replicate 8 0 @ [of_nat (length script)] @ script"
  have o: "outputs_of ?blob = Some ([(0, script, of_nat (length script))], [])"
    unfolding outputs_of_def allocate_blob(1) [OF h] using allocate_blob(2) [OF h] by (simp add: compact_rt)
  obtain v0 s0 l0 outs q where
      "outputs_of ?blob = Some ((v0, s0, l0) # outs, q)"
      and r: "outputs_of out = Some ((value - of_nat (out_value outs), s0, l0) # outs @ cs, [])"
    using build_outputs_reads_back [OF b c] by blast
  with o have e: "outs = []" "s0 = script" by auto
  have "length cs \<le> 1" using read_seq_length [OF c] by (simp split: if_splits)
  then show ?thesis
    using r worthless [OF z, of script] by (simp add: e out_value_def paid_def diverted_def plain_out_def)
qed

end
