(* ===== verification/Jd_State.thy ===== *)
theory Jd_State
  imports Jd_Payout Sv2_Codec_Mining Sv2_Codec_Jd
begin

text \<open>
  The tables of the job declaration server, \<^verbatim>\<open>src/src/sv2_jd.c\<close>, and the operations that run
  under \<open>jd_lock\<close>: clients with their reference counts, tokens with the bytes they retain, the
  transaction cache, the coalesce table, pending declarations and the slots for block checks.

  A uthash table is the list of its entries in insertion order, which is the order \<open>HASH_ITER\<close>
  visits; a pointer to an entry is its index.  An owned buffer is the bytes it holds, a \<open>NULL\<close>
  slot \<open>None\<close>.  \<open>time_t\<close> and the \<open>int\<close> counters are integers, the \<open>uint64_t\<close> byte totals words.
\<close>

section \<open>Limits\<close>

definition SV2_JD_TOKEN_BYTES :: nat where "SV2_JD_TOKEN_BYTES = 16"
definition SV2_JD_MAX_TOKENS_PER_MIN :: int where "SV2_JD_MAX_TOKENS_PER_MIN = 20"
definition SV2_JD_MAX_DECLARES_PER_MIN :: int where "SV2_JD_MAX_DECLARES_PER_MIN = 30"
definition SV2_JD_TOKEN_TTL_UNDECLARED_SECS :: int where "SV2_JD_TOKEN_TTL_UNDECLARED_SECS = 7200"
definition SV2_JD_TOKEN_TTL_DECLARED_SECS :: int where "SV2_JD_TOKEN_TTL_DECLARED_SECS = 3600"
definition SV2_JD_MAX_TOKENS_GLOBAL :: int where "SV2_JD_MAX_TOKENS_GLOBAL = 4096"
definition SV2_JD_MAX_TOKEN_SNAPSHOT_BYTES_GLOBAL :: u64 where
  "SV2_JD_MAX_TOKEN_SNAPSHOT_BYTES_GLOBAL = push_bit 20 512"
definition SV2_JD_MAX_TOKEN_SNAPSHOT_BYTES_CLIENT :: u64 where
  "SV2_JD_MAX_TOKEN_SNAPSHOT_BYTES_CLIENT = push_bit 20 64"
definition SV2_JD_DEFAULT_ENONCE_LEN :: byte where "SV2_JD_DEFAULT_ENONCE_LEN = 8"
definition SV2_JD_MAX_BLOCK_BYTES :: u64 where "SV2_JD_MAX_BLOCK_BYTES = 4 * 1024 * 1024"
definition SV2_JD_MAX_CACHE_TXS :: int where "SV2_JD_MAX_CACHE_TXS = 65536"
definition SV2_JD_MAX_CACHE_BYTES :: u64 where "SV2_JD_MAX_CACHE_BYTES = push_bit 20 256"
definition SV2_JD_CHECKBLOCK_MAX_INFLIGHT :: int where "SV2_JD_CHECKBLOCK_MAX_INFLIGHT = 4"
definition SV2_JD_ENONCE_MAX_TRIES :: nat where "SV2_JD_ENONCE_MAX_TRIES = 2"
definition SV2_JD_PUSH_TOKEN_CANDIDATES :: nat where "SV2_JD_PUSH_TOKEN_CANDIDATES = 8"
definition SV2_JD_COALESCE_TTL_SECS :: int where "SV2_JD_COALESCE_TTL_SECS = 120"
definition SV2_JD_COALESCE_MAX :: int where "SV2_JD_COALESCE_MAX = 256"
definition SV2_JD_PENDING_TTL_SECS :: int where "SV2_JD_PENDING_TTL_SECS = 300"
definition SV2_JD_MAX_PENDING_GLOBAL :: nat where "SV2_JD_MAX_PENDING_GLOBAL = 128"
definition SV2_JD_MAX_PENDING_PER_CLIENT :: nat where "SV2_JD_MAX_PENDING_PER_CLIENT = 8"
definition SV2_JD_CACHE_EVICT_BATCH :: nat where "SV2_JD_CACHE_EVICT_BATCH = 256"

section \<open>Entries and state\<close>

record sv2_tx_cache_ent =
  ce_wtxid :: bytes
  ce_raw :: bytes
  ce_created :: int

record sv2_jd_client =
  jc_client_id :: int
  jc_setup_ok :: bool
  jc_full_template :: bool
  jc_checkblock_ok :: bool
  jc_address :: bytes
  jc_server :: int
  jc_user_logged :: bool
  jc_alloc_window_start :: int
  jc_alloc_count :: int
  jc_declare_window_start :: int
  jc_declare_count :: int
  jc_refs :: int

record sv2_jd_coalesce =
  co_thash :: bytes
  co_enonce_len :: byte
  co_created :: int

record sv2_jd_pending =
  pd_request_id :: u32
  pd_client_id :: int
  pd_created :: int
  pd_token :: bytes
  pd_version :: u32
  pd_coinbase_tx_prefix :: bytes
  pd_coinbase_tx_suffix :: bytes
  pd_wtxid_list :: bytes
  pd_wtxid_count :: nat
  pd_tx_raws :: "bytes option list"
  pd_tx_bytes :: u64
  pd_missing :: "u16 list"
  pd_awaiting_missing :: bool

text \<open>\<open>tk_coinbase_tx_prefix\<close> is \<open>None\<close> for the null pointer of an undeclared token.\<close>

record sv2_jd_token =
  tk_token :: bytes
  tk_client_id :: int
  tk_user_identifier :: bytes
  tk_created :: int
  tk_declared :: bool
  tk_version :: u32
  tk_wtxid_count :: nat
  tk_has_payout :: bool
  tk_payout_script :: bytes
  tk_coinbase_tx_prefix :: "bytes option"
  tk_coinbase_tx_suffix :: bytes
  tk_wtxid_list :: bytes
  tk_tx_raws :: "bytes option list"
  tk_snapshot_bytes :: u64
  tk_enonce_len :: byte

record jd_submit_job =
  sj_block :: bytes
  sj_client_id :: int
  sj_who :: bytes

record jd_stats =
  st_allocate_ok :: u64
  st_allocate_rate_limited :: u64
  st_declare_ok :: u64
  st_declare_error :: u64
  st_declare_rate_limited :: u64
  st_checkblock_busy :: u64
  st_checkblock_fail :: u64
  st_coalesce_hit :: u64
  st_provide_missing :: u64
  st_push_solution :: u64

record jd_state =
  jd_clients :: "sv2_jd_client list"
  jd_tokens :: "sv2_jd_token list"
  tx_cache :: "sv2_tx_cache_ent list"
  jd_coalesce :: "sv2_jd_coalesce list"
  pending_declares :: "sv2_jd_pending list"
  jd_token_count :: int
  tx_cache_count :: int
  tx_cache_bytes :: u64
  jd_token_snapshot_bytes :: u64
  jd_coalesce_count :: int
  jd_checkblock_inflight :: int
  jd_validate_q :: "sv2_jd_pending list"
  jd_submit_q :: "jd_submit_job list"
  jd_stats :: jd_stats

definition jd_init :: jd_state where
  "jd_init = \<lparr> jd_clients = [], jd_tokens = [], tx_cache = [], jd_coalesce = [],
     pending_declares = [], jd_token_count = 0, tx_cache_count = 0, tx_cache_bytes = 0,
     jd_token_snapshot_bytes = 0, jd_coalesce_count = 0, jd_checkblock_inflight = 0,
     jd_validate_q = [], jd_submit_q = [],
     jd_stats = \<lparr> st_allocate_ok = 0, st_allocate_rate_limited = 0, st_declare_ok = 0,
       st_declare_error = 0, st_declare_rate_limited = 0, st_checkblock_busy = 0,
       st_checkblock_fail = 0, st_coalesce_hit = 0, st_provide_missing = 0, st_push_solution = 0 \<rparr> \<rparr>"

text \<open>\<open>JD_STAT_INC\<close>: the argument is the update of one field.\<close>

definition JD_STAT_INC :: "((u64 \<Rightarrow> u64) \<Rightarrow> jd_stats \<Rightarrow> jd_stats) \<Rightarrow> jd_state \<Rightarrow> jd_state" where
  "JD_STAT_INC upd st = st\<lparr>jd_stats := upd (\<lambda>n. n + 1) (jd_stats st)\<rparr>"

text \<open>The index of the first entry that satisfies a test, and an update of that entry.\<close>

fun first_index :: "('a \<Rightarrow> bool) \<Rightarrow> 'a list \<Rightarrow> nat option" where
  "first_index P [] = None"
| "first_index P (x # xs) = (if P x then Some 0 else map_option Suc (first_index P xs))"

fun update_first :: "('a \<Rightarrow> bool) \<Rightarrow> ('a \<Rightarrow> 'a) \<Rightarrow> 'a list \<Rightarrow> 'a list" where
  "update_first P f [] = []"
| "update_first P f (x # xs) = (if P x then f x # xs else x # update_first P f xs)"

definition remove_nth :: "nat \<Rightarrow> 'a list \<Rightarrow> 'a list" where
  "remove_nth i xs = take i xs @ drop (Suc i) xs"

section \<open>The coalesce table\<close>

text \<open>The loop that makes room in a full table, on the entries still to visit and the count.\<close>

fun coalesce_evict :: "int \<Rightarrow> sv2_jd_coalesce list \<Rightarrow> int \<Rightarrow> sv2_jd_coalesce list \<times> int" where
  "coalesce_evict now [] n = ([], n)"
| "coalesce_evict now (c # cs) n =
     (if now - co_created c > SV2_JD_COALESCE_TTL_SECS \<or> n \<ge> SV2_JD_COALESCE_MAX then
        (if n - 1 < SV2_JD_COALESCE_MAX div 2 then (cs, n - 1) else coalesce_evict now cs (n - 1))
      else let (cs, n) = coalesce_evict now cs n in (c # cs, n))"

definition coalesce_note_locked :: "bytes \<Rightarrow> byte \<Rightarrow> int \<Rightarrow> jd_state \<Rightarrow> jd_state" where
  "coalesce_note_locked thash enonce_len now st =
     (case first_index (\<lambda>c. co_thash c = thash) (jd_coalesce st) of
        Some i \<Rightarrow>
          st\<lparr>jd_coalesce := update_first (\<lambda>c. co_thash c = thash)
               (\<lambda>c. c\<lparr>co_enonce_len := enonce_len, co_created := now\<rparr>) (jd_coalesce st)\<rparr>
      | None \<Rightarrow>
          let (cs, n) = (if jd_coalesce_count st \<ge> SV2_JD_COALESCE_MAX
                         then coalesce_evict now (jd_coalesce st) (jd_coalesce_count st)
                         else (jd_coalesce st, jd_coalesce_count st))
          in st\<lparr>jd_coalesce := cs @ [\<lparr> co_thash = thash, co_enonce_len = enonce_len, co_created = now \<rparr>],
                jd_coalesce_count := n + 1\<rparr>)"

definition coalesce_lookup_locked :: "bytes \<Rightarrow> int \<Rightarrow> jd_state \<Rightarrow> byte option" where
  "coalesce_lookup_locked thash now st =
     (case find (\<lambda>c. co_thash c = thash) (jd_coalesce st) of None \<Rightarrow> None
      | Some c \<Rightarrow> if now - co_created c > SV2_JD_COALESCE_TTL_SECS then None else Some (co_enonce_len c))"

text \<open>\<open>sv2_jd_on_tip_change\<close> runs when job declaration is enabled.\<close>

definition sv2_jd_on_tip_change :: "bool \<Rightarrow> jd_state \<Rightarrow> jd_state" where
  "sv2_jd_on_tip_change sv2_jd_enabled st =
     (if \<not> sv2_jd_enabled then st else st\<lparr>jd_coalesce := [], jd_coalesce_count := 0\<rparr>)"

section \<open>Slots for block checks\<close>

definition checkblock_try_begin :: "jd_state \<Rightarrow> bool \<times> jd_state" where
  "checkblock_try_begin st =
     (if jd_checkblock_inflight st < SV2_JD_CHECKBLOCK_MAX_INFLIGHT
      then (True, st\<lparr>jd_checkblock_inflight := jd_checkblock_inflight st + 1\<rparr>)
      else (False, st))"

definition checkblock_end :: "jd_state \<Rightarrow> jd_state" where
  "checkblock_end st =
     (if jd_checkblock_inflight st > 0
      then st\<lparr>jd_checkblock_inflight := jd_checkblock_inflight st - 1\<rparr> else st)"

section \<open>Clients\<close>

definition find_client :: "int \<Rightarrow> jd_state \<Rightarrow> sv2_jd_client option" where
  "find_client client_id st = find (\<lambda>c. jc_client_id c = client_id) (jd_clients st)"

definition update_client :: "int \<Rightarrow> (sv2_jd_client \<Rightarrow> sv2_jd_client) \<Rightarrow> jd_state \<Rightarrow> jd_state" where
  "update_client client_id f st =
     st\<lparr>jd_clients := update_first (\<lambda>c. jc_client_id c = client_id) f (jd_clients st)\<rparr>"

text \<open>One reference less: \<open>None\<close> when that was the last one and the client is freed.\<close>

definition client_unref_locked :: "sv2_jd_client \<Rightarrow> sv2_jd_client option" where
  "client_unref_locked c =
     (if jc_refs c - 1 > 0 then Some (c\<lparr>jc_refs := jc_refs c - 1\<rparr>) else None)"

definition new_client :: "int \<Rightarrow> sv2_jd_client" where
  "new_client client_id =
     \<lparr> jc_client_id = client_id, jc_setup_ok = False, jc_full_template = False,
       jc_checkblock_ok = False, jc_address = [], jc_server = 0, jc_user_logged = False,
       jc_alloc_window_start = 0, jc_alloc_count = 0, jc_declare_window_start = 0,
       jc_declare_count = 0, jc_refs = 1 \<rparr>"

definition client_get :: "int \<Rightarrow> bool \<Rightarrow> jd_state \<Rightarrow> jd_state" where
  "client_get client_id create st =
     (let st = (if find_client client_id st = None \<and> create
                then st\<lparr>jd_clients := jd_clients st @ [new_client client_id]\<rparr> else st)
      in update_client client_id (\<lambda>c. c\<lparr>jc_refs := jc_refs c + 1\<rparr>) st)"

text \<open>
  \<open>client_put\<close> gives the handler's reference back; the entry leaves the list only if it was the
  last one, which freeing a hashed client would be.
\<close>

fun put_first :: "int \<Rightarrow> sv2_jd_client list \<Rightarrow> sv2_jd_client list" where
  "put_first client_id [] = []"
| "put_first client_id (c # cs) =
     (if jc_client_id c = client_id
      then (case client_unref_locked c of None \<Rightarrow> cs | Some c \<Rightarrow> c # cs)
      else c # put_first client_id cs)"

definition client_put :: "int \<Rightarrow> jd_state \<Rightarrow> jd_state" where
  "client_put client_id st = st\<lparr>jd_clients := put_first client_id (jd_clients st)\<rparr>"

text \<open>\<open>None\<close> is a null address; the field has 46 bytes and keeps the first 45 characters.\<close>

definition sv2_jd_note_client :: "int \<Rightarrow> bytes option \<Rightarrow> int \<Rightarrow> jd_state \<Rightarrow> jd_state" where
  "sv2_jd_note_client client_id address server st =
     client_put client_id
       (update_client client_id
          (\<lambda>c. (case address of None \<Rightarrow> c | Some a \<Rightarrow> c\<lparr>jc_address := take 45 (cstr a)\<rparr>)\<lparr>jc_server := server\<rparr>)
          (client_get client_id True st))"

section \<open>Tokens\<close>

text \<open>What freeing a token does to the count and to the byte total.\<close>

definition uncount_token :: "sv2_jd_token \<Rightarrow> int \<times> u64 \<Rightarrow> int \<times> u64" where
  "uncount_token t =
     (\<lambda>(count, bytes).
        (count - 1, if bytes \<ge> tk_snapshot_bytes t then bytes - tk_snapshot_bytes t else 0))"

definition set_tokens :: "sv2_jd_token list \<Rightarrow> int \<times> u64 \<Rightarrow> jd_state \<Rightarrow> jd_state" where
  "set_tokens toks = (\<lambda>(count, bytes) st.
     st\<lparr>jd_tokens := toks, jd_token_count := count, jd_token_snapshot_bytes := bytes\<rparr>)"

definition free_token_locked :: "nat \<Rightarrow> jd_state \<Rightarrow> jd_state" where
  "free_token_locked i st =
     set_tokens (remove_nth i (jd_tokens st))
       (uncount_token (jd_tokens st ! i) (jd_token_count st, jd_token_snapshot_bytes st)) st"

text \<open>\<open>HASH_ITER\<close> with \<open>free_token_locked\<close> on the entries that satisfy a test.\<close>

fun free_matching :: "(sv2_jd_token \<Rightarrow> bool) \<Rightarrow> sv2_jd_token list \<Rightarrow> int \<times> u64 \<Rightarrow>
  sv2_jd_token list \<times> int \<times> u64" where
  "free_matching P [] acc = ([], acc)"
| "free_matching P (t # ts) acc =
     (if P t then free_matching P ts (uncount_token t acc)
      else let (kept, acc) = free_matching P ts acc in (t # kept, acc))"

definition free_tokens_where :: "(sv2_jd_token \<Rightarrow> bool) \<Rightarrow> jd_state \<Rightarrow> jd_state" where
  "free_tokens_where P st =
     (let (kept, acc) = free_matching P (jd_tokens st) (jd_token_count st, jd_token_snapshot_bytes st)
      in set_tokens kept acc st)"

definition token_user_match :: "sv2_jd_token \<Rightarrow> bytes \<Rightarrow> bool" where
  "token_user_match t user \<longleftrightarrow> cstr (tk_user_identifier t) = cstr user"

text \<open>
  The searches of the table keep the best index so far; \<open>better t best\<close> is the code's test that
  replaces it.
\<close>

definition best_index :: "(sv2_jd_token \<Rightarrow> bool) \<Rightarrow> (sv2_jd_token \<Rightarrow> sv2_jd_token \<Rightarrow> bool) \<Rightarrow>
  sv2_jd_token list \<Rightarrow> nat option" where
  "best_index P better toks =
     foldl (\<lambda>best i.
       if \<not> P (toks ! i) then best
       else case best of None \<Rightarrow> Some i
            | Some j \<Rightarrow> if better (toks ! i) (toks ! j) then Some i else best) None [0..<length toks]"

definition find_client_undeclared_token_locked :: "int \<Rightarrow> bytes \<Rightarrow> sv2_jd_token list \<Rightarrow> nat option" where
  "find_client_undeclared_token_locked client_id user =
     best_index (\<lambda>t. tk_client_id t = client_id \<and> \<not> tk_declared t \<and> token_user_match t user)
       (\<lambda>t best. tk_created t \<ge> tk_created best)"

definition find_client_oldest_token_locked :: "int \<Rightarrow> bytes \<Rightarrow> sv2_jd_token list \<Rightarrow> nat option" where
  "find_client_oldest_token_locked client_id user =
     best_index (\<lambda>t. tk_client_id t = client_id \<and> token_user_match t user)
       (\<lambda>t oldest. tk_created t < tk_created oldest)"

definition free_oldest_undeclared_global_locked :: "jd_state \<Rightarrow> bool \<times> jd_state" where
  "free_oldest_undeclared_global_locked st =
     (case best_index (\<lambda>t. \<not> tk_declared t) (\<lambda>t oldest. tk_created t < tk_created oldest) (jd_tokens st) of
        None \<Rightarrow> (False, st)
      | Some i \<Rightarrow> (True, free_token_locked i st))"

text \<open>The loop that frees undeclared tokens while the table is full.\<close>

partial_function (option) make_token_room :: "jd_state \<Rightarrow> jd_state option" where
  "make_token_room st =
     (if jd_token_count st \<ge> SV2_JD_MAX_TOKENS_GLOBAL then
        (if fst (free_oldest_undeclared_global_locked st)
         then make_token_room (snd (free_oldest_undeclared_global_locked st)) else Some st)
      else Some st)"

definition token_expired :: "int \<Rightarrow> sv2_jd_token \<Rightarrow> bool" where
  "token_expired now t \<longleftrightarrow>
     now - tk_created t >
       (if tk_declared t then SV2_JD_TOKEN_TTL_DECLARED_SECS else SV2_JD_TOKEN_TTL_UNDECLARED_SECS)"

text \<open>A loop that removes entries of the pending array with \<open>memmove\<close> keeps the others in order.\<close>

definition expire_old_tokens_locked :: "int \<Rightarrow> jd_state \<Rightarrow> jd_state" where
  "expire_old_tokens_locked now st =
     (free_tokens_where (token_expired now) st)
       \<lparr>pending_declares := filter (\<lambda>p. \<not> now - pd_created p > SV2_JD_PENDING_TTL_SECS) (pending_declares st)\<rparr>"

definition find_token_locked :: "bytes \<Rightarrow> sv2_jd_token list \<Rightarrow> nat option" where
  "find_token_locked tok = first_index (\<lambda>t. tk_token t = tok)"

text \<open>
  \<open>draws\<close> are the values the random generator is about to return; \<open>None\<close> says that all of them
  were in the table, so the loop has not ended.
\<close>

definition token_fill_unique_locked :: "bytes list \<Rightarrow> sv2_jd_token list \<Rightarrow> bytes option" where
  "token_fill_unique_locked draws toks = find (\<lambda>d. find_token_locked d toks = None) draws"

definition token_snapshot_client_bytes_locked :: "int \<Rightarrow> jd_state \<Rightarrow> u64" where
  "token_snapshot_client_bytes_locked client_id st =
     foldl (\<lambda>bytes t. if tk_client_id t = client_id then bytes + tk_snapshot_bytes t else bytes)
       0 (jd_tokens st)"

definition token_snapshot_may_add_locked :: "int \<Rightarrow> u64 \<Rightarrow> jd_state \<Rightarrow> bool" where
  "token_snapshot_may_add_locked client_id bytes st =
     (if bytes > SV2_JD_MAX_TOKEN_SNAPSHOT_BYTES_GLOBAL \<or>
         jd_token_snapshot_bytes st > SV2_JD_MAX_TOKEN_SNAPSHOT_BYTES_GLOBAL - bytes then False
      else
        let client_bytes = token_snapshot_client_bytes_locked client_id st
        in \<not> (bytes > SV2_JD_MAX_TOKEN_SNAPSHOT_BYTES_CLIENT \<or>
              client_bytes > SV2_JD_MAX_TOKEN_SNAPSHOT_BYTES_CLIENT - bytes))"

section \<open>Dropping clients\<close>

text \<open>The table's reference goes; a handler that still holds one keeps the unhashed client alive.\<close>

definition sv2_jd_drop_client :: "int \<Rightarrow> jd_state \<Rightarrow> jd_state" where
  "sv2_jd_drop_client client_id st =
     (let st = (case first_index (\<lambda>c. jc_client_id c = client_id) (jd_clients st) of None \<Rightarrow> st
                | Some i \<Rightarrow> st\<lparr>jd_clients := remove_nth i (jd_clients st)\<rparr>)
      in (free_tokens_where (\<lambda>t. tk_client_id t = client_id) st)
           \<lparr>pending_declares := filter (\<lambda>p. pd_client_id p \<noteq> client_id) (pending_declares st)\<rparr>)"

definition sv2_jd_drop_all :: "jd_state \<Rightarrow> jd_state" where
  "sv2_jd_drop_all st =
     (free_tokens_where (\<lambda>t. True) (st\<lparr>jd_clients := []\<rparr>))\<lparr>pending_declares := []\<rparr>"

section \<open>Pending declarations\<close>

definition pending_count_client_locked :: "int \<Rightarrow> jd_state \<Rightarrow> nat" where
  "pending_count_client_locked client_id st =
     length (filter (\<lambda>p. pd_client_id p = client_id) (pending_declares st))"

definition pending_may_add_locked :: "int \<Rightarrow> jd_state \<Rightarrow> bool" where
  "pending_may_add_locked client_id st =
     (if length (pending_declares st) \<ge> SV2_JD_MAX_PENDING_GLOBAL then False
      else if pending_count_client_locked client_id st \<ge> SV2_JD_MAX_PENDING_PER_CLIENT then False
      else True)"

definition remove_pending_declare_locked :: "int \<Rightarrow> u32 \<Rightarrow> jd_state \<Rightarrow> jd_state" where
  "remove_pending_declare_locked client_id request_id st =
     (case first_index (\<lambda>p. pd_client_id p = client_id \<and> pd_request_id p = request_id) (pending_declares st) of
        None \<Rightarrow> st
      | Some i \<Rightarrow> st\<lparr>pending_declares := remove_nth i (pending_declares st)\<rparr>)"

section \<open>The transaction cache\<close>

definition cache_evict_oldest_locked :: "nat \<Rightarrow> jd_state \<Rightarrow> jd_state" where
  "cache_evict_oldest_locked n_evict st =
     (let gone = take n_evict (tx_cache st)
      in st\<lparr>tx_cache := drop n_evict (tx_cache st),
            tx_cache_count := tx_cache_count st - int (length gone),
            tx_cache_bytes := foldl (\<lambda>b e. b - of_nat (length (ce_raw e))) (tx_cache_bytes st) gone\<rparr>)"

definition cache_over :: "nat \<Rightarrow> jd_state \<Rightarrow> bool" where
  "cache_over raw_len st \<longleftrightarrow>
     tx_cache_count st \<ge> SV2_JD_MAX_CACHE_TXS \<or>
     tx_cache_bytes st + of_nat raw_len > SV2_JD_MAX_CACHE_BYTES"

text \<open>The eviction loop; \<open>None\<close> is a loop that never ends.\<close>

partial_function (option) cache_make_room :: "nat \<Rightarrow> jd_state \<Rightarrow> jd_state option" where
  "cache_make_room raw_len st =
     (if cache_over raw_len st \<and> tx_cache_count st > 0
      then cache_make_room raw_len (cache_evict_oldest_locked SV2_JD_CACHE_EVICT_BATCH st)
      else Some st)"

definition cache_get :: "bytes \<Rightarrow> sv2_tx_cache_ent list \<Rightarrow> sv2_tx_cache_ent option" where
  "cache_get wtxid cache = find (\<lambda>e. ce_wtxid e = wtxid) cache"

definition cache_put_tx :: "bytes \<Rightarrow> int \<Rightarrow> jd_state \<Rightarrow> jd_state option" where
  "cache_put_tx raw now st =
     (if raw = [] then Some st
      else
        let wtxid = gen_hash raw
        in if cache_get wtxid (tx_cache st) \<noteq> None then Some st
           else do {
             st \<leftarrow> cache_make_room (length raw) st;
             if cache_over (length raw) st then Some st
             else Some (st\<lparr>tx_cache := tx_cache st @
                               [\<lparr> ce_wtxid = wtxid, ce_raw = raw, ce_created = now \<rparr>],
                           tx_cache_count := tx_cache_count st + 1,
                           tx_cache_bytes := tx_cache_bytes st + of_nat (length raw)\<rparr>) })"

end
