(* ===== verification/Jd_Tables.thy ===== *)
theory Jd_Tables
  imports Jd_State
begin

text \<open>
  What the tables of \<open>Jd_State\<close> keep: the counters are exact, the byte totals are the sums of
  what the entries hold, every limit is respected, and the two loops that make room in a full
  table end.  \<open>room_loop\<close> is the contract those loops share.
\<close>

section \<open>Lists of entries\<close>

lemma first_index_Some: "first_index P xs = Some i \<Longrightarrow> i < length xs \<and> P (xs ! i) \<and> (\<forall>j<i. \<not> P (xs ! j))"
  by (induction xs arbitrary: i) (auto simp: nth_Cons less_Suc_eq_0_disj split: if_splits nat.splits)

lemma first_index_None: "first_index P xs = None \<longleftrightarrow> (\<forall>x\<in>set xs. \<not> P x)"
  by (induction xs) auto

lemma first_index_append_None: "first_index P xs = None \<Longrightarrow> first_index P (xs @ [y]) = (if P y then Some (length xs) else None)"
  by (induction xs) (auto split: if_splits)

lemma update_first_nth:
  "first_index P xs = Some i \<Longrightarrow> update_first P f xs = xs[i := f (xs ! i)]"
  by (induction xs arbitrary: i) (auto split: if_splits)

lemma update_first_none: "first_index P xs = None \<Longrightarrow> update_first P f xs = xs"
  by (induction xs) (auto split: if_splits)

lemma length_update_first [simp]: "length (update_first P f xs) = length xs"
  by (induction xs) auto

lemma set_update_first: "set (update_first P f xs) \<subseteq> set xs \<union> f ` {x \<in> set xs. P x}"
  by (induction xs) auto

lemma map_update_first: "(\<And>x. g (f x) = g x) \<Longrightarrow> map g (update_first P f xs) = map g xs"
  by (induction xs) auto

lemma length_remove_nth: "i < length xs \<Longrightarrow> Suc (length (remove_nth i xs)) = length xs"
  by (simp add: remove_nth_def)

lemma set_remove_nth: "set (remove_nth i xs) \<subseteq> set xs"
  by (auto simp: remove_nth_def dest: in_set_takeD in_set_dropD)

lemma sum_remove_nth:
  "i < length xs \<Longrightarrow> sum_list (map f (remove_nth i xs)) + f (xs ! i) = (sum_list (map f xs) :: nat)"
  by (subst (2) id_take_nth_drop [of i xs]) (simp_all add: remove_nth_def)

lemma filter_remove_nth: "length (filter P (remove_nth i xs)) \<le> length (filter P xs)"
proof (cases "i < length xs")
  case True
  then show ?thesis
    by (subst (2) id_take_nth_drop [of i xs]) (simp_all add: remove_nth_def)
qed (simp add: remove_nth_def)

lemma foldl_invariant:
  "Q b \<Longrightarrow> (\<And>b x. x \<in> set xs \<Longrightarrow> Q b \<Longrightarrow> Q (f b x)) \<Longrightarrow> Q (foldl f b xs)"
  by (induction xs arbitrary: b) auto

lemma best_index_Some:
  assumes "best_index P better toks = Some i"
  shows "i < length toks \<and> P (toks ! i)"
proof -
  let ?Q = "\<lambda>b. \<forall>i. b = Some i \<longrightarrow> i < length toks \<and> P (toks ! i)"
  have "?Q (best_index P better toks)"
    unfolding best_index_def by (rule foldl_invariant) (auto split: option.splits)
  with assms show ?thesis by blast
qed

lemma foldl_None:
  assumes "\<And>b x. f b x = None \<Longrightarrow> b = None \<and> \<not> R x"
  shows "foldl f b xs = None \<Longrightarrow> b = None \<and> (\<forall>x\<in>set xs. \<not> R x)"
proof (induction xs arbitrary: b)
  case (Cons x xs)
  from Cons.IH [of "f b x"] Cons.prems have "f b x = None" "\<forall>x\<in>set xs. \<not> R x" by simp_all
  with assms show ?case by auto
qed simp

lemma best_index_None:
  assumes "best_index P better toks = None"
  shows "\<forall>t\<in>set toks. \<not> P t"
proof -
  have "(None :: nat option) = None \<and> (\<forall>i\<in>set [0..<length toks]. \<not> P (toks ! i))"
    using assms unfolding best_index_def
    by (rule foldl_None [rotated]) (auto split: if_splits option.splits)
  then show ?thesis by (auto simp: in_set_conv_nth)
qed

section \<open>Loops that make room\<close>

locale room_loop =
  fixes over :: "'s \<Rightarrow> bool" and shrink :: "'s \<Rightarrow> 's option" and loop :: "'s \<Rightarrow> 's option"
    and inv :: "'s \<Rightarrow> bool" and size_of :: "'s \<Rightarrow> nat"
  assumes loop_eq: "loop s = (if over s then case shrink s of None \<Rightarrow> Some s | Some t \<Rightarrow> loop t else Some s)"
    and shrink_inv: "inv s \<Longrightarrow> over s \<Longrightarrow> shrink s = Some t \<Longrightarrow> inv t"
    and shrink_less: "inv s \<Longrightarrow> over s \<Longrightarrow> shrink s = Some t \<Longrightarrow> size_of t < size_of s"
begin

text \<open>The loop ends, and what every step keeps holds of its result.\<close>

lemma loop_keeps:
  assumes "inv s" and "Q s"
    and "\<And>s t. inv s \<Longrightarrow> Q s \<Longrightarrow> over s \<Longrightarrow> shrink s = Some t \<Longrightarrow> Q t"
  shows "\<exists>t. loop s = Some t \<and> inv t \<and> Q t \<and> (over t \<longrightarrow> shrink t = None)"
  using assms(1,2)
proof (induction "size_of s" arbitrary: s rule: less_induct)
  case less
  show ?case
  proof (cases "over s")
    case False
    then show ?thesis using less.prems loop_eq [of s] by auto
  next
    case True
    then show ?thesis
      using less.hyps shrink_inv [OF less.prems(1) True] shrink_less [OF less.prems(1) True]
        assms(3) [OF less.prems True] less.prems loop_eq [of s]
      by (cases "shrink s") auto
  qed
qed

lemma loop_returns:
  assumes "inv s"
  shows "\<exists>t. loop s = Some t \<and> inv t \<and> (over t \<longrightarrow> shrink t = None)"
  using loop_keeps [OF assms, of "\<lambda>_. True"] by simp

end

section \<open>The token table\<close>

definition held :: "sv2_jd_token list \<Rightarrow> nat" where
  "held ts = (\<Sum>t\<leftarrow>ts. unat (tk_snapshot_bytes t))"

definition held_by :: "int \<Rightarrow> sv2_jd_token list \<Rightarrow> nat" where
  "held_by cid ts = held (filter (\<lambda>t. tk_client_id t = cid) ts)"

text \<open>The counters are exact and an undeclared token holds nothing.\<close>

definition tokens_exact :: "jd_state \<Rightarrow> bool" where
  "tokens_exact st \<longleftrightarrow>
     jd_token_count st = int (length (jd_tokens st)) \<and>
     unat (jd_token_snapshot_bytes st) = held (jd_tokens st) \<and>
     list_all (\<lambda>t. \<not> tk_declared t \<longrightarrow> tk_snapshot_bytes t = 0) (jd_tokens st)"

definition tokens_bounded :: "jd_state \<Rightarrow> bool" where
  "tokens_bounded st \<longleftrightarrow>
     length (jd_tokens st) \<le> 4096 \<and> held (jd_tokens st) \<le> 2 ^ 29 \<and>
     (\<forall>cid. held_by cid (jd_tokens st) \<le> 2 ^ 26)"

lemma held_simps [simp]:
  "held [] = 0" "held (t # ts) = unat (tk_snapshot_bytes t) + held ts" "held (ts @ us) = held ts + held us"
  by (simp_all add: held_def)

lemma held_by_simps [simp]:
  "held_by cid [] = 0"
  "held_by cid (t # ts) = (if tk_client_id t = cid then unat (tk_snapshot_bytes t) else 0) + held_by cid ts"
  "held_by cid (ts @ us) = held_by cid ts + held_by cid us"
  by (simp_all add: held_by_def)

lemma held_filter_le: "held (filter P ts) \<le> held ts" "held_by cid (filter P ts) \<le> held_by cid ts"
  by (induction ts) auto

lemma held_split: "held ts = held (filter P ts) + held (filter (\<lambda>t. \<not> P t) ts)"
  by (induction ts) auto

lemma held_remove_nth:
  assumes "i < length ts"
  shows "held (remove_nth i ts) + unat (tk_snapshot_bytes (ts ! i)) = held ts"
    and "held_by cid (remove_nth i ts) \<le> held_by cid ts"
proof -
  show "held (remove_nth i ts) + unat (tk_snapshot_bytes (ts ! i)) = held ts"
    using sum_remove_nth [OF assms, of "\<lambda>t. unat (tk_snapshot_bytes t)"] by (simp add: held_def)
  show "held_by cid (remove_nth i ts) \<le> held_by cid ts"
    by (subst (2) id_take_nth_drop [OF assms]) (simp add: remove_nth_def)
qed

lemma held_client_word:
  assumes "held (jd_tokens st) < 2 ^ 64"
  shows "unat (token_snapshot_client_bytes_locked cid st) = held_by cid (jd_tokens st)"
proof -
  have sum: "unat a + held_by cid ts < 2 ^ 64 \<Longrightarrow>
      unat (foldl (\<lambda>bytes t. if tk_client_id t = cid then bytes + tk_snapshot_bytes t else bytes) a ts) =
      unat a + held_by cid ts" for a ts
  proof (induction ts arbitrary: a)
    case (Cons t ts)
    then have "tk_client_id t = cid \<Longrightarrow> unat (a + tk_snapshot_bytes t) = unat a + unat (tk_snapshot_bytes t)"
      by (simp add: unat_word_ariths)
    with Cons.prems Cons.IH [of "a + tk_snapshot_bytes t"] Cons.IH [of a] show ?case
      by (cases "tk_client_id t = cid") simp_all
  qed simp
  have "held_by cid (jd_tokens st) \<le> held (jd_tokens st)" by (simp add: held_by_def held_filter_le)
  then have "unat (0 :: u64) + held_by cid (jd_tokens st) < 2 ^ 64" using assms by simp
  from sum [OF this] show ?thesis by (simp add: token_snapshot_client_bytes_locked_def)
qed

text \<open>Freeing keeps the counters exact: the saturating branch is never taken.\<close>

lemma uncount_exact:
  assumes "unat b = held rest + unat (tk_snapshot_bytes t)"
  shows "uncount_token t (n, b) = (n - 1, b - tk_snapshot_bytes t)"
    and "unat (b - tk_snapshot_bytes t) = held rest"
proof -
  have "tk_snapshot_bytes t \<le> b" using assms by (simp add: word_le_nat_alt)
  then show "uncount_token t (n, b) = (n - 1, b - tk_snapshot_bytes t)"
    and "unat (b - tk_snapshot_bytes t) = held rest"
    using assms by (simp_all add: uncount_token_def unat_sub)
qed

lemma free_matching_exact:
  assumes "unat b = held ts + extra"
  shows "\<exists>b'. free_matching P ts (n, b) =
      (filter (\<lambda>t. \<not> P t) ts, n - int (length (filter P ts)), b') \<and>
    unat b' = held (filter (\<lambda>t. \<not> P t) ts) + extra"
  using assms
proof (induction ts arbitrary: n b extra)
  case (Cons t ts)
  show ?case
  proof (cases "P t")
    case True
    have "tk_snapshot_bytes t \<le> b" using Cons.prems by (simp add: word_le_nat_alt)
    then have u: "uncount_token t (n, b) = (n - 1, b - tk_snapshot_bytes t)"
      and v: "unat (b - tk_snapshot_bytes t) = held ts + extra"
      using Cons.prems by (simp_all add: uncount_token_def unat_sub)
    show ?thesis using Cons.IH [OF v, of "n - 1"] by (auto simp: True u)
  next
    case False
    then show ?thesis
      using Cons.IH [of b "unat (tk_snapshot_bytes t) + extra" n] Cons.prems
      by (fastforce simp: ac_simps)
  qed
qed simp

text \<open>
  Freeing by a test leaves exactly the other tokens.  \<open>free_tokens_where_tokens\<close> needs nothing of
  the counters.
\<close>

lemma free_matching_tokens: "fst (free_matching P ts acc) = filter (\<lambda>t. \<not> P t) ts"
  by (induction ts arbitrary: acc) (auto split: prod.splits, metis fst_conv)

lemma set_tokens_simps [simp]:
  "jd_tokens (set_tokens ts acc st) = ts" "jd_clients (set_tokens ts acc st) = jd_clients st"
  "tx_cache (set_tokens ts acc st) = tx_cache st" "jd_coalesce (set_tokens ts acc st) = jd_coalesce st"
  "pending_declares (set_tokens ts acc st) = pending_declares st"
  "tx_cache_count (set_tokens ts acc st) = tx_cache_count st"
  "tx_cache_bytes (set_tokens ts acc st) = tx_cache_bytes st"
  "jd_coalesce_count (set_tokens ts acc st) = jd_coalesce_count st"
  "jd_checkblock_inflight (set_tokens ts acc st) = jd_checkblock_inflight st"
  "jd_validate_q (set_tokens ts acc st) = jd_validate_q st"
  "jd_submit_q (set_tokens ts acc st) = jd_submit_q st"
  "jd_stats (set_tokens ts acc st) = jd_stats st"
  "jd_token_count (set_tokens ts acc st) = fst acc"
  "jd_token_snapshot_bytes (set_tokens ts acc st) = snd acc"
  by (simp_all add: set_tokens_def split: prod.splits)

lemma free_tokens_where_tokens: "jd_tokens (free_tokens_where P st) = filter (\<lambda>t. \<not> P t) (jd_tokens st)"
  using free_matching_tokens [of P "jd_tokens st"]
  by (auto simp: free_tokens_where_def split: prod.splits) (metis fst_conv)

lemma free_tokens_where_eq:
  "\<exists>acc. free_tokens_where P st = set_tokens (filter (\<lambda>t. \<not> P t) (jd_tokens st)) acc st"
  using free_matching_tokens [of P "jd_tokens st"]
  by (auto simp: free_tokens_where_def split: prod.splits) (metis fst_conv)

lemma list_all_filter: "list_all Q xs \<Longrightarrow> list_all Q (filter P xs)"
  by (induction xs) auto

lemma free_tokens_where_exact:
  assumes "tokens_exact st"
  shows "tokens_exact (free_tokens_where P st)"
proof -
  have e: "unat (jd_token_snapshot_bytes st) = held (jd_tokens st) + 0"
      "jd_token_count st = int (length (jd_tokens st))"
    using assms by (simp_all add: tokens_exact_def)
  obtain b' where "free_matching P (jd_tokens st) (jd_token_count st, jd_token_snapshot_bytes st) =
      (filter (\<lambda>t. \<not> P t) (jd_tokens st), jd_token_count st - int (length (filter P (jd_tokens st))), b')"
    "unat b' = held (filter (\<lambda>t. \<not> P t) (jd_tokens st))"
    using free_matching_exact [OF e(1), of P "jd_token_count st"] by auto
  moreover have "length (filter P (jd_tokens st)) + length (filter (\<lambda>t. \<not> P t) (jd_tokens st)) =
      length (jd_tokens st)"
    by (rule sum_length_filter_compl)
  ultimately show ?thesis
    using assms e by (simp add: tokens_exact_def free_tokens_where_def list_all_filter)
qed

lemma free_token_locked_tokens [simp]: "jd_tokens (free_token_locked i st) = remove_nth i (jd_tokens st)"
  by (simp add: free_token_locked_def)

lemma free_token_locked_exact:
  assumes "tokens_exact st" and i: "i < length (jd_tokens st)"
  shows "tokens_exact (free_token_locked i st)"
proof -
  have "unat (jd_token_snapshot_bytes st) =
      held (remove_nth i (jd_tokens st)) + unat (tk_snapshot_bytes (jd_tokens st ! i))"
    using assms held_remove_nth [OF i] by (simp add: tokens_exact_def)
  from uncount_exact [OF this] show ?thesis
    using assms length_remove_nth [OF i] set_remove_nth [of i "jd_tokens st"]
    by (auto simp: tokens_exact_def free_token_locked_def list_all_iff)
qed

lemma tokens_bounded_less:
  assumes "tokens_bounded st" and "length (jd_tokens st') \<le> length (jd_tokens st)"
    and "held (jd_tokens st') \<le> held (jd_tokens st)"
    and "\<And>cid. held_by cid (jd_tokens st') \<le> held_by cid (jd_tokens st)"
  shows "tokens_bounded st'"
  using assms unfolding tokens_bounded_def by (meson order_trans)

lemma free_tokens_where_bounded: "tokens_bounded st \<Longrightarrow> tokens_bounded (free_tokens_where P st)"
  by (erule tokens_bounded_less) (simp_all add: free_tokens_where_tokens held_filter_le)

lemma free_token_locked_bounded:
  assumes "tokens_bounded st" and i: "i < length (jd_tokens st)"
  shows "tokens_bounded (free_token_locked i st)"
  using assms(1) by (rule tokens_bounded_less)
    (use i held_remove_nth [OF i] length_remove_nth [OF i] in simp_all)

section \<open>Room in the token table\<close>

definition shrink_tokens :: "jd_state \<Rightarrow> jd_state option" where
  "shrink_tokens st = (if fst (free_oldest_undeclared_global_locked st)
     then Some (snd (free_oldest_undeclared_global_locked st)) else None)"

lemma shrink_tokens_Some:
  "shrink_tokens st = Some t \<Longrightarrow> \<exists>i. t = free_token_locked i st \<and> i < length (jd_tokens st) \<and>
    \<not> tk_declared (jd_tokens st ! i)"
  by (auto simp: shrink_tokens_def free_oldest_undeclared_global_locked_def split: option.splits if_splits
      dest!: best_index_Some)

lemma shrink_tokens_None: "shrink_tokens st = None \<longleftrightarrow> list_all tk_declared (jd_tokens st)"
proof -
  have "best_index P better ts = None \<longleftrightarrow> list_all (\<lambda>t. \<not> P t) ts" for P better ts
  proof (cases "best_index P better ts")
    case None
    then show ?thesis using best_index_None [OF None] by (simp add: list_all_iff)
  next
    case (Some i)
    then show ?thesis using best_index_Some [OF Some] by (auto simp: list_all_iff)
  qed
  from this [of "\<lambda>t. \<not> tk_declared t"]
  have "best_index (\<lambda>t. \<not> tk_declared t) (\<lambda>t oldest. tk_created t < tk_created oldest) (jd_tokens st) = None
      \<longleftrightarrow> list_all tk_declared (jd_tokens st)" by simp
  then show ?thesis
    by (auto simp: shrink_tokens_def free_oldest_undeclared_global_locked_def split: option.splits)
qed

interpretation tr: room_loop
  "\<lambda>st. jd_token_count st \<ge> SV2_JD_MAX_TOKENS_GLOBAL" shrink_tokens make_token_room
  tokens_exact "\<lambda>st. length (jd_tokens st)"
proof
  fix s t
  show "make_token_room s = (if jd_token_count s \<ge> SV2_JD_MAX_TOKENS_GLOBAL
      then case shrink_tokens s of None \<Rightarrow> Some s | Some t \<Rightarrow> make_token_room t else Some s)"
    by (subst make_token_room.simps) (simp add: shrink_tokens_def)
  show "tokens_exact s \<Longrightarrow> SV2_JD_MAX_TOKENS_GLOBAL \<le> jd_token_count s \<Longrightarrow> shrink_tokens s = Some t \<Longrightarrow>
      tokens_exact t"
    by (auto dest!: shrink_tokens_Some intro: free_token_locked_exact)
  show "tokens_exact s \<Longrightarrow> SV2_JD_MAX_TOKENS_GLOBAL \<le> jd_token_count s \<Longrightarrow> shrink_tokens s = Some t \<Longrightarrow>
      length (jd_tokens t) < length (jd_tokens s)"
    using length_remove_nth by (fastforce dest!: shrink_tokens_Some)
qed

lemma filter_remove_nth_other:
  "i < length xs \<Longrightarrow> \<not> P (xs ! i) \<Longrightarrow> filter P (remove_nth i xs) = filter P xs"
  by (subst (2) id_take_nth_drop [of i xs]) (simp_all add: remove_nth_def)

text \<open>
  Making room ends, frees undeclared tokens only, and afterwards the table has a free place or
  holds declared tokens only.
\<close>

lemma make_token_room_result:
  assumes "tokens_exact st"
  shows "\<exists>ts acc. make_token_room st = Some (set_tokens ts acc st) \<and>
    tokens_exact (set_tokens ts acc st) \<and> filter tk_declared ts = filter tk_declared (jd_tokens st) \<and>
    set ts \<subseteq> set (jd_tokens st) \<and> length ts \<le> length (jd_tokens st) \<and> held ts \<le> held (jd_tokens st) \<and>
    (\<forall>cid. held_by cid ts \<le> held_by cid (jd_tokens st)) \<and>
    (fst acc < SV2_JD_MAX_TOKENS_GLOBAL \<or> list_all tk_declared ts)"
proof -
  let ?Q = "\<lambda>t. (\<exists>ts acc. t = set_tokens ts acc st) \<and>
    filter tk_declared (jd_tokens t) = filter tk_declared (jd_tokens st) \<and>
    set (jd_tokens t) \<subseteq> set (jd_tokens st) \<and> length (jd_tokens t) \<le> length (jd_tokens st) \<and>
    held (jd_tokens t) \<le> held (jd_tokens st) \<and>
    (\<forall>cid. held_by cid (jd_tokens t) \<le> held_by cid (jd_tokens st))"
  have "\<exists>t. make_token_room st = Some t \<and> tokens_exact t \<and> ?Q t \<and>
      (jd_token_count t \<ge> SV2_JD_MAX_TOKENS_GLOBAL \<longrightarrow> shrink_tokens t = None)"
  proof (rule tr.loop_keeps [OF assms])
    have "st = set_tokens (jd_tokens st) (jd_token_count st, jd_token_snapshot_bytes st) st"
      by (simp add: set_tokens_def)
    then have "\<exists>ts acc. st = set_tokens ts acc st" by (intro exI)
    then show "?Q st" by simp
  next
    fix s t assume e: "tokens_exact s" and q: "?Q s" and "shrink_tokens s = Some t"
    then obtain i where i: "t = free_token_locked i s" "i < length (jd_tokens s)" "\<not> tk_declared (jd_tokens s ! i)"
      using shrink_tokens_Some by blast
    obtain ts acc where s: "s = set_tokens ts acc st" using q by blast
    have "\<exists>ts acc. t = set_tokens ts acc st"
      unfolding i(1) free_token_locked_def s by (auto simp: set_tokens_def split: prod.splits)
    then show "?Q t"
      using q i set_remove_nth [of i "jd_tokens s"] length_remove_nth [OF i(2)]
        held_remove_nth [OF i(2)] filter_remove_nth_other [of i "jd_tokens s" tk_declared]
      by (auto intro: order_trans) (meson order_trans)
  qed
  then show ?thesis
    by (force simp: shrink_tokens_None not_le)
qed

section \<open>The transaction cache\<close>

definition cached :: "sv2_tx_cache_ent list \<Rightarrow> nat" where
  "cached es = (\<Sum>e\<leftarrow>es. length (ce_raw e))"

definition set_cache :: "sv2_tx_cache_ent list \<Rightarrow> int \<Rightarrow> u64 \<Rightarrow> jd_state \<Rightarrow> jd_state" where
  "set_cache es n b st = st\<lparr>tx_cache := es, tx_cache_count := n, tx_cache_bytes := b\<rparr>"

text \<open>Entries are keyed by the hash of their bytes, each once; count and byte total are exact.\<close>

definition cache_exact :: "jd_state \<Rightarrow> bool" where
  "cache_exact st \<longleftrightarrow>
     tx_cache_count st = int (length (tx_cache st)) \<and>
     unat (tx_cache_bytes st) = cached (tx_cache st) \<and>
     list_all (\<lambda>e. ce_raw e \<noteq> [] \<and> ce_wtxid e = gen_hash (ce_raw e)) (tx_cache st) \<and>
     distinct (map ce_wtxid (tx_cache st))"

definition cache_ok :: "jd_state \<Rightarrow> bool" where
  "cache_ok st \<longleftrightarrow> cache_exact st \<and> length (tx_cache st) \<le> 65536 \<and> cached (tx_cache st) \<le> 2 ^ 28"

lemma cached_simps [simp]:
  "cached [] = 0" "cached (e # es) = length (ce_raw e) + cached es" "cached (es @ fs) = cached es + cached fs"
  by (simp_all add: cached_def)

lemma set_cache_simps [simp]:
  "tx_cache (set_cache es n b st) = es" "tx_cache_count (set_cache es n b st) = n"
  "tx_cache_bytes (set_cache es n b st) = b"
  "jd_tokens (set_cache es n b st) = jd_tokens st" "jd_clients (set_cache es n b st) = jd_clients st"
  "jd_coalesce (set_cache es n b st) = jd_coalesce st"
  "pending_declares (set_cache es n b st) = pending_declares st"
  "jd_coalesce_count (set_cache es n b st) = jd_coalesce_count st"
  "jd_checkblock_inflight (set_cache es n b st) = jd_checkblock_inflight st"
  "jd_validate_q (set_cache es n b st) = jd_validate_q st"
  "jd_submit_q (set_cache es n b st) = jd_submit_q st" "jd_stats (set_cache es n b st) = jd_stats st"
  "jd_token_count (set_cache es n b st) = jd_token_count st"
  "jd_token_snapshot_bytes (set_cache es n b st) = jd_token_snapshot_bytes st"
  by (simp_all add: set_cache_def)

lemma set_cache_id: "set_cache (tx_cache st) (tx_cache_count st) (tx_cache_bytes st) st = st"
  by (simp add: set_cache_def)

lemma set_cache_cache: "set_cache es n b (set_cache es' n' b' st) = set_cache es n b st"
  by (simp add: set_cache_def)

lemma cache_evict_eq:
  "\<exists>b. cache_evict_oldest_locked k st =
    set_cache (drop k (tx_cache st)) (tx_cache_count st - int (length (take k (tx_cache st)))) b st"
  by (simp add: cache_evict_oldest_locked_def set_cache_def Let_def) blast

lemma minus_cached:
  "unat (b :: u64) = cached gone + rest \<Longrightarrow>
    unat (foldl (\<lambda>b e. b - of_nat (length (ce_raw e))) b gone) = rest"
proof (induction gone arbitrary: b)
  case (Cons e gone)
  have "length (ce_raw e) < 2 ^ 64"
    using Cons.prems unat_u64_lt [of b] by simp
  then have "unat (of_nat (length (ce_raw e)) :: u64) = length (ce_raw e)" by (rule unat_of_nat64)
  then have "unat (b - of_nat (length (ce_raw e))) = cached gone + rest"
    using Cons.prems by (simp add: unat_sub word_le_nat_alt)
  then show ?case using Cons.IH by simp
qed simp

lemma cache_evict_exact:
  assumes "cache_exact st"
  shows "cache_exact (cache_evict_oldest_locked k st)"
proof -
  have "unat (tx_cache_bytes st) = cached (take k (tx_cache st)) + cached (drop k (tx_cache st))"
    using assms cached_simps(3) [of "take k (tx_cache st)" "drop k (tx_cache st)"]
    by (simp add: cache_exact_def)
  from minus_cached [OF this] show ?thesis
    using assms
    by (auto simp: cache_exact_def cache_evict_oldest_locked_def Let_def list_all_iff of_nat_diff
        distinct_drop simp flip: drop_map dest: in_set_dropD)
qed

interpretation cr: room_loop "\<lambda>st. cache_over raw_len st \<and> tx_cache_count st > 0"
  "\<lambda>st. Some (cache_evict_oldest_locked SV2_JD_CACHE_EVICT_BATCH st)" "cache_make_room raw_len"
  cache_exact "\<lambda>st. length (tx_cache st)" for raw_len
proof
  fix s t
  show "cache_make_room raw_len s = (if cache_over raw_len s \<and> tx_cache_count s > 0
      then case Some (cache_evict_oldest_locked SV2_JD_CACHE_EVICT_BATCH s) of None \<Rightarrow> Some s
        | Some t \<Rightarrow> cache_make_room raw_len t else Some s)"
    by (subst cache_make_room.simps) simp
  show "cache_exact s \<Longrightarrow> cache_over raw_len s \<and> 0 < tx_cache_count s \<Longrightarrow>
      Some (cache_evict_oldest_locked SV2_JD_CACHE_EVICT_BATCH s) = Some t \<Longrightarrow> cache_exact t"
    using cache_evict_exact by blast
  show "cache_exact s \<Longrightarrow> cache_over raw_len s \<and> 0 < tx_cache_count s \<Longrightarrow>
      Some (cache_evict_oldest_locked SV2_JD_CACHE_EVICT_BATCH s) = Some t \<Longrightarrow>
      length (tx_cache t) < length (tx_cache s)"
    by (auto simp: cache_evict_oldest_locked_def Let_def SV2_JD_CACHE_EVICT_BATCH_def cache_exact_def)
qed

text \<open>Making room ends, drops the oldest entries only, and leaves room or an empty cache.\<close>

lemma cache_make_room_result:
  assumes "cache_ok st"
  shows "\<exists>k n b. cache_make_room raw_len st = Some (set_cache (drop k (tx_cache st)) n b st) \<and>
    cache_ok (set_cache (drop k (tx_cache st)) n b st) \<and>
    (cache_over raw_len (set_cache (drop k (tx_cache st)) n b st) \<longrightarrow> drop k (tx_cache st) = [])"
proof -
  let ?Q = "\<lambda>t. \<exists>k n b. t = set_cache (drop k (tx_cache st)) n b st"
  have e: "cache_exact st" using assms by (simp add: cache_ok_def)
  have "\<exists>t. cache_make_room raw_len st = Some t \<and> cache_exact t \<and> ?Q t \<and>
      (cache_over raw_len t \<and> tx_cache_count t > 0 \<longrightarrow>
        Some (cache_evict_oldest_locked SV2_JD_CACHE_EVICT_BATCH t) = None)"
  proof (rule cr.loop_keeps [OF e])
    show "?Q st" by (metis drop0 set_cache_id)
    fix s t assume "?Q s" and "Some (cache_evict_oldest_locked SV2_JD_CACHE_EVICT_BATCH s) = Some t"
    then show "?Q t"
      using cache_evict_eq [of SV2_JD_CACHE_EVICT_BATCH s] by (auto simp: set_cache_cache) metis
  qed
  then obtain k n b where r: "cache_make_room raw_len st = Some (set_cache (drop k (tx_cache st)) n b st)"
    and x: "cache_exact (set_cache (drop k (tx_cache st)) n b st)"
    and v: "cache_over raw_len (set_cache (drop k (tx_cache st)) n b st) \<longrightarrow> \<not> n > 0"
    by auto
  have "cached (drop k (tx_cache st)) \<le> cached (tx_cache st)"
    using cached_simps(3) [of "take k (tx_cache st)" "drop k (tx_cache st)"] by simp
  then have "cache_ok (set_cache (drop k (tx_cache st)) n b st)"
    using assms x by (auto simp: cache_ok_def)
  moreover have "n = int (length (drop k (tx_cache st)))" using x by (simp add: cache_exact_def)
  then have "\<not> n > 0 \<Longrightarrow> drop k (tx_cache st) = []" by simp
  ultimately show ?thesis using r v by blast
qed

lemma cache_over_iff:
  assumes "cache_ok st" and "l < 2 ^ 32"
  shows "cache_over l st \<longleftrightarrow> length (tx_cache st) \<ge> 65536 \<or> cached (tx_cache st) + l > 2 ^ 28"
proof -
  have "unat (tx_cache_bytes st + of_nat l) = cached (tx_cache st) + l"
    using assms unat_of_nat64 [of l] by (simp add: cache_ok_def cache_exact_def unat_word_ariths)
  then show ?thesis
    using assms by (simp add: cache_over_def cache_ok_def cache_exact_def SV2_JD_MAX_CACHE_TXS_def
        SV2_JD_MAX_CACHE_BYTES_def word_less_nat_alt)
qed

lemma cache_get_None: "cache_get w es = None \<longleftrightarrow> w \<notin> set (map ce_wtxid es)"
  by (auto simp: cache_get_def find_None_iff)

lemma cache_get_Some:
  "cache_get w es = Some e \<Longrightarrow> e \<in> set es \<and> ce_wtxid e = w"
  by (auto simp: cache_get_def find_Some_iff)

text \<open>
  Storing a transaction returns, keeps the cache within its limits, adds at most that one
  transaction and drops old ones only.
\<close>

lemma cache_put_tx_result:
  assumes ok: "cache_ok st" and len: "length raw < 2 ^ 32"
  shows "\<exists>es n b. cache_put_tx raw now st = Some (set_cache es n b st) \<and>
    cache_ok (set_cache es n b st) \<and>
    (\<exists>k. es = drop k (tx_cache st) \<or>
      es = drop k (tx_cache st) @ [\<lparr> ce_wtxid = gen_hash raw, ce_raw = raw, ce_created = now \<rparr>])"
proof (cases "raw = [] \<or> cache_get (gen_hash raw) (tx_cache st) \<noteq> None")
  case True
  then have "cache_put_tx raw now st = Some (set_cache (drop 0 (tx_cache st)) (tx_cache_count st) (tx_cache_bytes st) st)"
    by (auto simp: cache_put_tx_def set_cache_id Let_def)
  then show ?thesis using ok by (metis drop0 set_cache_id)
next
  case False
  obtain k n b where r: "cache_make_room (length raw) st = Some (set_cache (drop k (tx_cache st)) n b st)"
    and o: "cache_ok (set_cache (drop k (tx_cache st)) n b st)" (is "cache_ok ?s")
    using cache_make_room_result [OF ok] by blast
  show ?thesis
  proof (cases "cache_over (length raw) ?s")
    case True
    then have "cache_put_tx raw now st = Some ?s" using False by (simp add: cache_put_tx_def r)
    then show ?thesis using o by blast
  next
    case v: False
    let ?e = "\<lparr> ce_wtxid = gen_hash raw, ce_raw = raw, ce_created = now \<rparr>"
    let ?t = "set_cache (drop k (tx_cache st) @ [?e]) (n + 1) (b + of_nat (length raw)) st"
    have p: "cache_put_tx raw now st = Some ?t"
      using False v by (simp add: cache_put_tx_def r set_cache_def)
    have l: "length (drop k (tx_cache st)) < 65536" "cached (drop k (tx_cache st)) + length raw \<le> 2 ^ 28"
      using v cache_over_iff [OF o len] by auto
    have "unat (b + of_nat (length raw)) = cached (drop k (tx_cache st)) + length raw"
      using o l len unat_of_nat64 [of "length raw"]
      by (simp add: cache_ok_def cache_exact_def unat_word_ariths)
    moreover have "gen_hash raw \<notin> set (map ce_wtxid (drop k (tx_cache st)))"
      using False by (auto simp: cache_get_None dest: in_set_dropD)
    ultimately have "cache_ok ?t"
      using o l False by (simp add: cache_ok_def cache_exact_def)
    with p show ?thesis by blast
  qed
qed

section \<open>The coalesce table\<close>

definition coalesce_ok :: "jd_state \<Rightarrow> bool" where
  "coalesce_ok st \<longleftrightarrow>
     jd_coalesce_count st = int (length (jd_coalesce st)) \<and> length (jd_coalesce st) \<le> 256 \<and>
     distinct (map co_thash (jd_coalesce st))"

lemma coalesce_evict_result:
  "coalesce_evict now cs n = (cs', n') \<Longrightarrow>
    n' - int (length cs') = n - int (length cs) \<and> n' \<le> n \<and> set cs' \<subseteq> set cs \<and>
    (distinct (map co_thash cs) \<longrightarrow> distinct (map co_thash cs')) \<and>
    (n = 256 \<and> cs \<noteq> [] \<longrightarrow> n' < 256)"
proof (induction now cs n arbitrary: cs' n' rule: coalesce_evict.induct)
  case (2 now c cs n)
  show ?case
  proof (cases "now - co_created c > SV2_JD_COALESCE_TTL_SECS \<or> n \<ge> SV2_JD_COALESCE_MAX")
    case True
    show ?thesis
    proof (cases "n - 1 < SV2_JD_COALESCE_MAX div 2")
      case stop: True
      then have "cs' = cs" "n' = n - 1" using 2(3) True by simp_all
      then show ?thesis using stop by (auto simp: SV2_JD_COALESCE_MAX_def)
    next
      case False
      then have "coalesce_evict now cs (n - 1) = (cs', n')" using 2(3) True by simp
      from 2(1) [OF True False this] show ?thesis by auto
    qed
  next
    case False
    obtain ds m where e: "coalesce_evict now cs n = (ds, m)" by fastforce
    then have "cs' = c # ds" "n' = m" using 2(3) False by simp_all
    with 2(2) [OF False e] False show ?thesis
      by (auto simp: SV2_JD_COALESCE_MAX_def)
  qed
qed simp

lemma coalesce_note_ok:
  assumes "coalesce_ok st"
  shows "coalesce_ok (coalesce_note_locked thash el now st)"
proof (cases "first_index (\<lambda>c. co_thash c = thash) (jd_coalesce st)")
  case (Some i)
  then show ?thesis
    using assms by (simp add: coalesce_note_locked_def coalesce_ok_def map_update_first)
next
  case None
  then have new: "thash \<notin> set (map co_thash (jd_coalesce st))"
    by (auto simp: first_index_None)
  show ?thesis
  proof (cases "jd_coalesce_count st \<ge> SV2_JD_COALESCE_MAX")
    case False
    then show ?thesis
      using assms new by (simp add: coalesce_note_locked_def None coalesce_ok_def SV2_JD_COALESCE_MAX_def)
  next
    case True
    obtain cs n where e: "coalesce_evict now (jd_coalesce st) (jd_coalesce_count st) = (cs, n)" by fastforce
    have "jd_coalesce_count st = 256" "jd_coalesce st \<noteq> []"
      using assms True by (auto simp: coalesce_ok_def SV2_JD_COALESCE_MAX_def)
    have "coalesce_note_locked thash el now st =
        st\<lparr>jd_coalesce := cs @ [\<lparr> co_thash = thash, co_enonce_len = el, co_created = now \<rparr>],
           jd_coalesce_count := n + 1\<rparr>"
      using True by (simp add: coalesce_note_locked_def None e)
    with \<open>jd_coalesce_count st = 256\<close> \<open>jd_coalesce st \<noteq> []\<close> coalesce_evict_result [OF e] assms new
    show ?thesis by (auto simp: coalesce_ok_def)
  qed
qed

lemma coalesce_note_frame [simp]:
  "jd_tokens (coalesce_note_locked h el now st) = jd_tokens st"
  "jd_clients (coalesce_note_locked h el now st) = jd_clients st"
  "tx_cache (coalesce_note_locked h el now st) = tx_cache st"
  "tx_cache_count (coalesce_note_locked h el now st) = tx_cache_count st"
  "tx_cache_bytes (coalesce_note_locked h el now st) = tx_cache_bytes st"
  "pending_declares (coalesce_note_locked h el now st) = pending_declares st"
  "jd_checkblock_inflight (coalesce_note_locked h el now st) = jd_checkblock_inflight st"
  "jd_validate_q (coalesce_note_locked h el now st) = jd_validate_q st"
  "jd_submit_q (coalesce_note_locked h el now st) = jd_submit_q st"
  "jd_token_count (coalesce_note_locked h el now st) = jd_token_count st"
  "jd_token_snapshot_bytes (coalesce_note_locked h el now st) = jd_token_snapshot_bytes st"
  by (simp_all add: coalesce_note_locked_def Let_def split: option.splits prod.splits)

lemma find_update_first:
  "first_index P xs \<noteq> None \<Longrightarrow> (\<And>x. P (f x) = P x) \<Longrightarrow>
    find P (update_first P f xs) = map_option f (find P xs)"
  by (induction xs) auto

lemma find_append_new: "\<forall>x\<in>set xs. \<not> P x \<Longrightarrow> P y \<Longrightarrow> find P (xs @ [y]) = Some y"
  by (induction xs) auto

text \<open>What was noted is found again, until the tip changes.\<close>

lemma coalesce_lookup_note:
  assumes "coalesce_ok st"
  shows "coalesce_lookup_locked h now (coalesce_note_locked h el now st) = Some el"
proof (cases "first_index (\<lambda>c. co_thash c = h) (jd_coalesce st)")
  case (Some i)
  moreover have "jd_coalesce st ! i \<in> set (jd_coalesce st)" "co_thash (jd_coalesce st ! i) = h"
    using first_index_Some [OF Some] by simp_all
  then have "find (\<lambda>c. co_thash c = h) (jd_coalesce st) \<noteq> None" unfolding find_None_iff by blast
  then obtain c where "find (\<lambda>c. co_thash c = h) (jd_coalesce st) = Some c" by blast
  ultimately show ?thesis
    by (simp add: coalesce_note_locked_def coalesce_lookup_locked_def find_update_first
        SV2_JD_COALESCE_TTL_SECS_def)
next
  case None
  obtain cs n where e: "(if jd_coalesce_count st \<ge> SV2_JD_COALESCE_MAX
      then coalesce_evict now (jd_coalesce st) (jd_coalesce_count st)
      else (jd_coalesce st, jd_coalesce_count st)) = (cs, n)" by fastforce
  then have "set cs \<subseteq> set (jd_coalesce st)"
    using coalesce_evict_result by (fastforce split: if_splits)
  then have "\<forall>c\<in>set cs. co_thash c \<noteq> h" using None by (auto simp: first_index_None)
  then show ?thesis
    by (simp add: coalesce_note_locked_def None e coalesce_lookup_locked_def find_append_new
        SV2_JD_COALESCE_TTL_SECS_def)
qed

section \<open>Budgets and fresh tokens\<close>

lemma snapshot_may_add_iff:
  assumes "tokens_exact st" and "tokens_bounded st"
  shows "token_snapshot_may_add_locked cid bytes st \<longleftrightarrow>
    held (jd_tokens st) + unat bytes \<le> 2 ^ 29 \<and> held_by cid (jd_tokens st) + unat bytes \<le> 2 ^ 26"
proof -
  have h: "unat (jd_token_snapshot_bytes st) = held (jd_tokens st)" "held (jd_tokens st) \<le> 2 ^ 29"
      "held_by cid (jd_tokens st) \<le> 2 ^ 26"
    using assms by (simp_all add: tokens_exact_def tokens_bounded_def)
  have c: "unat (token_snapshot_client_bytes_locked cid st) = held_by cid (jd_tokens st)"
    using h(2) by (intro held_client_word) simp
  have sub: "bytes \<le> m \<Longrightarrow> unat (m - bytes) = unat m - unat bytes" for m :: u64
    by (simp add: unat_sub)
  show ?thesis
    using h c sub [of SV2_JD_MAX_TOKEN_SNAPSHOT_BYTES_GLOBAL] sub [of SV2_JD_MAX_TOKEN_SNAPSHOT_BYTES_CLIENT]
    by (auto simp: token_snapshot_may_add_locked_def SV2_JD_MAX_TOKEN_SNAPSHOT_BYTES_GLOBAL_def
        SV2_JD_MAX_TOKEN_SNAPSHOT_BYTES_CLIENT_def word_less_nat_alt word_le_nat_alt)
qed

text \<open>More different draws than tokens in the table: the loop that mints a token ends.\<close>

lemma token_fill_unique_Some:
  "token_fill_unique_locked draws toks = Some d \<Longrightarrow> d \<in> set draws \<and> d \<notin> set (map tk_token toks)"
  by (auto simp: token_fill_unique_locked_def find_Some_iff find_token_locked_def first_index_None)

lemma token_fill_unique_returns:
  assumes "distinct draws" and "length toks < length draws"
  shows "\<exists>d. token_fill_unique_locked draws toks = Some d"
proof (rule ccontr)
  assume "\<nexists>d. token_fill_unique_locked draws toks = Some d"
  then have "set draws \<subseteq> set (map tk_token toks)"
    by (auto simp: token_fill_unique_locked_def find_None_iff find_token_locked_def first_index_None)
  then have "card (set draws) \<le> length toks"
    using card_mono [of "set (map tk_token toks)" "set draws"] card_length [of "map tk_token toks"] by simp
  then show False using assms distinct_card [OF assms(1)] by simp
qed

lemma find_token_Some: "find_token_locked tok toks = Some i \<Longrightarrow> i < length toks \<and> tk_token (toks ! i) = tok"
  unfolding find_token_locked_def by (auto dest: first_index_Some)

lemma find_token_None: "find_token_locked tok toks = None \<longleftrightarrow> tok \<notin> set (map tk_token toks)"
  by (auto simp: find_token_locked_def first_index_None)

end
