(* ===== verification/Jd_Block.thy ===== *)
theory Jd_Block
  imports Jd_Tables Merkle "HOL-Library.List_Lexorder"
begin

text \<open>
  Reconstruction in \<^verbatim>\<open>src/src/sv2_jd.c\<close>: collecting the transactions of a pending declaration
  from the cache and from what the client provides, the identity of a template, and the two
  assemblies of a block, the candidate for validation and the solved one.
\<close>

section \<open>Collecting transactions\<close>

definition wtxid_at :: "bytes \<Rightarrow> nat \<Rightarrow> bytes" where
  "wtxid_at wtxid_list i = take 32 (drop (i * 32) wtxid_list)"

definition pending_alloc_tx_slots :: "sv2_jd_pending \<Rightarrow> sv2_jd_pending" where
  "pending_alloc_tx_slots p =
     (if pd_wtxid_count p = 0 \<or> pd_tx_raws p \<noteq> [] then p
      else p\<lparr>pd_tx_raws := replicate (pd_wtxid_count p) None\<rparr>)"

definition pending_tx_bytes_add :: "sv2_jd_pending \<Rightarrow> nat \<Rightarrow> sv2_jd_pending option" where
  "pending_tx_bytes_add p raw_len =
     (if of_nat raw_len > SV2_JD_MAX_BLOCK_BYTES \<or>
         pd_tx_bytes p > SV2_JD_MAX_BLOCK_BYTES - of_nat raw_len then None
      else Some (p\<lparr>pd_tx_bytes := pd_tx_bytes p + of_nat raw_len\<rparr>))"

text \<open>One empty slot filled with its own copy of a transaction, if the byte budget allows.\<close>

definition fill_slot :: "sv2_jd_pending \<Rightarrow> nat \<Rightarrow> bytes \<Rightarrow> sv2_jd_pending option" where
  "fill_slot p i raw = do {
     p \<leftarrow> pending_tx_bytes_add p (length raw);
     Some (p\<lparr>pd_tx_raws := (pd_tx_raws p)[i := Some raw]\<rparr>) }"

text \<open>The loop over the positions; a full budget stops it with \<open>False\<close>.\<close>

fun fill_from_cache :: "sv2_tx_cache_ent list \<Rightarrow> nat list \<Rightarrow> sv2_jd_pending \<Rightarrow> bool \<times> sv2_jd_pending" where
  "fill_from_cache cache [] p = (True, p)"
| "fill_from_cache cache (i # is) p =
     (if pd_tx_raws p ! i \<noteq> None then fill_from_cache cache is p
      else case cache_get (wtxid_at (pd_wtxid_list p) i) cache of
             None \<Rightarrow> fill_from_cache cache is p
           | Some e \<Rightarrow>
               (case fill_slot p i (ce_raw e) of None \<Rightarrow> (False, p)
                | Some p \<Rightarrow> fill_from_cache cache is p))"

definition pending_fill_from_cache_locked :: "jd_state \<Rightarrow> sv2_jd_pending \<Rightarrow> bool \<times> sv2_jd_pending" where
  "pending_fill_from_cache_locked st p =
     (if pd_wtxid_count p = 0 then (True, p)
      else if pd_tx_raws p = [] then (False, p)
      else fill_from_cache (tx_cache st) [0..<pd_wtxid_count p] p)"

definition pending_collect_missing :: "sv2_jd_pending \<Rightarrow> nat \<Rightarrow> nat list" where
  "pending_collect_missing p max_missing =
     take max_missing
       (filter (\<lambda>i. pd_tx_raws p = [] \<or> pd_tx_raws p ! i = None) [0..<pd_wtxid_count p])"

definition pending_txs_complete :: "sv2_jd_pending \<Rightarrow> bool" where
  "pending_txs_complete p \<longleftrightarrow>
     (if pd_wtxid_count p = 0 then True
      else if pd_tx_raws p = [] then False
      else list_all (\<lambda>i. pd_tx_raws p ! i \<noteq> None) [0..<pd_wtxid_count p])"

definition pending_rebuild_size_ok :: "sv2_jd_pending \<Rightarrow> byte \<Rightarrow> bool" where
  "pending_rebuild_size_ok p enonce_len \<longleftrightarrow>
     80 + of_nat (sv2_compact_size_len (of_nat (pd_wtxid_count p) + 1)) +
     of_nat (length (pd_coinbase_tx_prefix p)) + ucast enonce_len +
     of_nat (length (pd_coinbase_tx_suffix p)) + pd_tx_bytes p \<le> SV2_JD_MAX_BLOCK_BYTES"

text \<open>
  The wtxids in \<open>memcmp\<close> order with their positions.  \<open>bsearch\<close> finds some entry with the hash
  and the code walks back to the first of them, then forward over all of them.
\<close>

definition wtxid_order :: "sv2_jd_pending \<Rightarrow> (bytes \<times> nat) list" where
  "wtxid_order p =
     sort_key fst (map (\<lambda>i. (wtxid_at (pd_wtxid_list p) i, i)) [0..<pd_wtxid_count p])"

definition equal_range :: "bytes \<Rightarrow> (bytes \<times> nat) list \<Rightarrow> (bytes \<times> nat) list" where
  "equal_range hash ord = takeWhile (\<lambda>(h, _). h = hash) (dropWhile (\<lambda>(h, _). h \<noteq> hash) ord)"

fun fill_range :: "bytes \<Rightarrow> nat list \<Rightarrow> sv2_jd_pending \<Rightarrow> bool \<times> sv2_jd_pending" where
  "fill_range raw [] p = (True, p)"
| "fill_range raw (i # is) p =
     (if pd_tx_raws p ! i \<noteq> None then fill_range raw is p
      else case fill_slot p i raw of None \<Rightarrow> (False, p) | Some p \<Rightarrow> fill_range raw is p)"

fun store_txs :: "(bytes \<times> nat) list \<Rightarrow> int \<Rightarrow> bytes list \<Rightarrow> sv2_jd_pending \<Rightarrow> jd_state \<Rightarrow>
  (bool \<times> sv2_jd_pending \<times> jd_state) option" where
  "store_txs ord now [] p st = Some (True, p, st)"
| "store_txs ord now (tx # txs) p st =
     (if tx = [] then store_txs ord now txs p st
      else
        let hits = equal_range (gen_hash tx) ord
        in if hits = [] then store_txs ord now txs p st
           else do {
             st \<leftarrow> cache_put_tx tx now st;
             (case fill_range tx (map snd hits) p of
                (False, p) \<Rightarrow> Some (False, p, st)
              | (True, p) \<Rightarrow> store_txs ord now txs p st) })"

definition pending_store_matching_txs :: "int \<Rightarrow> bytes list \<Rightarrow> sv2_jd_pending \<Rightarrow> jd_state \<Rightarrow>
  (bool \<times> sv2_jd_pending \<times> jd_state) option" where
  "pending_store_matching_txs now txs p st =
     (if pd_wtxid_count p = 0 then Some (True, p, st)
      else if pd_wtxid_list p = [] \<or> pd_tx_raws p = [] \<or> txs = [] then Some (False, p, st)
      else store_txs (wtxid_order p) now txs p st)"

text \<open>A pointer has eight bytes and a length four.\<close>

definition pending_snapshot_bytes :: "sv2_jd_pending \<Rightarrow> u64" where
  "pending_snapshot_bytes p =
     (let bytes = pd_tx_bytes p + of_nat (length (pd_coinbase_tx_prefix p)) +
                  of_nat (length (pd_coinbase_tx_suffix p)) + of_nat (pd_wtxid_count p) * 32
      in if pd_wtxid_count p \<noteq> 0 then bytes + of_nat (pd_wtxid_count p) * (8 + 4) else bytes)"

section \<open>The identity of a template\<close>

text \<open>What is hashed: version, the tip's previous hash, prefix, suffix, wtxids, one after the other.\<close>

definition template_bytes :: "(u32 \<times> u32 \<times> u32 \<times> bytes) option \<Rightarrow> sv2_jd_pending \<Rightarrow> bytes" where
  "template_bytes tip p =
     le_bytes 4 (pd_version p) @
     (case tip of None \<Rightarrow> replicate 32 0 | Some (_, _, _, prevhash_hdr) \<Rightarrow> take 32 prevhash_hdr) @
     pd_coinbase_tx_prefix p @ pd_coinbase_tx_suffix p @ take (pd_wtxid_count p * 32) (pd_wtxid_list p)"

definition template_hash :: "(u32 \<times> u32 \<times> u32 \<times> bytes) option \<Rightarrow> sv2_jd_pending \<Rightarrow> bytes" where
  "template_hash tip p = gen_hash (template_bytes tip p)"

section \<open>Assembling a block\<close>

text \<open>
  The part both assemblies share: the txids of the coinbase and of the copies of the
  transactions, their merkle root, the size limit, the header and the body.
\<close>

definition assemble_block :: "u32 \<Rightarrow> bytes \<Rightarrow> u32 \<Rightarrow> u32 \<Rightarrow> u32 \<Rightarrow> bytes \<Rightarrow> bytes list \<Rightarrow> bytes option" where
  "assemble_block version prevhash ntime nbits nonce coinbase txs = do {
     txid0 \<leftarrow> sv2_bitcoin_txid coinbase;
     txids \<leftarrow> those (map sv2_bitcoin_txid txs);
     let merkle = sv2_merkle_root_from_txids (txid0 # txids);
         ntx = 1 + length txs;
         total = 80 + sv2_compact_size_len (of_nat ntx) + length coinbase + (\<Sum>tx\<leftarrow>txs. length tx);
         header = le_bytes 4 version @ take 32 prevhash @ merkle @ le_bytes 4 ntime @
                  le_bytes 4 nbits @ le_bytes 4 nonce
     in if total > unat SV2_JD_MAX_BLOCK_BYTES then None
        else Some (header @ sv2_write_compact_size (of_nat ntx) @ coinbase @ concat txs) }"

definition assemble_candidate_block :: "jd_env \<Rightarrow> sv2_jd_pending \<Rightarrow> byte \<Rightarrow> bytes option" where
  "assemble_candidate_block env p enonce_len =
     (case env_tip env of None \<Rightarrow> None
      | Some (tip_ver, tip_ntime, tip_nbits, prevhash_hdr) \<Rightarrow>
          if \<not> pending_txs_complete p then None
          else if length (pd_coinbase_tx_prefix p) + unat enonce_len + length (pd_coinbase_tx_suffix p) +
                  80 + 9 > unat SV2_JD_MAX_BLOCK_BYTES then None
          else assemble_block (if pd_version p \<noteq> 0 then pd_version p else tip_ver) prevhash_hdr
                 tip_ntime tip_nbits 0
                 (pd_coinbase_tx_prefix p @ replicate (unat enonce_len) 0 @ pd_coinbase_tx_suffix p)
                 (map the (take (pd_wtxid_count p) (pd_tx_raws p))))"

record rebuild_snap =
  rs_version :: u32
  rs_enonce_len :: byte
  rs_coinbase_tx_prefix :: bytes
  rs_coinbase_tx_suffix :: bytes
  rs_tx_raws :: "bytes list"

definition snapshot_token_for_rebuild_locked :: "sv2_jd_token \<Rightarrow> rebuild_snap option" where
  "snapshot_token_for_rebuild_locked tok =
     (if \<not> tk_declared tok then None
      else case tk_coinbase_tx_prefix tok of None \<Rightarrow> None
      | Some prefix \<Rightarrow>
          if tk_wtxid_count tok = 0 then
            Some \<lparr> rs_version = tk_version tok, rs_enonce_len = tk_enonce_len tok,
                   rs_coinbase_tx_prefix = prefix,
                   rs_coinbase_tx_suffix = tk_coinbase_tx_suffix tok, rs_tx_raws = [] \<rparr>
          else if tk_tx_raws tok = [] then None
          else if list_ex (\<lambda>i. tk_tx_raws tok ! i = None \<or> tk_tx_raws tok ! i = Some []) [0..<tk_wtxid_count tok]
          then None
          else
            Some \<lparr> rs_version = tk_version tok, rs_enonce_len = tk_enonce_len tok,
                   rs_coinbase_tx_prefix = prefix,
                   rs_coinbase_tx_suffix = tk_coinbase_tx_suffix tok,
                   rs_tx_raws = map the (take (tk_wtxid_count tok) (tk_tx_raws tok)) \<rparr>)"

text \<open>The extranonce is its \<open>extranonce_len\<close> bytes.\<close>

definition assemble_solved_from_snap :: "rebuild_snap \<Rightarrow> bytes \<Rightarrow> u32 \<Rightarrow> u32 \<Rightarrow> u32 \<Rightarrow> u32 \<Rightarrow> bytes \<Rightarrow> bytes option" where
  "assemble_solved_from_snap snap extranonce version ntime nonce nbits prev_hash =
     (if extranonce = [] \<or>
         (rs_enonce_len snap \<noteq> 0 \<and> length extranonce \<noteq> unat (rs_enonce_len snap)) then None
      else assemble_block (if version \<noteq> 0 then version else rs_version snap) prev_hash ntime nbits nonce
             (rs_coinbase_tx_prefix snap @ extranonce @ rs_coinbase_tx_suffix snap) (rs_tx_raws snap))"

definition sv2_jd_rebuild_solved_block ::
  "bytes \<Rightarrow> bytes \<Rightarrow> u32 \<Rightarrow> u32 \<Rightarrow> u32 \<Rightarrow> u32 \<Rightarrow> bytes \<Rightarrow> jd_state \<Rightarrow> bytes option" where
  "sv2_jd_rebuild_solved_block token extranonce version ntime nonce nbits prev_hash st =
     (if token = [] then None
      else do {
        i \<leftarrow> find_token_locked token (jd_tokens st);
        snap \<leftarrow> snapshot_token_for_rebuild_locked (jd_tokens st ! i);
        assemble_solved_from_snap snap extranonce version ntime nonce nbits prev_hash })"

section \<open>The sorted wtxids give every position\<close>

lemma takeWhile_dropWhile_sorted:
  fixes xs :: "('a :: linorder \<times> 'b) list"
  assumes "sorted (map fst xs)"
  shows "takeWhile (\<lambda>(h, _). h = k) (dropWhile (\<lambda>(h, _). h \<noteq> k) xs) = filter (\<lambda>(h, _). h = k) xs"
  using assms
proof (induction xs)
  case (Cons x xs)
  obtain h b where x: "x = (h, b)" by fastforce
  have run: "takeWhile (\<lambda>(h, _). h = k) ys = filter (\<lambda>(h, _). h = k) ys"
    if "sorted (map fst ys)" "\<forall>y\<in>set ys. k \<le> fst y" for ys :: "('a \<times> 'b) list"
    using that
  proof (induction ys)
    case (Cons y ys)
    have "k < fst y \<Longrightarrow> filter (\<lambda>(h, _). h = k) ys = []"
      using Cons.prems by (fastforce simp: filter_empty_conv)
    then show ?case using Cons by (fastforce split: prod.splits)
  qed simp
  show ?case
  proof (cases "h = k")
    case True
    then show ?thesis using run [of xs] Cons.prems by (auto simp: x)
  next
    case False
    then show ?thesis using Cons by (simp add: x)
  qed
qed simp

lemma equal_range_positions:
  "map snd (equal_range h (wtxid_order p)) =
    filter (\<lambda>i. wtxid_at (pd_wtxid_list p) i = h) [0..<pd_wtxid_count p]"
proof -
  let ?xs = "map (\<lambda>i. (wtxid_at (pd_wtxid_list p) i, i)) [0..<pd_wtxid_count p]"
  have "equal_range h (wtxid_order p) = filter (\<lambda>x. fst x = h) (sort_key fst ?xs)"
    unfolding equal_range_def wtxid_order_def
    by (subst takeWhile_dropWhile_sorted) (simp_all add: case_prod_beta')
  also have "\<dots> = filter (\<lambda>x. fst x = h) ?xs" by (rule sort_key_stable)
  finally show ?thesis by (simp add: filter_map o_def)
qed

section \<open>Pending declarations hold what they say\<close>

text \<open>
  \<open>slots_ok\<close>: every filled slot holds bytes whose hash is the wtxid of its position, the byte
  count is exact and within a block.
\<close>

definition slot_bytes :: "bytes option list \<Rightarrow> nat" where
  "slot_bytes raws = (\<Sum>r\<leftarrow>raws. case r of None \<Rightarrow> 0 | Some raw \<Rightarrow> length raw)"

definition slots_ok :: "bytes \<Rightarrow> bytes option list \<Rightarrow> bool" where
  "slots_ok wtxid_list raws \<longleftrightarrow>
     (\<forall>i raw. i < length raws \<and> raws ! i = Some raw \<longrightarrow> raw \<noteq> [] \<and> gen_hash raw = wtxid_at wtxid_list i)"

definition pend_ok :: "sv2_jd_pending \<Rightarrow> bool" where
  "pend_ok p \<longleftrightarrow>
     length (pd_tx_raws p) = pd_wtxid_count p \<and> slots_ok (pd_wtxid_list p) (pd_tx_raws p) \<and>
     unat (pd_tx_bytes p) = slot_bytes (pd_tx_raws p) \<and> slot_bytes (pd_tx_raws p) \<le> 2 ^ 22 \<and>
     length (pd_wtxid_list p) = 32 * pd_wtxid_count p \<and> pd_wtxid_count p \<le> 25000 \<and>
     length (pd_coinbase_tx_prefix p) < 2 ^ 16 \<and> length (pd_coinbase_tx_suffix p) < 2 ^ 16"

text \<open>\<open>fills p p'\<close>: the second is the first with some more slots filled.\<close>

definition fills :: "sv2_jd_pending \<Rightarrow> sv2_jd_pending \<Rightarrow> bool" where
  "fills p p' \<longleftrightarrow>
     p' = p\<lparr>pd_tx_raws := pd_tx_raws p', pd_tx_bytes := pd_tx_bytes p'\<rparr> \<and>
     length (pd_tx_raws p') = length (pd_tx_raws p) \<and>
     (\<forall>i raw. i < length (pd_tx_raws p) \<longrightarrow> pd_tx_raws p ! i = Some raw \<longrightarrow> pd_tx_raws p' ! i = Some raw)"

lemma fills_refl [simp]: "fills p p" by (simp add: fills_def)

lemma fills_trans: "fills p q \<Longrightarrow> fills q r \<Longrightarrow> fills p r"
  unfolding fills_def by (cases p; cases q; cases r) auto

lemma fills_fields:
  assumes "fills p q"
  shows "pd_request_id q = pd_request_id p" "pd_client_id q = pd_client_id p"
    "pd_created q = pd_created p" "pd_token q = pd_token p" "pd_version q = pd_version p"
    "pd_coinbase_tx_prefix q = pd_coinbase_tx_prefix p" "pd_coinbase_tx_suffix q = pd_coinbase_tx_suffix p"
    "pd_wtxid_list q = pd_wtxid_list p" "pd_wtxid_count q = pd_wtxid_count p"
    "length (pd_tx_raws q) = length (pd_tx_raws p)"
  using assms unfolding fills_def by (cases p; cases q; simp)+

lemma slot_bytes_update:
  "i < length raws \<Longrightarrow> raws ! i = None \<Longrightarrow> slot_bytes (raws[i := Some raw]) = slot_bytes raws + length raw"
  unfolding slot_bytes_def
  by (subst (2) id_take_nth_drop [of i raws]) (simp_all add: upd_conv_take_nth_drop)

lemma fill_slot_ok:
  assumes ok: "pend_ok p" and i: "i < pd_wtxid_count p" "pd_tx_raws p ! i = None"
    and r: "raw \<noteq> []" "gen_hash raw = wtxid_at (pd_wtxid_list p) i" "length raw < 2 ^ 32"
    and f: "fill_slot p i raw = Some q"
  shows "pend_ok q \<and> fills p q \<and> pd_tx_raws q = (pd_tx_raws p)[i := Some raw]"
proof -
  have l: "unat (of_nat (length raw) :: u64) = length raw" using r(3) by (intro unat_of_nat64) simp
  have b: "length raw \<le> 2 ^ 22" "slot_bytes (pd_tx_raws p) + length raw \<le> 2 ^ 22"
    and q: "q = p\<lparr>pd_tx_bytes := pd_tx_bytes p + of_nat (length raw), pd_tx_raws := (pd_tx_raws p)[i := Some raw]\<rparr>"
    using f ok l by (auto simp: fill_slot_def pending_tx_bytes_add_def bind_eq_Some_conv pend_ok_def
        SV2_JD_MAX_BLOCK_BYTES_def word_less_nat_alt unat_sub word_le_nat_alt split: if_splits)
  have "unat (pd_tx_bytes p + of_nat (length raw)) = slot_bytes (pd_tx_raws p) + length raw"
    using ok l b by (simp add: pend_ok_def unat_word_ariths)
  moreover have "slots_ok (pd_wtxid_list p) ((pd_tx_raws p)[i := Some raw])"
    using ok r i by (auto simp: pend_ok_def slots_ok_def nth_list_update split: if_splits)
  ultimately show ?thesis
    using ok i b by (auto simp: pend_ok_def fills_def q slot_bytes_update nth_list_update)
qed

lemma fill_from_cache_ok:
  assumes "list_all (\<lambda>e. ce_raw e \<noteq> [] \<and> ce_wtxid e = gen_hash (ce_raw e) \<and> length (ce_raw e) < 2 ^ 32) cache"
    and "pend_ok p" and "\<forall>i\<in>set is. i < pd_wtxid_count p" and "fill_from_cache cache is p = (ok, q)"
  shows "pend_ok q \<and> fills p q"
  using assms(2-4)
proof (induction "is" arbitrary: p)
  case (Cons i "is")
  show ?case
  proof (cases "pd_tx_raws p ! i = None \<and> cache_get (wtxid_at (pd_wtxid_list p) i) cache \<noteq> None")
    case True
    then obtain e where e: "cache_get (wtxid_at (pd_wtxid_list p) i) cache = Some e" by blast
    then have w: "e \<in> set cache" "ce_wtxid e = wtxid_at (pd_wtxid_list p) i"
      using cache_get_Some [OF e] by simp_all
    show ?thesis
    proof (cases "fill_slot p i (ce_raw e)")
      case None
      then show ?thesis using Cons.prems True e by simp
    next
      case (Some r)
      have "pend_ok r \<and> fills p r"
        using fill_slot_ok [OF Cons.prems(1) _ _ _ _ _ Some] Cons.prems(2) True w assms(1)
        by (auto simp: list_all_iff)
      moreover from this have "pend_ok q \<and> fills r q"
        using Cons.IH [of r] Cons.prems True e Some fills_fields(9) [of p r] by simp
      ultimately show ?thesis using fills_trans by blast
    qed
  next
    case False
    then show ?thesis using Cons by (auto split: option.splits if_splits)
  qed
qed simp

lemma pending_fill_ok:
  assumes "cache_ok st" and "pend_ok p" and "pending_fill_from_cache_locked st p = (ok, q)"
  shows "pend_ok q \<and> fills p q"
proof -
  have "\<forall>e\<in>set (tx_cache st). length (ce_raw e) \<le> cached (tx_cache st)"
    by (auto simp: cached_def intro: member_le_sum_list)
  then have "list_all (\<lambda>e. ce_raw e \<noteq> [] \<and> ce_wtxid e = gen_hash (ce_raw e) \<and> length (ce_raw e) < 2 ^ 32) (tx_cache st)"
    using assms(1) by (fastforce simp: cache_ok_def cache_exact_def list_all_iff)
  note fill = fill_from_cache_ok [OF this assms(2), of "[0..<pd_wtxid_count p]" ok q]
  show ?thesis
    using fill assms(2,3) by (simp add: pending_fill_from_cache_locked_def split: if_splits)
qed

text \<open>Every position of the range ends up filled unless the budget stops the loop.\<close>

lemma fills_filled: "fills p q \<Longrightarrow> i < length (pd_tx_raws p) \<Longrightarrow> pd_tx_raws p ! i \<noteq> None \<Longrightarrow> pd_tx_raws q ! i \<noteq> None"
  by (auto simp: fills_def)

lemma fill_range_ok:
  assumes "raw \<noteq> []" and "length raw < 2 ^ 32" and "pend_ok p"
    and "\<forall>i\<in>set is. i < pd_wtxid_count p \<and> wtxid_at (pd_wtxid_list p) i = gen_hash raw"
    and "fill_range raw is p = (ok, q)"
  shows "pend_ok q \<and> fills p q \<and> (ok \<longrightarrow> (\<forall>i\<in>set is. pd_tx_raws q ! i \<noteq> None))"
  using assms(3-5)
proof (induction "is" arbitrary: p)
  case (Cons i "is")
  have i: "i < length (pd_tx_raws p)" using Cons.prems by (simp add: pend_ok_def)
  show ?case
  proof (cases "pd_tx_raws p ! i")
    case (Some r)
    then have f: "fill_range raw is p = (ok, q)" using Cons.prems by simp
    have "pend_ok q \<and> fills p q \<and> (ok \<longrightarrow> (\<forall>i\<in>set is. pd_tx_raws q ! i \<noteq> None))"
      using Cons.IH [OF Cons.prems(1) _ f] Cons.prems(2) by simp
    then show ?thesis using fills_filled [of p q i] i Some by auto
  next
    case None
    show ?thesis
    proof (cases "fill_slot p i raw")
      case None2: None
      then show ?thesis using None Cons.prems by simp
    next
      case (Some r)
      then have f: "fill_range raw is r = (ok, q)" using Cons.prems None by simp
      have r: "pend_ok r \<and> fills p r \<and> pd_tx_raws r = (pd_tx_raws p)[i := Some raw]"
        using fill_slot_ok [OF Cons.prems(1) _ None assms(1) _ assms(2) Some] Cons.prems(2) by simp
      have "pend_ok q \<and> fills r q \<and> (ok \<longrightarrow> (\<forall>i\<in>set is. pd_tx_raws q ! i \<noteq> None))"
        using Cons.IH [OF _ _ f] Cons.prems(2) r fills_fields(8,9) [of p r] by simp
      then show ?thesis
        using r fills_trans [of p r q] fills_filled [of r q i] i by auto
    qed
  qed
qed simp

lemma store_txs_result:
  assumes "cache_ok st" and "pend_ok p" and "list_all (\<lambda>tx. length tx < 2 ^ 32) txs"
  shows "\<exists>ok q es n b. store_txs (wtxid_order p) now txs p st = Some (ok, q, set_cache es n b st) \<and>
    cache_ok (set_cache es n b st) \<and> pend_ok q \<and> fills p q \<and>
    (ok \<longrightarrow> (\<forall>tx\<in>set txs. \<forall>i<pd_wtxid_count p. tx \<noteq> [] \<longrightarrow>
      wtxid_at (pd_wtxid_list p) i = gen_hash tx \<longrightarrow> pd_tx_raws q ! i \<noteq> None))"
proof -
  have "\<exists>ok q es n b. store_txs (wtxid_order p) now txs r s = Some (ok, q, set_cache es n b st) \<and>
      cache_ok (set_cache es n b st) \<and> pend_ok q \<and> fills r q \<and>
      (ok \<longrightarrow> (\<forall>tx\<in>set txs. \<forall>i<pd_wtxid_count p. tx \<noteq> [] \<longrightarrow>
        wtxid_at (pd_wtxid_list p) i = gen_hash tx \<longrightarrow> pd_tx_raws q ! i \<noteq> None))"
    if "cache_ok s" "\<exists>es n b. s = set_cache es n b st" "pend_ok r" "fills p r" for r s
    using that assms(3)
  proof (induction txs arbitrary: r s)
    case Nil
    then show ?case by fastforce
  next
    case (Cons tx txs)
    let ?hits = "equal_range (gen_hash tx) (wtxid_order p)"
    have pos: "set (map snd ?hits) = {i. i < pd_wtxid_count p \<and> wtxid_at (pd_wtxid_list p) i = gen_hash tx}"
      unfolding equal_range_positions by auto
    show ?case
    proof (cases "tx = [] \<or> ?hits = []")
      case True
      then have "store_txs (wtxid_order p) now (tx # txs) r s = store_txs (wtxid_order p) now txs r s"
        by (auto simp: Let_def)
      moreover have "tx \<noteq> [] \<Longrightarrow> i < pd_wtxid_count p \<Longrightarrow> wtxid_at (pd_wtxid_list p) i \<noteq> gen_hash tx" for i
        using True pos by auto
      ultimately show ?thesis using Cons.IH [OF Cons.prems(1-4)] Cons.prems(5) by fastforce
    next
      case False
      then have tx: "tx \<noteq> []" "length tx < 2 ^ 32" using Cons.prems(5) by simp_all
      obtain es n b where put: "cache_put_tx tx now s = Some (set_cache es n b s)" "cache_ok (set_cache es n b s)"
        using cache_put_tx_result [OF Cons.prems(1) tx(2), of now] by blast
      obtain ok q where f: "fill_range tx (map snd ?hits) r = (ok, q)" by fastforce
      have q: "pend_ok q" "fills r q" "ok \<longrightarrow> (\<forall>i\<in>set (map snd ?hits). pd_tx_raws q ! i \<noteq> None)"
      proof -
        have "\<forall>i\<in>set (map snd ?hits). i < pd_wtxid_count r \<and> wtxid_at (pd_wtxid_list r) i = gen_hash tx"
          unfolding pos using fills_fields(8,9) [OF Cons.prems(4)] by simp
        from fill_range_ok [OF tx Cons.prems(3) this f]
        show "pend_ok q" "fills r q" "ok \<longrightarrow> (\<forall>i\<in>set (map snd ?hits). pd_tx_raws q ! i \<noteq> None)"
          by blast+
      qed
      obtain es' n' b' where s: "s = set_cache es' n' b' st" using Cons.prems(2) by blast
      have e: "set_cache es n b s = set_cache es n b st" by (simp add: s set_cache_cache)
      have eq: "store_txs (wtxid_order p) now (tx # txs) r s =
          (if ok then store_txs (wtxid_order p) now txs q (set_cache es n b st)
           else Some (False, q, set_cache es n b st))"
        using False by (simp add: put f e Let_def split: bool.splits)
      show ?thesis
      proof (cases ok)
        case no: False
        then show ?thesis using eq put q by (auto simp: e)
      next
        case True
        have pq: "fills p q" using Cons.prems(4) q(2) by (rule fills_trans)
        obtain ok' q' es2 n2 b2 where
            r: "store_txs (wtxid_order p) now txs q (set_cache es n b st) = Some (ok', q', set_cache es2 n2 b2 st)"
              "cache_ok (set_cache es2 n2 b2 st)" "pend_ok q'" "fills q q'"
              "ok' \<longrightarrow> (\<forall>tx\<in>set txs. \<forall>i<pd_wtxid_count p. tx \<noteq> [] \<longrightarrow>
                wtxid_at (pd_wtxid_list p) i = gen_hash tx \<longrightarrow> pd_tx_raws q' ! i \<noteq> None)"
        proof -
          have "cache_ok (set_cache es n b st)" using put(2) e by simp
          moreover have "\<exists>es' n' b'. set_cache es n b st = set_cache es' n' b' st" by blast
          moreover have "list_all (\<lambda>tx. length tx < 2 ^ 32) txs" using Cons.prems(5) by simp
          ultimately show thesis using Cons.IH [OF _ _ q(1) pq] that by metis
        qed
        have "i < pd_wtxid_count p \<Longrightarrow> wtxid_at (pd_wtxid_list p) i = gen_hash tx \<Longrightarrow> pd_tx_raws q' ! i \<noteq> None" for i
        proof -
          assume i: "i < pd_wtxid_count p" "wtxid_at (pd_wtxid_list p) i = gen_hash tx"
          then have "i \<in> set (map snd ?hits)" unfolding pos by simp
          then have "pd_tx_raws q ! i \<noteq> None" using q(3) True by blast
          moreover have "i < length (pd_tx_raws q)"
            using i(1) q(1) fills_fields(9) [OF pq] by (simp add: pend_ok_def)
          ultimately show "pd_tx_raws q' ! i \<noteq> None" by (intro fills_filled [OF r(4)])
        qed
        then show ?thesis
          using eq True r fills_trans [OF q(2) r(4)] by auto
      qed
    qed
  qed
  from this [of st p] show ?thesis using assms(1,2) set_cache_id [of st] by (metis fills_refl)
qed

lemma pending_store_result:
  assumes "cache_ok st" and "pend_ok p" and "list_all (\<lambda>tx. length tx < 2 ^ 32) txs"
  shows "\<exists>ok q es n b. pending_store_matching_txs now txs p st = Some (ok, q, set_cache es n b st) \<and>
    cache_ok (set_cache es n b st) \<and> pend_ok q \<and> fills p q"
proof (cases "pd_wtxid_count p = 0 \<or> pd_wtxid_list p = [] \<or> pd_tx_raws p = [] \<or> txs = []")
  case True
  then have "\<exists>ok. pending_store_matching_txs now txs p st =
      Some (ok, p, set_cache (tx_cache st) (tx_cache_count st) (tx_cache_bytes st) st)"
    by (auto simp: pending_store_matching_txs_def set_cache_id)
  then show ?thesis using assms by (metis fills_refl set_cache_id)
next
  case False
  then have "pending_store_matching_txs now txs p st = store_txs (wtxid_order p) now txs p st"
    by (simp add: pending_store_matching_txs_def)
  then show ?thesis using store_txs_result [OF assms, of now] by metis
qed

text \<open>Providing every missing transaction completes the declaration, if the budget allows.\<close>

lemma pending_store_completes:
  assumes "cache_ok st" and "pend_ok p" and "list_all (\<lambda>tx. length tx < 2 ^ 32) txs"
    and "\<forall>i<pd_wtxid_count p. pd_tx_raws p ! i = None \<longrightarrow>
      (\<exists>tx\<in>set txs. tx \<noteq> [] \<and> gen_hash tx = wtxid_at (pd_wtxid_list p) i)"
    and "pending_store_matching_txs now txs p st = Some (True, q, st')"
  shows "pending_txs_complete q"
proof (cases "pd_wtxid_count p = 0")
  case True
  then have "q = p" using assms(5) by (simp add: pending_store_matching_txs_def)
  then show ?thesis using True by (simp add: pending_txs_complete_def)
next
  case False
  then have "store_txs (wtxid_order p) now txs p st = Some (True, q, st')"
    using assms(5) by (auto simp: pending_store_matching_txs_def split: if_splits)
  then have q: "pend_ok q" "fills p q"
      "\<forall>tx\<in>set txs. \<forall>i<pd_wtxid_count p. tx \<noteq> [] \<longrightarrow>
        wtxid_at (pd_wtxid_list p) i = gen_hash tx \<longrightarrow> pd_tx_raws q ! i \<noteq> None"
    using store_txs_result [OF assms(1-3), of now] by auto
  have "pd_tx_raws q ! i \<noteq> None" if "i < pd_wtxid_count p" for i
    using q(3) assms(4) that fills_filled [OF q(2), of i] assms(2) by (fastforce simp: pend_ok_def)
  then show ?thesis
    using q(1) fills_fields(9) [OF q(2)] False
    by (auto simp: pending_txs_complete_def list_all_iff pend_ok_def)
qed

section \<open>What an assembled block is\<close>

lemma those_map_Some: "those (map f xs) = Some ys \<longleftrightarrow> map f xs = map Some ys"
proof (induction xs arbitrary: ys)
  case (Cons x xs)
  then show ?case by (cases ys; cases "f x") auto
qed auto

lemma those_map_None: "those (map f xs) = None \<longleftrightarrow> (\<exists>x\<in>set xs. f x = None)"
  by (induction xs) (auto split: option.splits)

definition block_header :: "u32 \<Rightarrow> bytes \<Rightarrow> bytes \<Rightarrow> u32 \<Rightarrow> u32 \<Rightarrow> u32 \<Rightarrow> bytes" where
  "block_header version prevhash merkle ntime nbits nonce =
     le_bytes 4 version @ take 32 prevhash @ merkle @ le_bytes 4 ntime @ le_bytes 4 nbits @ le_bytes 4 nonce"

definition block_size :: "bytes \<Rightarrow> bytes list \<Rightarrow> nat" where
  "block_size coinbase txs =
     80 + sv2_compact_size_len (of_nat (1 + length txs)) + length coinbase + (\<Sum>tx\<leftarrow>txs. length tx)"

lemma assemble_block_Some:
  "assemble_block version prevhash ntime nbits nonce coinbase txs = Some block \<longleftrightarrow>
    (\<exists>ids. map sv2_bitcoin_txid (coinbase # txs) = map Some ids \<and> block_size coinbase txs \<le> 2 ^ 22 \<and>
      block = block_header version prevhash (sv2_merkle_root_from_txids ids) ntime nbits nonce @
        sv2_write_compact_size (of_nat (length ids)) @ concat (coinbase # txs))"
proof -
  have len: "map sv2_bitcoin_txid txs = map Some ys \<Longrightarrow> length txs = length ys" for ys
    by (metis length_map)
  have b: "unat SV2_JD_MAX_BLOCK_BYTES = 2 ^ 22" by (simp add: SV2_JD_MAX_BLOCK_BYTES_def)
  show ?thesis
  proof
    assume "assemble_block version prevhash ntime nbits nonce coinbase txs = Some block"
    then obtain t0 ts where "sv2_bitcoin_txid coinbase = Some t0" "map sv2_bitcoin_txid txs = map Some ts"
      and "block_size coinbase txs \<le> 2 ^ 22"
      and "block = block_header version prevhash (sv2_merkle_root_from_txids (t0 # ts)) ntime nbits nonce @
        sv2_write_compact_size (of_nat (1 + length txs)) @ coinbase @ concat txs"
      by (auto simp: assemble_block_def Let_def bind_eq_Some_conv those_map_Some block_header_def
          block_size_def b split: if_splits)
    then show "\<exists>ids. map sv2_bitcoin_txid (coinbase # txs) = map Some ids \<and> block_size coinbase txs \<le> 2 ^ 22 \<and>
      block = block_header version prevhash (sv2_merkle_root_from_txids ids) ntime nbits nonce @
        sv2_write_compact_size (of_nat (length ids)) @ concat (coinbase # txs)"
      using len [of ts] by (intro exI [of _ "t0 # ts"]) simp
  next
    assume "\<exists>ids. map sv2_bitcoin_txid (coinbase # txs) = map Some ids \<and> block_size coinbase txs \<le> 2 ^ 22 \<and>
      block = block_header version prevhash (sv2_merkle_root_from_txids ids) ntime nbits nonce @
        sv2_write_compact_size (of_nat (length ids)) @ concat (coinbase # txs)"
    then obtain ids where i: "map sv2_bitcoin_txid (coinbase # txs) = map Some ids"
      and s: "block_size coinbase txs \<le> 2 ^ 22"
      and bl: "block = block_header version prevhash (sv2_merkle_root_from_txids ids) ntime nbits nonce @
        sv2_write_compact_size (of_nat (length ids)) @ concat (coinbase # txs)" by blast
    obtain t0 ts where ids: "ids = t0 # ts" using i by (cases ids) auto
    have "sv2_bitcoin_txid coinbase = Some t0" "those (map sv2_bitcoin_txid txs) = Some ts"
      using i by (simp_all add: ids those_map_Some)
    then show "assemble_block version prevhash ntime nbits nonce coinbase txs = Some block"
      using s len [of ts] i
      by (simp add: assemble_block_def Let_def bl block_header_def block_size_def ids b)
  qed
qed

lemma length_txid: "sv2_bitcoin_txid tx = Some h \<Longrightarrow> length h = 32"
  by (auto simp: sv2_bitcoin_txid_def bind_eq_Some_conv hash_nonwitness_def split: if_splits)

lemma merkle_root_length:
  assumes "list_all (\<lambda>i. length i = 32) ids" and "ids \<noteq> []"
  shows "length (sv2_merkle_root_from_txids ids) = 32"
proof -
  have "list_all (\<lambda>i. length i = 32) l \<Longrightarrow> l \<noteq> [] \<Longrightarrow>
      list_all (\<lambda>i. length i = 32) (merkle_layers l) \<and> merkle_layers l \<noteq> []" for l
  proof (induction l rule: merkle_layers.induct)
    case (1 l)
    show ?case
    proof (cases "1 < length l")
      case True
      then have "list_all (\<lambda>i. length i = 32) (merkle_next l)" "merkle_next l \<noteq> []"
        using merkle_next_head [OF True] by (auto simp: merkle_next_def Let_def list_all_iff)
      from 1(1) [OF True this] show ?thesis by (simp only: merkle_layers_head [OF True]) blast
    next
      case False
      then show ?thesis using 1(2,3) by (subst (1 2) merkle_layers.simps) simp
    qed
  qed
  from this [OF assms] assms(2) show ?thesis
    by (auto simp: sv2_merkle_root_from_txids_def Suc_le_eq list_all_iff)
qed

lemma length_assembled:
  assumes "assemble_block version prevhash ntime nbits nonce coinbase txs = Some block"
    and "length prevhash = 32"
  shows "length block = block_size coinbase txs \<and> length block \<le> 2 ^ 22"
proof -
  obtain ids where ids: "map sv2_bitcoin_txid (coinbase # txs) = map Some ids"
    and b: "block_size coinbase txs \<le> 2 ^ 22"
    and bl: "block = block_header version prevhash (sv2_merkle_root_from_txids ids) ntime nbits nonce @
        sv2_write_compact_size (of_nat (length ids)) @ concat (coinbase # txs)"
    using assms(1) unfolding assemble_block_Some by blast
  have n: "length ids = 1 + length txs" using ids by (metis length_map length_Cons plus_1_eq_Suc)
  have "list_all (\<lambda>i. length i = 32) ids"
  proof (rule list_all_length [THEN iffD2], intro allI impI)
    fix i assume "i < length ids"
    then have "sv2_bitcoin_txid ((coinbase # txs) ! i) = Some (ids ! i)"
      using ids n by (metis length_map nth_map)
    then show "length (ids ! i) = 32" by (rule length_txid)
  qed
  moreover have "ids \<noteq> []" using n by auto
  ultimately have "length (sv2_merkle_root_from_txids ids) = 32"
    by (rule merkle_root_length)
  then show ?thesis
    using assms(2) b n
    by (simp add: bl block_header_def block_size_def length_write_compact length_concat)
qed

section \<open>Declared tokens can be rebuilt\<close>

text \<open>The material of a declared token, as \<open>token_accept_declare_locked\<close> leaves it.\<close>

definition material_ok :: "sv2_jd_token \<Rightarrow> bool" where
  "material_ok t \<longleftrightarrow>
     tk_coinbase_tx_prefix t \<noteq> None \<and> length (tk_tx_raws t) = tk_wtxid_count t \<and>
     length (tk_wtxid_list t) = 32 * tk_wtxid_count t \<and>
     None \<notin> set (tk_tx_raws t) \<and> slots_ok (tk_wtxid_list t) (tk_tx_raws t) \<and>
     80 + sv2_compact_size_len (of_nat (1 + tk_wtxid_count t)) + length (the (tk_coinbase_tx_prefix t)) +
       unat (tk_enonce_len t) + length (tk_coinbase_tx_suffix t) + slot_bytes (tk_tx_raws t) \<le> 2 ^ 22"

lemma slot_bytes_complete:
  "None \<notin> set raws \<Longrightarrow> slot_bytes raws = (\<Sum>tx\<leftarrow>map the raws. length tx)"
  unfolding slot_bytes_def by (induction raws) (auto split: option.splits)

lemma snapshot_declared:
  assumes "tk_declared t" and "material_ok t"
  shows "snapshot_token_for_rebuild_locked t = Some
    \<lparr> rs_version = tk_version t, rs_enonce_len = tk_enonce_len t,
      rs_coinbase_tx_prefix = the (tk_coinbase_tx_prefix t),
      rs_coinbase_tx_suffix = tk_coinbase_tx_suffix t, rs_tx_raws = map the (tk_tx_raws t) \<rparr>"
proof -
  obtain pre where p: "tk_coinbase_tx_prefix t = Some pre" using assms(2) by (auto simp: material_ok_def)
  have l: "length (tk_tx_raws t) = tk_wtxid_count t" using assms(2) by (simp add: material_ok_def)
  have "tk_tx_raws t ! i \<noteq> None \<and> tk_tx_raws t ! i \<noteq> Some []" if "i < tk_wtxid_count t" for i
  proof -
    have "tk_tx_raws t ! i \<in> set (tk_tx_raws t)" using that l by simp
    moreover have "None \<notin> set (tk_tx_raws t)" using assms(2) by (simp add: material_ok_def)
    ultimately have "tk_tx_raws t ! i \<noteq> None" by metis
    moreover have "tk_tx_raws t ! i \<noteq> Some []"
      using assms(2) that l by (auto simp: material_ok_def slots_ok_def)
    ultimately show ?thesis by blast
  qed
  then have "\<not> list_ex (\<lambda>i. tk_tx_raws t ! i = None \<or> tk_tx_raws t ! i = Some []) [0..<tk_wtxid_count t]"
    by (auto simp: list_ex_iff)
  then show ?thesis
    using assms(1) l by (cases "tk_tx_raws t") (simp_all add: snapshot_token_for_rebuild_locked_def p)
qed

text \<open>
  A solved block is rebuilt from a declared token with an extranonce of the accepted length
  exactly when the coinbase and the transactions are transactions; it is then the header over
  the merkle root of their txids, followed by them.
\<close>

lemma rebuild_declared:
  assumes t: "find_token_locked token (jd_tokens st) = Some i" "t = jd_tokens st ! i"
    and d: "tk_declared t" "material_ok t" and ne: "token \<noteq> []"
    and en: "length en = unat (tk_enonce_len t)" "en \<noteq> []"
  shows "sv2_jd_rebuild_solved_block token en version ntime nonce nbits prev_hash st = Some block \<longleftrightarrow>
    (let txs = (the (tk_coinbase_tx_prefix t) @ en @ tk_coinbase_tx_suffix t) # map the (tk_tx_raws t)
     in \<exists>ids. map sv2_bitcoin_txid txs = map Some ids \<and>
       block = block_header (if version \<noteq> 0 then version else tk_version t) prev_hash
           (sv2_merkle_root_from_txids ids) ntime nbits nonce @
         sv2_write_compact_size (of_nat (length ids)) @ concat txs)"
proof -
  have "block_size (the (tk_coinbase_tx_prefix t) @ en @ tk_coinbase_tx_suffix t) (map the (tk_tx_raws t)) \<le> 2 ^ 22"
    using d(2) en slot_bytes_complete [of "tk_tx_raws t"] by (simp add: material_ok_def block_size_def)
  then show ?thesis
    using en ne by (auto simp: sv2_jd_rebuild_solved_block_def t(1) t(2) [symmetric] snapshot_declared [OF d]
        assemble_solved_from_snap_def assemble_block_Some Let_def)
qed

end
