(* ===== verification/Jd_Declare.thy ===== *)
theory Jd_Declare
  imports Jd_Block
begin

text \<open>
  Declarations in the job declaration server, \<^verbatim>\<open>src/src/sv2_jd.c\<close>: the replies, binding a
  declaration to a token, the coalesced and the skipped check, the queue, and the validation in
  the worker.

  A function that may run a loop that does not end returns an option, \<open>None\<close> for not returning;
  the reply frame, \<open>NULL\<close> or bytes, is an option of its own.  \<open>draws\<close> are the values the random
  generator returns next.  A function runs as one step: what other threads do between two of
  its lock sections is not interleaved with it, except that the tip may differ (\<open>env_tip2\<close>).
\<close>

type_synonym 'a returns = "'a option"
type_synonym reply = "bytes option"

section \<open>Message types and error codes\<close>

definition SV2_MSG_SETUP_CONNECTION :: byte where "SV2_MSG_SETUP_CONNECTION = 0x00"
definition SV2_MSG_SETUP_CONNECTION_SUCCESS :: byte where "SV2_MSG_SETUP_CONNECTION_SUCCESS = 0x01"
definition SV2_MSG_SETUP_CONNECTION_ERROR :: byte where "SV2_MSG_SETUP_CONNECTION_ERROR = 0x02"
definition SV2_MSG_ALLOCATE_MINING_JOB_TOKEN :: byte where "SV2_MSG_ALLOCATE_MINING_JOB_TOKEN = 0x50"
definition SV2_MSG_ALLOCATE_MINING_JOB_TOKEN_SUCCESS :: byte where
  "SV2_MSG_ALLOCATE_MINING_JOB_TOKEN_SUCCESS = 0x51"
definition SV2_MSG_PROVIDE_MISSING_TRANSACTIONS :: byte where "SV2_MSG_PROVIDE_MISSING_TRANSACTIONS = 0x55"
definition SV2_MSG_PROVIDE_MISSING_TRANSACTIONS_SUCCESS :: byte where
  "SV2_MSG_PROVIDE_MISSING_TRANSACTIONS_SUCCESS = 0x56"
definition SV2_MSG_DECLARE_MINING_JOB :: byte where "SV2_MSG_DECLARE_MINING_JOB = 0x57"
definition SV2_MSG_DECLARE_MINING_JOB_SUCCESS :: byte where "SV2_MSG_DECLARE_MINING_JOB_SUCCESS = 0x58"
definition SV2_MSG_DECLARE_MINING_JOB_ERROR :: byte where "SV2_MSG_DECLARE_MINING_JOB_ERROR = 0x59"
definition SV2_MSG_PUSH_SOLUTION :: byte where "SV2_MSG_PUSH_SOLUTION = 0x60"
definition SV2_PROTOCOL_JOB_DECLARATION :: byte where "SV2_PROTOCOL_JOB_DECLARATION = 1"
definition SV2_JD_FLAG_DECLARE_TX_DATA :: u32 where "SV2_JD_FLAG_DECLARE_TX_DATA = 1"

text \<open>\<open>strstr\<close>, on strings without their terminators.\<close>

definition strstr :: "bytes \<Rightarrow> bytes \<Rightarrow> bool" where
  "strstr hay needle \<longleftrightarrow> list_ex (\<lambda>i. take (length needle) (drop i hay) = needle) [0..<Suc (length hay)]"

definition reason_is_stale_tip :: "bytes \<Rightarrow> bool" where
  "reason_is_stale_tip reason \<longleftrightarrow>
     (if reason = [] then False
      else reason \<in> set (map ascii [''stale-chain-tip'', ''bad-cb-height'', ''bad-txns-nonfinal'',
             ''inconclusive-not-best-prevblk'', ''prev-blk-not-found'', ''time-too-old'', ''time-too-new'']) \<or>
           strstr reason (ascii ''not-best-prev'') \<or> strstr reason (ascii ''bad-cb-height''))"

section \<open>Replies\<close>

definition reply_frame :: "byte \<Rightarrow> bytes \<Rightarrow> reply" where
  "reply_frame msg_type payload = sv2_build_frame 0 msg_type payload (of_nat (length payload))"

definition declare_error_stats :: "bytes \<Rightarrow> jd_state \<Rightarrow> jd_state" where
  "declare_error_stats out st =
     (let st = JD_STAT_INC st_declare_error_update st
      in if out = ascii ''busy'' then JD_STAT_INC st_checkblock_busy_update st
         else if out = ascii ''rate-limited'' then JD_STAT_INC st_declare_rate_limited_update st
         else if out \<in> set (map ascii [''invalid-template'', ''block-assemble-failed'',
                   ''validation-unavailable'', ''stale-chain-tip''])
         then JD_STAT_INC st_checkblock_fail_update st
         else st)"

text \<open>The error code is a string of at most 255 characters, the details the code it replaces.\<close>

definition error_declare :: "u32 \<Rightarrow> bytes \<Rightarrow> jd_state \<Rightarrow> reply \<times> jd_state" where
  "error_declare request_id code st =
     (let stale = reason_is_stale_tip code;
          out = (if stale then ascii ''stale-chain-tip'' else code);
          details = (if stale then code else [])
      in ((case sv2_encode_declare_mining_job_error 512
              \<lparr> dme_request_id = request_id, dme_error_code = c_buf 256 (take 255 out),
                dme_error_details = details, dme_error_details_len = of_nat (length details) \<rparr> of
             None \<Rightarrow> None
           | Some pbuf \<Rightarrow> reply_frame SV2_MSG_DECLARE_MINING_JOB_ERROR pbuf),
          declare_error_stats out st))"

definition success_declare :: "sv2_jd_pending \<Rightarrow> jd_state \<Rightarrow> reply \<times> jd_state" where
  "success_declare p st =
     (case sv2_encode_declare_mining_job_success 512
        \<lparr> dms_request_id = pd_request_id p, dms_new_mining_job_token = c_buf 255 (pd_token p),
          dms_new_mining_job_token_len = of_nat (length (pd_token p)) \<rparr> of
        None \<Rightarrow> error_declare (pd_request_id p) (ascii ''internal-error'') st
      | Some pbuf \<Rightarrow> (reply_frame SV2_MSG_DECLARE_MINING_JOB_SUCCESS pbuf, st))"

section \<open>Accepting a declaration\<close>

definition token_steal_declare_locked :: "int \<Rightarrow> sv2_jd_token \<Rightarrow> sv2_jd_pending \<Rightarrow> byte \<Rightarrow> u64 \<Rightarrow> sv2_jd_token" where
  "token_steal_declare_locked now tok p enonce_used snapshot_bytes =
     tok\<lparr>tk_declared := True, tk_created := now, tk_version := pd_version p,
         tk_enonce_len := enonce_used, tk_wtxid_count := pd_wtxid_count p,
         tk_coinbase_tx_prefix := Some (pd_coinbase_tx_prefix p),
         tk_coinbase_tx_suffix := pd_coinbase_tx_suffix p, tk_wtxid_list := pd_wtxid_list p,
         tk_tx_raws := pd_tx_raws p, tk_snapshot_bytes := snapshot_bytes\<rparr>"

text \<open>The pending entry after its material went to a token.\<close>

definition pending_stolen :: "sv2_jd_pending \<Rightarrow> sv2_jd_pending" where
  "pending_stolen p =
     p\<lparr>pd_coinbase_tx_prefix := [], pd_coinbase_tx_suffix := [], pd_wtxid_list := [],
       pd_tx_raws := [], pd_tx_bytes := 0\<rparr>"

definition identical_redeclare :: "sv2_jd_token \<Rightarrow> sv2_jd_pending \<Rightarrow> bool" where
  "identical_redeclare parent p \<longleftrightarrow>
     tk_declared parent \<and> tk_version parent = pd_version p \<and>
     (case tk_coinbase_tx_prefix parent of None \<Rightarrow> pd_coinbase_tx_prefix p = []
      | Some prefix \<Rightarrow> prefix = pd_coinbase_tx_prefix p) \<and>
     tk_coinbase_tx_suffix parent = pd_coinbase_tx_suffix p \<and>
     tk_wtxid_count parent = pd_wtxid_count p \<and> tk_wtxid_list parent = pd_wtxid_list p"

text \<open>The token minted for a changed redeclaration takes the payout script of its parent.\<close>

definition minted_token :: "bytes \<Rightarrow> sv2_jd_token \<Rightarrow> sv2_jd_token" where
  "minted_token tok parent =
     \<lparr> tk_token = tok, tk_client_id = tk_client_id parent,
       tk_user_identifier = c_buf 256 (cstr (tk_user_identifier parent)), tk_created = 0,
       tk_declared = False, tk_version = 0, tk_wtxid_count = 0, tk_has_payout = tk_has_payout parent,
       tk_payout_script = tk_payout_script parent, tk_coinbase_tx_prefix = None,
       tk_coinbase_tx_suffix = [], tk_wtxid_list = [], tk_tx_raws = [], tk_snapshot_bytes = 0,
       tk_enonce_len = 0 \<rparr>"

definition token_accept_declare_locked ::
  "int \<Rightarrow> bytes list \<Rightarrow> sv2_jd_pending \<Rightarrow> byte \<Rightarrow> jd_state \<Rightarrow> (nat \<times> sv2_jd_pending \<times> jd_state) returns" where
  "token_accept_declare_locked now draws p enonce_used st =
     (let st = expire_old_tokens_locked now st in
      case find_token_locked (pd_token p) (jd_tokens st) of
        None \<Rightarrow> Some (1, p, st)
      | Some i \<Rightarrow>
          let parent = jd_tokens st ! i in
          if tk_client_id parent \<noteq> pd_client_id p then Some (1, p, st)
          else if identical_redeclare parent p then
            Some (0, p, st\<lparr>jd_tokens := (jd_tokens st)[i := parent\<lparr>tk_created := now\<rparr>]\<rparr>)
          else
            let (filled, p) = (if pending_txs_complete p then (True, p)
                               else pending_fill_from_cache_locked st p) in
            if \<not> filled then Some (3, p, st)
            else if \<not> pending_txs_complete p then Some (1, p, st)
            else if \<not> pending_rebuild_size_ok p enonce_used then Some (3, p, st)
            else
              let snapshot_bytes = pending_snapshot_bytes p in
              if \<not> token_snapshot_may_add_locked (pd_client_id p) snapshot_bytes st then Some (2, p, st)
              else if \<not> tk_declared parent then
                Some (0, pending_stolen p,
                  st\<lparr>jd_tokens := (jd_tokens st)
                       [i := token_steal_declare_locked now parent p enonce_used snapshot_bytes],
                     jd_token_snapshot_bytes := jd_token_snapshot_bytes st + snapshot_bytes\<rparr>)
              else do {
                st \<leftarrow> make_token_room st;
                if jd_token_count st \<ge> SV2_JD_MAX_TOKENS_GLOBAL then Some (2, p, st)
                else do {
                  tok \<leftarrow> token_fill_unique_locked draws (jd_tokens st);
                  Some (0, (pending_stolen p)\<lparr>pd_token := tok\<rparr>,
                    st\<lparr>jd_tokens := jd_tokens st @
                         [token_steal_declare_locked now (minted_token tok parent) p enonce_used snapshot_bytes],
                       jd_token_count := jd_token_count st + 1,
                       jd_token_snapshot_bytes := jd_token_snapshot_bytes st + snapshot_bytes\<rparr>) } })"

definition token_accept_error :: "nat \<Rightarrow> bytes" where
  "token_accept_error rc =
     (if rc = 2 then ascii ''busy'' else if rc = 3 then ascii ''invalid-template''
      else ascii ''invalid-mining-job-token'')"

section \<open>Validation\<close>

definition try_coalesce_declare ::
  "jd_env \<Rightarrow> bytes list \<Rightarrow> sv2_jd_pending \<Rightarrow> jd_state \<Rightarrow> (reply \<times> sv2_jd_pending \<times> jd_state) returns" where
  "try_coalesce_declare env draws p st =
     (let thash = template_hash (env_tip env) p in
      case coalesce_lookup_locked thash (env_now env) st of
        None \<Rightarrow> Some (None, p, st)
      | Some _ \<Rightarrow>
          let thash2 = template_hash (env_tip2 env) p in
          if thash \<noteq> thash2 then Some (None, p, st)
          else case coalesce_lookup_locked thash2 (env_now env) st of
            None \<Rightarrow> Some (None, p, st)
          | Some enonce_used \<Rightarrow> do {
              (rc, p, st) \<leftarrow> token_accept_declare_locked (env_now2 env) draws p enonce_used st;
              if rc \<noteq> 0 then
                (let (r, st) = error_declare (pd_request_id p) (token_accept_error rc) st
                 in Some (r, p, st))
              else
                (let st = JD_STAT_INC st_declare_ok_update (JD_STAT_INC st_coalesce_hit_update st);
                     (r, st) = success_declare p st
                 in Some (r, p, st)) })"

text \<open>The extranonce lengths to try: the derived one, then the configured sum if it differs.\<close>

definition enonce_tries :: "jd_env \<Rightarrow> sv2_jd_pending \<Rightarrow> byte list" where
  "enonce_tries env p =
     (let derived = (case derive_coinbase_enonce_len (pd_coinbase_tx_prefix p) of
                       None \<Rightarrow> [] | Some n \<Rightarrow> [n]);
          conf_sum = (if env_nonce1length env > 0 \<and> env_nonce2length env > 0 \<and>
                         env_nonce1length env + env_nonce2length env \<le> 255
                      then of_int (env_nonce1length env + env_nonce2length env) else 0);
          tries = (if conf_sum \<noteq> 0 \<and> length derived < SV2_JD_ENONCE_MAX_TRIES \<and> conf_sum \<notin> set derived
                   then derived @ [conf_sum] else derived)
      in if tries = [] then [SV2_JD_DEFAULT_ENONCE_LEN] else tries)"

record check_result =
  ck_block :: "bytes option"
  ck_enonce_used :: byte
  ck_valid :: bool
  ck_reason :: bytes
  ck_any_ipc :: bool
  ck_fails :: u64

fun check_loop :: "jd_env \<Rightarrow> sv2_jd_pending \<Rightarrow> byte list \<Rightarrow> check_result \<Rightarrow> check_result" where
  "check_loop env p [] r = r"
| "check_loop env p (e # es) r =
     (case assemble_candidate_block env p e of
        None \<Rightarrow> check_loop env p es (r\<lparr>ck_block := None\<rparr>)
      | Some block \<Rightarrow>
          let r = r\<lparr>ck_block := Some block, ck_enonce_used := e\<rparr> in
          if env_svc_ready env then
            (case env_check_block env block of
               None \<Rightarrow> check_loop env p es (r\<lparr>ck_fails := ck_fails r + 1, ck_valid := False\<rparr>)
             | Some (valid, reason) \<Rightarrow>
                 let r = r\<lparr>ck_any_ipc := True, ck_valid := valid, ck_reason := reason\<rparr>
                 in if valid \<or> reason_is_stale_tip reason then r else check_loop env p es r)
          else r\<lparr>ck_valid := False\<rparr>)"

definition finalize_declare_check ::
  "jd_env \<Rightarrow> bytes list \<Rightarrow> sv2_jd_pending \<Rightarrow> jd_state \<Rightarrow> (reply \<times> jd_state) returns" where
  "finalize_declare_check env draws p st =
     (let thash = template_hash (env_tip env) p;
          r = check_loop env p (enonce_tries env p)
                \<lparr> ck_block = None, ck_enonce_used = SV2_JD_DEFAULT_ENONCE_LEN, ck_valid = False,
                  ck_reason = [], ck_any_ipc = False, ck_fails = 0 \<rparr>;
          st = st\<lparr>jd_stats := st_checkblock_fail_update (\<lambda>n. n + ck_fails r) (jd_stats st)\<rparr> in
      if ck_block r = None then
        Some (error_declare (pd_request_id p) (ascii ''block-assemble-failed'') (checkblock_end st))
      else if \<not> ck_valid r then
        Some (error_declare (pd_request_id p)
          (if \<not> ck_any_ipc r then ascii ''validation-unavailable''
           else if ck_reason r \<noteq> [] then ck_reason r else ascii ''invalid-template'') (checkblock_end st))
      else
        let tip_stable = (thash = template_hash (env_tip2 env) p) in do {
          (rc, p, st) \<leftarrow> token_accept_declare_locked (env_now2 env) draws p (ck_enonce_used r) st;
          if rc \<noteq> 0 then
            Some (error_declare (pd_request_id p) (token_accept_error rc) (checkblock_end st))
          else
            let st = (if tip_stable then coalesce_note_locked thash (ck_enonce_used r) (env_now env) st else st);
                st = JD_STAT_INC st_declare_ok_update (checkblock_end st);
                st = update_client (pd_client_id p) (\<lambda>c. c\<lparr>jc_checkblock_ok := True\<rparr>) st
            in Some (success_declare p st) })"

text \<open>A worker takes a queued declaration; any of them may finish first.\<close>

definition jd_validate_process ::
  "jd_env \<Rightarrow> bytes list \<Rightarrow> nat \<Rightarrow> jd_state \<Rightarrow> (reply \<times> jd_state) returns" where
  "jd_validate_process env draws i st = do {
     (reply, st) \<leftarrow> finalize_declare_check env draws (jd_validate_q st ! i) st;
     Some (reply, st\<lparr>jd_validate_q := remove_nth i (jd_validate_q st)\<rparr>) }"

definition session_accept_declare_skip_check ::
  "jd_env \<Rightarrow> bytes list \<Rightarrow> sv2_jd_pending \<Rightarrow> jd_state \<Rightarrow> (reply \<times> jd_state) returns" where
  "session_accept_declare_skip_check env draws p st =
     (let enonce_used = (case derive_coinbase_enonce_len (pd_coinbase_tx_prefix p) of
                           None \<Rightarrow> SV2_JD_DEFAULT_ENONCE_LEN | Some n \<Rightarrow> n) in do {
        (rc, p, st) \<leftarrow> token_accept_declare_locked (env_now2 env) draws p enonce_used st;
        if rc \<noteq> 0 then Some (error_declare (pd_request_id p) (token_accept_error rc) st)
        else Some (success_declare p (JD_STAT_INC st_declare_ok_update st)) })"

definition start_declare_validation ::
  "jd_env \<Rightarrow> bytes list \<Rightarrow> sv2_jd_pending \<Rightarrow> jd_state \<Rightarrow> (reply \<times> jd_state) returns" where
  "start_declare_validation env draws p st = do {
     (coalesced, p, st) \<leftarrow> try_coalesce_declare env draws p st;
     if coalesced \<noteq> None then Some (coalesced, st)
     else
       let session_skip = (case find_client (pd_client_id p) st of None \<Rightarrow> False
                           | Some c \<Rightarrow> jc_checkblock_ok c) in
       if session_skip then session_accept_declare_skip_check env draws p st
       else
         let (begun, st) = checkblock_try_begin st in
         if \<not> begun then Some (error_declare (pd_request_id p) (ascii ''busy'') st)
         else if \<not> env_queue_ok env then
           Some (error_declare (pd_request_id p) (ascii ''busy'') (checkblock_end st))
         else
           Some (None, st\<lparr>jd_validate_q := jd_validate_q st @
                   [p\<lparr>pd_missing := [], pd_awaiting_missing := False\<rparr>]\<rparr>) }"

end
