(* ===== verification/Jd_Handlers.thy ===== *)
theory Jd_Handlers
  imports Jd_Declare
begin

text \<open>
  The message handlers of \<^verbatim>\<open>src/src/sv2_jd.c\<close>, the frame dispatcher, the questions other parts of
  the pool ask, and the steps of the server: a frame from a client, a worker that finishes a
  validation or a submission, a connection that comes or goes, a new tip.
\<close>

section \<open>Setup\<close>

definition setup_error :: "u32 \<Rightarrow> bytes \<Rightarrow> reply" where
  "setup_error flags code = do {
     pbuf \<leftarrow> sv2_encode_setup_connection_error 64 \<lparr> sce_flags = flags, sce_error_code = c_buf 256 code \<rparr>;
     reply_frame SV2_MSG_SETUP_CONNECTION_ERROR pbuf }"

definition handle_setup :: "int \<Rightarrow> bytes \<Rightarrow> jd_state \<Rightarrow> reply \<times> jd_state" where
  "handle_setup client_id payload st =
     (case sv2_decode_setup_connection payload of None \<Rightarrow> (None, st)
      | Some sc \<Rightarrow>
          if sc_protocol sc \<noteq> SV2_PROTOCOL_JOB_DECLARATION then
            (setup_error 0 (ascii ''unsupported-protocol''), st)
          else if sc_min_version sc > 2 \<or> sc_max_version sc < 2 then
            (setup_error 0 (ascii ''unsupported-feature-flags''), st)
          else if sc_flags sc AND SV2_JD_FLAG_DECLARE_TX_DATA = 0 then
            (setup_error SV2_JD_FLAG_DECLARE_TX_DATA (ascii ''unsupported-feature-flags''), st)
          else
            (do { pbuf \<leftarrow> sv2_encode_setup_connection_success 64 \<lparr> scs_used_version = 2, scs_flags = 0 \<rparr>;
                  reply_frame SV2_MSG_SETUP_CONNECTION_SUCCESS pbuf },
             update_client client_id (\<lambda>c. c\<lparr>jc_setup_ok := True, jc_full_template := True\<rparr>) st))"

section \<open>Allocation\<close>

definition token_set_payout_from_outputs_locked :: "bytes \<Rightarrow> sv2_jd_token \<Rightarrow> sv2_jd_token" where
  "token_set_payout_from_outputs_locked outputs tok =
     (let tok = tok\<lparr>tk_payout_script := [], tk_has_payout := False\<rparr> in
      if outputs = [] then tok
      else case extract_first_output_script outputs of None \<Rightarrow> tok
        | Some script \<Rightarrow> tok\<lparr>tk_payout_script := script, tk_has_payout := True\<rparr>)"

definition new_token :: "bytes \<Rightarrow> int \<Rightarrow> bytes \<Rightarrow> int \<Rightarrow> bytes \<Rightarrow> sv2_jd_token" where
  "new_token tok client_id user_identifier now outputs =
     token_set_payout_from_outputs_locked outputs
       \<lparr> tk_token = tok, tk_client_id = client_id,
         tk_user_identifier = c_buf 256 (cstr user_identifier), tk_created = now,
         tk_declared = False, tk_version = 0, tk_wtxid_count = 0, tk_has_payout = False,
         tk_payout_script = [], tk_coinbase_tx_prefix = None, tk_coinbase_tx_suffix = [],
         tk_wtxid_list = [], tk_tx_raws = [], tk_snapshot_bytes = 0, tk_enonce_len = 0 \<rparr>"

text \<open>A token to hand out again under pressure: undeclared, then any of this user, then any.\<close>

definition reissue_index :: "int \<Rightarrow> bytes \<Rightarrow> sv2_jd_token list \<Rightarrow> nat option" where
  "reissue_index client_id user toks =
     (case find_client_undeclared_token_locked client_id user toks of Some i \<Rightarrow> Some i
      | None \<Rightarrow>
          (case find_client_oldest_token_locked client_id user toks of Some i \<Rightarrow> Some i
           | None \<Rightarrow> best_index (\<lambda>t. tk_client_id t = client_id)
                       (\<lambda>t oldest. tk_created t < tk_created oldest) toks))"

definition allocate_success :: "u32 \<Rightarrow> bytes \<Rightarrow> bytes \<Rightarrow> reply" where
  "allocate_success request_id tok outputs = do {
     pbuf \<leftarrow> sv2_encode_allocate_mining_job_token_success 512
       \<lparr> ams_request_id = request_id, ams_mining_job_token = c_buf 255 tok,
         ams_mining_job_token_len = of_nat (length tok), ams_coinbase_tx_outputs = outputs,
         ams_coinbase_tx_outputs_len = of_nat (length outputs) \<rparr>;
     reply_frame SV2_MSG_ALLOCATE_MINING_JOB_TOKEN_SUCCESS pbuf }"

text \<open>The end of the handler: statistics and the reply, \<open>allocate_ok\<close> counted once it is encoded.\<close>

definition allocate_reply :: "bool \<Rightarrow> u32 \<Rightarrow> bytes \<Rightarrow> bytes \<Rightarrow> jd_state \<Rightarrow> reply \<times> jd_state" where
  "allocate_reply limited request_id tok outputs st =
     (let st = (if limited then JD_STAT_INC st_allocate_rate_limited_update st else st);
          r = allocate_success request_id tok outputs
      in (r, if r = None then st else JD_STAT_INC st_allocate_ok_update st))"

text \<open>The token at an index handed out again, with the outputs of the user it is bound to.\<close>

definition allocate_reissue :: "jd_env \<Rightarrow> u32 \<Rightarrow> bytes \<Rightarrow> bytes \<Rightarrow> nat \<Rightarrow> jd_state \<Rightarrow> reply \<times> jd_state" where
  "allocate_reissue env request_id user outputs i st =
     (let tok = (jd_tokens st ! i)\<lparr>tk_created := env_now env\<rparr>;
          st = st\<lparr>jd_tokens := (jd_tokens st)[i := tok]\<rparr>;
          outputs = (if token_user_match tok user then outputs
                     else build_allocate_outputs env 64 (tk_user_identifier tok))
      in allocate_reply True request_id (tk_token tok) outputs st)"

text \<open>A fresh token; the generator's value is not compared with the table.\<close>

definition allocate_new ::
  "jd_env \<Rightarrow> bytes list \<Rightarrow> int \<Rightarrow> u32 \<Rightarrow> bytes \<Rightarrow> bytes \<Rightarrow> int \<Rightarrow> bool \<Rightarrow> jd_state \<Rightarrow> (reply \<times> jd_state) returns" where
  "allocate_new env draws client_id request_id user outputs alloc_count limited st = do {
     st \<leftarrow> make_token_room st;
     if jd_token_count st \<ge> SV2_JD_MAX_TOKENS_GLOBAL then
       Some (None, JD_STAT_INC st_allocate_rate_limited_update st)
     else
       case draws of [] \<Rightarrow> None
       | d # _ \<Rightarrow>
           let st = update_client client_id (\<lambda>c. c\<lparr>jc_alloc_count := alloc_count + 1\<rparr>) st;
               st = st\<lparr>jd_tokens := jd_tokens st @ [new_token d client_id user (env_now env) outputs],
                       jd_token_count := jd_token_count st + 1\<rparr>
           in Some (allocate_reply limited request_id d outputs st) }"

definition handle_allocate ::
  "jd_env \<Rightarrow> bytes list \<Rightarrow> int \<Rightarrow> bytes \<Rightarrow> jd_state \<Rightarrow> (reply \<times> jd_state) returns" where
  "handle_allocate env draws client_id payload st =
     (case find_client client_id st of None \<Rightarrow> Some (None, st)
      | Some c \<Rightarrow>
     if \<not> jc_setup_ok c \<or> \<not> jc_full_template c then Some (None, st)
     else case sv2_decode_allocate_mining_job_token payload of None \<Rightarrow> Some (None, st)
     | Some req \<Rightarrow>
       let now = env_now env;
           user = amt_user_identifier req;
           outputs = build_allocate_outputs env 64 user;
           st = expire_old_tokens_locked now st;
           fresh_window = (jc_alloc_window_start c = 0 \<or> now \<ge> jc_alloc_window_start c + 60);
           window_start = (if fresh_window then now else jc_alloc_window_start c);
           alloc_count = (if fresh_window then 0 else jc_alloc_count c);
           st = update_client client_id (\<lambda>c. c\<lparr>jc_user_logged := True,
                  jc_alloc_window_start := window_start, jc_alloc_count := alloc_count\<rparr>) st;
           per_min_hit = (alloc_count \<ge> SV2_JD_MAX_TOKENS_PER_MIN);
           global_full = (jd_token_count st \<ge> SV2_JD_MAX_TOKENS_GLOBAL);
           limited = (per_min_hit \<or> global_full)
       in case (if limited then reissue_index client_id user (jd_tokens st) else None) of
            Some i \<Rightarrow> Some (allocate_reissue env (amt_request_id req) user outputs i st)
          | None \<Rightarrow>
              if per_min_hit then Some (None, JD_STAT_INC st_allocate_rate_limited_update st)
              else allocate_new env draws client_id (amt_request_id req) user outputs alloc_count limited st)"

section \<open>Declarations\<close>

text \<open>The payout check on a declared coinbase, with zeros in the extranonce gap.\<close>

definition declare_funded :: "jd_env \<Rightarrow> bytes \<Rightarrow> bytes \<Rightarrow> bytes \<Rightarrow> bool" where
  "declare_funded env prefix suffix script =
     (case derive_coinbase_enonce_len prefix of None \<Rightarrow> False
      | Some en_len \<Rightarrow> fst (coinbase_tx_funds_payout env (prefix @ replicate (unat en_len) 0 @ suffix) script))"

definition missing_reply :: "u32 \<Rightarrow> nat list \<Rightarrow> reply" where
  "missing_reply request_id missing = do {
     pbuf \<leftarrow> sv2_encode_provide_missing_transactions 65536
       \<lparr> pmt_request_id = request_id, pmt_unknown_count = of_nat (length missing),
         pmt_unknown_tx_position_list = map of_nat missing \<rparr>;
     reply_frame SV2_MSG_PROVIDE_MISSING_TRANSACTIONS pbuf }"

text \<open>A declaration put in the waiting list with the request for what it misses.\<close>

definition queue_missing :: "sv2_jd_pending \<Rightarrow> nat list \<Rightarrow> jd_state \<Rightarrow> jd_state" where
  "queue_missing p missing st =
     st\<lparr>pending_declares := pending_declares st @
          [p\<lparr>pd_missing := map of_nat missing, pd_awaiting_missing := True\<rparr>]\<rparr>"

definition new_pending :: "int \<Rightarrow> int \<Rightarrow> sv2_declare_mining_job \<Rightarrow> sv2_jd_pending" where
  "new_pending client_id now decl =
     pending_alloc_tx_slots
       \<lparr> pd_request_id = dmj_request_id decl, pd_client_id = client_id, pd_created = now,
         pd_token = take (unat (dmj_mining_job_token_len decl)) (dmj_mining_job_token decl),
         pd_version = dmj_version decl, pd_coinbase_tx_prefix = dmj_coinbase_tx_prefix decl,
         pd_coinbase_tx_suffix = dmj_coinbase_tx_suffix decl, pd_wtxid_list = dmj_wtxid_list decl,
         pd_wtxid_count = unat (dmj_wtxid_count decl), pd_tx_raws = [], pd_tx_bytes = 0,
         pd_missing = [], pd_awaiting_missing = False \<rparr>"

text \<open>From the transactions on: what the cache has, then the wait for the rest or validation.\<close>

definition declare_transactions ::
  "jd_env \<Rightarrow> bytes list \<Rightarrow> sv2_jd_pending \<Rightarrow> jd_state \<Rightarrow> (reply \<times> jd_state) returns" where
  "declare_transactions env draws p st =
     (let (ok, p) = pending_fill_from_cache_locked st p in
      if \<not> ok then Some (error_declare (pd_request_id p) (ascii ''invalid-template'') st)
      else
        let missing = pending_collect_missing p SV2_MAX_JD_TXNS in
        if missing \<noteq> [] then
          (if \<not> pending_may_add_locked (pd_client_id p) st then
             Some (error_declare (pd_request_id p) (ascii ''busy'') st)
           else
             let st = queue_missing p missing st in
             case missing_reply (pd_request_id p) missing of
               None \<Rightarrow> Some (error_declare (pd_request_id p) (ascii ''internal-error'')
                         (remove_pending_declare_locked (pd_client_id p) (pd_request_id p) st))
             | Some r \<Rightarrow> Some (Some r, JD_STAT_INC st_provide_missing_update st))
        else start_declare_validation env draws p st)"

definition handle_declare ::
  "jd_env \<Rightarrow> bytes list \<Rightarrow> int \<Rightarrow> bytes \<Rightarrow> jd_state \<Rightarrow> (reply \<times> jd_state) returns" where
  "handle_declare env draws client_id payload st =
     (case find_client client_id st of None \<Rightarrow> Some (None, st)
      | Some c \<Rightarrow>
     if \<not> jc_setup_ok c \<or> \<not> jc_full_template c then Some (None, st)
     else case sv2_decode_declare_mining_job payload of None \<Rightarrow> Some (None, st)
     | Some decl \<Rightarrow>
       let req_id = dmj_request_id decl;
           fail = (\<lambda>code st. Some (error_declare req_id (ascii code) st));
           token = take (unat (dmj_mining_job_token_len decl)) (dmj_mining_job_token decl)
       in
       if dmj_mining_job_token_len decl = 0 then fail ''invalid-mining-job-token'' st
       else if dmj_coinbase_tx_prefix_len decl = 0 \<or> dmj_coinbase_tx_suffix_len decl = 0 then
         fail ''invalid-coinbase'' st
       else if unat (dmj_wtxid_count decl) > SV2_MAX_JD_TXNS then fail ''too-many-transactions'' st
       else
         let now = env_now env;
             fresh_window = (jc_declare_window_start c = 0 \<or> now \<ge> jc_declare_window_start c + 60);
             window_start = (if fresh_window then now else jc_declare_window_start c);
             declare_count = (if fresh_window then 0 else jc_declare_count c);
             limited = (declare_count \<ge> SV2_JD_MAX_DECLARES_PER_MIN);
             st = update_client client_id (\<lambda>c. c\<lparr>jc_declare_window_start := window_start,
                    jc_declare_count := (if limited then declare_count else declare_count + 1)\<rparr>) st
         in
         if limited then fail ''rate-limited'' st
         else case find_token_locked token (jd_tokens st) of
           None \<Rightarrow> fail ''invalid-mining-job-token'' st
         | Some i \<Rightarrow>
             let tok = jd_tokens st ! i in
             if tk_client_id tok \<noteq> client_id then fail ''invalid-mining-job-token'' st
             else if tk_has_payout tok \<and> tk_payout_script tok \<noteq> [] \<and>
               \<not> declare_funded env (dmj_coinbase_tx_prefix decl) (dmj_coinbase_tx_suffix decl)
                   (tk_payout_script tok) then fail ''invalid-coinbase-tx'' st
             else if \<not> (tk_has_payout tok \<and> tk_payout_script tok \<noteq> []) \<and> \<not> env_btcsolo env then
               fail ''invalid-coinbase-tx'' st
             else declare_transactions env draws (new_pending client_id now decl) st)"

definition handle_provide_missing_success ::
  "jd_env \<Rightarrow> bytes list \<Rightarrow> int \<Rightarrow> bytes \<Rightarrow> jd_state \<Rightarrow> (reply \<times> jd_state) returns" where
  "handle_provide_missing_success env draws client_id payload st =
     (case find_client client_id st of None \<Rightarrow> Some (None, st)
      | Some c \<Rightarrow>
     if \<not> jc_setup_ok c then Some (None, st)
     else case sv2_decode_provide_missing_transactions_success payload of None \<Rightarrow> Some (None, st)
     | Some ok \<Rightarrow>
       (case first_index (\<lambda>p. pd_client_id p = client_id \<and> pd_request_id p = pms_request_id ok \<and>
               pd_awaiting_missing p) (pending_declares st) of
          None \<Rightarrow> Some (None, st)
        | Some pi \<Rightarrow>
            let p = pending_declares st ! pi;
                st = st\<lparr>pending_declares := remove_nth pi (pending_declares st)\<rparr>
            in do {
              (stored, p, st) \<leftarrow> pending_store_matching_txs (env_now env) (pms_transactions ok) p st;
              if \<not> stored then Some (error_declare (pd_request_id p) (ascii ''invalid-template'') st)
              else
                let still = pending_collect_missing p SV2_MAX_JD_TXNS in
                if still \<noteq> [] then
                  (let st = queue_missing p still st in
                   case missing_reply (pd_request_id p) still of
                     None \<Rightarrow> Some (error_declare (pd_request_id p) (ascii ''internal-error'')
                               (remove_pending_declare_locked client_id (pd_request_id p) st))
                   | Some r \<Rightarrow> Some (Some r, st))
                else start_declare_validation env draws p st }))"

section \<open>Solutions\<close>

text \<open>
  The candidates are kept newest first; a new one is put at the end, in a full list over the
  last one if it is newer, and moves up past older ones.
\<close>

fun bubble_up :: "nat \<Rightarrow> sv2_jd_token list \<Rightarrow> sv2_jd_token list" where
  "bubble_up 0 cands = cands"
| "bubble_up (Suc i) cands =
     (if tk_created (cands ! Suc i) \<le> tk_created (cands ! i) then cands
      else bubble_up i (cands[Suc i := cands ! i, i := cands ! Suc i]))"

definition add_candidate :: "int \<Rightarrow> sv2_jd_token list \<Rightarrow> sv2_jd_token \<Rightarrow> sv2_jd_token list" where
  "add_candidate client_id cands tok =
     (if tk_client_id tok \<noteq> client_id \<or> \<not> tk_declared tok \<or> tk_coinbase_tx_prefix tok = None then cands
      else if length cands < SV2_JD_PUSH_TOKEN_CANDIDATES then bubble_up (length cands) (cands @ [tok])
      else if tk_created tok > tk_created (cands ! (length cands - 1)) then
        bubble_up (length cands - 1) (cands[length cands - 1 := tok])
      else cands)"

definition push_candidates :: "int \<Rightarrow> sv2_jd_token list \<Rightarrow> sv2_jd_token list" where
  "push_candidates client_id toks = foldl (add_candidate client_id) [] toks"

text \<open>The first candidate whose rebuilt block meets the target.\<close>

fun first_solved :: "jd_env \<Rightarrow> sv2_push_solution \<Rightarrow> u32 \<Rightarrow> (rebuild_snap \<times> bytes) list \<Rightarrow> (bytes \<times> bytes) option" where
  "first_solved env sol pow_nbits [] = None"
| "first_solved env sol pow_nbits ((snap, who) # snaps) =
     (case assemble_solved_from_snap snap (take (unat (psl_extranonce_len sol)) (psl_extranonce sol))
             (psl_version sol) (psl_ntime sol) (psl_nonce sol) (psl_nbits sol) (psl_prev_hash sol) of
        None \<Rightarrow> first_solved env sol pow_nbits snaps
      | Some block \<Rightarrow>
          if \<not> env_meets_nbits env (take 80 block) pow_nbits then first_solved env sol pow_nbits snaps
          else Some (block, who))"

definition handle_push_solution :: "jd_env \<Rightarrow> int \<Rightarrow> bytes \<Rightarrow> jd_state \<Rightarrow> reply \<times> jd_state" where
  "handle_push_solution env client_id payload st =
     (case find_client client_id st of None \<Rightarrow> (None, st)
      | Some c \<Rightarrow>
     if \<not> jc_setup_ok c then (None, st)
     else case sv2_decode_push_solution payload of None \<Rightarrow> (None, st)
     | Some sol \<Rightarrow>
       let st = JD_STAT_INC st_push_solution_update st;
           cands = push_candidates client_id (jd_tokens st);
           pow_nbits = (case env_tip env of None \<Rightarrow> psl_nbits sol | Some (_, _, t_nbits, _) \<Rightarrow> t_nbits);
           snaps = List.map_filter (\<lambda>t. map_option (\<lambda>s. (s, cstr (tk_user_identifier t)))
                     (snapshot_token_for_rebuild_locked t)) cands
       in case first_solved env sol pow_nbits snaps of None \<Rightarrow> (None, st)
          | Some (block, who) \<Rightarrow>
              (None, st\<lparr>jd_submit_q := jd_submit_q st @
                 [\<lparr> sj_block = block, sj_client_id = client_id, sj_who = who \<rparr>]\<rparr>))"

section \<open>Frames\<close>

definition sv2_jd_handle_frame ::
  "jd_env \<Rightarrow> bytes list \<Rightarrow> int \<Rightarrow> bytes \<Rightarrow> jd_state \<Rightarrow> (reply \<times> jd_state) returns" where
  "sv2_jd_handle_frame env draws client_id frame st =
     (if length frame < SV2_FRAME_HEADER_LEN then Some (None, st)
      else case sv2_decode_header frame of None \<Rightarrow> Some (None, st)
      | Some fr \<Rightarrow>
          if length frame < SV2_FRAME_HEADER_LEN + unat (fr_msg_length fr) then Some (None, st)
          else if fr_extension_type fr AND SV2_EXTENSION_MASK \<noteq> 0 then Some (None, st)
          else if unat (fr_msg_length fr) > SV2_MAX_JD_PAYLOAD then Some (None, st)
          else
            let payload = take (unat (fr_msg_length fr)) (drop SV2_FRAME_HEADER_LEN frame);
                st = client_get client_id True st
            in do {
              (ret, st) \<leftarrow>
                (if fr_msg_type fr = SV2_MSG_SETUP_CONNECTION then Some (handle_setup client_id payload st)
                 else if fr_msg_type fr = SV2_MSG_ALLOCATE_MINING_JOB_TOKEN then
                   handle_allocate env draws client_id payload st
                 else if fr_msg_type fr = SV2_MSG_DECLARE_MINING_JOB then
                   handle_declare env draws client_id payload st
                 else if fr_msg_type fr = SV2_MSG_PROVIDE_MISSING_TRANSACTIONS_SUCCESS then
                   handle_provide_missing_success env draws client_id payload st
                 else if fr_msg_type fr = SV2_MSG_PUSH_SOLUTION then
                   Some (handle_push_solution env client_id payload st)
                 else Some (None, st));
              Some (ret, client_put client_id st) })"

section \<open>Questions from the mining side\<close>

definition sv2_jd_token_is_declared :: "bytes \<Rightarrow> jd_state \<Rightarrow> bool" where
  "sv2_jd_token_is_declared token st \<longleftrightarrow>
     (if token = [] then False
      else case find_token_locked token (jd_tokens st) of None \<Rightarrow> False
        | Some i \<Rightarrow> tk_declared (jd_tokens st ! i))"

definition sv2_jd_token_outputs_fund_payout :: "jd_env \<Rightarrow> bytes \<Rightarrow> bytes \<Rightarrow> jd_state \<Rightarrow> bool" where
  "sv2_jd_token_outputs_fund_payout env token outputs st \<longleftrightarrow>
     (if token = [] then False
      else case find_token_locked token (jd_tokens st) of None \<Rightarrow> False
        | Some i \<Rightarrow>
            let tok = jd_tokens st ! i in
            if \<not> tk_declared tok then False
            else if \<not> tk_has_payout tok \<or> tk_payout_script tok = [] then env_btcsolo env
            else outputs_blob_funds_payout env outputs (tk_payout_script tok))"

definition sv2_jd_client_count :: "jd_state \<Rightarrow> nat" where
  "sv2_jd_client_count st = length (jd_clients st)"

section \<open>Steps\<close>

text \<open>The worker that submits a block takes the oldest job.\<close>

definition jd_submit_process :: "jd_state \<Rightarrow> jd_state" where
  "jd_submit_process st = st\<lparr>jd_submit_q := tl (jd_submit_q st)\<rparr>"

text \<open>
  \<open>E\<close> is what holds of the surroundings at every step, \<open>F\<close> of the values the random generator
  returns in a state.
\<close>

inductive jd_step :: "(jd_env \<Rightarrow> bool) \<Rightarrow> (bytes list \<Rightarrow> jd_state \<Rightarrow> bool) \<Rightarrow> jd_state \<Rightarrow> jd_state \<Rightarrow> bool"
  for E F where
  frame: "E env \<Longrightarrow> F draws st \<Longrightarrow>
    sv2_jd_handle_frame env draws client_id bs st = Some (reply, st') \<Longrightarrow> jd_step E F st st'"
| validate: "E env \<Longrightarrow> F draws st \<Longrightarrow> i < length (jd_validate_q st) \<Longrightarrow>
    jd_validate_process env draws i st = Some (reply, st') \<Longrightarrow> jd_step E F st st'"
| submit: "jd_submit_q st \<noteq> [] \<Longrightarrow> jd_step E F st (jd_submit_process st)"
| note_client: "jd_step E F st (sv2_jd_note_client client_id address server st)"
| drop_client: "jd_step E F st (sv2_jd_drop_client client_id st)"
| drop_all: "jd_step E F st (sv2_jd_drop_all st)"
| tip_change: "jd_step E F st (sv2_jd_on_tip_change enabled st)"

inductive jd_reach :: "(jd_env \<Rightarrow> bool) \<Rightarrow> (bytes list \<Rightarrow> jd_state \<Rightarrow> bool) \<Rightarrow> jd_state \<Rightarrow> bool"
  for E F where
  start: "jd_reach E F jd_init"
| step: "jd_reach E F st \<Longrightarrow> jd_step E F st st' \<Longrightarrow> jd_reach E F st'"

inductive_cases jd_stepE: "jd_step E F st st'"

end
