(* ===== verification/Jd_Accept.thy ===== *)
theory Jd_Accept
  imports Jd_Handlers
begin

text \<open>
  What accepting a declaration does to the token table, on every path: which tokens there are
  afterwards and what they hold, that the counters stay exact and the budgets kept, and that the
  call returns.
\<close>

section \<open>One token replaced or added\<close>

lemma held_update:
  "i < length ts \<Longrightarrow> held (ts[i := t']) + unat (tk_snapshot_bytes (ts ! i)) = held ts + unat (tk_snapshot_bytes t')"
  by (subst (3) id_take_nth_drop [of i ts]) (simp_all add: upd_conv_take_nth_drop)

lemma held_by_update:
  "i < length ts \<Longrightarrow> tk_client_id t' = tk_client_id (ts ! i) \<Longrightarrow>
    held_by cid (ts[i := t']) + (if tk_client_id t' = cid then unat (tk_snapshot_bytes (ts ! i)) else 0) =
    held_by cid ts + (if tk_client_id t' = cid then unat (tk_snapshot_bytes t') else 0)"
  by (subst (3) id_take_nth_drop [of i ts]) (simp_all add: upd_conv_take_nth_drop)

lemma list_all_update: "list_all P ts \<Longrightarrow> P t' \<Longrightarrow> list_all P (ts[i := t'])"
  by (auto simp: list_all_iff dest!: set_update_subset_insert [THEN subsetD])

lemma tokens_exact_add:
  assumes e: "tokens_exact st" and b: "tokens_bounded st"
    and m: "token_snapshot_may_add_locked cid sb st" "tk_client_id t' = cid" "tk_snapshot_bytes t' = sb"
      "tk_declared t'"
    and st': "jd_token_snapshot_bytes st' = jd_token_snapshot_bytes st + sb"
    and tab: "(i < length (jd_tokens st) \<and> tk_client_id (jd_tokens st ! i) = cid \<and> \<not> tk_declared (jd_tokens st ! i) \<and>
        jd_tokens st' = (jd_tokens st)[i := t'] \<and> jd_token_count st' = jd_token_count st) \<or>
      (jd_tokens st' = jd_tokens st @ [t'] \<and> jd_token_count st' = jd_token_count st + 1 \<and>
        jd_token_count st < SV2_JD_MAX_TOKENS_GLOBAL)"
  shows "tokens_exact st' \<and> tokens_bounded st'"
proof -
  have a: "held (jd_tokens st) + unat sb \<le> 2 ^ 29" "held_by cid (jd_tokens st) + unat sb \<le> 2 ^ 26"
    using m(1) snapshot_may_add_iff [OF e b] by simp_all
  have w: "unat (jd_token_snapshot_bytes st + sb) = held (jd_tokens st) + unat sb"
    using e a(1) by (simp add: tokens_exact_def unat_word_ariths)
  from tab show ?thesis
  proof (elim disjE conjE)
    assume i: "i < length (jd_tokens st)" "tk_client_id (jd_tokens st ! i) = cid"
      "\<not> tk_declared (jd_tokens st ! i)" "jd_tokens st' = (jd_tokens st)[i := t']"
      "jd_token_count st' = jd_token_count st"
    have z: "tk_snapshot_bytes (jd_tokens st ! i) = 0"
      using e i by (simp add: tokens_exact_def list_all_length)
    have "held (jd_tokens st') = held (jd_tokens st) + unat sb"
      using held_update [OF i(1), of t'] m(3) by (simp add: i(4) z)
    moreover have "held_by c (jd_tokens st') = held_by c (jd_tokens st) + (if cid = c then unat sb else 0)" for c
      using held_by_update [OF i(1), of t' c] m(2,3) i(2) by (simp add: i(4) z split: if_splits)
    ultimately show ?thesis
      using e b a w m(4) i st' list_all_update [of _ "jd_tokens st" t' i]
      by (simp add: tokens_exact_def tokens_bounded_def)
  next
    assume "jd_tokens st' = jd_tokens st @ [t']" "jd_token_count st' = jd_token_count st + 1"
      "jd_token_count st < SV2_JD_MAX_TOKENS_GLOBAL"
    then show ?thesis
      using e b a w m st' by (simp add: tokens_exact_def tokens_bounded_def SV2_JD_MAX_TOKENS_GLOBAL_def)
  qed
qed

lemma tokens_exact_touch:
  assumes "tokens_exact st" and "tokens_bounded st" and "i < length (jd_tokens st)"
  shows "tokens_exact (st\<lparr>jd_tokens := (jd_tokens st)[i := (jd_tokens st ! i)\<lparr>tk_created := now\<rparr>]\<rparr>) \<and>
    tokens_bounded (st\<lparr>jd_tokens := (jd_tokens st)[i := (jd_tokens st ! i)\<lparr>tk_created := now\<rparr>]\<rparr>)"
proof -
  let ?t = "(jd_tokens st ! i)\<lparr>tk_created := now\<rparr>"
  have "held ((jd_tokens st)[i := ?t]) = held (jd_tokens st)"
    using held_update [OF assms(3), of ?t] by simp
  moreover have "held_by c ((jd_tokens st)[i := ?t]) = held_by c (jd_tokens st)" for c
    using held_by_update [OF assms(3), of ?t c] by (simp split: if_splits)
  moreover have "\<not> tk_declared (jd_tokens st ! i) \<longrightarrow> tk_snapshot_bytes (jd_tokens st ! i) = 0"
    using assms(1,3) by (simp add: tokens_exact_def list_all_length)
  ultimately show ?thesis
    using assms list_all_update [of _ "jd_tokens st" ?t i]
    by (simp add: tokens_exact_def tokens_bounded_def)
qed

section \<open>Where the tokens of a table come from\<close>

text \<open>The same token, perhaps with a later time stamp.\<close>

definition same_token :: "sv2_jd_token \<Rightarrow> sv2_jd_token \<Rightarrow> bool" where
  "same_token t t' \<longleftrightarrow> t' = t\<lparr>tk_created := tk_created t'\<rparr>"

text \<open>The material of \<open>p\<close>, completed and small enough, installed in \<open>t\<close>.\<close>

definition takes_material :: "sv2_jd_pending \<Rightarrow> sv2_jd_token \<Rightarrow> sv2_jd_token \<Rightarrow> bool" where
  "takes_material p t t' \<longleftrightarrow>
     (\<exists>q el now. fills p q \<and> pend_ok q \<and> pending_txs_complete q \<and> pending_rebuild_size_ok q el \<and>
        t' = token_steal_declare_locked now t q el (pending_snapshot_bytes q))"

definition from_tokens :: "sv2_jd_token list \<Rightarrow> bytes list \<Rightarrow> sv2_jd_pending \<Rightarrow> sv2_jd_token \<Rightarrow> bool" where
  "from_tokens ts draws p t' \<longleftrightarrow>
     (\<exists>t\<in>set ts. same_token t t' \<or>
        tk_token t = pd_token p \<and> tk_client_id t = pd_client_id p \<and>
        (if tk_declared t
         then \<exists>d\<in>set draws. takes_material p (minted_token d t) t'
         else takes_material p t t'))"

lemma same_token_refl [simp]: "same_token t t" "same_token t (t\<lparr>tk_created := now\<rparr>)"
  by (simp_all add: same_token_def)

lemma from_tokens_same: "t \<in> set ts \<Longrightarrow> from_tokens ts draws p t"
  unfolding from_tokens_def by (auto intro: bexI [of _ t])

lemma same_token_fields:
  assumes "same_token t t'"
  shows "tk_token t' = tk_token t" "tk_client_id t' = tk_client_id t" "tk_declared t' = tk_declared t"
    "tk_user_identifier t' = tk_user_identifier t" "tk_version t' = tk_version t"
    "tk_wtxid_count t' = tk_wtxid_count t" "tk_has_payout t' = tk_has_payout t"
    "tk_payout_script t' = tk_payout_script t" "tk_coinbase_tx_prefix t' = tk_coinbase_tx_prefix t"
    "tk_coinbase_tx_suffix t' = tk_coinbase_tx_suffix t" "tk_wtxid_list t' = tk_wtxid_list t"
    "tk_tx_raws t' = tk_tx_raws t" "tk_snapshot_bytes t' = tk_snapshot_bytes t"
    "tk_enonce_len t' = tk_enonce_len t"
  using assms unfolding same_token_def by (cases t; cases t'; simp)+

section \<open>Accepting\<close>

lemma expire_tokens [simp]:
  "jd_tokens (expire_old_tokens_locked now st) = filter (\<lambda>t. \<not> token_expired now t) (jd_tokens st)"
  by (simp add: expire_old_tokens_locked_def free_tokens_where_tokens)

lemma exact_pending [simp]:
  "tokens_exact (st\<lparr>pending_declares := ps\<rparr>) = tokens_exact st"
  "tokens_bounded (st\<lparr>pending_declares := ps\<rparr>) = tokens_bounded st"
  by (simp_all add: tokens_exact_def tokens_bounded_def)

lemma expire_ok:
  assumes "tokens_exact st" and "tokens_bounded st"
  shows "tokens_exact (expire_old_tokens_locked now st) \<and> tokens_bounded (expire_old_tokens_locked now st)"
  using assms by (simp add: expire_old_tokens_locked_def free_tokens_where_exact free_tokens_where_bounded)

text \<open>\<open>only_tokens st st'\<close>: nothing but the token table and expired pending entries differ.\<close>

definition only_tokens :: "jd_state \<Rightarrow> jd_state \<Rightarrow> bool" where
  "only_tokens st st' \<longleftrightarrow>
     (\<exists>P acc. st' = (set_tokens (jd_tokens st') acc st)\<lparr>pending_declares := filter P (pending_declares st)\<rparr>)"

lemma only_tokensI:
  "st' = (set_tokens ts acc st)\<lparr>pending_declares := filter P (pending_declares st)\<rparr> \<Longrightarrow> only_tokens st st'"
  unfolding only_tokens_def by (intro exI [of _ P] exI [of _ acc]) simp

lemma only_tokens_fields:
  assumes "only_tokens st st'"
  shows "jd_clients st' = jd_clients st" "tx_cache st' = tx_cache st" "jd_coalesce st' = jd_coalesce st"
    "tx_cache_count st' = tx_cache_count st" "tx_cache_bytes st' = tx_cache_bytes st"
    "jd_coalesce_count st' = jd_coalesce_count st"
    "jd_checkblock_inflight st' = jd_checkblock_inflight st" "jd_validate_q st' = jd_validate_q st"
    "jd_submit_q st' = jd_submit_q st" "jd_stats st' = jd_stats st"
    "\<exists>P. pending_declares st' = filter P (pending_declares st)"
proof -
  obtain P acc where
    "st' = (set_tokens (jd_tokens st') acc st)\<lparr>pending_declares := filter P (pending_declares st)\<rparr>"
    using assms unfolding only_tokens_def by blast
  then have e: "\<And>f. f st' = f ((set_tokens (jd_tokens st') acc st)\<lparr>pending_declares := filter P (pending_declares st)\<rparr>)"
    by simp
  show "jd_clients st' = jd_clients st" by (subst e) simp
  show "tx_cache st' = tx_cache st" by (subst e) simp
  show "jd_coalesce st' = jd_coalesce st" by (subst e) simp
  show "tx_cache_count st' = tx_cache_count st" by (subst e) simp
  show "tx_cache_bytes st' = tx_cache_bytes st" by (subst e) simp
  show "jd_coalesce_count st' = jd_coalesce_count st" by (subst e) simp
  show "jd_checkblock_inflight st' = jd_checkblock_inflight st" by (subst e) simp
  show "jd_validate_q st' = jd_validate_q st" by (subst e) simp
  show "jd_submit_q st' = jd_submit_q st" by (subst e) simp
  show "jd_stats st' = jd_stats st" by (subst e) simp
  show "\<exists>P. pending_declares st' = filter P (pending_declares st)" by (subst e) auto
qed

lemma expire_only_tokens: "only_tokens st (expire_old_tokens_locked now st)"
proof -
  obtain acc where "free_tokens_where (token_expired now) st =
      set_tokens (filter (\<lambda>t. \<not> token_expired now t) (jd_tokens st)) acc st"
    using free_tokens_where_eq by blast
  then show ?thesis
    unfolding expire_old_tokens_locked_def by (intro only_tokensI) simp
qed

lemma only_tokens_tokens:
  assumes "only_tokens st st'"
  shows "only_tokens st (st'\<lparr>jd_tokens := ts, jd_token_count := n, jd_token_snapshot_bytes := b\<rparr>)"
proof -
  obtain P acc where
    e: "st' = (set_tokens (jd_tokens st') acc st)\<lparr>pending_declares := filter P (pending_declares st)\<rparr>"
    using assms unfolding only_tokens_def by blast
  show ?thesis
    by (rule only_tokensI [where ts = ts and acc = "(n, b)" and P = P], subst e)
       (simp add: set_tokens_def split: prod.splits)
qed

text \<open>What every outcome of accepting a declaration satisfies.\<close>

definition accept_post :: "jd_state \<Rightarrow> bytes list \<Rightarrow> sv2_jd_pending \<Rightarrow> nat \<Rightarrow> sv2_jd_pending \<Rightarrow> jd_state \<Rightarrow> bool" where
  "accept_post st draws p rc q st' \<longleftrightarrow>
     tokens_exact st' \<and> tokens_bounded st' \<and> only_tokens st st' \<and>
     (\<forall>t'\<in>set (jd_tokens st'). from_tokens (jd_tokens st) draws p t') \<and>
     pd_request_id q = pd_request_id p \<and> pd_client_id q = pd_client_id p \<and>
     (rc \<noteq> 0 \<longrightarrow> fills p q \<and> pend_ok q) \<and>
     (rc = 0 \<longrightarrow> (\<exists>t\<in>set (jd_tokens st'). tk_token t = pd_token q \<and> tk_client_id t = pd_client_id p \<and> tk_declared t))"

text \<open>\<open>settled st s draws p\<close>: the table \<open>s\<close> that expiry or making room left of \<open>st\<close>.\<close>

definition settled :: "jd_state \<Rightarrow> jd_state \<Rightarrow> bool" where
  "settled st s \<longleftrightarrow> tokens_exact s \<and> tokens_bounded s \<and> only_tokens st s \<and> set (jd_tokens s) \<subseteq> set (jd_tokens st)"

lemma settled_from: "settled st s \<Longrightarrow> \<forall>t'\<in>set (jd_tokens s). from_tokens (jd_tokens st) draws p t'"
  by (auto simp: settled_def intro: from_tokens_same)

lemma settled_expire:
  "tokens_exact st \<Longrightarrow> tokens_bounded st \<Longrightarrow> settled st (expire_old_tokens_locked now st)"
  using expire_ok expire_only_tokens by (auto simp: settled_def)

lemma accept_post_refused:
  assumes "settled st s" and "pend_ok q" and "fills p q" and "rc \<noteq> 0"
  shows "accept_post st draws p rc q s"
  using assms settled_from [OF assms(1), of draws p] fills_fields [OF assms(3)]
  by (simp add: accept_post_def settled_def)

lemma accept_post_identical:
  assumes s: "settled st s" and i: "i < length (jd_tokens s)" "tk_token (jd_tokens s ! i) = pd_token p"
      "tk_client_id (jd_tokens s ! i) = pd_client_id p" "tk_declared (jd_tokens s ! i)"
  shows "accept_post st draws p 0 p
    (s\<lparr>jd_tokens := (jd_tokens s)[i := (jd_tokens s ! i)\<lparr>tk_created := now\<rparr>]\<rparr>)" (is "accept_post _ _ _ _ _ ?s")
proof -
  let ?t = "(jd_tokens s ! i)\<lparr>tk_created := now\<rparr>"
  have o: "only_tokens st ?s"
    using s only_tokens_tokens [where st' = s and ts = "(jd_tokens s)[i := ?t]" and n = "jd_token_count s"
        and b = "jd_token_snapshot_bytes s"] by (simp add: settled_def)
  have "jd_tokens s ! i \<in> set (jd_tokens st)" using s i(1) by (auto simp: settled_def)
  then have "from_tokens (jd_tokens st) draws p ?t"
    unfolding from_tokens_def by (auto intro: bexI [of _ "jd_tokens s ! i"])
  then have "\<forall>t'\<in>set ((jd_tokens s)[i := ?t]). from_tokens (jd_tokens st) draws p t'"
    using settled_from [OF s] by (auto dest!: set_update_subset_insert [THEN subsetD])
  moreover have "?t \<in> set ((jd_tokens s)[i := ?t])" using i(1) by (rule set_update_memI)
  ultimately show ?thesis
    using tokens_exact_touch [of s i now] o i s
    by (auto simp: accept_post_def settled_def intro!: bexI [of _ ?t])
qed

lemma accept_post_in_place:
  assumes s: "settled st s" and i: "i < length (jd_tokens s)" "tk_token (jd_tokens s ! i) = pd_token p"
      "tk_client_id (jd_tokens s ! i) = pd_client_id p" "\<not> tk_declared (jd_tokens s ! i)"
    and q: "fills p q" "takes_material p (jd_tokens s ! i) t'"
      "t' = token_steal_declare_locked now (jd_tokens s ! i) q el sb"
    and m: "token_snapshot_may_add_locked (pd_client_id q) sb s"
  shows "accept_post st draws p 0 (pending_stolen q)
    (s\<lparr>jd_tokens := (jd_tokens s)[i := t'], jd_token_snapshot_bytes := jd_token_snapshot_bytes s + sb\<rparr>)"
    (is "accept_post _ _ _ _ _ ?s")
proof -
  note same = fills_fields [OF q(1)]
  have x: "tokens_exact s" "tokens_bounded s" using s by (simp_all add: settled_def)
  have x': "tokens_exact ?s \<and> tokens_bounded ?s"
    by (rule tokens_exact_add [OF x m, where t' = t' and i = i])
       (use i q(3) same in \<open>simp_all add: token_steal_declare_locked_def\<close>)
  have o: "only_tokens st ?s"
    using s only_tokens_tokens [where st' = s and ts = "(jd_tokens s)[i := t']" and n = "jd_token_count s"
        and b = "jd_token_snapshot_bytes s + sb"] by (simp add: settled_def)
  have "jd_tokens s ! i \<in> set (jd_tokens st)" using s i(1) by (auto simp: settled_def)
  then have "from_tokens (jd_tokens st) draws p t'"
    unfolding from_tokens_def using i q(2) by auto
  then have "\<forall>t'\<in>set ((jd_tokens s)[i := t']). from_tokens (jd_tokens st) draws p t'"
    using settled_from [OF s] by (auto dest!: set_update_subset_insert [THEN subsetD])
  moreover have "t' \<in> set ((jd_tokens s)[i := t'])" using i(1) by (rule set_update_memI)
  ultimately show ?thesis
    using x' o i same q(3)
    by (auto simp: accept_post_def pending_stolen_def token_steal_declare_locked_def intro!: bexI [of _ t'])
qed

lemma accept_post_minted:
  assumes s: "settled st s" and parent: "parent \<in> set (jd_tokens st)" "tk_token parent = pd_token p"
      "tk_client_id parent = pd_client_id p" "tk_declared parent"
    and d: "d \<in> set draws" and q: "fills p q" "takes_material p (minted_token d parent) t'"
      "t' = token_steal_declare_locked now (minted_token d parent) q el sb"
    and m: "token_snapshot_may_add_locked (pd_client_id q) sb s" "jd_token_count s < SV2_JD_MAX_TOKENS_GLOBAL"
  shows "accept_post st draws p 0 ((pending_stolen q)\<lparr>pd_token := d\<rparr>)
    (s\<lparr>jd_tokens := jd_tokens s @ [t'], jd_token_count := jd_token_count s + 1,
      jd_token_snapshot_bytes := jd_token_snapshot_bytes s + sb\<rparr>)" (is "accept_post _ _ _ _ _ ?s")
proof -
  note same = fills_fields [OF q(1)]
  have x: "tokens_exact s" "tokens_bounded s" using s by (simp_all add: settled_def)
  have x': "tokens_exact ?s \<and> tokens_bounded ?s"
    by (rule tokens_exact_add [OF x m(1), where t' = t'])
       (use parent q(3) same m(2) in \<open>simp_all add: token_steal_declare_locked_def minted_token_def\<close>)
  have o: "only_tokens st ?s"
    using s only_tokens_tokens [where st' = s and ts = "jd_tokens s @ [t']" and n = "jd_token_count s + 1"
        and b = "jd_token_snapshot_bytes s + sb"] by (simp add: settled_def)
  have "from_tokens (jd_tokens st) draws p t'"
    unfolding from_tokens_def using parent d q(2) by auto
  then show ?thesis
    using x' o parent same q(3) settled_from [OF s, of draws p]
    by (auto simp: accept_post_def pending_stolen_def token_steal_declare_locked_def minted_token_def)
qed

lemma settled_room:
  assumes "settled st s"
  shows "\<exists>t. make_token_room s = Some t \<and> settled st t \<and>
    (\<forall>cid sb. token_snapshot_may_add_locked cid sb s \<longrightarrow> token_snapshot_may_add_locked cid sb t) \<and>
    length (jd_tokens t) \<le> length (jd_tokens s)"
proof -
  have s: "tokens_exact s" "tokens_bounded s" "only_tokens st s" "set (jd_tokens s) \<subseteq> set (jd_tokens st)"
    using assms by (simp_all add: settled_def)
  obtain ts acc where r: "make_token_room s = Some (set_tokens ts acc s)" "tokens_exact (set_tokens ts acc s)"
    "set ts \<subseteq> set (jd_tokens s)" "length ts \<le> length (jd_tokens s)" "held ts \<le> held (jd_tokens s)"
    "\<forall>cid. held_by cid ts \<le> held_by cid (jd_tokens s)"
    using make_token_room_result [OF s(1)] by blast
  have b: "tokens_bounded (set_tokens ts acc s)"
    using s(2) by (rule tokens_bounded_less) (use r in simp_all)
  have "set_tokens ts acc s = s\<lparr>jd_tokens := ts, jd_token_count := fst acc, jd_token_snapshot_bytes := snd acc\<rparr>"
    by (cases acc) (simp add: set_tokens_def)
  then have "only_tokens st (set_tokens ts acc s)" by (simp only: only_tokens_tokens [OF s(3)])
  moreover have "token_snapshot_may_add_locked cid sb (set_tokens ts acc s)"
    if "token_snapshot_may_add_locked cid sb s" for cid sb
    using that r(5) r(6) [rule_format, of cid]
    by (simp add: snapshot_may_add_iff [OF s(1,2)] snapshot_may_add_iff [OF r(2) b])
  ultimately show ?thesis using r s b by (auto simp: settled_def)
qed

text \<open>The part of accepting a declaration that follows the lookup and the filling of its slots.\<close>

definition accept_filled ::
  "int \<Rightarrow> bytes list \<Rightarrow> nat \<Rightarrow> sv2_jd_token \<Rightarrow> bool \<Rightarrow> sv2_jd_pending \<Rightarrow> byte \<Rightarrow> jd_state \<Rightarrow>
    (nat \<times> sv2_jd_pending \<times> jd_state) option" where
  "accept_filled now draws i parent filled p el s =
     (if \<not> filled then Some (3, p, s)
      else if \<not> pending_txs_complete p then Some (1, p, s)
      else if \<not> pending_rebuild_size_ok p el then Some (3, p, s)
      else if \<not> token_snapshot_may_add_locked (pd_client_id p) (pending_snapshot_bytes p) s then Some (2, p, s)
      else if \<not> tk_declared parent then
        Some (0, pending_stolen p,
          s\<lparr>jd_tokens := (jd_tokens s)
               [i := token_steal_declare_locked now parent p el (pending_snapshot_bytes p)],
            jd_token_snapshot_bytes := jd_token_snapshot_bytes s + pending_snapshot_bytes p\<rparr>)
      else do {
        t \<leftarrow> make_token_room s;
        if jd_token_count t \<ge> SV2_JD_MAX_TOKENS_GLOBAL then Some (2, p, t)
        else do {
          tok \<leftarrow> token_fill_unique_locked draws (jd_tokens t);
          Some (0, (pending_stolen p)\<lparr>pd_token := tok\<rparr>,
            t\<lparr>jd_tokens := jd_tokens t @
                 [token_steal_declare_locked now (minted_token tok parent) p el (pending_snapshot_bytes p)],
               jd_token_count := jd_token_count t + 1,
               jd_token_snapshot_bytes := jd_token_snapshot_bytes t + pending_snapshot_bytes p\<rparr>) } })"

lemma accept_filled_post:
  assumes s: "settled st s" and i: "i < length (jd_tokens s)" "parent = jd_tokens s ! i"
      "tk_token parent = pd_token p" "parent \<in> set (jd_tokens st)" "tk_client_id parent = pd_client_id p"
    and p2: "pend_ok p2" "fills p p2"
    and r: "accept_filled now draws i parent filled p2 el s = Some (rc, q, st')"
  shows "accept_post st draws p rc q st'"
proof (cases "filled \<and> pending_txs_complete p2 \<and> pending_rebuild_size_ok p2 el \<and>
    token_snapshot_may_add_locked (pd_client_id p2) (pending_snapshot_bytes p2) s")
  case False
  then have "rc \<noteq> 0" "q = p2" "st' = s" using r by (auto simp: accept_filled_def split: if_splits)
  then show ?thesis using accept_post_refused [OF s p2] by simp
next
  case go: True
  let ?sb = "pending_snapshot_bytes p2"
  have tm: "takes_material p t (token_steal_declare_locked now t p2 el ?sb)" for t
    unfolding takes_material_def using p2 go by blast
  show ?thesis
  proof (cases "tk_declared parent")
    case False
    then have e: "rc = 0" "q = pending_stolen p2" "st' = s\<lparr>jd_tokens := (jd_tokens s)
        [i := token_steal_declare_locked now parent p2 el ?sb],
        jd_token_snapshot_bytes := jd_token_snapshot_bytes s + ?sb\<rparr>"
      using r go by (simp_all add: accept_filled_def)
    show ?thesis unfolding e i(2)
      by (rule accept_post_in_place [OF s i(1) _ _ _ p2(2) tm refl])
         (use i(3,5) False go in \<open>simp_all add: i(2)\<close>)
  next
    case dec: True
    obtain t where t: "make_token_room s = Some t" "settled st t"
      "token_snapshot_may_add_locked (pd_client_id p2) ?sb t"
      using settled_room [OF s] go by blast
    show ?thesis
    proof (cases "jd_token_count t \<ge> SV2_JD_MAX_TOKENS_GLOBAL")
      case True
      then have "rc \<noteq> 0" "q = p2" "st' = t" using r go dec t(1) by (auto simp: accept_filled_def)
      then show ?thesis using accept_post_refused [OF t(2) p2] by simp
    next
      case False
      then obtain k where k: "token_fill_unique_locked draws (jd_tokens t) = Some k"
        and e: "rc = 0" "q = (pending_stolen p2)\<lparr>pd_token := k\<rparr>" "st' = t\<lparr>jd_tokens := jd_tokens t @
          [token_steal_declare_locked now (minted_token k parent) p2 el ?sb],
          jd_token_count := jd_token_count t + 1,
          jd_token_snapshot_bytes := jd_token_snapshot_bytes t + ?sb\<rparr>"
        using r go dec t(1) by (auto simp: accept_filled_def bind_eq_Some_conv)
      show ?thesis unfolding e
        by (rule accept_post_minted [OF t(2) i(4,3,5) dec _ p2(2) tm refl t(3)])
           (use token_fill_unique_Some [OF k] False in simp_all)
    qed
  qed
qed

lemma accept_result:
  assumes x: "tokens_exact st" "tokens_bounded st" and c: "cache_ok st" and p: "pend_ok p"
    and r: "token_accept_declare_locked now draws p el st = Some (rc, q, st')"
  shows "accept_post st draws p rc q st'"
proof -
  define s where "s = expire_old_tokens_locked now st"
  have s: "settled st s" using settled_expire [OF x] by (simp add: s_def)
  then have cs: "cache_ok s" using c only_tokens_fields [of st s]
    by (simp add: settled_def cache_ok_def cache_exact_def)
  note refused = accept_post_refused [OF s]
  show ?thesis
  proof (cases "find_token_locked (pd_token p) (jd_tokens s)")
    case None
    then show ?thesis using r refused [OF p] by (simp add: token_accept_declare_locked_def s_def)
  next
    case (Some i)
    obtain parent where parent: "parent = jd_tokens s ! i" by simp
    have i: "i < length (jd_tokens s)" "tk_token parent = pd_token p" "parent \<in> set (jd_tokens st)"
      using find_token_Some [OF Some] s by (auto simp: parent settled_def)
    obtain filled p2 where fp:
      "(if pending_txs_complete p then (True, p) else pending_fill_from_cache_locked s p) = (filled, p2)"
      by fastforce
    have p2: "pend_ok p2" "fills p p2"
      using fp pending_fill_ok [OF cs p] p by (auto split: if_splits)
    let ?sb = "pending_snapshot_bytes p2"
    have eq: "token_accept_declare_locked now draws p el st =
      (if tk_client_id parent \<noteq> pd_client_id p then Some (1, p, s)
       else if identical_redeclare parent p then
         Some (0, p, s\<lparr>jd_tokens := (jd_tokens s)[i := parent\<lparr>tk_created := now\<rparr>]\<rparr>)
       else accept_filled now draws i parent filled p2 el s)"
      unfolding token_accept_declare_locked_def accept_filled_def s_def [symmetric] Let_def Some parent
      by (simp add: fp)
    show ?thesis
    proof (cases "tk_client_id parent = pd_client_id p")
      case False
      then show ?thesis using r refused [OF p] by (simp add: eq)
    next
      case client: True
      show ?thesis
      proof (cases "identical_redeclare parent p")
        case True
        then have "rc = 0" "q = p" "st' = s\<lparr>jd_tokens := (jd_tokens s)[i := parent\<lparr>tk_created := now\<rparr>]\<rparr>"
          using r client by (simp_all add: eq)
        then show ?thesis
          using accept_post_identical [OF s i(1)] i(2) client True
          by (simp add: parent identical_redeclare_def)
      next
        case False
        then have "accept_filled now draws i parent filled p2 el s = Some (rc, q, st')"
          using r client by (simp add: eq)
        then show ?thesis
          using accept_filled_post [OF s i(1) parent i(2,3) client p2] by blast
      qed
    qed
  qed
qed

text \<open>The call returns when the generator has more different values left than there are tokens.\<close>

lemma accept_returns:
  assumes x: "tokens_exact st" "tokens_bounded st" and d: "distinct draws" "4096 < length draws"
  shows "\<exists>r. token_accept_declare_locked now draws p el st = Some r"
proof -
  define s where "s = expire_old_tokens_locked now st"
  have s: "settled st s" using settled_expire [OF x] by (simp add: s_def)
  obtain t where t: "make_token_room s = Some t" "settled st t" using settled_room [OF s] by blast
  then have "length (jd_tokens t) < length draws"
    using d(2) by (simp add: settled_def tokens_bounded_def)
  then obtain k where k: "token_fill_unique_locked draws (jd_tokens t) = Some k"
    using token_fill_unique_returns [OF d(1)] by blast
  obtain f q where "(if pending_txs_complete p then (True, p) else pending_fill_from_cache_locked s p) = (f, q)"
    by fastforce
  then show ?thesis
    unfolding token_accept_declare_locked_def s_def [symmetric] Let_def
    by (auto simp: t(1) k split: option.split prod.split)
qed

end
