(* ===== verification/Jd_Reply.thy ===== *)
theory Jd_Reply
  imports Jd_Accept
begin

text \<open>
  The replies of the job declaration server on the wire: each is one frame whose header announces
  the type and the exact length, and whose payload the peer's decoder reads back as the message
  the server meant.
\<close>

text \<open>\<open>carries t decode m bs\<close>: the bytes are a frame of type \<open>t\<close> with the message \<open>m\<close>.\<close>

definition carries :: "byte \<Rightarrow> (bytes \<Rightarrow> 'm option) \<Rightarrow> 'm \<Rightarrow> bytes \<Rightarrow> bool" where
  "carries t decode m bs \<longleftrightarrow>
     (\<exists>h. sv2_decode_header bs = Some h \<and> fr_extension_type h = 0 \<and> fr_msg_type h = t \<and>
        length bs = SV2_FRAME_HEADER_LEN + unat (fr_msg_length h) \<and>
        decode (drop SV2_FRAME_HEADER_LEN bs) = Some m)"

context sv2_message
begin

lemma reply_carries:
  assumes "ok m" and "msize m \<le> bufsz" and "bufsz \<le> 0x00FFFFFF"
  shows "\<exists>pbuf bs. encode bufsz m = Some pbuf \<and> reply_frame t pbuf = Some bs \<and> carries t decode m bs"
proof -
  obtain pbuf where p: "encode bufsz m = Some pbuf" using encode_fits [OF assms(1,2)] by blast
  with framed_roundtrip [OF assms(1) p, of 0 t] assms(2,3) show ?thesis
    by (auto simp: reply_frame_def carries_def)
qed

end

section \<open>Strings and lengths\<close>

lemma unat_small [simp]:
  "n \<le> 255 \<Longrightarrow> unat (of_nat n :: byte) = n" "n \<le> 65535 \<Longrightarrow> unat (of_nat n :: u16) = n"
  by (simp_all add: unat_of_nat)

lemma length_ascii [simp]: "length (ascii s) = length s"
  by (simp add: ascii_def)

lemma strlen_c_buf0: "0 \<notin> set s \<Longrightarrow> strlen (c_buf n s) = length s"
  by (simp add: strlen_def cstr_c_buf)

text \<open>The error codes of the code are short strings without a zero.\<close>

definition c_string :: "bytes \<Rightarrow> bool" where
  "c_string s \<longleftrightarrow> 0 \<notin> set s \<and> length s \<le> 255"

lemma codes [simp]:
  "c_string (ascii ''internal-error'')" "c_string (ascii ''busy'')" "c_string (ascii ''invalid-template'')"
  "c_string (ascii ''invalid-mining-job-token'')" "c_string (ascii ''block-assemble-failed'')"
  "c_string (ascii ''validation-unavailable'')" "c_string (ascii ''invalid-coinbase'')"
  "c_string (ascii ''too-many-transactions'')" "c_string (ascii ''rate-limited'')"
  "c_string (ascii ''invalid-coinbase-tx'')" "c_string (ascii ''stale-chain-tip'')"
  "c_string (ascii ''unsupported-protocol'')" "c_string (ascii ''unsupported-feature-flags'')"
  by (simp_all add: c_string_def ascii_def)

lemma token_accept_error_code [simp]: "c_string (token_accept_error rc)"
  by (simp add: token_accept_error_def)

section \<open>Declarations\<close>

text \<open>The message of an error: a stale tip is reported under one code, with the reason as details.\<close>

definition declare_error_message :: "u32 \<Rightarrow> bytes \<Rightarrow> sv2_declare_mining_job_error" where
  "declare_error_message request_id code =
     (let stale = reason_is_stale_tip code; details = (if stale then code else [])
      in \<lparr> dme_request_id = request_id,
           dme_error_code = c_buf 256 (if stale then ascii ''stale-chain-tip'' else code),
           dme_error_details = details, dme_error_details_len = of_nat (length details) \<rparr>)"

lemma error_declare_carries:
  assumes "c_string code"
  shows "\<exists>bs. fst (error_declare request_id code st) = Some bs \<and>
    carries SV2_MSG_DECLARE_MINING_JOB_ERROR sv2_decode_declare_mining_job_error
      (declare_error_message request_id code) bs"
proof -
  let ?out = "if reason_is_stale_tip code then ascii ''stale-chain-tip'' else code"
  let ?m = "declare_error_message request_id code"
  have out: "0 \<notin> set ?out" "length ?out \<le> 255"
    using assms codes(11) by (auto simp: c_string_def)
  have "ok_declare_mining_job_error ?m"
    using str_field_c_buf [OF out] assms
    by (auto simp: ok_declare_mining_job_error_def declare_error_message_def Let_def c_string_def)
  moreover have "4 + (1 + strlen (dme_error_code ?m)) + 2 + unat (dme_error_details_len ?m) \<le> 512"
    using out assms
    by (auto simp: declare_error_message_def Let_def c_string_def strlen_c_buf0)
  ultimately obtain pbuf bs where "sv2_encode_declare_mining_job_error 512 ?m = Some pbuf"
    "reply_frame SV2_MSG_DECLARE_MINING_JOB_ERROR pbuf = Some bs"
    "carries SV2_MSG_DECLARE_MINING_JOB_ERROR sv2_decode_declare_mining_job_error ?m bs"
    using m_declare_err.reply_carries [of ?m 512] by fastforce
  then show ?thesis
    using out(2) by (simp add: error_declare_def declare_error_message_def Let_def)
qed

definition declare_success_message :: "u32 \<Rightarrow> bytes \<Rightarrow> sv2_declare_mining_job_success" where
  "declare_success_message request_id tok =
     \<lparr> dms_request_id = request_id, dms_new_mining_job_token = c_buf 255 tok,
       dms_new_mining_job_token_len = of_nat (length tok) \<rparr>"

lemma success_declare_carries:
  assumes "length (pd_token p) \<le> 255"
  shows "\<exists>bs. success_declare p st = (Some bs, st) \<and>
    carries SV2_MSG_DECLARE_MINING_JOB_SUCCESS sv2_decode_declare_mining_job_success
      (declare_success_message (pd_request_id p) (pd_token p)) bs"
proof -
  let ?m = "declare_success_message (pd_request_id p) (pd_token p)"
  have "ok_declare_mining_job_success ?m" "4 + 1 + unat (dms_new_mining_job_token_len ?m) \<le> 512"
    using assms
    by (simp_all add: ok_declare_mining_job_success_def declare_success_message_def blob_field_def
        c_buf_def)
  then obtain pbuf bs where "sv2_encode_declare_mining_job_success 512 ?m = Some pbuf"
    "reply_frame SV2_MSG_DECLARE_MINING_JOB_SUCCESS pbuf = Some bs"
    "carries SV2_MSG_DECLARE_MINING_JOB_SUCCESS sv2_decode_declare_mining_job_success ?m bs"
    using m_declare_ok.reply_carries [of ?m 512] by fastforce
  then show ?thesis by (simp add: success_declare_def declare_success_message_def)
qed

lemma success_declare_some: "fst (success_declare p st) \<noteq> None"
proof -
  have "length pbuf \<le> 512 \<Longrightarrow> reply_frame t pbuf \<noteq> None" for t pbuf
    by (auto simp: reply_frame_def sv2_build_frame_def SV2_MAX_PAYLOAD_def word_less_nat_alt unat_of_nat)
  moreover have "sv2_encode_declare_mining_job_success 512 m = Some pbuf \<Longrightarrow> length pbuf \<le> 512" for m pbuf
    by (auto simp: sv2_encode_declare_mining_job_success_def encode_guarded_def finish_encode_def split: if_splits)
  ultimately show ?thesis
    using error_declare_carries [OF codes(1), of "pd_request_id p" st]
    by (auto simp: success_declare_def split: option.split)
qed

section \<open>The other replies\<close>

definition setup_error_message :: "u32 \<Rightarrow> bytes \<Rightarrow> sv2_setup_connection_error" where
  "setup_error_message flags code = \<lparr> sce_flags = flags, sce_error_code = c_buf 256 code \<rparr>"

lemma setup_error_carries:
  assumes "c_string code" and "length code \<le> 59"
  shows "\<exists>bs. setup_error flags code = Some bs \<and>
    carries SV2_MSG_SETUP_CONNECTION_ERROR sv2_decode_setup_connection_error (setup_error_message flags code) bs"
proof -
  let ?m = "setup_error_message flags code"
  have "ok_setup_connection_error ?m" "4 + (1 + strlen (sce_error_code ?m)) \<le> 64"
    using assms
    by (simp_all add: ok_setup_connection_error_def setup_error_message_def str_field_c_buf strlen_c_buf0 c_string_def)
  then obtain pbuf bs where "sv2_encode_setup_connection_error 64 ?m = Some pbuf"
    "reply_frame SV2_MSG_SETUP_CONNECTION_ERROR pbuf = Some bs"
    "carries SV2_MSG_SETUP_CONNECTION_ERROR sv2_decode_setup_connection_error ?m bs"
    using m_setup_err.reply_carries [of ?m 64] by fastforce
  then show ?thesis by (simp add: setup_error_def setup_error_message_def)
qed

definition allocate_message :: "u32 \<Rightarrow> bytes \<Rightarrow> bytes \<Rightarrow> sv2_allocate_mining_job_token_success" where
  "allocate_message request_id tok outputs =
     \<lparr> ams_request_id = request_id, ams_mining_job_token = c_buf 255 tok,
       ams_mining_job_token_len = of_nat (length tok), ams_coinbase_tx_outputs = outputs,
       ams_coinbase_tx_outputs_len = of_nat (length outputs) \<rparr>"

lemma allocate_success_carries:
  assumes "length tok \<le> 255" and "length outputs \<le> 250"
  shows "\<exists>bs. allocate_success request_id tok outputs = Some bs \<and>
    carries SV2_MSG_ALLOCATE_MINING_JOB_TOKEN_SUCCESS sv2_decode_allocate_mining_job_token_success
      (allocate_message request_id tok outputs) bs"
proof -
  let ?m = "allocate_message request_id tok outputs"
  have "ok_allocate_mining_job_token_success ?m"
    "4 + 1 + unat (ams_mining_job_token_len ?m) + 2 + unat (ams_coinbase_tx_outputs_len ?m) \<le> 512"
    using assms
    by (simp_all add: ok_allocate_mining_job_token_success_def allocate_message_def blob_field_def c_buf_def)
  then obtain pbuf bs where "sv2_encode_allocate_mining_job_token_success 512 ?m = Some pbuf"
    "reply_frame SV2_MSG_ALLOCATE_MINING_JOB_TOKEN_SUCCESS pbuf = Some bs"
    "carries SV2_MSG_ALLOCATE_MINING_JOB_TOKEN_SUCCESS sv2_decode_allocate_mining_job_token_success ?m bs"
    using m_alloc_ok.reply_carries [of ?m 512] by fastforce
  then show ?thesis by (simp add: allocate_success_def allocate_message_def)
qed

definition missing_message :: "u32 \<Rightarrow> nat list \<Rightarrow> sv2_provide_missing_transactions" where
  "missing_message request_id missing =
     \<lparr> pmt_request_id = request_id, pmt_unknown_count = of_nat (length missing),
       pmt_unknown_tx_position_list = map of_nat missing \<rparr>"

lemma missing_reply_carries:
  assumes "length missing \<le> 25000"
  shows "\<exists>bs. missing_reply request_id missing = Some bs \<and>
    carries SV2_MSG_PROVIDE_MISSING_TRANSACTIONS sv2_decode_provide_missing_transactions
      (missing_message request_id missing) bs"
proof -
  let ?m = "missing_message request_id missing"
  have "ok_provide_missing_transactions ?m" "4 + 2 + unat (pmt_unknown_count ?m) * 2 \<le> 65536"
    using assms
    by (simp_all add: ok_provide_missing_transactions_def missing_message_def SV2_MAX_JD_TXNS_def)
  then obtain pbuf bs where "sv2_encode_provide_missing_transactions 65536 ?m = Some pbuf"
    "reply_frame SV2_MSG_PROVIDE_MISSING_TRANSACTIONS pbuf = Some bs"
    "carries SV2_MSG_PROVIDE_MISSING_TRANSACTIONS sv2_decode_provide_missing_transactions ?m bs"
    using m_missing.reply_carries [of ?m 65536] by fastforce
  then show ?thesis by (simp add: missing_reply_def missing_message_def)
qed

end
