(* ===== verification/Jd_Contract.thy ===== *)
theory Jd_Contract
  imports Jd_Reply
begin

text \<open>
  What every step of the job declaration server keeps.  \<open>tables_ok\<close> says that the tables are
  consistent and within their limits, with a property \<open>P\<close> of every pending declaration and \<open>T\<close> of
  every token; the locale \<open>jd_contract\<close> states what \<open>P\<close> and \<open>T\<close> must promise for the handlers to
  keep them.
\<close>

section \<open>Consistent tables\<close>

definition tables_ok :: "(sv2_jd_pending \<Rightarrow> bool) \<Rightarrow> (sv2_jd_token \<Rightarrow> bool) \<Rightarrow> jd_state \<Rightarrow> bool" where
  "tables_ok P T st \<longleftrightarrow>
     tokens_exact st \<and> tokens_bounded st \<and> cache_ok st \<and> coalesce_ok st \<and>
     (\<forall>p\<in>set (pending_declares st). pend_ok p \<and> P p) \<and> length (pending_declares st) \<le> 128 \<and>
     (\<forall>cid. pending_count_client_locked cid st \<le> 8) \<and> (\<forall>t\<in>set (jd_tokens st). T t)"

definition queue_ok :: "(sv2_jd_pending \<Rightarrow> bool) \<Rightarrow> jd_state \<Rightarrow> bool" where
  "queue_ok P st \<longleftrightarrow>
     (\<forall>p\<in>set (jd_validate_q st). pend_ok p \<and> P p) \<and> length (jd_validate_q st) \<le> 4 \<and>
     jd_checkblock_inflight st = int (length (jd_validate_q st))"

text \<open>The clients as far as the handlers must not disturb them.\<close>

definition client_keys :: "jd_state \<Rightarrow> (int \<times> int) list" where
  "client_keys st = map (\<lambda>c. (jc_client_id c, jc_refs c)) (jd_clients st)"

definition clients_ok :: "jd_state \<Rightarrow> bool" where
  "clients_ok st \<longleftrightarrow>
     distinct (map jc_client_id (jd_clients st)) \<and> (\<forall>c\<in>set (jd_clients st). jc_refs c = 1)"

lemma clients_ok_keys:
  "clients_ok st \<longleftrightarrow> distinct (map fst (client_keys st)) \<and> (\<forall>k\<in>set (client_keys st). snd k = 1)"
  by (auto simp: clients_ok_def client_keys_def comp_def)

text \<open>\<open>same_tables st st'\<close>: the states differ in statistics and in fields of clients only.\<close>

definition same_tables :: "jd_state \<Rightarrow> jd_state \<Rightarrow> bool" where
  "same_tables st st' \<longleftrightarrow>
     st' = st\<lparr>jd_clients := jd_clients st', jd_stats := jd_stats st'\<rparr> \<and> client_keys st' = client_keys st"

lemma same_tables_fields:
  assumes "same_tables st st'"
  shows "jd_tokens st' = jd_tokens st" "tx_cache st' = tx_cache st" "jd_coalesce st' = jd_coalesce st"
    "pending_declares st' = pending_declares st" "jd_token_count st' = jd_token_count st"
    "tx_cache_count st' = tx_cache_count st" "tx_cache_bytes st' = tx_cache_bytes st"
    "jd_token_snapshot_bytes st' = jd_token_snapshot_bytes st"
    "jd_coalesce_count st' = jd_coalesce_count st"
    "jd_checkblock_inflight st' = jd_checkblock_inflight st" "jd_validate_q st' = jd_validate_q st"
    "client_keys st' = client_keys st"
  using assms unfolding same_tables_def by (cases st; cases st'; simp)+

lemma same_tables_ok:
  assumes "same_tables st st'"
  shows "tables_ok P T st' = tables_ok P T st" "queue_ok P st' = queue_ok P st"
  using same_tables_fields [OF assms]
  by (simp_all add: tables_ok_def queue_ok_def tokens_exact_def tokens_bounded_def cache_ok_def
      cache_exact_def coalesce_ok_def pending_count_client_locked_def)

lemma same_tables_refl [simp]: "same_tables st st"
  by (simp add: same_tables_def)

lemma same_tables_trans: "same_tables r s \<Longrightarrow> same_tables s t \<Longrightarrow> same_tables r t"
  unfolding same_tables_def by (cases r; cases s; cases t) (simp add: client_keys_def)

lemma same_tables_stats [simp]: "same_tables st (st\<lparr>jd_stats := s\<rparr>)" "same_tables st (JD_STAT_INC u st)"
  by (simp_all add: same_tables_def JD_STAT_INC_def client_keys_def)

lemma same_tables_inc: "same_tables r st \<Longrightarrow> same_tables r (JD_STAT_INC u st)"
  by (erule same_tables_trans) simp

lemma same_tables_client:
  "(\<And>c. jc_client_id (f c) = jc_client_id c \<and> jc_refs (f c) = jc_refs c) \<Longrightarrow>
    same_tables st (update_client cid f st)"
  by (simp add: same_tables_def update_client_def client_keys_def map_update_first)

lemma same_tables_error [simp]: "same_tables st (snd (error_declare r c st))"
proof -
  have "same_tables st (declare_error_stats out st)" for out
    by (simp only: declare_error_stats_def Let_def same_tables_inc same_tables_refl split: if_split) blast
  then show ?thesis by (simp add: error_declare_def Let_def)
qed

lemma same_tables_success [simp]: "same_tables st (snd (success_declare p st))"
  by (simp add: success_declare_def split: option.split)

text \<open>\<open>kept st st'\<close>: neither the clients nor the validation queue are disturbed.\<close>

definition kept :: "jd_state \<Rightarrow> jd_state \<Rightarrow> bool" where
  "kept st st' \<longleftrightarrow>
     client_keys st' = client_keys st \<and> jd_validate_q st' = jd_validate_q st \<and>
     jd_checkblock_inflight st' = jd_checkblock_inflight st"

lemma kept_refl [simp]: "kept st st" by (simp add: kept_def)

lemma kept_trans: "kept r s \<Longrightarrow> kept s t \<Longrightarrow> kept r t" by (simp add: kept_def)

lemma kept_queue: "kept st st' \<Longrightarrow> queue_ok P st' = queue_ok P st"
  by (simp add: kept_def queue_ok_def)

lemma same_tables_kept: "same_tables st st' \<Longrightarrow> kept st st'"
  using same_tables_fields [of st st'] by (simp add: kept_def)

text \<open>The outcomes of a check in the worker.\<close>

lemma finalize_cases:
  assumes f: "finalize_declare_check env draws p st = Some (reply, st2)"
  obtains n code where "(reply, st2) = error_declare (pd_request_id p) code
      (checkblock_end (st\<lparr>jd_stats := st_checkblock_fail_update (\<lambda>k. k + n) (jd_stats st)\<rparr>))"
    | n el rc q s where "token_accept_declare_locked (env_now2 env) draws p el
          (st\<lparr>jd_stats := st_checkblock_fail_update (\<lambda>k. k + n) (jd_stats st)\<rparr>) = Some (rc, q, s)"
        "(rc \<noteq> 0 \<and> (reply, st2) = error_declare (pd_request_id q) (token_accept_error rc) (checkblock_end s)) \<or>
         (\<exists>h now s'. (s' = s \<or> s' = coalesce_note_locked h el now s) \<and>
           (reply, st2) = success_declare q (update_client (pd_client_id q) (\<lambda>c. c\<lparr>jc_checkblock_ok := True\<rparr>)
             (JD_STAT_INC st_declare_ok_update (checkblock_end s'))))"
proof -
  define r where "r = check_loop env p (enonce_tries env p)
      \<lparr> ck_block = None, ck_enonce_used = SV2_JD_DEFAULT_ENONCE_LEN, ck_valid = False,
        ck_reason = [], ck_any_ipc = False, ck_fails = 0 \<rparr>"
  note eq = f [unfolded finalize_declare_check_def Let_def, folded r_def]
  show ?thesis
  proof (cases "ck_block r = None \<or> \<not> ck_valid r")
    case True
    let ?code = "if ck_block r = None then ascii ''block-assemble-failed''
      else if \<not> ck_any_ipc r then ascii ''validation-unavailable''
      else if ck_reason r \<noteq> [] then ck_reason r else ascii ''invalid-template''"
    show ?thesis
      by (rule that(1) [where n = "ck_fails r" and code = ?code]) (use eq True in \<open>auto split: if_splits\<close>)
  next
    case False
    then obtain b where v: "ck_block r = Some b" "ck_valid r" by auto
    let ?st = "st\<lparr>jd_stats := st_checkblock_fail_update (\<lambda>k. k + ck_fails r) (jd_stats st)\<rparr>"
    obtain rc q s where a: "token_accept_declare_locked (env_now2 env) draws p (ck_enonce_used r) ?st = Some (rc, q, s)"
      using eq v by (cases "token_accept_declare_locked (env_now2 env) draws p (ck_enonce_used r) ?st") auto
    show ?thesis
    proof (rule that(2) [OF a], cases "rc = 0")
      case True
      let ?tip = "template_hash (env_tip env) p"
      let ?s = "if ?tip = template_hash (env_tip2 env) p
        then coalesce_note_locked ?tip (ck_enonce_used r) (env_now env) s else s"
      have "(reply, st2) = success_declare q (update_client (pd_client_id q) (\<lambda>c. c\<lparr>jc_checkblock_ok := True\<rparr>)
             (JD_STAT_INC st_declare_ok_update (checkblock_end ?s)))"
        using eq v True by (simp add: a)
      moreover have "?s = s \<or> ?s = coalesce_note_locked ?tip (ck_enonce_used r) (env_now env) s" by simp
      ultimately show "rc \<noteq> 0 \<and> (reply, st2) = error_declare (pd_request_id q) (token_accept_error rc) (checkblock_end s) \<or>
         (\<exists>h now s'. (s' = s \<or> s' = coalesce_note_locked h (ck_enonce_used r) now s) \<and>
           (reply, st2) = success_declare q (update_client (pd_client_id q) (\<lambda>c. c\<lparr>jc_checkblock_ok := True\<rparr>)
             (JD_STAT_INC st_declare_ok_update (checkblock_end s'))))" by blast
    next
      case rc: False
      then show "rc \<noteq> 0 \<and> (reply, st2) = error_declare (pd_request_id q) (token_accept_error rc) (checkblock_end s) \<or>
         (\<exists>h now s'. (s' = s \<or> s' = coalesce_note_locked h (ck_enonce_used r) now s) \<and>
           (reply, st2) = success_declare q (update_client (pd_client_id q) (\<lambda>c. c\<lparr>jc_checkblock_ok := True\<rparr>)
             (JD_STAT_INC st_declare_ok_update (checkblock_end s'))))"
        using eq v by (simp add: a)
    qed
  qed
qed

text \<open>A token to hand out again is one of the table.\<close>

lemma reissue_index_Some: "reissue_index cid user toks = Some i \<Longrightarrow> i < length toks \<and> tk_client_id (toks ! i) = cid"
  by (auto simp: reissue_index_def find_client_undeclared_token_locked_def find_client_oldest_token_locked_def
      split: option.splits dest: best_index_Some)

lemma new_token_fields [simp]:
  "tk_token (new_token d cid user now outs) = d" "tk_client_id (new_token d cid user now outs) = cid"
  "\<not> tk_declared (new_token d cid user now outs)" "tk_snapshot_bytes (new_token d cid user now outs) = 0"
  by (simp_all add: new_token_def token_set_payout_from_outputs_locked_def Let_def split: option.split)

text \<open>The outcomes of an allocation.\<close>

lemma handle_allocate_cases:
  assumes r: "handle_allocate env draws cid payload st = Some (reply, st')"
  obtains "reply = None" "st' = st"
    | s where "same_tables (expire_old_tokens_locked (env_now env) st) s" "reply = None"
        "st' = JD_STAT_INC st_allocate_rate_limited_update s"
    | s req i where "same_tables (expire_old_tokens_locked (env_now env) st) s"
        "sv2_decode_allocate_mining_job_token payload = Some req"
        "reissue_index cid (amt_user_identifier req) (jd_tokens s) = Some i"
        "(reply, st') = allocate_reissue env (amt_request_id req) (amt_user_identifier req)
          (build_allocate_outputs env 64 (amt_user_identifier req)) i s"
    | s req n limited where "same_tables (expire_old_tokens_locked (env_now env) st) s"
        "sv2_decode_allocate_mining_job_token payload = Some req"
        "allocate_new env draws cid (amt_request_id req) (amt_user_identifier req)
          (build_allocate_outputs env 64 (amt_user_identifier req)) n limited s = Some (reply, st')"
proof (cases "find_client cid st")
  case None
  then show thesis using r that(1) by (simp add: handle_allocate_def)
next
  case (Some c)
  show thesis
  proof (cases "(\<not> jc_setup_ok c \<or> \<not> jc_full_template c) \<or> sv2_decode_allocate_mining_job_token payload = None")
    case True
    then show ?thesis using r that(1) Some by (auto simp: handle_allocate_def split: if_splits option.splits)
  next
    case False
    then obtain req where req: "sv2_decode_allocate_mining_job_token payload = Some req"
      and su: "jc_setup_ok c" "jc_full_template c" by blast
    define n where "n = (if jc_alloc_window_start c = 0 \<or> env_now env \<ge> jc_alloc_window_start c + 60
      then 0 else jc_alloc_count c)"
    define s where "s = update_client cid (\<lambda>c'. c'\<lparr>jc_user_logged := True, jc_alloc_window_start :=
        (if jc_alloc_window_start c = 0 \<or> env_now env \<ge> jc_alloc_window_start c + 60
         then env_now env else jc_alloc_window_start c), jc_alloc_count := n\<rparr>)
      (expire_old_tokens_locked (env_now env) st)"
    have s: "same_tables (expire_old_tokens_locked (env_now env) st) s"
      unfolding s_def by (rule same_tables_client) simp
    define limited where "limited \<longleftrightarrow> n \<ge> SV2_JD_MAX_TOKENS_PER_MIN \<or> jd_token_count s \<ge> SV2_JD_MAX_TOKENS_GLOBAL"
    have "(case (if limited then reissue_index cid (amt_user_identifier req) (jd_tokens s) else None) of
        Some i \<Rightarrow> Some (allocate_reissue env (amt_request_id req) (amt_user_identifier req)
          (build_allocate_outputs env 64 (amt_user_identifier req)) i s)
      | None \<Rightarrow> if n \<ge> SV2_JD_MAX_TOKENS_PER_MIN then Some (None, JD_STAT_INC st_allocate_rate_limited_update s)
          else allocate_new env draws cid (amt_request_id req) (amt_user_identifier req)
            (build_allocate_outputs env 64 (amt_user_identifier req)) n limited s) = Some (reply, st')"
      using r unfolding handle_allocate_def Some Let_def limited_def s_def n_def
      by (simp only: su req option.case simp_thms if_False)
    note eq = this
    show ?thesis
    proof (cases "if limited then reissue_index cid (amt_user_identifier req) (jd_tokens s) else None")
      case None
      show ?thesis
      proof (cases "n \<ge> SV2_JD_MAX_TOKENS_PER_MIN")
        case True
        then have "reply = None \<and> st' = JD_STAT_INC st_allocate_rate_limited_update s"
          using eq unfolding None by simp
        then show ?thesis using that(2) [OF s] by blast
      next
        case False
        then show ?thesis using eq that(4) [OF s req] unfolding None by simp
      qed
    next
      case (Some i)
      then have "reissue_index cid (amt_user_identifier req) (jd_tokens s) = Some i" by (simp split: if_splits)
      then show ?thesis using eq that(3) [OF s req] unfolding Some by simp
    qed
  qed
qed

text \<open>The payout check of a declaration against its token.\<close>

definition payout_allowed :: "jd_env \<Rightarrow> sv2_jd_token \<Rightarrow> sv2_declare_mining_job \<Rightarrow> bool" where
  "payout_allowed env tok decl \<longleftrightarrow>
     (if tk_has_payout tok \<and> tk_payout_script tok \<noteq> []
      then declare_funded env (dmj_coinbase_tx_prefix decl) (dmj_coinbase_tx_suffix decl) (tk_payout_script tok)
      else env_btcsolo env)"

text \<open>What the decoder guarantees of a declaration, and the outcomes of handling it.\<close>

lemma declare_decode_fields:
  assumes d: "sv2_decode_declare_mining_job p = Some m"
  shows "length (dmj_coinbase_tx_prefix m) = unat (dmj_coinbase_tx_prefix_len m)"
    "length (dmj_coinbase_tx_suffix m) = unat (dmj_coinbase_tx_suffix_len m)"
    "length (dmj_wtxid_list m) = unat (dmj_wtxid_count m) * 32" "unat (dmj_wtxid_count m) \<le> SV2_MAX_JD_TXNS"
proof -
  have rows: "length ws = unat n * 32" if "read_wtxid_list n q = Some (ws, r)" for n q ws r
    using declare_wtxids_wr_rd [OF that] by simp
  show "length (dmj_coinbase_tx_prefix m) = unat (dmj_coinbase_tx_prefix_len m)"
    "length (dmj_coinbase_tx_suffix m) = unat (dmj_coinbase_tx_suffix_len m)"
    "length (dmj_wtxid_list m) = unat (dmj_wtxid_count m) * 32" "unat (dmj_wtxid_count m) \<le> SV2_MAX_JD_TXNS"
    using d rows
    by (auto simp: sv2_decode_declare_mining_job_def bind_eq_Some_conv sv2_read_b0_64k_def have_n_def split: if_splits)
qed

lemma u16_less: "unat (w :: u16) < 65536"
  using unsigned_less [of w] by simp

lemma pend_ok_new:
  assumes "sv2_decode_declare_mining_job p = Some m"
  shows "pend_ok (new_pending cid now m)"
proof -
  note f = declare_decode_fields [OF assms]
  show ?thesis
    using f u16_less [of "dmj_coinbase_tx_prefix_len m"] u16_less [of "dmj_coinbase_tx_suffix_len m"]
    by (auto simp: new_pending_def pending_alloc_tx_slots_def pend_ok_def slots_ok_def slot_bytes_def
        sum_list_replicate SV2_MAX_JD_TXNS_def)
qed

lemma handle_declare_cases:
  assumes r: "handle_declare env draws cid payload st = Some (reply, st')"
  obtains "reply = None" "st' = st"
    | s decl code where "same_tables st s" "sv2_decode_declare_mining_job payload = Some decl" "c_string code"
        "(reply, st') = error_declare (dmj_request_id decl) code s"
    | s decl i where "same_tables st s" "sv2_decode_declare_mining_job payload = Some decl"
        "dmj_mining_job_token_len decl \<noteq> 0"
        "find_token_locked (take (unat (dmj_mining_job_token_len decl)) (dmj_mining_job_token decl)) (jd_tokens s) = Some i"
        "tk_client_id (jd_tokens s ! i) = cid" "payout_allowed env (jd_tokens s ! i) decl"
        "declare_transactions env draws (new_pending cid (env_now env) decl) s = Some (reply, st')"
proof (cases "find_client cid st")
  case None
  then show thesis using r that(1) by (simp add: handle_declare_def)
next
  case (Some c)
  show thesis
  proof (cases "(\<not> jc_setup_ok c \<or> \<not> jc_full_template c) \<or> sv2_decode_declare_mining_job payload = None")
    case True
    then show ?thesis using r that(1) Some by (auto simp: handle_declare_def split: if_splits option.splits)
  next
    case False
    then obtain decl where decl: "sv2_decode_declare_mining_job payload = Some decl"
      and su: "jc_setup_ok c" "jc_full_template c" by blast
    let ?fail = "\<lambda>code s. Some (error_declare (dmj_request_id decl) (ascii code) s)"
    let ?tok = "take (unat (dmj_mining_job_token_len decl)) (dmj_mining_job_token decl)"
    define fresh where "fresh \<longleftrightarrow> jc_declare_window_start c = 0 \<or> env_now env \<ge> jc_declare_window_start c + 60"
    define n where "n = (if fresh then 0 else jc_declare_count c)"
    define s where "s = update_client cid (\<lambda>c'. c'\<lparr>jc_declare_window_start :=
          (if fresh then env_now env else jc_declare_window_start c),
        jc_declare_count := (if n \<ge> SV2_JD_MAX_DECLARES_PER_MIN then n else n + 1)\<rparr>) st"
    have s: "same_tables st s" unfolding s_def by (rule same_tables_client) simp
    have eq: "(if dmj_mining_job_token_len decl = 0 then ?fail ''invalid-mining-job-token'' st
      else if dmj_coinbase_tx_prefix_len decl = 0 \<or> dmj_coinbase_tx_suffix_len decl = 0 then ?fail ''invalid-coinbase'' st
      else if unat (dmj_wtxid_count decl) > SV2_MAX_JD_TXNS then ?fail ''too-many-transactions'' st
      else if n \<ge> SV2_JD_MAX_DECLARES_PER_MIN then ?fail ''rate-limited'' s
      else case find_token_locked ?tok (jd_tokens s) of None \<Rightarrow> ?fail ''invalid-mining-job-token'' s
      | Some i \<Rightarrow>
          if tk_client_id (jd_tokens s ! i) \<noteq> cid then ?fail ''invalid-mining-job-token'' s
          else if tk_has_payout (jd_tokens s ! i) \<and> tk_payout_script (jd_tokens s ! i) \<noteq> [] \<and>
            \<not> declare_funded env (dmj_coinbase_tx_prefix decl) (dmj_coinbase_tx_suffix decl)
                (tk_payout_script (jd_tokens s ! i)) then ?fail ''invalid-coinbase-tx'' s
          else if \<not> (tk_has_payout (jd_tokens s ! i) \<and> tk_payout_script (jd_tokens s ! i) \<noteq> []) \<and> \<not> env_btcsolo env
          then ?fail ''invalid-coinbase-tx'' s
          else declare_transactions env draws (new_pending cid (env_now env) decl) s) = Some (reply, st')"
      using r unfolding handle_declare_def Some Let_def s_def n_def fresh_def
      by (simp only: su decl option.case simp_thms if_False)
    note err = that(2) [OF _ decl]
    consider code t where "?fail code t = Some (reply, st')" "same_tables st t" "c_string (ascii code)"
      | i where "dmj_mining_job_token_len decl \<noteq> 0" "find_token_locked ?tok (jd_tokens s) = Some i"
          "tk_client_id (jd_tokens s ! i) = cid" "payout_allowed env (jd_tokens s ! i) decl"
          "declare_transactions env draws (new_pending cid (env_now env) decl) s = Some (reply, st')"
    proof -
      assume *: "\<And>code t. ?fail code t = Some (reply, st') \<Longrightarrow> same_tables st t \<Longrightarrow> c_string (ascii code) \<Longrightarrow> thesis"
        "\<And>i. dmj_mining_job_token_len decl \<noteq> 0 \<Longrightarrow> find_token_locked ?tok (jd_tokens s) = Some i \<Longrightarrow>
          tk_client_id (jd_tokens s ! i) = cid \<Longrightarrow> payout_allowed env (jd_tokens s ! i) decl \<Longrightarrow>
          declare_transactions env draws (new_pending cid (env_now env) decl) s = Some (reply, st') \<Longrightarrow> thesis"
      show thesis
      proof (cases "dmj_mining_job_token_len decl = 0 \<or>
          (dmj_coinbase_tx_prefix_len decl = 0 \<or> dmj_coinbase_tx_suffix_len decl = 0) \<or>
          unat (dmj_wtxid_count decl) > SV2_MAX_JD_TXNS \<or> n \<ge> SV2_JD_MAX_DECLARES_PER_MIN")
        case True
        then show ?thesis using eq *(1) s same_tables_refl codes by (auto split: if_splits)
      next
        case go: False
        show ?thesis
        proof (cases "find_token_locked ?tok (jd_tokens s)")
          case None
          then show ?thesis using eq go *(1) [OF _ s] codes by simp
        next
          case (Some i)
          show ?thesis
          proof (cases "tk_client_id (jd_tokens s ! i) = cid \<and> payout_allowed env (jd_tokens s ! i) decl")
            case True
            then show ?thesis using eq go *(2) Some by (auto simp: payout_allowed_def split: if_splits)
          next
            case False
            then show ?thesis using eq go *(1) [OF _ s] codes Some by (auto simp: payout_allowed_def split: if_splits)
          qed
        qed
      qed
    qed
    then show ?thesis
    proof cases
      case (1 code t)
      then show ?thesis using err [OF 1(2,3)] by simp
    next
      case (2 i)
      then show ?thesis using that(3) [OF s decl] by blast
    qed
  qed
qed

text \<open>Every provided transaction is short.\<close>

lemma missing_txs_short:
  assumes "sv2_decode_provide_missing_transactions_success payload = Some m"
  shows "list_all (\<lambda>tx. length tx < 2 ^ 32) (pms_transactions m)"
proof -
  note b = missing_decode_bounds [OF assms]
  have "length (pms_transactions m ! i) < 2 ^ 32" if "i < length (pms_transactions m)" for i
  proof -
    have "length (pms_transactions m ! i) = unat (pms_tx_lens m ! i)" using b that by simp
    then show ?thesis using unsigned_less [of "pms_tx_lens m ! i"] by simp
  qed
  then show ?thesis by (simp add: list_all_length)
qed

lemma filter_remove_nth_hit:
  "i < length xs \<Longrightarrow> Q (xs ! i) \<Longrightarrow> Suc (length (filter Q (remove_nth i xs))) = length (filter Q xs)"
  by (subst (2) id_take_nth_drop [of i xs]) (simp_all add: remove_nth_def)

section \<open>References to clients\<close>

text \<open>What a handler took with \<open>client_get\<close> it gives back with \<open>client_put\<close>.\<close>

lemma get_put_keys:
  assumes "map (\<lambda>c. (jc_client_id c, jc_refs c)) cs' = map (\<lambda>c. (jc_client_id c, jc_refs c))
      (update_first (\<lambda>c. jc_client_id c = cid) (\<lambda>c. c\<lparr>jc_refs := jc_refs c + 1\<rparr>) cs)"
    and "\<forall>c\<in>set cs. jc_refs c = 1"
  shows "map (\<lambda>c. (jc_client_id c, jc_refs c)) (put_first cid cs') = map (\<lambda>c. (jc_client_id c, jc_refs c)) cs"
  using assms
proof (induction cs arbitrary: cs')
  case (Cons c cs)
  show ?case
  proof (cases "jc_client_id c = cid")
    case True
    then obtain d ds where "cs' = d # ds" "jc_client_id d = cid" "jc_refs d = 2"
      "map (\<lambda>c. (jc_client_id c, jc_refs c)) ds = map (\<lambda>c. (jc_client_id c, jc_refs c)) cs"
      using Cons.prems by (auto simp: Cons_eq_map_conv map_eq_Cons_conv)
    then show ?thesis using True Cons.prems(2) by (simp add: client_unref_locked_def)
  next
    case False
    then obtain d ds where "cs' = d # ds" "jc_client_id d = jc_client_id c" "jc_refs d = jc_refs c"
      "map (\<lambda>c. (jc_client_id c, jc_refs c)) ds = map (\<lambda>c. (jc_client_id c, jc_refs c))
        (update_first (\<lambda>c. jc_client_id c = cid) (\<lambda>c. c\<lparr>jc_refs := jc_refs c + 1\<rparr>) cs)"
      using Cons.prems by (auto simp: Cons_eq_map_conv map_eq_Cons_conv)
    then show ?thesis using False Cons.IH [of ds] Cons.prems(2) by simp
  qed
qed simp

lemma clients_ok_get_put:
  assumes "clients_ok st" and "client_keys st' = client_keys (client_get cid True st)"
  shows "clients_ok (client_put cid st')"
proof -
  let ?cs = "if find_client cid st = None then jd_clients st @ [new_client cid] else jd_clients st"
  have e: "jd_clients (client_get cid True st) =
      update_first (\<lambda>c. jc_client_id c = cid) (\<lambda>c. c\<lparr>jc_refs := jc_refs c + 1\<rparr>) ?cs"
    by (simp add: client_get_def update_client_def)
  have one: "\<forall>c\<in>set ?cs. jc_refs c = 1"
    using assms(1) by (simp add: clients_ok_def new_client_def)
  have "cid \<notin> set (map jc_client_id (jd_clients st))" if "find_client cid st = None"
    using that by (auto simp: find_client_def find_None_iff)
  then have "distinct (map jc_client_id ?cs)"
    using assms(1) by (auto simp: clients_ok_def new_client_def)
  moreover have "client_keys (client_put cid st') = map (\<lambda>c. (jc_client_id c, jc_refs c)) ?cs"
    using get_put_keys [OF _ one, of "jd_clients st'" cid] assms(2) e
    by (simp add: client_keys_def client_put_def)
  ultimately show ?thesis using one unfolding clients_ok_keys by (auto simp: comp_def)
qed

lemma distinct_remove_nth:
  assumes "distinct (map f xs)"
  shows "distinct (map f (remove_nth i xs))"
proof (cases "i < length xs")
  case True
  have "distinct (map f (take i xs @ xs ! i # drop (Suc i) xs))"
    using assms id_take_nth_drop [OF True] by simp
  then show ?thesis by (auto simp: remove_nth_def)
qed (use assms in \<open>simp add: remove_nth_def\<close>)

lemma client_get_eq: "\<exists>cs. client_get cid create st = st\<lparr>jd_clients := cs\<rparr>"
  by (auto simp: client_get_def update_client_def Let_def)

lemma tables_ok_clients [simp]:
  "tables_ok P T (st\<lparr>jd_clients := cs\<rparr>) = tables_ok P T st" "queue_ok P (st\<lparr>jd_clients := cs\<rparr>) = queue_ok P st"
  by (simp_all add: tables_ok_def queue_ok_def tokens_exact_def tokens_bounded_def cache_ok_def
      cache_exact_def coalesce_ok_def pending_count_client_locked_def)

definition jd_ok :: "(sv2_jd_pending \<Rightarrow> bool) \<Rightarrow> (sv2_jd_token \<Rightarrow> bool) \<Rightarrow> jd_state \<Rightarrow> bool" where
  "jd_ok P T st \<longleftrightarrow> tables_ok P T st \<and> queue_ok P st \<and> clients_ok st"

section \<open>The contract of a property of tokens and declarations\<close>

locale jd_contract =
  fixes E :: "jd_env \<Rightarrow> bool" and P :: "sv2_jd_pending \<Rightarrow> bool" and T :: "sv2_jd_token \<Rightarrow> bool"
  assumes P_fills: "P p \<Longrightarrow> fills p q \<Longrightarrow> P q"
    and P_waits: "P p \<Longrightarrow> P (p\<lparr>pd_missing := ms, pd_awaiting_missing := w\<rparr>)"
    and P_new: "E env \<Longrightarrow> T tok \<Longrightarrow> payout_allowed env tok decl \<Longrightarrow> P (new_pending cid now decl)"
    and T_same: "T t \<Longrightarrow> same_token t t' \<Longrightarrow> T t'"
    and T_minted: "T t \<Longrightarrow> T (minted_token d t)"
    and T_takes: "T t \<Longrightarrow> P p \<Longrightarrow> takes_material p t t' \<Longrightarrow> T t'"
    and T_new: "E env \<Longrightarrow> T (new_token d cid user now (build_allocate_outputs env 64 user))"
begin

abbreviation "ok \<equiv> tables_ok P T"

lemma T_from:
  assumes "from_tokens ts draws p t'" and "P p" and "\<forall>t\<in>set ts. T t"
  shows "T t'"
proof -
  from assms(1) obtain t where t: "t \<in> set ts" and
    c: "same_token t t' \<or> takes_material p t t' \<or> (\<exists>d\<in>set draws. takes_material p (minted_token d t) t')"
    unfolding from_tokens_def by (auto split: if_splits)
  have "T t" using t assms(3) by blast
  with c show ?thesis using T_same T_takes T_minted assms(2) by blast
qed

lemma ok_only_tokens:
  assumes st: "ok st" and o: "only_tokens st st'" and x: "tokens_exact st'" "tokens_bounded st'"
    and t: "\<forall>t\<in>set (jd_tokens st'). T t"
  shows "ok st' \<and> kept st st'"
proof -
  note f = only_tokens_fields [OF o]
  obtain R where R: "pending_declares st' = filter R (pending_declares st)" using f(11) by blast
  have "pending_count_client_locked cid st' \<le> pending_count_client_locked cid st" for cid
  proof -
    have "length (filter Q (filter R xs)) \<le> length (filter Q xs)" for Q and xs :: "sv2_jd_pending list"
      by (induction xs) auto
    then show ?thesis by (simp add: pending_count_client_locked_def R)
  qed
  then have "\<forall>cid. pending_count_client_locked cid st' \<le> 8"
    using st by (meson order_trans tables_ok_def)
  moreover have "length (pending_declares st') \<le> 128"
    using st length_filter_le [of R "pending_declares st"] unfolding tables_ok_def R by linarith
  ultimately show ?thesis
    using st f(1-10) x t R
    by (auto simp: tables_ok_def cache_ok_def cache_exact_def coalesce_ok_def client_keys_def kept_def)
qed

lemma ok_expire:
  assumes "ok st"
  shows "ok (expire_old_tokens_locked now st) \<and> kept st (expire_old_tokens_locked now st)"
proof -
  have "tokens_exact st" "tokens_bounded st" "\<forall>t\<in>set (jd_tokens st). T t"
    using assms by (simp_all add: tables_ok_def)
  then show ?thesis
    using ok_only_tokens [OF assms expire_only_tokens, of now] expire_ok [of st now] by simp
qed

lemma ok_accept:
  assumes st: "ok st" and p: "pend_ok p" "P p"
    and r: "token_accept_declare_locked now draws p el st = Some (rc, q, st')"
  shows "ok st' \<and> kept st st' \<and> pd_client_id q = pd_client_id p"
proof -
  have s: "tokens_exact st" "tokens_bounded st" "cache_ok st" "\<forall>t\<in>set (jd_tokens st). T t"
    using st by (simp_all add: tables_ok_def)
  have a: "accept_post st draws p rc q st'" by (rule accept_result [OF s(1,2,3) p(1) r])
  then have "\<forall>t\<in>set (jd_tokens st'). T t"
    using T_from p(2) s(4) by (auto simp: accept_post_def)
  then show ?thesis
    using ok_only_tokens [OF st] a by (auto simp: accept_post_def)
qed

lemma ok_same: "ok st \<Longrightarrow> same_tables st st' \<Longrightarrow> ok st' \<and> kept st st'"
  using same_tables_ok same_tables_kept by blast

lemma ok_coalesce:
  assumes st: "ok st" and p: "pend_ok p" "P p"
    and r: "try_coalesce_declare env draws p st = Some (reply, q, st')"
  shows "ok st' \<and> kept st st' \<and> (reply = None \<longrightarrow> q = p \<and> st' = st)"
proof -
  let ?l = "coalesce_lookup_locked (template_hash (env_tip env) p) (env_now env) st"
  consider "reply = None" "q = p" "st' = st"
    | (go) el rc q2 st2 where "token_accept_declare_locked (env_now2 env) draws p el st = Some (rc, q2, st2)"
      "(reply, st') = (if rc \<noteq> 0 then error_declare (pd_request_id q2) (token_accept_error rc) st2
        else success_declare q2 (JD_STAT_INC st_declare_ok_update (JD_STAT_INC st_coalesce_hit_update st2)))"
    using r by (auto simp: try_coalesce_declare_def Let_def bind_eq_Some_conv
        split: option.splits if_splits prod.splits)
  then show ?thesis
  proof cases
    case go
    have s: "ok st2" "kept st st2" using ok_accept [OF st p go(1)] by simp_all
    have "same_tables st2 st'" "reply \<noteq> None"
      using go(2) same_tables_error [of st2 "pd_request_id q2" "token_accept_error rc"]
        same_tables_trans [OF same_tables_inc [OF same_tables_stats(2)] same_tables_success, of st2]
        error_declare_carries [OF token_accept_error_code, of "pd_request_id q2" rc st2]
        success_declare_some
      by (auto split: if_splits simp: prod_eq_iff)
    then show ?thesis using ok_same [OF s(1)] kept_trans [OF s(2)] by blast
  qed (use st in simp)
qed

lemma ok_skip_check:
  assumes st: "ok st" and p: "pend_ok p" "P p"
    and r: "session_accept_declare_skip_check env draws p st = Some (reply, st')"
  shows "ok st' \<and> kept st st'"
proof -
  obtain el rc q st2 where a: "token_accept_declare_locked (env_now2 env) draws p el st = Some (rc, q, st2)"
    and e: "(reply, st') = (if rc \<noteq> 0 then error_declare (pd_request_id q) (token_accept_error rc) st2
        else success_declare q (JD_STAT_INC st_declare_ok_update st2))"
    using r by (auto simp: session_accept_declare_skip_check_def Let_def bind_eq_Some_conv
        split: if_splits prod.splits)
  have s: "ok st2" "kept st st2" using ok_accept [OF st p a] by simp_all
  have "same_tables st2 st'"
    using e same_tables_error [of st2 "pd_request_id q" "token_accept_error rc"]
      same_tables_trans [OF same_tables_stats(2) same_tables_success, of st2]
    by (auto split: if_splits simp: prod_eq_iff)
  then show ?thesis using ok_same [OF s(1)] kept_trans [OF s(2)] by blast
qed

lemma ok_slot [simp]:
  "tables_ok P T (st\<lparr>jd_checkblock_inflight := n\<rparr>) = tables_ok P T st"
  "tables_ok P T (st\<lparr>jd_validate_q := q\<rparr>) = tables_ok P T st"
  by (simp_all add: tables_ok_def tokens_exact_def tokens_bounded_def cache_ok_def cache_exact_def
      coalesce_ok_def pending_count_client_locked_def)

lemma ok_start_validation:
  assumes st: "ok st" "queue_ok P st" and p: "pend_ok p" "P p"
    and r: "start_declare_validation env draws p st = Some (reply, st')"
  shows "ok st' \<and> queue_ok P st' \<and> client_keys st' = client_keys st"
proof -
  obtain c q st2 where c: "try_coalesce_declare env draws p st = Some (c, q, st2)"
    using r by (auto simp: start_declare_validation_def bind_eq_Some_conv split: if_splits)
  note k = ok_coalesce [OF st(1) p c]
  show ?thesis
  proof (cases "c = None")
    case False
    then show ?thesis using r k st kept_queue [of st st2 P]
      by (auto simp: start_declare_validation_def c kept_def)
  next
    case True
    then have q: "q = p" "st2 = st" using k by simp_all
    let ?skip = "case find_client (pd_client_id p) st of None \<Rightarrow> False | Some c \<Rightarrow> jc_checkblock_ok c"
    show ?thesis
    proof (cases ?skip)
      case skip: True
      then have "session_accept_declare_skip_check env draws p st = Some (reply, st')"
        using r True by (simp add: start_declare_validation_def c q)
      from ok_skip_check [OF st(1) p this] show ?thesis
        using st(2) kept_queue [of st st' P] by (simp add: kept_def)
    next
      case skip: False
      have r': "(let (begun, st) = checkblock_try_begin st in
         if \<not> begun then Some (error_declare (pd_request_id p) (ascii ''busy'') st)
         else if \<not> env_queue_ok env then
           Some (error_declare (pd_request_id p) (ascii ''busy'') (checkblock_end st))
         else
           Some (None, st\<lparr>jd_validate_q := jd_validate_q st @
                   [p\<lparr>pd_missing := [], pd_awaiting_missing := False\<rparr>]\<rparr>)) = Some (reply, st')"
        using r True skip unfolding start_declare_validation_def c q by simp
      have busy: "same_tables s (snd (error_declare (pd_request_id p) (ascii ''busy'') s))" for s by simp
      consider "same_tables st st'"
        | "st' = st\<lparr>jd_checkblock_inflight := jd_checkblock_inflight st + 1, jd_validate_q := jd_validate_q st @
             [p\<lparr>pd_missing := [], pd_awaiting_missing := False\<rparr>]\<rparr>" "jd_checkblock_inflight st < 4"
      proof (cases "jd_checkblock_inflight st < 4")
        case True
        let ?s = "st\<lparr>jd_checkblock_inflight := jd_checkblock_inflight st + 1\<rparr>"
        have b: "checkblock_try_begin st = (True, ?s)" "checkblock_end ?s = st"
          using True st(2) by (simp_all add: checkblock_try_begin_def SV2_JD_CHECKBLOCK_MAX_INFLIGHT_def
              checkblock_end_def queue_ok_def)
        show ?thesis
        proof (cases "env_queue_ok env")
          case False
          then have "st' = snd (error_declare (pd_request_id p) (ascii ''busy'') st)"
            using r' by (simp add: b prod_eq_iff)
          then show ?thesis using busy that(1) by simp
        next
          case q: True
          then show ?thesis using r' True by (intro that(2)) (simp_all add: b)
        qed
      next
        case False
        then have "st' = snd (error_declare (pd_request_id p) (ascii ''busy'') st)"
          using r' by (simp add: checkblock_try_begin_def SV2_JD_CHECKBLOCK_MAX_INFLIGHT_def prod_eq_iff)
        then show ?thesis using busy that(1) by simp
      qed
      then show ?thesis
      proof cases
        case 1
        then show ?thesis using st same_tables_ok same_tables_fields(12) by blast
      next
        case 2
        have "pend_ok (p\<lparr>pd_missing := [], pd_awaiting_missing := False\<rparr>)"
          using p(1) by (simp add: pend_ok_def)
        then show ?thesis
          using 2 st P_waits [OF p(2)] by (auto simp: queue_ok_def client_keys_def)
      qed
    qed
  qed
qed

lemma ok_coalesce_note: "ok st \<Longrightarrow> ok (coalesce_note_locked h el now st) \<and> kept st (coalesce_note_locked h el now st)"
  using coalesce_note_ok [of st h el now]
  by (auto simp: tables_ok_def tokens_exact_def tokens_bounded_def cache_ok_def cache_exact_def
      pending_count_client_locked_def kept_def client_keys_def)

lemma ok_validate:
  assumes st: "ok st" "queue_ok P st" and i: "i < length (jd_validate_q st)"
    and r: "jd_validate_process env draws i st = Some (reply, st')"
  shows "ok st' \<and> queue_ok P st' \<and> client_keys st' = client_keys st"
proof -
  let ?p = "jd_validate_q st ! i"
  have p: "pend_ok ?p" "P ?p" using st(2) i by (simp_all add: queue_ok_def)
  obtain st2 where f: "finalize_declare_check env draws ?p st = Some (reply, st2)"
    and e: "st' = st2\<lparr>jd_validate_q := remove_nth i (jd_validate_q st2)\<rparr>"
    using r by (auto simp: jd_validate_process_def bind_eq_Some_conv)
  have pos: "jd_checkblock_inflight st > 0" using st(2) i by (auto simp: queue_ok_def)
  have fin: "ok st2 \<and> client_keys st2 = client_keys st \<and> jd_validate_q st2 = jd_validate_q st \<and>
      jd_checkblock_inflight st2 = jd_checkblock_inflight st - 1"
    if s: "ok s" "kept st s" "same_tables (checkblock_end s) st2" for s
    using that same_tables_fields [OF s(3)] same_tables_ok(1) [OF s(3), of P T] pos
    by (auto simp: checkblock_end_def kept_def client_keys_def)
  have "ok st2 \<and> client_keys st2 = client_keys st \<and> jd_validate_q st2 = jd_validate_q st \<and>
      jd_checkblock_inflight st2 = jd_checkblock_inflight st - 1"
  proof -
    let ?stats = "\<lambda>n. st\<lparr>jd_stats := st_checkblock_fail_update (\<lambda>k. k + n) (jd_stats st)\<rparr>"
    have s0: "ok (?stats n)" "kept st (?stats n)" for n
      using ok_same [OF st(1), of "?stats n"] by simp_all
    note finalize_cases [OF f]
    then show ?thesis
    proof cases
      case (1 n code)
      then have "st2 = snd (error_declare (pd_request_id ?p) code (checkblock_end (?stats n)))"
        by (simp add: prod_eq_iff)
      then have "same_tables (checkblock_end (?stats n)) st2" by simp
      then show ?thesis by (rule fin [OF s0])
    next
      case go: (2 n el rc q s)
      have s: "ok s" "kept st s" using ok_accept [OF s0(1) p go(1)] kept_trans [OF s0(2)] by blast+
      from go(2) consider
          (bad) "(reply, st2) = error_declare (pd_request_id q) (token_accept_error rc) (checkblock_end s)"
        | (good) h now s' where "s' = s \<or> s' = coalesce_note_locked h el now s"
            "(reply, st2) = success_declare q (update_client (pd_client_id q) (\<lambda>c. c\<lparr>jc_checkblock_ok := True\<rparr>)
              (JD_STAT_INC st_declare_ok_update (checkblock_end s')))"
        by blast
      then show ?thesis
      proof cases
        case bad
        then have "st2 = snd (error_declare (pd_request_id q) (token_accept_error rc) (checkblock_end s))"
          by (simp add: prod_eq_iff)
        then have "same_tables (checkblock_end s) st2" by simp
        then show ?thesis by (rule fin [OF s])
      next
        case good
        let ?u = "update_client (pd_client_id q) (\<lambda>c. c\<lparr>jc_checkblock_ok := True\<rparr>)
             (JD_STAT_INC st_declare_ok_update (checkblock_end s'))"
        have "st2 = snd (success_declare q ?u)" using good(2) by (simp add: prod_eq_iff)
        then have "same_tables ?u st2" by simp
        moreover have "same_tables (checkblock_end s') ?u"
          by (rule same_tables_trans [OF same_tables_stats(2) same_tables_client]) simp
        ultimately have x: "same_tables (checkblock_end s') st2" using same_tables_trans by blast
        have "ok s'" "kept st s'" using good(1) s ok_coalesce_note [OF s(1)] kept_trans [OF s(2)] by blast+
        then show ?thesis using x by (rule fin)
      qed
    qed
  qed
  moreover have "\<forall>p\<in>set (remove_nth i (jd_validate_q st)). pend_ok p \<and> P p"
    using st(2) set_remove_nth by (fastforce simp: queue_ok_def)
  ultimately show ?thesis
    using st(2) length_remove_nth [OF i] by (auto simp: e queue_ok_def client_keys_def)
qed

lemma ok_set_tokens:
  assumes "ok st" and "tokens_exact (set_tokens ts acc st)" and "tokens_bounded (set_tokens ts acc st)"
    and "\<forall>t\<in>set ts. T t"
  shows "ok (set_tokens ts acc st) \<and> kept st (set_tokens ts acc st)"
proof (rule ok_only_tokens [OF assms(1) _ assms(2,3)])
  show "only_tokens st (set_tokens ts acc st)"
    by (rule only_tokensI [where P = "\<lambda>_. True" and ts = ts and acc = acc]) (cases acc, simp add: set_tokens_def)
  show "\<forall>t\<in>set (jd_tokens (set_tokens ts acc st)). T t" using assms(4) by simp
qed

lemma ok_touch:
  fixes now :: int
  assumes st: "ok st" and i: "i < length (jd_tokens st)"
  defines "st' \<equiv> st\<lparr>jd_tokens := (jd_tokens st)[i := (jd_tokens st ! i)\<lparr>tk_created := now\<rparr>]\<rparr>"
  shows "ok st' \<and> kept st st'"
proof -
  let ?t = "(jd_tokens st ! i)\<lparr>tk_created := now\<rparr>"
  let ?ts = "(jd_tokens st)[i := ?t]"
  have e: "st' = set_tokens ?ts (jd_token_count st, jd_token_snapshot_bytes st) st"
    by (simp add: st'_def set_tokens_def)
  have "T (jd_tokens st ! i)" using st i by (simp add: tables_ok_def)
  then have "T ?t" by (rule T_same) simp
  then have ts: "\<forall>t\<in>set ?ts. T t"
    using st by (auto simp: tables_ok_def dest!: set_update_subset_insert [THEN subsetD])
  have "tokens_exact st \<and> tokens_bounded st" using st by (simp add: tables_ok_def)
  then have "tokens_exact st' \<and> tokens_bounded st'"
    using tokens_exact_touch [OF _ _ i, of now] by (simp add: st'_def)
  then show ?thesis using ok_set_tokens [OF st _ _ ts] unfolding e by blast
qed

lemma ok_make_room:
  assumes st: "ok st"
  shows "\<exists>st'. make_token_room st = Some st' \<and> ok st' \<and> kept st st'"
proof -
  have x: "tokens_exact st" "tokens_bounded st" using st by (simp_all add: tables_ok_def)
  obtain ts acc where r: "make_token_room st = Some (set_tokens ts acc st)" "tokens_exact (set_tokens ts acc st)"
    "set ts \<subseteq> set (jd_tokens st)" "length ts \<le> length (jd_tokens st)" "held ts \<le> held (jd_tokens st)"
    "\<forall>cid. held_by cid ts \<le> held_by cid (jd_tokens st)"
    using make_token_room_result [OF x(1)] by blast
  have "tokens_bounded (set_tokens ts acc st)"
    using x(2) by (rule tokens_bounded_less) (use r in simp_all)
  then show ?thesis using ok_set_tokens [OF st r(2)] r(1,3) st by (auto simp: tables_ok_def)
qed

lemma ok_append:
  assumes st: "ok st" and t: "T t" "\<not> tk_declared t" "tk_snapshot_bytes t = 0"
    and n: "jd_token_count st < SV2_JD_MAX_TOKENS_GLOBAL"
  defines "st' \<equiv> st\<lparr>jd_tokens := jd_tokens st @ [t], jd_token_count := jd_token_count st + 1\<rparr>"
  shows "ok st' \<and> kept st st'"
proof -
  have e: "st' = set_tokens (jd_tokens st @ [t]) (jd_token_count st + 1, jd_token_snapshot_bytes st) st"
    by (simp add: st'_def set_tokens_def)
  have "tokens_exact st'" "tokens_bounded st'"
    using st t n by (simp_all add: st'_def tables_ok_def tokens_exact_def tokens_bounded_def SV2_JD_MAX_TOKENS_GLOBAL_def)
  moreover have "\<forall>t\<in>set (jd_tokens st @ [t]). T t" using st t by (simp add: tables_ok_def)
  ultimately show ?thesis using ok_set_tokens [OF st] unfolding e by blast
qed

lemma same_tables_allocate_reply [simp]: "same_tables st (snd (allocate_reply l r tok outs st))"
  by (simp add: allocate_reply_def Let_def same_tables_inc)

lemma ok_allocate:
  assumes st: "ok st" and E: "E env"
    and r: "handle_allocate env draws cid payload st = Some (reply, st')"
  shows "ok st' \<and> kept st st'"
proof -
  have x: "ok s" "kept st s" if "same_tables (expire_old_tokens_locked (env_now env) st) s" for s
    using ok_expire [OF st, of "env_now env"] ok_same [OF _ that] kept_trans by blast+
  show ?thesis
    using r
  proof (cases rule: handle_allocate_cases)
    case (3 s req i)
    note s = x [OF 3(1)]
    let ?s = "s\<lparr>jd_tokens := (jd_tokens s)[i := (jd_tokens s ! i)\<lparr>tk_created := env_now env\<rparr>]\<rparr>"
    have "ok ?s \<and> kept s ?s" using ok_touch [OF s(1)] reissue_index_Some [OF 3(3)] by blast
    moreover have "same_tables ?s st'"
      using 3(4) same_tables_allocate_reply [of ?s] by (auto simp: allocate_reissue_def Let_def prod_eq_iff)
    ultimately show ?thesis using ok_same kept_trans s(2) by blast
  next
    case (4 s req n limited)
    note s = x [OF 4(1)]
    obtain s2 where m: "make_token_room s = Some s2" "ok s2" "kept s s2" using ok_make_room [OF s(1)] by blast
    show ?thesis
    proof (cases "jd_token_count s2 \<ge> SV2_JD_MAX_TOKENS_GLOBAL")
      case True
      then have "same_tables s2 st'" using 4(3) by (auto simp: allocate_new_def m(1))
      then show ?thesis using ok_same [OF m(2)] kept_trans s(2) m(3) by blast
    next
      case False
      then obtain d ds where d: "draws = d # ds" using 4(3) by (cases draws) (auto simp: allocate_new_def m(1))
      let ?u = "update_client cid (\<lambda>c. c\<lparr>jc_alloc_count := n + 1\<rparr>) s2"
      let ?t = "new_token d cid (amt_user_identifier req) (env_now env)
        (build_allocate_outputs env 64 (amt_user_identifier req))"
      let ?s = "?u\<lparr>jd_tokens := jd_tokens ?u @ [?t], jd_token_count := jd_token_count ?u + 1\<rparr>"
      have u0: "same_tables s2 ?u" by (rule same_tables_client) simp
      then have u: "ok ?u" "kept s2 ?u" using ok_same [OF m(2)] by blast+
      have "jd_token_count ?u < SV2_JD_MAX_TOKENS_GLOBAL" using False same_tables_fields(5) [OF u0] by simp
      then have "ok ?s \<and> kept ?u ?s" by (intro ok_append u(1) T_new E) simp_all
      moreover have "same_tables ?s st'"
      proof -
        have "(reply, st') = allocate_reply limited (amt_request_id req) d
            (build_allocate_outputs env 64 (amt_user_identifier req)) ?s"
          using 4(3) False by (simp add: allocate_new_def Let_def m(1) d)
        then have "st' = snd (allocate_reply limited (amt_request_id req) d
            (build_allocate_outputs env 64 (amt_user_identifier req)) ?s)" by (simp add: prod_eq_iff)
        then show ?thesis by simp
      qed
      ultimately have "ok st'" "kept ?u st'" using ok_same kept_trans by blast+
      then show ?thesis using kept_trans [OF kept_trans [OF s(2) m(3)] kept_trans [OF u(2)]] by simp
    qed
  next
    case (2 s)
    note s = x [OF 2(1)]
    show ?thesis using ok_same [OF s(1) same_tables_stats(2)] kept_trans [OF s(2)] by (simp add: 2(3))
  qed (use st in simp)
qed

text \<open>Declarations that wait stay within the limits: one more only where the code allows it.\<close>

lemma ok_queue_missing:
  assumes st: "ok st" and p: "pend_ok p" "P p"
    and room: "length (pending_declares st) < 128" "pending_count_client_locked (pd_client_id p) st < 8"
  shows "ok (queue_missing p ms st) \<and> kept st (queue_missing p ms st)"
proof -
  have "pend_ok (p\<lparr>pd_missing := map of_nat ms, pd_awaiting_missing := True\<rparr>)"
    using p(1) by (simp add: pend_ok_def)
  moreover have "P (p\<lparr>pd_missing := map of_nat ms, pd_awaiting_missing := True\<rparr>)" by (rule P_waits [OF p(2)])
  moreover have "pending_count_client_locked cid (queue_missing p ms st) =
      pending_count_client_locked cid st + (if pd_client_id p = cid then 1 else 0)" for cid
    by (simp add: pending_count_client_locked_def queue_missing_def)
  ultimately show ?thesis
    using st room
    by (auto simp: tables_ok_def queue_missing_def tokens_exact_def tokens_bounded_def cache_ok_def cache_exact_def
        coalesce_ok_def kept_def client_keys_def split: if_splits)
qed

lemma ok_pending_less:
  assumes st: "ok st" and s: "set ps \<subseteq> set (pending_declares st)" "length ps \<le> length (pending_declares st)"
    "\<And>cid. length (filter (\<lambda>p. pd_client_id p = cid) ps) \<le>
      length (filter (\<lambda>p. pd_client_id p = cid) (pending_declares st))"
  shows "ok (st\<lparr>pending_declares := ps\<rparr>) \<and> kept st (st\<lparr>pending_declares := ps\<rparr>)"
  using st s order_trans [OF s(3)]
  by (auto simp: tables_ok_def tokens_exact_def tokens_bounded_def cache_ok_def cache_exact_def
      coalesce_ok_def kept_def client_keys_def pending_count_client_locked_def)

lemma ok_remove_pending:
  assumes "ok st"
  shows "ok (remove_pending_declare_locked cid r st) \<and> kept st (remove_pending_declare_locked cid r st)"
proof (cases "first_index (\<lambda>p. pd_client_id p = cid \<and> pd_request_id p = r) (pending_declares st)")
  case (Some i)
  then have "i < length (pending_declares st)" by (blast dest: first_index_Some)
  then have "length (remove_nth i (pending_declares st)) \<le> length (pending_declares st)"
    using length_remove_nth [of i "pending_declares st"] by simp
  from ok_pending_less [OF assms set_remove_nth this filter_remove_nth] show ?thesis
    by (simp add: remove_pending_declare_locked_def Some)
qed (use assms in \<open>simp add: remove_pending_declare_locked_def\<close>)

lemma ok_declare_transactions:
  assumes st: "ok st" "queue_ok P st" and p: "pend_ok p" "P p"
    and r: "declare_transactions env draws p st = Some (reply, st')"
  shows "ok st' \<and> queue_ok P st' \<and> client_keys st' = client_keys st"
proof -
  obtain f q where f: "pending_fill_from_cache_locked st p = (f, q)" by fastforce
  have q: "pend_ok q" "fills p q" "P q"
    using pending_fill_ok [OF _ p(1) f] st(1) P_fills [OF p(2)] by (auto simp: tables_ok_def)
  let ?m = "pending_collect_missing q SV2_MAX_JD_TXNS"
  have fin: "ok st' \<and> queue_ok P st' \<and> client_keys st' = client_keys st"
    if "ok s" "kept st s" "same_tables s st'" for s
  proof -
    have "ok st' \<and> kept st st'" using ok_same [OF that(1,3)] kept_trans [OF that(2)] by blast
    then show ?thesis using kept_queue [of st st' P] st(2) by (auto simp: kept_def)
  qed
  have err: "same_tables s st'" if "Some (error_declare (pd_request_id q) code s) = Some (reply, st')" for code s
    using that same_tables_error [of s "pd_request_id q" code] by (auto simp: prod_eq_iff)
  consider code where "Some (error_declare (pd_request_id q) code st) = Some (reply, st')"
    | code where "?m \<noteq> []" "pending_may_add_locked (pd_client_id q) st"
        "Some (error_declare (pd_request_id q) code
          (remove_pending_declare_locked (pd_client_id q) (pd_request_id q) (queue_missing q ?m st))) = Some (reply, st')"
    | "?m \<noteq> []" "pending_may_add_locked (pd_client_id q) st" "st' = JD_STAT_INC st_provide_missing_update (queue_missing q ?m st)"
    | "start_declare_validation env draws q st = Some (reply, st')"
    using r unfolding declare_transactions_def f Let_def prod.case by (auto split: if_splits option.splits)
  then show ?thesis
  proof cases
    case 1
    then show ?thesis using fin [OF st(1) kept_refl err] by simp
  next
    case 2
    have s: "ok (queue_missing q ?m st)" "kept st (queue_missing q ?m st)"
      using ok_queue_missing [OF st(1) q(1,3)] 2(2)
      by (auto simp: pending_may_add_locked_def SV2_JD_MAX_PENDING_GLOBAL_def SV2_JD_MAX_PENDING_PER_CLIENT_def
          split: if_splits)
    show ?thesis
      by (rule fin [OF _ _ err [OF 2(3)]]) (use ok_remove_pending [OF s(1)] kept_trans [OF s(2)] in blast)+
  next
    case 3
    have s: "ok (queue_missing q ?m st)" "kept st (queue_missing q ?m st)"
      using ok_queue_missing [OF st(1) q(1,3)] 3(2)
      by (auto simp: pending_may_add_locked_def SV2_JD_MAX_PENDING_GLOBAL_def SV2_JD_MAX_PENDING_PER_CLIENT_def
          split: if_splits)
    show ?thesis by (rule fin [OF s]) (simp add: 3(3))
  next
    case 4
    then show ?thesis by (rule ok_start_validation [OF st q(1,3)])
  qed
qed

lemma ok_declare:
  assumes st: "ok st" "queue_ok P st" and E: "E env"
    and r: "handle_declare env draws cid payload st = Some (reply, st')"
  shows "ok st' \<and> queue_ok P st' \<and> client_keys st' = client_keys st"
  using r
proof (cases rule: handle_declare_cases)
  case (2 s decl code)
  then have "same_tables st st'"
    using same_tables_trans [OF 2(1) same_tables_error, of "dmj_request_id decl" code] by (auto simp: prod_eq_iff)
  then show ?thesis using st same_tables_ok same_tables_fields(12) by blast
next
  case (3 s decl i)
  have s: "ok s" "queue_ok P s" "client_keys s = client_keys st"
    using st same_tables_ok [OF 3(1)] same_tables_fields(12) [OF 3(1)] by blast+
  have "i < length (jd_tokens s)" using find_token_Some [OF 3(4)] by blast
  then have "T (jd_tokens s ! i)" using s(1) by (simp add: tables_ok_def)
  then have "P (new_pending cid (env_now env) decl)" using P_new [OF E _ 3(6)] by blast
  from ok_declare_transactions [OF s(1,2) pend_ok_new [OF 3(2)] this 3(7)] show ?thesis using s(3) by simp
qed (use st in simp)

lemma ok_set_cache:
  "ok st \<Longrightarrow> cache_ok (set_cache es n b st) \<Longrightarrow> ok (set_cache es n b st) \<and> kept st (set_cache es n b st)"
  by (simp add: tables_ok_def tokens_exact_def tokens_bounded_def coalesce_ok_def kept_def client_keys_def
      pending_count_client_locked_def set_cache_def)

lemma ok_provide_missing:
  assumes st: "ok st" "queue_ok P st"
    and r: "handle_provide_missing_success env draws cid payload st = Some (reply, st')"
  shows "ok st' \<and> queue_ok P st' \<and> client_keys st' = client_keys st"
proof (cases "\<exists>c m i. find_client cid st = Some c \<and> jc_setup_ok c \<and>
    sv2_decode_provide_missing_transactions_success payload = Some m \<and>
    first_index (\<lambda>p. pd_client_id p = cid \<and> pd_request_id p = pms_request_id m \<and> pd_awaiting_missing p)
      (pending_declares st) = Some i")
  case False
  then have "st' = st"
    using r by (auto simp: handle_provide_missing_success_def Let_def split: option.splits if_splits)
  then show ?thesis using st by simp
next
  case True
  then obtain c m i where c: "find_client cid st = Some c" "jc_setup_ok c"
    and m: "sv2_decode_provide_missing_transactions_success payload = Some m"
    and i: "first_index (\<lambda>p. pd_client_id p = cid \<and> pd_request_id p = pms_request_id m \<and> pd_awaiting_missing p)
      (pending_declares st) = Some i" by blast
  let ?p = "pending_declares st ! i"
  let ?s = "st\<lparr>pending_declares := remove_nth i (pending_declares st)\<rparr>"
  have il: "i < length (pending_declares st)" "pd_client_id ?p = cid" using first_index_Some [OF i] by auto
  have p: "pend_ok ?p" "P ?p" using st(1) il(1) by (simp_all add: tables_ok_def)
  have "length (remove_nth i (pending_declares st)) \<le> length (pending_declares st)"
    using length_remove_nth [OF il(1)] by simp
  then have s: "ok ?s" "kept st ?s"
    using ok_pending_less [OF st(1) set_remove_nth _ filter_remove_nth] by blast+
  have room: "length (pending_declares ?s) < 128" "pending_count_client_locked cid ?s < 8"
    using length_remove_nth [OF il(1)] filter_remove_nth_hit [OF il(1), of "\<lambda>p. pd_client_id p = cid"] il(2) st(1)
    by (simp_all add: tables_ok_def pending_count_client_locked_def less_eq_Suc_le)
  have "cache_ok ?s" using s(1) by (simp add: tables_ok_def)
  from pending_store_result [OF this p(1) missing_txs_short [OF m], of "env_now env"]
  obtain f q es n b where store: "pending_store_matching_txs (env_now env) (pms_transactions m) ?p ?s =
      Some (f, q, set_cache es n b ?s)" and co: "cache_ok (set_cache es n b ?s)" and q: "pend_ok q" "fills ?p q"
    by blast
  let ?t = "set_cache es n b ?s"
  have qP: "P q" "pd_client_id q = cid" using P_fills [OF p(2) q(2)] fills_fields [OF q(2)] il(2) by simp_all
  have t: "ok ?t" "kept st ?t" using ok_set_cache [OF s(1) co] kept_trans [OF s(2)] by blast+
  have qt: "queue_ok P ?t" "client_keys ?t = client_keys st" using kept_queue [OF t(2)] st(2) t(2) by (simp_all add: kept_def)
  have rt: "length (pending_declares ?t) < 128" "pending_count_client_locked (pd_client_id q) ?t < 8"
    using room qP(2) by (simp_all add: set_cache_def pending_count_client_locked_def)
  let ?m = "pending_collect_missing q SV2_MAX_JD_TXNS"
  have w: "ok (queue_missing q ?m ?t)" "kept ?t (queue_missing q ?m ?t)"
    using ok_queue_missing [OF t(1) q(1) qP(1) rt] by blast+
  have fin: "ok st' \<and> queue_ok P st' \<and> client_keys st' = client_keys st"
    if "ok u" "kept st u" "same_tables u st'" for u
  proof -
    have "ok st' \<and> kept st st'" using ok_same [OF that(1,3)] kept_trans [OF that(2)] by blast
    then show ?thesis using kept_queue [of st st' P] st(2) by (auto simp: kept_def)
  qed
  have err: "same_tables s st'" if "Some (error_declare (pd_request_id q) code s) = Some (reply, st')" for code s
    using that same_tables_error [of s "pd_request_id q" code] by (auto simp: prod_eq_iff)
  have "(if \<not> f then Some (error_declare (pd_request_id q) (ascii ''invalid-template'') ?t)
      else if ?m \<noteq> [] then
        (case missing_reply (pd_request_id q) ?m of
           None \<Rightarrow> Some (error_declare (pd_request_id q) (ascii ''internal-error'')
             (remove_pending_declare_locked cid (pd_request_id q) (queue_missing q ?m ?t)))
         | Some x \<Rightarrow> Some (Some x, queue_missing q ?m ?t))
      else start_declare_validation env draws q ?t) = Some (reply, st')"
    using r unfolding handle_provide_missing_success_def c(1) m Let_def
    by (simp add: c(2) i store)
  then consider code where "Some (error_declare (pd_request_id q) code ?t) = Some (reply, st')"
    | code where "Some (error_declare (pd_request_id q) code
        (remove_pending_declare_locked cid (pd_request_id q) (queue_missing q ?m ?t))) = Some (reply, st')"
    | "st' = queue_missing q ?m ?t"
    | "start_declare_validation env draws q ?t = Some (reply, st')"
    by (auto split: if_splits option.splits)
  then show ?thesis
  proof cases
    case 1
    then show ?thesis using fin [OF t err] by simp
  next
    case 2
    show ?thesis
      by (rule fin [OF _ _ err [OF 2]]) (use ok_remove_pending [OF w(1)] kept_trans t(2) w(2) in blast)+
  next
    case 3
    show ?thesis by (rule fin [OF w(1) kept_trans [OF t(2) w(2)]]) (simp add: 3)
  next
    case 4
    from ok_start_validation [OF t(1) qt(1) q(1) qP(1) 4] show ?thesis using qt(2) by simp
  qed
qed

lemma ok_submit_q [simp]:
  "tables_ok P T (st\<lparr>jd_submit_q := q\<rparr>) = tables_ok P T st" "queue_ok P (st\<lparr>jd_submit_q := q\<rparr>) = queue_ok P st"
  "client_keys (st\<lparr>jd_submit_q := q\<rparr>) = client_keys st"
  by (simp_all add: tables_ok_def queue_ok_def client_keys_def tokens_exact_def tokens_bounded_def cache_ok_def
      cache_exact_def coalesce_ok_def pending_count_client_locked_def)

lemma ok_push_solution:
  assumes st: "ok st" "queue_ok P st"
    and r: "handle_push_solution env cid payload st = (reply, st')"
  shows "ok st' \<and> queue_ok P st' \<and> client_keys st' = client_keys st"
proof -
  let ?s = "JD_STAT_INC st_push_solution_update st"
  have "st' = st \<or> st' = ?s \<or> (\<exists>q. st' = ?s\<lparr>jd_submit_q := q\<rparr>)"
    using r by (auto simp: handle_push_solution_def Let_def split: option.splits if_splits prod.splits)
  moreover have "ok ?s" "queue_ok P ?s" "client_keys ?s = client_keys st"
    using st same_tables_ok [OF same_tables_stats(2)] same_tables_fields(12) [OF same_tables_stats(2)] by blast+
  ultimately show ?thesis using st by auto
qed

lemma ok_setup:
  assumes st: "ok st" "queue_ok P st" and r: "handle_setup cid payload st = (reply, st')"
  shows "ok st' \<and> queue_ok P st' \<and> client_keys st' = client_keys st"
proof -
  have "same_tables st (update_client cid (\<lambda>c. c\<lparr>jc_setup_ok := True, jc_full_template := True\<rparr>) st)"
    by (rule same_tables_client) simp
  then have "same_tables st st'"
    using r by (auto simp: handle_setup_def split: option.splits if_splits)
  then show ?thesis using st same_tables_ok same_tables_fields(12) by auto
qed

lemma ok_frame:
  assumes st: "jd_ok P T st" and E: "E env"
    and r: "sv2_jd_handle_frame env draws cid frame st = Some (reply, st')"
  shows "jd_ok P T st'"
proof (cases "st' = st")
  case True
  then show ?thesis using st by simp
next
  case False
  let ?g = "client_get cid True st"
  obtain cs where g: "?g = st\<lparr>jd_clients := cs\<rparr>" using client_get_eq by blast
  then have s: "ok ?g" "queue_ok P ?g" using st by (simp_all add: jd_ok_def)
  obtain s2 payload where e: "st' = client_put cid s2"
    and h: "handle_setup cid payload ?g = (reply, s2) \<or>
      handle_allocate env draws cid payload ?g = Some (reply, s2) \<or>
      handle_declare env draws cid payload ?g = Some (reply, s2) \<or>
      handle_provide_missing_success env draws cid payload ?g = Some (reply, s2) \<or>
      handle_push_solution env cid payload ?g = (reply, s2) \<or> s2 = ?g"
    using r False unfolding sv2_jd_handle_frame_def Let_def
    by (auto simp: bind_eq_Some_conv split: if_splits option.splits prod.splits)
  have "ok s2 \<and> queue_ok P s2 \<and> client_keys s2 = client_keys ?g"
    using h
  proof (elim disjE)
    assume "handle_allocate env draws cid payload ?g = Some (reply, s2)"
    from ok_allocate [OF s(1) E this] show ?thesis using s(2) kept_queue [of ?g s2 P] by (simp add: kept_def)
  qed (use ok_setup [OF s] ok_declare [OF s E] ok_provide_missing [OF s] ok_push_solution [OF s] s in blast)+
  moreover have "clients_ok st'"
    unfolding e using st calculation by (intro clients_ok_get_put [of st]) (simp_all add: jd_ok_def)
  ultimately show ?thesis by (simp add: jd_ok_def e client_put_def)
qed

text \<open>Freeing the tokens and the declarations of some clients.\<close>

lemma ok_drop:
  fixes Q :: "sv2_jd_token \<Rightarrow> bool" and R :: "sv2_jd_pending \<Rightarrow> bool"
  assumes st: "ok st" "queue_ok P st"
  defines "st' \<equiv> (free_tokens_where Q st)\<lparr>pending_declares := filter R (pending_declares st)\<rparr>"
  shows "ok st' \<and> queue_ok P st' \<and> client_keys st' = client_keys st"
proof -
  obtain acc where e: "free_tokens_where Q st = set_tokens (filter (\<lambda>t. \<not> Q t) (jd_tokens st)) acc st"
    using free_tokens_where_eq by blast
  have "only_tokens st st'" unfolding st'_def e by (rule only_tokensI) simp
  moreover have "tokens_exact st'" "tokens_bounded st'"
    using st free_tokens_where_exact [of st Q] free_tokens_where_bounded [of st Q]
    by (simp_all add: st'_def tables_ok_def)
  moreover have "\<forall>t\<in>set (jd_tokens st'). T t"
    using st(1) by (simp add: st'_def free_tokens_where_tokens tables_ok_def)
  ultimately have "ok st' \<and> kept st st'" by (rule ok_only_tokens [OF st(1)])
  then show ?thesis using kept_queue [of st st' P] st(2) by (simp add: kept_def)
qed

lemma ok_init: "jd_ok P T jd_init"
  by (simp add: jd_ok_def tables_ok_def queue_ok_def clients_ok_def jd_init_def tokens_exact_def tokens_bounded_def
      cache_ok_def cache_exact_def coalesce_ok_def pending_count_client_locked_def held_def held_by_def cached_def)

lemma ok_step:
  assumes "jd_ok P T st" and "jd_step E F st st'"
  shows "jd_ok P T st'"
  using assms(2)
proof (cases rule: jd_step.cases)
  case (frame env draws cid bs reply)
  then show ?thesis using ok_frame [OF assms(1)] by blast
next
  case (validate env draws i reply)
  then show ?thesis
    using ok_validate [of st i env draws reply st'] assms(1) by (simp add: jd_ok_def clients_ok_keys)
next
  case submit
  then show ?thesis using assms(1) by (simp add: jd_submit_process_def jd_ok_def clients_ok_keys)
next
  case (note_client cid address server)
  let ?f = "\<lambda>c. (case address of None \<Rightarrow> c | Some a \<Rightarrow> c\<lparr>jc_address := take 45 (cstr a)\<rparr>)\<lparr>jc_server := server\<rparr>"
  have "same_tables (client_get cid True st) (update_client cid ?f (client_get cid True st))"
    by (rule same_tables_client) (simp split: option.split)
  then have "clients_ok st'"
    using clients_ok_get_put [of st] assms(1) same_tables_fields(12) note_client
    by (simp add: sv2_jd_note_client_def jd_ok_def)
  moreover obtain cs where "client_get cid True st = st\<lparr>jd_clients := cs\<rparr>" using client_get_eq by blast
  ultimately show ?thesis
    using assms(1) note_client
    by (simp add: sv2_jd_note_client_def jd_ok_def client_put_def update_client_def)
next
  case (drop_client cid)
  let ?s = "case first_index (\<lambda>c. jc_client_id c = cid) (jd_clients st) of None \<Rightarrow> st
      | Some i \<Rightarrow> st\<lparr>jd_clients := remove_nth i (jd_clients st)\<rparr>"
  have s: "ok ?s" "queue_ok P ?s" "clients_ok ?s"
    using assms(1)
    by (auto simp: jd_ok_def clients_ok_def distinct_remove_nth split: option.split dest: set_remove_nth [THEN subsetD])
  have "pending_declares ?s = pending_declares st" by (simp split: option.split)
  with ok_drop [OF s(1,2), where Q = "\<lambda>t. tk_client_id t = cid" and R = "\<lambda>p. pd_client_id p \<noteq> cid"] s(3) show ?thesis
    by (simp add: drop_client sv2_jd_drop_client_def Let_def jd_ok_def clients_ok_keys)
next
  case drop_all
  have "ok (st\<lparr>jd_clients := []\<rparr>)" "queue_ok P (st\<lparr>jd_clients := []\<rparr>)" using assms(1) by (simp_all add: jd_ok_def)
  from ok_drop [OF this, where Q = "\<lambda>_. True" and R = "\<lambda>_. False"] show ?thesis
    by (simp add: drop_all sv2_jd_drop_all_def jd_ok_def clients_ok_keys client_keys_def)
next
  case (tip_change enabled)
  then show ?thesis
    using assms(1)
    by (auto simp: sv2_jd_on_tip_change_def jd_ok_def tables_ok_def queue_ok_def clients_ok_def tokens_exact_def
        tokens_bounded_def cache_ok_def cache_exact_def coalesce_ok_def pending_count_client_locked_def)
qed

lemma ok_reach:
  assumes "jd_reach E F st"
  shows "jd_ok P T st"
  using assms by (induction rule: jd_reach.induct) (simp_all add: ok_init ok_step)

end

end
