(* ===== verification/Jd_Server.thy ===== *)
theory Jd_Server
  imports Jd_Contract
begin

text \<open>
  The job declaration server in every reachable state: the tables are consistent and within their
  limits, and a declared token holds a complete block template.
\<close>

section \<open>The material of declared tokens\<close>

lemma compact_size_len_le: "sv2_compact_size_len v \<le> 9"
  by (simp add: sv2_compact_size_len_def)

lemma rebuild_size_nat:
  assumes "pend_ok p"
  shows "pending_rebuild_size_ok p el \<longleftrightarrow>
    80 + sv2_compact_size_len (of_nat (1 + pd_wtxid_count p)) + length (pd_coinbase_tx_prefix p) + unat el +
      length (pd_coinbase_tx_suffix p) + slot_bytes (pd_tx_raws p) \<le> 2 ^ 22"
proof -
  let ?c = "sv2_compact_size_len (of_nat (1 + pd_wtxid_count p))"
  let ?n = "80 + ?c + length (pd_coinbase_tx_prefix p) + unat el + length (pd_coinbase_tx_suffix p)"
  have b: "slot_bytes (pd_tx_raws p) \<le> 2 ^ 22" "length (pd_coinbase_tx_prefix p) < 2 ^ 16"
    "length (pd_coinbase_tx_suffix p) < 2 ^ 16" "unat (pd_tx_bytes p) = slot_bytes (pd_tx_raws p)"
    using assms by (simp_all add: pend_ok_def)
  have el: "unat el < 256" using unsigned_less [of el] by simp
  have n: "?n < 2 ^ 18" using b el compact_size_len_le [of "of_nat (1 + pd_wtxid_count p)"] by simp
  have e: "80 + of_nat (sv2_compact_size_len (of_nat (pd_wtxid_count p) + 1)) +
     of_nat (length (pd_coinbase_tx_prefix p)) + ucast el + of_nat (length (pd_coinbase_tx_suffix p)) =
     (of_nat ?n :: u64)"
    by (simp add: ac_simps)
  have "unat ((of_nat ?n :: u64) + pd_tx_bytes p) = ?n + slot_bytes (pd_tx_raws p)"
    using n b by (simp add: unat_word_ariths unat_of_nat)
  then show ?thesis
    unfolding pending_rebuild_size_ok_def e by (simp add: word_le_nat_alt SV2_JD_MAX_BLOCK_BYTES_def)
qed

lemma takes_material_ok:
  assumes "takes_material p t t'"
  shows "tk_declared t' \<and> material_ok t'"
proof -
  obtain q el now where q: "pend_ok q" "pending_txs_complete q" "pending_rebuild_size_ok q el"
    and t': "t' = token_steal_declare_locked now t q el (pending_snapshot_bytes q)"
    using assms by (auto simp: takes_material_def)
  have len: "length (pd_tx_raws q) = pd_wtxid_count q" using q(1) by (simp add: pend_ok_def)
  have "None \<notin> set (pd_tx_raws q)"
    using q(2) len by (auto simp: pending_txs_complete_def in_set_conv_nth list_all_iff split: if_splits)
  then show ?thesis
    using q(1) q(3) [unfolded rebuild_size_nat [OF q(1)]] len
    by (simp add: t' token_steal_declare_locked_def material_ok_def pend_ok_def)
qed

lemma new_pending_client [simp]: "pd_client_id (new_pending cid now decl) = cid"
  by (simp add: new_pending_def pending_alloc_tx_slots_def)

text \<open>What a token retains: its coinbase, its transactions and 44 bytes of tables for each of them.\<close>

definition retained :: "sv2_jd_token \<Rightarrow> nat" where
  "retained t =
     length (the (tk_coinbase_tx_prefix t)) + length (tk_coinbase_tx_suffix t) + slot_bytes (tk_tx_raws t) +
     44 * tk_wtxid_count t"

lemma snapshot_bytes_nat:
  assumes "pend_ok p"
  shows "unat (pending_snapshot_bytes p) = length (pd_coinbase_tx_prefix p) +
    length (pd_coinbase_tx_suffix p) + slot_bytes (pd_tx_raws p) + 44 * pd_wtxid_count p"
proof -
  let ?n = "length (pd_coinbase_tx_prefix p) + length (pd_coinbase_tx_suffix p) + 44 * pd_wtxid_count p"
  have b: "slot_bytes (pd_tx_raws p) \<le> 2 ^ 22" "length (pd_coinbase_tx_prefix p) < 2 ^ 16"
    "length (pd_coinbase_tx_suffix p) < 2 ^ 16" "unat (pd_tx_bytes p) = slot_bytes (pd_tx_raws p)"
    "pd_wtxid_count p \<le> 25000"
    using assms by (simp_all add: pend_ok_def)
  have "pending_snapshot_bytes p = of_nat ?n + pd_tx_bytes p"
    by (simp add: pending_snapshot_bytes_def Let_def algebra_simps)
  then show ?thesis using b by (simp add: unat_word_ariths unat_of_nat)
qed

lemma takes_material_retained:
  assumes "takes_material p t t'"
  shows "unat (tk_snapshot_bytes t') = retained t'"
  using assms snapshot_bytes_nat by (auto simp: takes_material_def token_steal_declare_locked_def retained_def)

definition token_sound :: "sv2_jd_token \<Rightarrow> bool" where
  "token_sound t \<longleftrightarrow> (tk_declared t \<longrightarrow> material_ok t \<and> unat (tk_snapshot_bytes t) = retained t)"

interpretation base: jd_contract "\<lambda>_. True" "\<lambda>_. True" token_sound
  by unfold_locales
     (auto simp: token_sound_def same_token_fields material_ok_def minted_token_def retained_def
      dest: takes_material_ok takes_material_retained)

text \<open>The invariant of the server, for any surroundings and any random values.\<close>

lemma reach_weaken: "jd_reach E F st \<Longrightarrow> jd_reach (\<lambda>_. True) (\<lambda>_ _. True) st"
proof (induction rule: jd_reach.induct)
  case (step st st')
  from step.hyps(2) have "jd_step (\<lambda>_. True) (\<lambda>_ _. True) st st'"
    by (cases rule: jd_step.cases) (auto intro: jd_step.intros)
  with step.IH show ?case by (rule jd_reach.step)
qed (rule jd_reach.start)

lemma reach_ok: "jd_reach E F st \<Longrightarrow> jd_ok (\<lambda>_. True) token_sound st"
  by (rule base.ok_reach [OF reach_weaken])

section \<open>Every handler returns\<close>

text \<open>
  The random generator still has more different values than the table can hold.  Nothing else
  is asked of the surroundings.
\<close>

definition fresh_draws :: "bytes list \<Rightarrow> bool" where
  "fresh_draws draws \<longleftrightarrow> distinct draws \<and> 4096 < length draws"

lemma accept_ends:
  assumes "base.ok st" and "fresh_draws draws"
  shows "\<exists>rc q s. token_accept_declare_locked now draws p el st = Some (rc, q, s)"
  using accept_returns [of st draws now p el] assms by (auto simp: tables_ok_def fresh_draws_def)

lemma coalesce_ends:
  assumes st: "base.ok st" and d: "fresh_draws draws"
  shows "\<exists>reply q s. try_coalesce_declare env draws p st = Some (reply, q, s)"
proof (cases "coalesce_lookup_locked (template_hash (env_tip env) p) (env_now env) st = None \<or>
    template_hash (env_tip env) p \<noteq> template_hash (env_tip2 env) p")
  case True
  then show ?thesis by (auto simp: try_coalesce_declare_def Let_def split: option.split)
next
  case False
  then obtain el where el: "coalesce_lookup_locked (template_hash (env_tip2 env) p) (env_now env) st = Some el"
    and h: "template_hash (env_tip env) p = template_hash (env_tip2 env) p" by auto
  obtain rc q s where a: "token_accept_declare_locked (env_now2 env) draws p el st = Some (rc, q, s)"
    using accept_ends [OF st d] by blast
  show ?thesis
    by (simp add: try_coalesce_declare_def Let_def h el a split: prod.split)
qed

lemma skip_check_ends:
  assumes "base.ok st" and "fresh_draws draws"
  shows "\<exists>r. session_accept_declare_skip_check env draws p st = Some r"
proof -
  obtain el where el: "(case derive_coinbase_enonce_len (pd_coinbase_tx_prefix p) of
      None \<Rightarrow> SV2_JD_DEFAULT_ENONCE_LEN | Some n \<Rightarrow> n) = el" by blast
  obtain rc q s where "token_accept_declare_locked (env_now2 env) draws p el st = Some (rc, q, s)"
    using accept_ends [OF assms] by blast
  then show ?thesis unfolding session_accept_declare_skip_check_def el Let_def by simp
qed

lemma start_validation_ends:
  assumes st: "base.ok st" and p: "pend_ok p" and d: "fresh_draws draws"
  shows "\<exists>r. start_declare_validation env draws p st = Some r"
proof -
  obtain c q s where e: "try_coalesce_declare env draws p st = Some (c, q, s)"
    using coalesce_ends [OF st d] by blast
  show ?thesis
  proof (cases "c = None")
    case False
    then show ?thesis unfolding start_declare_validation_def e by simp
  next
    case True
    then have "q = p" "s = st" using base.ok_coalesce [OF st p TrueI e] by simp_all
    then show ?thesis
      using skip_check_ends [OF st d, of env p] True unfolding start_declare_validation_def e
      by (auto simp: Let_def split: prod.split)
  qed
qed

lemma declare_transactions_ends:
  assumes st: "base.ok st" and p: "pend_ok p" and d: "fresh_draws draws"
  shows "\<exists>r. declare_transactions env draws p st = Some r"
proof -
  obtain f q where f: "pending_fill_from_cache_locked st p = (f, q)" by fastforce
  have "pend_ok q" using pending_fill_ok [OF _ p f] st by (simp add: tables_ok_def)
  from start_validation_ends [OF st this d, of env] show ?thesis
    unfolding declare_transactions_def f by (auto simp: Let_def split: option.split)
qed

lemma validate_ends:
  assumes st: "base.ok st" and d: "fresh_draws draws"
  shows "\<exists>r. jd_validate_process env draws i st = Some r"
proof -
  have "\<exists>r. finalize_declare_check env draws p st = Some r" for p
  proof -
    obtain r where r: "check_loop env p (enonce_tries env p)
        \<lparr> ck_block = None, ck_enonce_used = SV2_JD_DEFAULT_ENONCE_LEN, ck_valid = False,
          ck_reason = [], ck_any_ipc = False, ck_fails = 0 \<rparr> = r" by blast
    let ?s = "st\<lparr>jd_stats := st_checkblock_fail_update (\<lambda>n. n + ck_fails r) (jd_stats st)\<rparr>"
    have "base.ok ?s" using base.ok_same [OF st, of ?s] by simp
    then obtain rc q s where "token_accept_declare_locked (env_now2 env) draws p (ck_enonce_used r) ?s = Some (rc, q, s)"
      using accept_ends [OF _ d] by blast
    then show ?thesis unfolding finalize_declare_check_def r Let_def by simp
  qed
  then obtain reply s where "finalize_declare_check env draws (jd_validate_q st ! i) st = Some (reply, s)"
    by (metis surj_pair)
  then show ?thesis by (simp add: jd_validate_process_def)
qed

lemma allocate_new_ends:
  assumes st: "base.ok st" and d: "fresh_draws draws"
  shows "\<exists>r. allocate_new env draws cid rid user outs n limited st = Some r"
proof -
  obtain s where "make_token_room st = Some s" using base.ok_make_room [OF st] by blast
  moreover obtain x xs where "draws = x # xs" using d by (cases draws) (auto simp: fresh_draws_def)
  ultimately show ?thesis by (simp add: allocate_new_def Let_def)
qed

lemma ok_update_client:
  assumes "base.ok st" and "\<And>c. jc_client_id (f c) = jc_client_id c \<and> jc_refs (f c) = jc_refs c"
  shows "base.ok (update_client cid f st)"
  using base.ok_same [OF assms(1) same_tables_client [of f st cid, OF assms(2)]] by blast

lemma allocate_ends:
  assumes st: "base.ok st" and d: "fresh_draws draws"
  shows "\<exists>r. handle_allocate env draws cid payload st = Some r"
proof -
  have "base.ok (update_client cid (\<lambda>c. c\<lparr>jc_user_logged := True, jc_alloc_window_start := w,
      jc_alloc_count := n\<rparr>) (expire_old_tokens_locked now st))" for w n now
    by (rule ok_update_client) (use base.ok_expire [OF st] in auto)
  from allocate_new_ends [OF this d] show ?thesis
    by (auto simp: handle_allocate_def Let_def split: option.split)
qed

lemma declare_ends:
  assumes st: "base.ok st" and d: "fresh_draws draws"
  shows "\<exists>r. handle_declare env draws cid payload st = Some r"
proof -
  have s: "base.ok (update_client cid (\<lambda>c. c\<lparr>jc_declare_window_start := w, jc_declare_count := n\<rparr>) st)" for w n
    by (rule ok_update_client) (use st in auto)
  have "\<exists>r. declare_transactions env draws (new_pending cid (env_now env) decl) s = Some r"
    if "sv2_decode_declare_mining_job payload = Some decl" "base.ok s" for decl s
    by (rule declare_transactions_ends [OF that(2) pend_ok_new [OF that(1)] d])
  with s show ?thesis by (auto simp: handle_declare_def Let_def split: option.split)
qed

lemma provide_missing_ends:
  assumes st: "base.ok st" and d: "fresh_draws draws"
  shows "\<exists>r. handle_provide_missing_success env draws cid payload st = Some r"
proof (cases "\<exists>c m i. find_client cid st = Some c \<and> jc_setup_ok c \<and>
    sv2_decode_provide_missing_transactions_success payload = Some m \<and>
    first_index (\<lambda>p. pd_client_id p = cid \<and> pd_request_id p = pms_request_id m \<and> pd_awaiting_missing p)
      (pending_declares st) = Some i")
  case False
  then show ?thesis
    by (auto simp: handle_provide_missing_success_def Let_def split: option.split)
next
  case True
  then obtain c m i where c: "find_client cid st = Some c" "jc_setup_ok c"
    and m: "sv2_decode_provide_missing_transactions_success payload = Some m"
    and i: "first_index (\<lambda>p. pd_client_id p = cid \<and> pd_request_id p = pms_request_id m \<and> pd_awaiting_missing p)
      (pending_declares st) = Some i" by blast
  let ?p = "pending_declares st ! i"
  let ?s = "st\<lparr>pending_declares := remove_nth i (pending_declares st)\<rparr>"
  have il: "i < length (pending_declares st)" using first_index_Some [OF i] by auto
  have p: "pend_ok ?p" using st il by (simp add: tables_ok_def)
  have "length (remove_nth i (pending_declares st)) \<le> length (pending_declares st)"
    using length_remove_nth [OF il] by simp
  then have s: "base.ok ?s" using base.ok_pending_less [OF st set_remove_nth _ filter_remove_nth] by blast
  then have "cache_ok ?s" by (simp add: tables_ok_def)
  from pending_store_result [OF this p missing_txs_short [OF m], of "env_now env"]
  obtain f q es n b where store: "pending_store_matching_txs (env_now env) (pms_transactions m) ?p ?s =
      Some (f, q, set_cache es n b ?s)" and co: "cache_ok (set_cache es n b ?s)" and q: "pend_ok q"
    by blast
  obtain r where "start_declare_validation env draws q (set_cache es n b ?s) = Some r"
    using start_validation_ends [OF _ q d] base.ok_set_cache [OF s co] by blast
  then show ?thesis
    by (auto simp: handle_provide_missing_success_def c m i Let_def store split: option.split)
qed

text \<open>Every frame, on any tables within their limits, is handled to the end.\<close>

lemma frame_ends:
  assumes st: "jd_ok (\<lambda>_. True) token_sound st" and d: "fresh_draws draws"
  shows "\<exists>reply st'. sv2_jd_handle_frame env draws cid frame st = Some (reply, st')"
proof -
  obtain cs where "client_get cid True st = st\<lparr>jd_clients := cs\<rparr>" using client_get_eq by blast
  then have g: "base.ok (client_get cid True st)" using st by (simp add: jd_ok_def)
  have "\<exists>r. sv2_jd_handle_frame env draws cid frame st = Some r"
    using allocate_ends [OF g d, of env cid] declare_ends [OF g d, of env cid] provide_missing_ends [OF g d, of env cid]
    by (auto simp: sv2_jd_handle_frame_def Let_def bind_eq_Some_conv split: option.split)
  then show ?thesis by auto
qed

end
