(* ===== verification/Jd_Funds.thy ===== *)
theory Jd_Funds
  imports Jd_Server
begin

text \<open>
  Where the reward of a declared template goes.  In a shared pool every declared token's coinbase,
  with the extranonce in the gap the server derived, pays the pool's script and nothing else; and
  what the check does not cover.
\<close>

section \<open>A funded coinbase\<close>

definition funded :: "bytes \<Rightarrow> bytes \<Rightarrow> bytes \<Rightarrow> bool" where
  "funded script prefix suffix \<longleftrightarrow>
     (\<exists>gap value. derive_coinbase_enonce_len prefix = Some gap \<and> value \<noteq> 0 \<and>
        coinbase_spendable (prefix @ replicate (unat gap) 0 @ suffix) script = Some (value, 0))"

text \<open>A shared pool whose configured address stands for a script.\<close>

definition pool_pays :: "bytes \<Rightarrow> jd_env \<Rightarrow> bool" where
  "pool_pays script env \<longleftrightarrow>
     \<not> env_btcsolo env \<and>
     (\<exists>addr. env_btcaddress env = Some addr \<and> bch_address_to_script addr (env_cashaddr_prefix env) = Some script)"

lemma address_script_size: "bch_address_to_script addr pfx = Some script \<Longrightarrow> script \<noteq> [] \<and> length script \<le> 25"
  by (auto simp: bch_address_to_script_def hash160_to_p2pkh_script_def hash160_to_p2sh_script_def
      split: prod.splits bch_addr_type_t.splits)

lemma handed_out:
  assumes "pool_pays script env"
  shows "build_allocate_outputs env 64 user = [0x01] @ replicate 8 0 @ [of_nat (length script)] @ script"
    and "extract_first_output_script (build_allocate_outputs env 64 user) = Some script"
proof -
  have s: "script \<noteq> []" "length script \<le> 25"
    using assms address_script_size by (auto simp: pool_pays_def)
  show e: "build_allocate_outputs env 64 user = [0x01] @ replicate 8 0 @ [of_nat (length script)] @ script"
    using assms s by (auto simp: pool_pays_def build_allocate_outputs_def less_eq_Suc_le)
  show "extract_first_output_script (build_allocate_outputs env 64 user) = Some script"
    unfolding e by (rule extract_allocated) (use s in simp_all)
qed

section \<open>The bytes in the gap do not matter\<close>

text \<open>
  The accounting treats only the flag \<open>0x01\<close> as a marker, the derivation of the gap any flag
  but \<open>0x00\<close>.
\<close>

definition standard_marker :: "bytes \<Rightarrow> bool" where
  "standard_marker prefix \<longleftrightarrow> \<not> (prefix ! 4 = 0x00 \<and> prefix ! 5 \<noteq> 0x00 \<and> prefix ! 5 \<noteq> 0x01)"

text \<open>What the accounting reads after the input's script: the sequence number and the outputs.\<close>

definition suffix_spendable :: "bytes \<Rightarrow> bytes \<Rightarrow> (u64 \<times> u64) option" where
  "suffix_spendable suffix script = do {
     (_, p) \<leftarrow> skip_bytes 4 suffix;
     (nout, p) \<leftarrow> sv2_read_compact_size p;
     if nout > 100000 then None else do {
     (sums, p) \<leftarrow> account_outs script (unat nout) (0, 0) p;
     Some sums } }"

lemma coinbase_spendable_suffix:
  assumes d: "derive_coinbase_enonce_len prefix = Some gap" and m: "standard_marker prefix"
    and en: "length en = unat gap"
  shows "coinbase_spendable (prefix @ en @ suffix) script = suffix_spendable suffix script"
proof -
  let ?marked = "prefix ! 4 = 0x00 \<and> prefix ! 5 \<noteq> 0x00"
  define p where "p = (if ?marked then drop 6 prefix else drop 4 prefix)"
  have len: "42 \<le> length prefix" using d by (simp add: derive_coinbase_enonce_len_def split: if_splits)
  have p: "(let q = drop 4 prefix in
      if sv2_have_bytes q 2 \<and> q ! 0 = 0x00 \<and> q ! 1 \<noteq> 0x00 then drop 2 q else q) = p"
    using len by (simp add: p_def sv2_have_bytes_def Let_def)
  have "(case p of [] \<Rightarrow> None | b # p \<Rightarrow>
      if b \<noteq> 0x01 then None
      else do { (_, p) \<leftarrow> skip_bytes 36 p;
        (sslen, p) \<leftarrow> sv2_read_compact_size p;
        if sslen > 10000 then None
        else if length p > unat sslen then None
        else if unat sslen - length p > 255 then None
        else Some (of_nat (unat sslen - length p)) }) = Some gap"
    using d len unfolding derive_coinbase_enonce_len_def Let_def p [unfolded Let_def] by simp
  then obtain q q2 q3 sslen where pq: "p = 0x01 # q" and sk: "skip_bytes 36 q = Some ((), q2)"
    and c: "sv2_read_compact_size q2 = Some (sslen, q3)" and ss: "sslen \<le> 10000"
    and g: "length q3 \<le> unat sslen" "unat sslen - length q3 \<le> 255" "gap = of_nat (unat sslen - length q3)"
    by (auto simp: bind_eq_Some_conv not_less simp del: of_nat_diff split: if_splits list.splits)
  obtain s where s: "q2 = s @ q3" "\<And>r. sv2_read_compact_size (s @ r) = Some (sslen, r)"
    using cs.rd_local [OF c] by auto
  have "unat gap = unat sslen - length q3"
    unfolding g(3) using g(2) by (simp add: unat_of_nat del: of_nat_diff)
  then have l: "unat sslen = length (q3 @ en)" using g(1) en by simp
  have "unat sslen \<le> 10000" using ss by (simp add: word_le_nat_alt)
  then have l4: "unat (sslen + 4) = length (q3 @ en) + 4" "\<not> sslen > - 1 - 4"
    using l by (simp_all add: unat_word_ariths word_less_nat_alt)
  have sk': "skip_bytes 36 (q @ en @ suffix) = Some ((), s @ q3 @ en @ suffix)"
    using sk s(1) by (auto simp: skip_bytes_def sv2_have_bytes_def split: if_splits)
  have i: "walk_input (q @ en @ suffix) = skip_bytes 4 suffix"
    using l4 unfolding walk_input_def sk' by (simp add: s(2) skip_bytes_def sv2_have_bytes_def)
  have c1: "sv2_read_compact_size (p @ en @ suffix) = Some (1, q @ en @ suffix)"
    by (simp add: pq sv2_read_compact_size_def)
  have flag: "?marked \<longleftrightarrow> prefix ! 4 = 0x00 \<and> prefix ! 5 = 0x01"
    using m by (auto simp: standard_marker_def)
  have t: "(if sv2_have_bytes (drop 4 (prefix @ en @ suffix)) 2 \<and> drop 4 (prefix @ en @ suffix) ! 0 = 0x00 \<and>
        drop 4 (prefix @ en @ suffix) ! 1 = 0x01
      then drop 2 (drop 4 (prefix @ en @ suffix)) else drop 4 (prefix @ en @ suffix)) = p @ en @ suffix"
    unfolding p_def flag using len by (auto simp: sv2_have_bytes_def nth_append)
  show ?thesis
    unfolding coinbase_spendable_def suffix_spendable_def Let_def t
    by (simp add: c1 i bind_eq_Some_conv) (cases "skip_bytes 4 suffix"; simp split: prod.split)
qed

text \<open>The server checks the payout with zeros in the gap; any other bytes of that length pay the same.\<close>

lemma funded_any_extranonce:
  assumes "funded script prefix suffix" and "standard_marker prefix"
    and "derive_coinbase_enonce_len prefix = Some gap" and "length en = unat gap"
  shows "\<exists>value. value \<noteq> 0 \<and> coinbase_spendable (prefix @ en @ suffix) script = Some (value, 0)"
  using assms coinbase_spendable_suffix [OF assms(3,2)] by (auto simp: funded_def)

section \<open>A shared pool pays itself\<close>

interpretation pool: jd_contract "pool_pays S" "\<lambda>p. funded S (pd_coinbase_tx_prefix p) (pd_coinbase_tx_suffix p)"
  "\<lambda>t. tk_has_payout t \<and> tk_payout_script t = S \<and>
     (tk_declared t \<longrightarrow> funded S (the (tk_coinbase_tx_prefix t)) (tk_coinbase_tx_suffix t))" for S
proof (unfold_locales, goal_cases)
  case (1 p q)
  then show ?case using fills_fields(6,7) by metis
next
  case (3 env tok decl cid now)
  then have s: "S \<noteq> []" "\<not> env_btcsolo env" using address_script_size by (auto simp: pool_pays_def)
  with 3 have "declare_funded env (dmj_coinbase_tx_prefix decl) (dmj_coinbase_tx_suffix decl) S"
    by (auto simp: payout_allowed_def)
  then show ?case
    using s by (auto simp: declare_funded_def coinbase_tx_funds_payout_def payout_rule_ok_def funded_def
      new_pending_def pending_alloc_tx_slots_def split: option.splits if_splits)
next
  case (4 t t')
  then show ?case by (auto simp: same_token_fields)
next
  case (5 t d)
  then show ?case by (simp add: minted_token_def)
next
  case (6 t p t')
  then show ?case
    using fills_fields(6,7) by (fastforce simp: takes_material_def token_steal_declare_locked_def)
next
  case (7 env d cid user now)
  have "build_allocate_outputs env 64 user \<noteq> []" using handed_out(1) [OF 7, of user] by simp
  then show ?case
    using handed_out(2) [OF 7, of user]
    by (simp add: new_token_def token_set_payout_from_outputs_locked_def)
qed simp

lemma reach_funded:
  assumes "jd_reach (pool_pays script) F st" and "tok \<in> set (jd_tokens st)" and "tk_declared tok"
  shows "funded script (the (tk_coinbase_tx_prefix tok)) (tk_coinbase_tx_suffix tok)"
  using pool.ok_reach [of script F st] assms by (auto simp: jd_ok_def tables_ok_def)

text \<open>
  What a client of the pool does: it builds its coinbase outputs from the list it was handed and
  declares the coinbase; the server finds it funded.
\<close>

lemma client_coinbase_allowed:
  assumes pool: "pool_pays script env"
    and wf: "wf_spec spec" and parts: "sv2_cb_declare_parts spec = Some (pre, suf)"
    and b: "sv2_cb_build_outputs outsz (build_allocate_outputs env 64 user) amount commitment clen = Some (cs_outputs spec)"
    and c: "read_seq read_output (if clen \<noteq> 0 then 1 else 0) (take (unat clen) commitment) = Some (cs, [])"
    and z: "\<forall>(v, s, l)\<in>set cs. v = 0" and v: "amount \<noteq> 0" "pool_min_payout env \<le> amount"
  shows "declare_funded env pre suf script"
proof -
  have s: "script \<noteq> []" "length script \<le> 40" "\<not> env_btcsolo env"
    using pool address_script_size by (force simp: pool_pays_def)+
  note b' = b [unfolded handed_out(1) [OF pool]]
  obtain outs where outs: "outputs_of (cs_outputs spec) = Some (outs, [])" "length outs \<le> 2"
    and p: "paid script (map plain_out outs) = unat amount" "diverted script (map plain_out outs) = 0"
    using allocated_outputs_pay_pool [OF s(1,2) b' c z] by blast
  have "paid script (map plain_out outs) < 2 ^ 64" "diverted script (map plain_out outs) < 2 ^ 64"
    using p unsigned_less [of amount] by simp_all
  moreover have "length (replicate (unat (cs_hole_len spec)) (0 :: byte)) = unat (cs_hole_len spec)"
    "length outs \<le> 100000" using outs(2) by simp_all
  moreover have "unat amount \<noteq> 0" "unat (pool_min_payout env) \<le> unat amount"
    using v by (simp_all add: word_le_nat_alt unat_eq_0)
  ultimately show ?thesis
    using declared_coinbase_funds [OF wf parts _ outs(1), of "replicate (unat (cs_hole_len spec)) 0" script env] s p
    by (simp add: declare_funded_def derived_gap_is_hole [OF wf parts])
qed
section \<open>The length that is checked and the length that is accepted\<close>

text \<open>
  The payout is checked at the length derived from the prefix, the block also at the configured
  length.  A coinbase can read as one transaction at one length and as another at the other: here
  with eight bytes in the gap the outputs pay \<open>pool_script\<close>, and with twelve the last four are
  the sequence number, the output count comes four bytes earlier, and the script of the only
  output pushes the pool's script, drops it and pays somebody else.
\<close>

definition pool_script :: bytes where
  "pool_script = [0x76, 0xa9, 0x14] @ replicate 20 0x11 @ [0x88, 0xac]"

definition two_faced_prefix :: bytes where
  "two_faced_prefix = [2, 0, 0, 0, 1] @ replicate 32 0 @ replicate 4 0xff @ [8]"

definition two_faced_suffix :: bytes where
  "two_faced_suffix =
     [1, 0, 0, 0, 1, 0, 0, 0, 0, 0x37, 0x61, 0x61, 0x61, 0x19] @ pool_script @
     [0x75, 0x76, 0xa9, 0x14] @ replicate 20 0x22 @ [0x88, 0xac] @ replicate 4 0"

definition two_faced_declare :: sv2_declare_mining_job where
  "two_faced_declare = \<lparr> dmj_request_id = 1, dmj_mining_job_token = [7], dmj_mining_job_token_len = 1,
     dmj_version = 0x20000000, dmj_coinbase_tx_prefix = two_faced_prefix, dmj_coinbase_tx_prefix_len = 42,
     dmj_coinbase_tx_suffix = two_faced_suffix, dmj_coinbase_tx_suffix_len = 69,
     dmj_wtxid_list = [], dmj_wtxid_count = 0, dmj_excess_data = [], dmj_excess_data_len = 0 \<rparr>"

lemma two_faced_lengths:
  "derive_coinbase_enonce_len two_faced_prefix = Some 8"
  "length two_faced_prefix = 42" "length two_faced_suffix = 69"
  by (simp_all add: two_faced_prefix_def two_faced_suffix_def pool_script_def derive_coinbase_enonce_len_def
      sv2_have_bytes_def skip_bytes_def sv2_read_compact_size_def)

lemma two_faced_sums:
  "coinbase_spendable (two_faced_prefix @ replicate 8 0 @ two_faced_suffix) pool_script = Some (0x6161613700000000, 0)"
  "coinbase_spendable (two_faced_prefix @ replicate 12 0 @ two_faced_suffix) pool_script = Some (0, 0x1000000)"
  by code_simp+

lemma pool_min_payout_le: "pool_min_payout env \<le> 5000000000"
proof -
  have "drop_bit n (5000000000 :: u64) \<le> 5000000000" for n
    unfolding word_le_nat_alt unat_drop_bit_eq by (simp add: drop_bit_eq_div)
  then show ?thesis by (simp add: pool_min_payout_def Let_def)
qed

text \<open>A shared pool whose miners get four and eight bytes of extranonce.\<close>

definition shared_4_8 :: "jd_env \<Rightarrow> jd_env" where
  "shared_4_8 env = env\<lparr>env_btcsolo := False, env_nonce1length := 4, env_nonce2length := 8\<rparr>"

lemma two_faced_allowed:
  assumes "tk_has_payout tok" and "tk_payout_script tok = pool_script"
  shows "payout_allowed (shared_4_8 env) tok two_faced_declare"
proof -
  have "pool_min_payout (shared_4_8 env) \<le> 0x6161613700000000"
    by (rule order_trans [OF pool_min_payout_le]) simp
  moreover have "pool_script \<noteq> []" by (simp add: pool_script_def)
  ultimately show ?thesis
    using assms two_faced_lengths two_faced_sums(1)
    by (simp add: payout_allowed_def declare_funded_def two_faced_declare_def coinbase_tx_funds_payout_def
        payout_rule_ok_def shared_4_8_def)
qed

lemma two_faced_tries: "enonce_tries (shared_4_8 env) (new_pending cid now two_faced_declare) = [8, 12]"
  by (simp add: enonce_tries_def new_pending_def pending_alloc_tx_slots_def two_faced_declare_def two_faced_lengths
      shared_4_8_def SV2_JD_ENONCE_MAX_TRIES_def)

end
