(* ===== verification/Jd_Progress.thy ===== *)
theory Jd_Progress
  imports Jd_Funds
begin

text \<open>
  What the server achieves: the newest declared templates of a client are tried first for a
  solution, a template the node accepts becomes a declared token, and a client that leaves takes
  its tokens and declarations along.
\<close>

section \<open>The candidates for a solution\<close>

definition own_declared :: "int \<Rightarrow> sv2_jd_token \<Rightarrow> bool" where
  "own_declared cid t \<longleftrightarrow> tk_client_id t = cid \<and> tk_declared t \<and> tk_coinbase_tx_prefix t \<noteq> None"

abbreviation age :: "sv2_jd_token \<Rightarrow> int" where "age t \<equiv> - tk_created t"

text \<open>\<open>put_last f x ys\<close>: \<open>x\<close> behind everything that is not greater.\<close>

definition put_last :: "('a \<Rightarrow> int) \<Rightarrow> 'a \<Rightarrow> 'a list \<Rightarrow> 'a list" where
  "put_last f x ys = takeWhile (\<lambda>y. f y \<le> f x) ys @ x # dropWhile (\<lambda>y. f y \<le> f x) ys"

lemma length_put_last [simp]: "length (put_last f x ys) = Suc (length ys)"
  using arg_cong [OF takeWhile_dropWhile_id, of length "\<lambda>y. f y \<le> f x" ys]
  by (simp add: put_last_def del: takeWhile_dropWhile_id)

lemma put_last_below: "\<not> f y \<le> f x \<Longrightarrow> put_last f x (as @ y # bs) = put_last f x as @ y # bs"
  by (induction as) (simp_all add: put_last_def)

lemma insort_put_last:
  "sorted (map f ys) \<Longrightarrow> insort_key f a (put_last f x ys) = put_last f x (insort_key f a ys)"
  unfolding put_last_def by (induction ys) auto

lemma sort_key_snoc: "sort_key f (xs @ [x]) = put_last f x (sort_key f xs)" for f :: "'a \<Rightarrow> int"
  by (induction xs) (simp_all add: insort_put_last, simp add: put_last_def)

lemma bubble_up_put_last:
  assumes "i = length xs" and "sorted (map age xs)"
  shows "bubble_up i (xs @ t # zs) = put_last age t xs @ zs"
  using assms
proof (induction i arbitrary: xs t zs)
  case (Suc i)
  then obtain ys y where xs: "xs = ys @ [y]" "length ys = i" by (metis length_Suc_conv_rev)
  show ?case
  proof (cases "tk_created t \<le> tk_created y")
    case True
    have "\<forall>z\<in>set xs. age z \<le> age t"
      using True Suc.prems(2) by (auto simp: xs sorted_append)
    then have "takeWhile (\<lambda>z. age z \<le> age t) xs = xs" "dropWhile (\<lambda>z. age z \<le> age t) xs = []"
      by (simp_all add: takeWhile_eq_all_conv dropWhile_eq_Nil_conv)
    then show ?thesis using True by (simp add: xs nth_append put_last_def)
  next
    case False
    have "bubble_up (Suc i) (xs @ t # zs) = bubble_up i (ys @ t # y # zs)"
      using False by (simp add: xs nth_append list_update_append flip: xs(2))
    also have "\<dots> = put_last age t ys @ y # zs"
      using Suc.IH [OF xs(2) [symmetric], of t "y # zs"] Suc.prems(2) by (simp add: xs sorted_append)
    also have "\<dots> = put_last age t xs @ zs"
      using False put_last_below [of age y t ys "[]"] by (simp add: xs)
    finally show ?thesis .
  qed
qed (simp add: put_last_def)

lemma take_put_last:
  assumes "sorted (map f ys)" and "n \<le> length ys" and "0 < n"
  shows "take n (put_last f x ys) =
    (if f (ys ! (n - 1)) \<le> f x then take n ys else put_last f x (take (n - 1) ys))"
proof -
  define as bs y where "as = take (n - 1) ys" and "bs = drop n ys" and "y = ys ! (n - 1)"
  have ys: "ys = as @ y # bs" and l: "length as = n - 1"
    using assms(2,3) id_take_nth_drop [of "n - 1" ys] by (simp_all add: as_def bs_def y_def)
  show ?thesis
  proof (cases "f y \<le> f x")
    case True
    then have "\<forall>z\<in>set as. f z \<le> f x" using assms(1) by (fastforce simp: ys sorted_append)
    then show ?thesis
      unfolding as_def [symmetric] y_def [symmetric] using True l assms(3) by (simp add: ys put_last_def)
  next
    case False
    have "take n (put_last f x as @ y # bs) = put_last f x as" using l assms(3) by simp
    then show ?thesis
      unfolding as_def [symmetric] y_def [symmetric] using False by (simp add: put_last_below flip: ys) (simp add: ys put_last_below)
  qed
qed

text \<open>The candidates are the eight newest of the client's declared tokens, of equals the first.\<close>

lemma push_candidates_newest:
  "push_candidates cid toks = take 8 (sort_key age (filter (own_declared cid) toks))"
proof (induction toks rule: rev_induct)
  case (snoc t toks)
  let ?s = "sort_key age (filter (own_declared cid) toks)"
  have s: "sorted (map age ?s)" "sorted (map age (take 8 ?s))"
    using sorted_wrt_take [of "(\<le>)" "map age ?s" 8] by (simp_all add: take_map)
  have step: "push_candidates cid (toks @ [t]) = add_candidate cid (take 8 ?s) t"
    using snoc by (simp add: push_candidates_def)
  consider "\<not> own_declared cid t" | "own_declared cid t" "length ?s < 8" | "own_declared cid t" "8 \<le> length ?s"
    by linarith
  then show ?case
  proof cases
    case 1
    then have "add_candidate cid cs t = cs" for cs by (auto simp: add_candidate_def own_declared_def)
    with 1 show ?thesis unfolding step by simp
  next
    case 2
    then have "add_candidate cid ?s t = put_last age t ?s"
      using bubble_up_put_last [OF refl s(1), of t "[]"]
      by (simp add: add_candidate_def own_declared_def SV2_JD_PUSH_TOKEN_CANDIDATES_def del: not_None_eq)
    with 2 show ?thesis unfolding step by (simp add: sort_key_snoc)
  next
    case 3
    have l: "take 8 ?s ! 7 = ?s ! 7" "length (take 8 ?s) = 8" using 3(2) by simp_all
    have "take 8 ?s = take 7 ?s @ [?s ! 7]"
      using 3(2) take_Suc_conv_app_nth [of 7 ?s] by simp
    then have "(take 8 ?s)[7 := t] = take 7 ?s @ [t]" using 3(2) by (simp add: list_update_append)
    moreover have "sorted (map age (take 7 ?s))"
      using sorted_wrt_take [of "(\<le>)" "map age ?s" 7] s(1) by (simp add: take_map)
    ultimately have "bubble_up 7 ((take 8 ?s)[7 := t]) = put_last age t (take 7 ?s)"
      using 3(2) bubble_up_put_last [of 7 "take 7 ?s" t "[]"] by simp
    then have "add_candidate cid (take 8 ?s) t =
        (if age (?s ! 7) \<le> age t then take 8 ?s else put_last age t (take 7 ?s))"
      using 3 l by (auto simp: add_candidate_def own_declared_def SV2_JD_PUSH_TOKEN_CANDIDATES_def)
    with 3 take_put_last [OF s(1) 3(2)] show ?thesis unfolding step by (simp add: sort_key_snoc)
  qed
qed (simp add: push_candidates_def)

section \<open>A template the node accepts becomes a declared token\<close>

text \<open>The template of \<open>p\<close> in a declared token, for extranonces of a length.\<close>

definition holds_template :: "sv2_jd_pending \<Rightarrow> byte \<Rightarrow> sv2_jd_token \<Rightarrow> bool" where
  "holds_template p el t \<longleftrightarrow>
     tk_declared t \<and> tk_enonce_len t = el \<and> tk_version t = pd_version p \<and>
     tk_coinbase_tx_prefix t = Some (pd_coinbase_tx_prefix p) \<and>
     tk_coinbase_tx_suffix t = pd_coinbase_tx_suffix p \<and> tk_wtxid_list t = pd_wtxid_list p \<and>
     tk_tx_raws t = pd_tx_raws p"

lemma steal_holds [simp]: "holds_template p el (token_steal_declare_locked now t p el n)"
  by (simp add: holds_template_def token_steal_declare_locked_def)

lemma slot_bytes_complete':
  assumes "pend_ok p" and "pending_txs_complete p"
  shows "slot_bytes (pd_tx_raws p) = (\<Sum>tx\<leftarrow>map the (take (pd_wtxid_count p) (pd_tx_raws p)). length tx)"
proof -
  have len: "length (pd_tx_raws p) = pd_wtxid_count p" using assms(1) by (simp add: pend_ok_def)
  then have "None \<notin> set (pd_tx_raws p)"
    using assms(2) by (auto simp: pending_txs_complete_def in_set_conv_nth list_all_iff split: if_splits)
  then show ?thesis using slot_bytes_complete len by simp
qed

text \<open>What can be assembled is complete and small enough to be kept.\<close>

lemma assembled_keeps:
  assumes p: "pend_ok p" and a: "assemble_candidate_block env p el = Some block"
  shows "pending_txs_complete p \<and> pending_rebuild_size_ok p el"
proof -
  let ?cb = "pd_coinbase_tx_prefix p @ replicate (unat el) 0 @ pd_coinbase_tx_suffix p"
  let ?txs = "map the (take (pd_wtxid_count p) (pd_tx_raws p))"
  have c: "pending_txs_complete p"
    using a by (auto simp: assemble_candidate_block_def split: option.splits if_splits)
  obtain v pv nt nb where "assemble_block v pv nt nb 0 ?cb ?txs = Some block"
    using a by (auto simp: assemble_candidate_block_def split: option.splits if_splits)
  then have "block_size ?cb ?txs \<le> 2 ^ 22" by (auto simp: assemble_block_Some)
  moreover have "length ?txs = pd_wtxid_count p" using p by (simp add: pend_ok_def)
  ultimately show ?thesis
    using c slot_bytes_complete' [OF p c] by (simp add: rebuild_size_nat [OF p] block_size_def)
qed

lemma accept_undeclared:
  assumes s: "s = expire_old_tokens_locked now st"
    and i: "find_token_locked (pd_token p) (jd_tokens s) = Some i" "t = jd_tokens s ! i"
    and t: "tk_client_id t = pd_client_id p" "\<not> tk_declared t"
    and p: "pending_txs_complete p" "pending_rebuild_size_ok p el"
    and room: "token_snapshot_may_add_locked (pd_client_id p) (pending_snapshot_bytes p) s"
  shows "token_accept_declare_locked now draws p el st = Some (0, pending_stolen p,
    s\<lparr>jd_tokens := (jd_tokens s)[i := token_steal_declare_locked now t p el (pending_snapshot_bytes p)],
      jd_token_snapshot_bytes := jd_token_snapshot_bytes s + pending_snapshot_bytes p\<rparr>)"
  using assms by (simp add: token_accept_declare_locked_def Let_def identical_redeclare_def)

lemma first_index_update:
  "first_index P xs = Some i \<Longrightarrow> P x \<Longrightarrow> first_index P (xs[i := x]) = Some i"
  by (induction xs arbitrary: i) (auto split: if_splits)

text \<open>The end of a check the node passes at the first length tried.\<close>

lemma validated:
  assumes i: "i < length (jd_validate_q st)" "p = jd_validate_q st ! i" "pend_ok p" "length (pd_token p) \<le> 255"
    and node: "enonce_tries env p = el # els" "assemble_candidate_block env p el = Some block"
      "env_svc_ready env" "env_check_block env block = Some (True, reason)"
    and s: "s = expire_old_tokens_locked (env_now2 env) st"
    and j: "find_token_locked (pd_token p) (jd_tokens s) = Some j"
      "tk_client_id (jd_tokens s ! j) = pd_client_id p" "\<not> tk_declared (jd_tokens s ! j)"
    and room: "token_snapshot_may_add_locked (pd_client_id p) (pending_snapshot_bytes p) s"
  shows "\<exists>bs st'. jd_validate_process env draws i st = Some (Some bs, st') \<and>
    carries SV2_MSG_DECLARE_MINING_JOB_SUCCESS sv2_decode_declare_mining_job_success
      (declare_success_message (pd_request_id p) (pd_token p)) bs \<and>
    find_token_locked (pd_token p) (jd_tokens st') = Some j \<and> holds_template p el (jd_tokens st' ! j)"
proof -
  let ?t = "token_steal_declare_locked (env_now2 env) (jd_tokens s ! j) p el (pending_snapshot_bytes p)"
  let ?s = "s\<lparr>jd_tokens := (jd_tokens s)[j := ?t],
      jd_token_snapshot_bytes := jd_token_snapshot_bytes s + pending_snapshot_bytes p\<rparr>"
  let ?h = "template_hash (env_tip env) p"
  have same: "st\<lparr>jd_stats := st_checkblock_fail_update (\<lambda>n. n) (jd_stats st)\<rparr> = st"
    by (cases st; cases "jd_stats st") simp
  have acc: "token_accept_declare_locked (env_now2 env) draws p el st = Some (0, pending_stolen p, ?s)"
    using accept_undeclared [OF s j(1) refl j(2,3) _ _ room] assembled_keeps [OF i(3) node(2)] by blast
  have q: "pd_request_id (pending_stolen p) = pd_request_id p" "pd_token (pending_stolen p) = pd_token p"
    by (simp_all add: pending_stolen_def)
  define s1 where "s1 = (if ?h = template_hash (env_tip2 env) p
    then coalesce_note_locked ?h el (env_now env) ?s else ?s)"
  let ?s2 = "update_client (pd_client_id p) (\<lambda>c. c\<lparr>jc_checkblock_ok := True\<rparr>)
    (JD_STAT_INC st_declare_ok_update (checkblock_end s1))"
  obtain bs where bs: "success_declare (pending_stolen p) ?s2 = (Some bs, ?s2)"
    "carries SV2_MSG_DECLARE_MINING_JOB_SUCCESS sv2_decode_declare_mining_job_success
      (declare_success_message (pd_request_id p) (pd_token p)) bs"
    using success_declare_carries [of "pending_stolen p" ?s2] i(4) by (auto simp: q)
  have "pd_client_id (pending_stolen p) = pd_client_id p" by (simp add: pending_stolen_def)
  then have "finalize_declare_check env draws p st = Some (Some bs, ?s2)"
    unfolding finalize_declare_check_def node(1) check_loop.simps node(2)
    using node(3,4) acc bs(1) by (simp add: Let_def same s1_def cong: if_cong split del: if_split)
  moreover have "jd_tokens ?s2 = (jd_tokens s)[j := ?t]"
    by (simp add: s1_def update_client_def JD_STAT_INC_def checkblock_end_def)
  moreover have "find_token_locked (pd_token p) ((jd_tokens s)[j := ?t]) = Some j"
    using j(1) find_token_Some [OF j(1)]
    by (auto simp: find_token_locked_def token_steal_declare_locked_def intro: first_index_update)
  ultimately show ?thesis
    using i(2) bs(2) find_token_Some [OF j(1)] by (simp add: jd_validate_process_def)
qed

section \<open>The missing transactions arrive\<close>

text \<open>
  An answer with every missing transaction ends the wait: the declaration is complete and goes
  to validation, unless its transactions are more than a block may hold.
\<close>

lemma answered:
  assumes st: "jd_ok (\<lambda>_. True) token_sound st"
    and c: "find_client cid st = Some c" "jc_setup_ok c"
    and m: "sv2_decode_provide_missing_transactions_success payload = Some m"
    and i: "first_index (\<lambda>p. pd_client_id p = cid \<and> pd_request_id p = pms_request_id m \<and> pd_awaiting_missing p)
      (pending_declares st) = Some i" "p = pending_declares st ! i"
    and all: "\<forall>k<pd_wtxid_count p. pd_tx_raws p ! k = None \<longrightarrow>
      (\<exists>tx\<in>set (pms_transactions m). tx \<noteq> [] \<and> gen_hash tx = wtxid_at (pd_wtxid_list p) k)"
  shows "\<exists>stored q s. fills p q \<and> pend_ok q \<and> (stored \<longrightarrow> pending_txs_complete q) \<and>
    pending_declares s = remove_nth i (pending_declares st) \<and>
    handle_provide_missing_success env draws cid payload st =
      (if stored then start_declare_validation env draws q s
       else Some (error_declare (pd_request_id p) (ascii ''invalid-template'') s))"
proof -
  let ?s = "st\<lparr>pending_declares := remove_nth i (pending_declares st)\<rparr>"
  have il: "i < length (pending_declares st)" using first_index_Some [OF i(1)] by auto
  have p: "pend_ok p" using st il i(2) by (simp add: jd_ok_def tables_ok_def)
  have co: "cache_ok ?s" using st by (simp add: jd_ok_def tables_ok_def cache_ok_def cache_exact_def)
  obtain f q es n b where store: "pending_store_matching_txs (env_now env) (pms_transactions m) p ?s =
      Some (f, q, set_cache es n b ?s)" and q: "pend_ok q" "fills p q"
    using pending_store_result [OF co p missing_txs_short [OF m], of "env_now env"] by blast
  have "pending_txs_complete q" if f
    using pending_store_completes [OF co p missing_txs_short [OF m] all] store that by simp
  then have cm: "pending_txs_complete q \<and> pending_collect_missing q SV2_MAX_JD_TXNS = []" if f
    using that by (auto simp: pending_txs_complete_def pending_collect_missing_def list_all_iff split: if_splits)
  have "handle_provide_missing_success env draws cid payload st =
      (if f then start_declare_validation env draws q (set_cache es n b ?s)
       else Some (error_declare (pd_request_id p) (ascii ''invalid-template'') (set_cache es n b ?s)))"
    using store cm fills_fields(1) [OF q(2)] unfolding i(2)
    by (simp add: handle_provide_missing_success_def c m i(1) Let_def)
  moreover have "pending_declares (set_cache es n b ?s) = remove_nth i (pending_declares st)"
    by (simp add: set_cache_def)
  ultimately show ?thesis using q cm by blast
qed

section \<open>A client leaves\<close>

lemma remove_first_filter:
  assumes "distinct (map f xs)"
  shows "(case first_index (\<lambda>x. f x = k) xs of None \<Rightarrow> xs | Some i \<Rightarrow> remove_nth i xs) = filter (\<lambda>x. f x \<noteq> k) xs"
  using assms
proof (induction xs)
  case (Cons x xs)
  show ?case
  proof (cases "f x = k")
    case True
    then have "filter (\<lambda>x. f x \<noteq> k) xs = xs" using Cons.prems by (force simp: filter_id_conv image_iff)
    then show ?thesis using True by (simp add: remove_nth_def)
  next
    case False
    then show ?thesis using Cons by (auto simp: remove_nth_def split: option.splits)
  qed
qed simp

text \<open>Everything of the client goes, in order and with nothing else; the counters follow.\<close>

lemma dropped:
  assumes ok: "jd_ok (\<lambda>_. True) token_sound st" and st': "st' = sv2_jd_drop_client cid st"
  shows "jd_clients st' = filter (\<lambda>c. jc_client_id c \<noteq> cid) (jd_clients st) \<and>
    jd_tokens st' = filter (\<lambda>t. tk_client_id t \<noteq> cid) (jd_tokens st) \<and>
    pending_declares st' = filter (\<lambda>p. pd_client_id p \<noteq> cid) (pending_declares st) \<and>
    jd_token_count st' = int (length (jd_tokens st')) \<and>
    unat (jd_token_snapshot_bytes st') = held (jd_tokens st')"
proof -
  let ?cs = "case first_index (\<lambda>c. jc_client_id c = cid) (jd_clients st) of None \<Rightarrow> jd_clients st
    | Some i \<Rightarrow> remove_nth i (jd_clients st)"
  let ?s = "case first_index (\<lambda>c. jc_client_id c = cid) (jd_clients st) of None \<Rightarrow> st
    | Some i \<Rightarrow> st\<lparr>jd_clients := remove_nth i (jd_clients st)\<rparr>"
  have s: "jd_clients ?s = ?cs" "jd_tokens ?s = jd_tokens st" "pending_declares ?s = pending_declares st"
    by (simp_all split: option.split)
  obtain acc where f: "free_tokens_where (\<lambda>t. tk_client_id t = cid) ?s =
      set_tokens (filter (\<lambda>t. tk_client_id t \<noteq> cid) (jd_tokens ?s)) acc ?s"
    using free_tokens_where_eq by blast
  have "jd_step (\<lambda>_. True) (\<lambda>_ _. True) st st'" unfolding st' by (rule jd_step.drop_client)
  from base.ok_step [OF ok this] have "tokens_exact st'" by (simp add: jd_ok_def tables_ok_def)
  moreover have "distinct (map jc_client_id (jd_clients st))" using ok by (simp add: jd_ok_def clients_ok_def)
  then have "?cs = filter (\<lambda>c. jc_client_id c \<noteq> cid) (jd_clients st)" by (rule remove_first_filter)
  moreover have "st' = set_tokens (filter (\<lambda>t. tk_client_id t \<noteq> cid) (jd_tokens st)) acc ?s
      \<lparr>pending_declares := filter (\<lambda>p. pd_client_id p \<noteq> cid) (pending_declares st)\<rparr>"
    using f unfolding st' sv2_jd_drop_client_def Let_def by (simp only: s)
  ultimately show ?thesis using s(1) by (simp add: tokens_exact_def)
qed

end
