(* ===== verification/Jd_Wire.thy ===== *)
theory Jd_Wire
  imports Jd_Progress
begin

text \<open>
  What goes back to the clients: every reply of a handler is one frame of a message the job
  declaration server sends, with the length its header says.
\<close>

section \<open>Reply frames\<close>

definition server_types :: "byte set" where
  "server_types = {SV2_MSG_SETUP_CONNECTION_SUCCESS, SV2_MSG_SETUP_CONNECTION_ERROR,
     SV2_MSG_ALLOCATE_MINING_JOB_TOKEN_SUCCESS, SV2_MSG_PROVIDE_MISSING_TRANSACTIONS,
     SV2_MSG_DECLARE_MINING_JOB_SUCCESS, SV2_MSG_DECLARE_MINING_JOB_ERROR}"

text \<open>A reply is absent or one frame of a type in \<open>ts\<close>.\<close>

definition sent :: "byte set \<Rightarrow> reply \<Rightarrow> bool" where
  "sent ts r \<longleftrightarrow>
     (\<forall>bs. r = Some bs \<longrightarrow> (\<exists>h. sv2_decode_header bs = Some h \<and> fr_extension_type h = 0 \<and>
        fr_msg_type h \<in> ts \<and> length bs = SV2_FRAME_HEADER_LEN + unat (fr_msg_length h) \<and>
        unat (fr_msg_length h) \<le> 65536))"

lemma sent_None [simp]: "sent ts None"
  by (simp add: sent_def)

lemma sent_mono: "sent ts r \<Longrightarrow> ts \<subseteq> us \<Longrightarrow> sent us r"
  unfolding sent_def by blast

lemma sent_frame: "length pbuf \<le> 65536 \<Longrightarrow> t \<in> ts \<Longrightarrow> sent ts (reply_frame t pbuf)"
  using build_frame_decode_header [of pbuf 0 t]
  by (auto simp: sent_def reply_frame_def sv2_encode_header_def SV2_FRAME_HEADER_LEN_def)

text \<open>No encoder writes past its buffer.\<close>

lemma encoder_bounds:
  "sv2_encode_declare_mining_job_error n m1 = Some b \<Longrightarrow> length b \<le> n"
  "sv2_encode_declare_mining_job_success n m2 = Some b \<Longrightarrow> length b \<le> n"
  "sv2_encode_setup_connection_error n m3 = Some b \<Longrightarrow> length b \<le> n"
  "sv2_encode_setup_connection_success n m4 = Some b \<Longrightarrow> length b \<le> n"
  "sv2_encode_allocate_mining_job_token_success n m5 = Some b \<Longrightarrow> length b \<le> n"
  "sv2_encode_provide_missing_transactions n m6 = Some b \<Longrightarrow> length b \<le> n"
  by (auto simp: sv2_encode_declare_mining_job_error_def sv2_encode_declare_mining_job_success_def
      sv2_encode_setup_connection_error_def sv2_encode_setup_connection_success_def
      sv2_encode_allocate_mining_job_token_success_def sv2_encode_provide_missing_transactions_def
      encode_guarded_def finish_encode_def Let_def split: if_splits)

lemma sent_encoded:
  assumes "\<And>b. r = Some b \<Longrightarrow> length b \<le> n" and "n \<le> 65536" and "t \<in> ts"
  shows "sent ts (r \<bind> reply_frame t)"
  using assms sent_frame [of _ t ts] by (cases r) (auto intro: order_trans)

lemmas sent_encoders =
  sent_encoded [OF encoder_bounds(3)] sent_encoded [OF encoder_bounds(4)]
  sent_encoded [OF encoder_bounds(5)] sent_encoded [OF encoder_bounds(6)]

abbreviation declare_replies :: "byte set" where
  "declare_replies \<equiv> {SV2_MSG_DECLARE_MINING_JOB_SUCCESS, SV2_MSG_DECLARE_MINING_JOB_ERROR}"

lemma sent_error [simp]: "sent declare_replies (fst (error_declare rid code st))"
  using sent_frame encoder_bounds(1) [of 512]
  by (fastforce simp: error_declare_def Let_def split: option.split)

lemma sent_success [simp]: "sent declare_replies (fst (success_declare p st))"
  using sent_frame encoder_bounds(2) [of 512]
  by (fastforce simp: success_declare_def split: option.split)

lemma sent_errorD: "error_declare rid code st = (reply, st') \<Longrightarrow> sent declare_replies reply"
  using sent_error by (metis fst_conv)

lemma sent_successD: "success_declare p st = (reply, st') \<Longrightarrow> sent declare_replies reply"
  using sent_success by (metis fst_conv)

lemma sent_setup: "sent {SV2_MSG_SETUP_CONNECTION_SUCCESS, SV2_MSG_SETUP_CONNECTION_ERROR}
    (fst (handle_setup cid payload st))"
  by (auto simp: handle_setup_def setup_error_def sent_encoders split: option.split)

lemma sent_allocate: "sent {SV2_MSG_ALLOCATE_MINING_JOB_TOKEN_SUCCESS} (allocate_success rid tok outs)"
  by (simp add: allocate_success_def sent_encoders)

lemma sent_allocateD: "allocate_success rid tok outs = r \<Longrightarrow> sent {SV2_MSG_ALLOCATE_MINING_JOB_TOKEN_SUCCESS} r"
  using sent_allocate by blast

lemma sent_missing: "sent {SV2_MSG_PROVIDE_MISSING_TRANSACTIONS} (missing_reply rid missing)"
  by (simp add: missing_reply_def sent_encoders)

section \<open>The handlers\<close>

lemma sent_reissue: "sent {SV2_MSG_ALLOCATE_MINING_JOB_TOKEN_SUCCESS} (fst (allocate_reissue env rid user outs i st))"
  by (simp add: allocate_reissue_def allocate_reply_def Let_def sent_allocate)

lemma sent_new:
  "allocate_new env draws cid rid user outs n limited st = Some (reply, st') \<Longrightarrow>
    sent {SV2_MSG_ALLOCATE_MINING_JOB_TOKEN_SUCCESS} reply"
  by (auto simp: allocate_new_def allocate_reply_def Let_def bind_eq_Some_conv
      split: if_splits list.splits dest: sent_allocateD)

lemma sent_handle_allocate:
  assumes "handle_allocate env draws cid payload st = Some (reply, st')"
  shows "sent {SV2_MSG_ALLOCATE_MINING_JOB_TOKEN_SUCCESS} reply"
  using assms
proof (cases rule: handle_allocate_cases)
  case (3 s req i)
  then show ?thesis using sent_reissue by (metis fst_conv)
qed (auto intro: sent_new)

lemma sent_coalesce:
  "try_coalesce_declare env draws p st = Some (reply, q, st') \<Longrightarrow> sent declare_replies reply"
  by (auto simp: try_coalesce_declare_def Let_def bind_eq_Some_conv split: option.splits if_splits prod.splits
      dest: sent_errorD sent_successD)

lemma sent_skip:
  "session_accept_declare_skip_check env draws p st = Some (reply, st') \<Longrightarrow> sent declare_replies reply"
  by (auto simp: session_accept_declare_skip_check_def Let_def bind_eq_Some_conv split: if_splits
      dest: sent_errorD sent_successD)

lemma sent_start:
  "start_declare_validation env draws p st = Some (reply, st') \<Longrightarrow> sent declare_replies reply"
  by (auto simp: start_declare_validation_def Let_def bind_eq_Some_conv split: if_splits prod.splits
      dest: sent_coalesce sent_skip sent_errorD)

lemma sent_finalize:
  assumes "finalize_declare_check env draws p st = Some (reply, st')"
  shows "sent declare_replies reply"
  using assms
proof (cases rule: finalize_cases)
  case (1 n code)
  then show ?thesis using sent_error by (metis fst_conv)
next
  case (2 n el rc q s)
  then show ?thesis using sent_error sent_success by (metis fst_conv)
qed

lemma sent_validate: "jd_validate_process env draws i st = Some (reply, st') \<Longrightarrow> sent declare_replies reply"
  by (auto simp: jd_validate_process_def bind_eq_Some_conv dest: sent_finalize)

abbreviation job_replies :: "byte set" where
  "job_replies \<equiv> insert SV2_MSG_PROVIDE_MISSING_TRANSACTIONS declare_replies"

lemma declare_in_job: "sent declare_replies r \<Longrightarrow> sent job_replies r"
  by (erule sent_mono) blast

lemma sent_missingD: "missing_reply rid ms = r \<Longrightarrow> sent job_replies r"
  using sent_mono [OF sent_missing [of rid ms], of job_replies] by blast

lemmas job_replyD = sent_errorD [THEN declare_in_job] sent_start [THEN declare_in_job] sent_missingD

lemma sent_transactions: "declare_transactions env draws p st = Some (reply, st') \<Longrightarrow> sent job_replies reply"
  by (auto simp: declare_transactions_def Let_def split: if_splits option.splits prod.splits dest: job_replyD
      intro: sent_missingD)

lemma sent_handle_declare:
  assumes "handle_declare env draws cid payload st = Some (reply, st')"
  shows "sent job_replies reply"
  using assms
proof (cases rule: handle_declare_cases)
  case (2 s decl code)
  then show ?thesis by (metis job_replyD(1))
qed (auto intro: sent_transactions)

lemma sent_provide_missing:
  "handle_provide_missing_success env draws cid payload st = Some (reply, st') \<Longrightarrow> sent job_replies reply"
  by (auto simp: handle_provide_missing_success_def Let_def bind_eq_Some_conv
      split: if_splits option.splits prod.splits dest: job_replyD)

lemma sent_push_solution: "handle_push_solution env cid payload st = (reply, st') \<Longrightarrow> reply = None"
  by (auto simp: handle_push_solution_def Let_def split: option.splits if_splits prod.splits)

text \<open>Any frame, in any state.\<close>

lemma sent_handle_frame:
  assumes "sv2_jd_handle_frame env draws cid frame st = Some (reply, st')"
  shows "sent server_types reply"
proof -
  have w: "sent server_types r" if "sent ts r" "ts \<subseteq> server_types" for ts r
    using sent_mono that by blast
  have sub: "job_replies \<subseteq> server_types" "{SV2_MSG_ALLOCATE_MINING_JOB_TOKEN_SUCCESS} \<subseteq> server_types"
    "{SV2_MSG_SETUP_CONNECTION_SUCCESS, SV2_MSG_SETUP_CONNECTION_ERROR} \<subseteq> server_types"
    by (auto simp: server_types_def)
  have su: "sent server_types r" if "handle_setup cid p s = (r, s')" for p s r s'
    using w [OF sent_setup sub(3), of cid p s] that by simp
  show ?thesis
    using assms unfolding sv2_jd_handle_frame_def Let_def
    by (auto simp: bind_eq_Some_conv split: if_splits option.splits prod.splits
        dest: su w [OF sent_handle_allocate sub(2)] w [OF sent_handle_declare sub(1)]
          w [OF sent_provide_missing sub(1)] sent_push_solution)
qed

end
