(* ===== verification/Jd_Demo.thy ===== *)
theory Jd_Demo
  imports Jd_Wire
begin

text \<open>
  A run of the job declaration server on concrete frames: a client sets up, gets a token, declares
  a template without transactions, and the node accepts the block.
\<close>

section \<open>The surroundings and the frames\<close>

definition demo_env :: "bytes \<Rightarrow> jd_env" where
  "demo_env addr = \<lparr> env_now = 100, env_now2 = 100, env_btcsolo = False, env_regtest = False,
     env_btcaddress = Some addr, env_cashaddr_prefix = bitcoincash, env_nonce1length = 4,
     env_nonce2length = 8, env_tip = Some (0x20000000, 1700000000, 0x1d00ffff, replicate 32 5),
     env_tip2 = Some (0x20000000, 1700000000, 0x1d00ffff, replicate 32 5), env_tip_height = 0,
     env_checkaddr = (\<lambda>_. True), env_svc_ready = True, env_check_block = (\<lambda>_. Some (True, [])),
     env_queue_ok = True, env_meets_nbits = (\<lambda>_ _. False) \<rparr>"

definition setup_payload :: bytes where
  "setup_payload = [1, 2, 0, 2, 0, 1, 0, 0, 0, 0, 0, 0, 0, 0, 0, 0]"

definition allocate_payload :: bytes where "allocate_payload = [1, 0x61, 1, 0, 0, 0]"

definition demo_token :: bytes where "demo_token = replicate 16 7"

definition demo_prefix :: bytes where
  "demo_prefix = [2, 0, 0, 0, 1] @ replicate 32 0 @ replicate 4 0xff @ [12]"

definition demo_suffix :: bytes where
  "demo_suffix = replicate 4 0xff @ [1, 100, 0, 0, 0, 0, 0, 0, 0, 25] @ pool_script @ replicate 4 0"

definition declare_payload :: bytes where
  "declare_payload = [9, 0, 0, 0] @ [16] @ demo_token @ [0, 0, 0, 0x20] @ [42, 0] @ demo_prefix @
     [43, 0] @ demo_suffix @ [0, 0] @ [0, 0]"

definition framed :: "byte \<Rightarrow> bytes \<Rightarrow> bytes" where
  "framed t payload = sv2_encode_header 0 t (of_nat (length payload)) @ payload"

lemma demo_decodes:
  "sv2_decode_setup_connection setup_payload = Some \<lparr> sc_protocol = 1, sc_min_version = 2, sc_max_version = 2,
     sc_flags = 1, sc_endpoint_host = c_buf 256 [], sc_endpoint_port = 0, sc_vendor = c_buf 256 [],
     sc_hardware_version = c_buf 256 [], sc_firmware = c_buf 256 [], sc_device_id = c_buf 256 [] \<rparr>"
  "sv2_decode_allocate_mining_job_token allocate_payload =
     Some \<lparr> amt_user_identifier = c_buf 256 [0x61], amt_request_id = 1 \<rparr>"
  "sv2_decode_declare_mining_job declare_payload = Some \<lparr> dmj_request_id = 9, dmj_mining_job_token = c_buf 255 demo_token,
     dmj_mining_job_token_len = 16, dmj_version = 0x20000000, dmj_coinbase_tx_prefix = demo_prefix,
     dmj_coinbase_tx_prefix_len = 42, dmj_coinbase_tx_suffix = demo_suffix, dmj_coinbase_tx_suffix_len = 43,
     dmj_wtxid_list = [], dmj_wtxid_count = 0, dmj_excess_data = [], dmj_excess_data_len = 0 \<rparr>"
  by code_simp+

lemma frame_dispatch:
  assumes "length payload \<le> 65536"
  shows "sv2_jd_handle_frame env draws cid (framed t payload) st = (do {
    (ret, s) \<leftarrow>
      (let st = client_get cid True st in
       if t = SV2_MSG_SETUP_CONNECTION then Some (handle_setup cid payload st)
       else if t = SV2_MSG_ALLOCATE_MINING_JOB_TOKEN then handle_allocate env draws cid payload st
       else if t = SV2_MSG_DECLARE_MINING_JOB then handle_declare env draws cid payload st
       else if t = SV2_MSG_PROVIDE_MISSING_TRANSACTIONS_SUCCESS then
         handle_provide_missing_success env draws cid payload st
       else if t = SV2_MSG_PUSH_SOLUTION then Some (handle_push_solution env cid payload st)
       else Some (None, st));
    Some (ret, client_put cid s) })"
proof -
  obtain h where h: "sv2_decode_header (framed t payload) = Some h" "fr_extension_type h = 0" "fr_msg_type h = t"
    "unat (fr_msg_length h) = length payload"
    using build_frame_decode_header [of payload 0 t] assms by (auto simp: framed_def)
  have l: "length (framed t payload) = 6 + length payload" "drop 6 (framed t payload) = payload"
    by (simp_all add: framed_def sv2_encode_header_def)
  show ?thesis
    using assms by (simp add: sv2_jd_handle_frame_def h l SV2_FRAME_HEADER_LEN_def SV2_MAX_JD_PAYLOAD_def Let_def)
qed

section \<open>The three frames\<close>

lemma demo_outputs:
  assumes "bch_address_to_script addr bitcoincash = Some pool_script"
  shows "pool_pays pool_script (demo_env addr)"
    "build_allocate_outputs (demo_env addr) 64 user = [0x01] @ replicate 8 0 @ [25] @ pool_script"
    "extract_first_output_script ([0x01] @ replicate 8 0 @ [25] @ pool_script) = Some pool_script"
proof -
  show p: "pool_pays pool_script (demo_env addr)" using assms by (simp add: pool_pays_def demo_env_def)
  have "length pool_script = 25" by (simp add: pool_script_def)
  then show o: "build_allocate_outputs (demo_env addr) 64 user = [0x01] @ replicate 8 0 @ [25] @ pool_script"
    using handed_out(1) [OF p] by simp
  show "extract_first_output_script ([0x01] @ replicate 8 0 @ [25] @ pool_script) = Some pool_script"
    using handed_out(2) [OF p, of user] unfolding o .
qed

definition demo_c1 :: sv2_jd_client where
  "demo_c1 = (new_client 1)\<lparr>jc_setup_ok := True, jc_full_template := True\<rparr>"

definition demo_s1 :: jd_state where "demo_s1 = jd_init\<lparr>jd_clients := [demo_c1]\<rparr>"

lemma demo_setup_step:
  "sv2_jd_handle_frame env draws 1 (framed SV2_MSG_SETUP_CONNECTION setup_payload) jd_init =
    Some (Some [0, 0, 1, 6, 0, 0, 2, 0, 0, 0, 0, 0], demo_s1)"
proof -
  have "length setup_payload \<le> 65536" by (simp add: setup_payload_def)
  moreover have "do { pbuf \<leftarrow> sv2_encode_setup_connection_success 64 \<lparr> scs_used_version = 2, scs_flags = 0 \<rparr>;
      reply_frame SV2_MSG_SETUP_CONNECTION_SUCCESS pbuf } = Some [0, 0, 1, 6, 0, 0, 2, 0, 0, 0, 0, 0]"
    by code_simp
  ultimately show ?thesis
    by (simp add: frame_dispatch client_get_def find_client_def jd_init_def update_client_def handle_setup_def
        demo_decodes SV2_PROTOCOL_JOB_DECLARATION_def SV2_JD_FLAG_DECLARE_TX_DATA_def client_put_def
        client_unref_locked_def demo_s1_def demo_c1_def new_client_def)
qed

definition demo_t1 :: sv2_jd_token where
  "demo_t1 = \<lparr> tk_token = demo_token, tk_client_id = 1, tk_user_identifier = c_buf 256 [0x61], tk_created = 100,
     tk_declared = False, tk_version = 0, tk_wtxid_count = 0, tk_has_payout = True,
     tk_payout_script = pool_script, tk_coinbase_tx_prefix = None, tk_coinbase_tx_suffix = [],
     tk_wtxid_list = [], tk_tx_raws = [], tk_snapshot_bytes = 0, tk_enonce_len = 0 \<rparr>"

text \<open>After the second frame: the token is in the table, the rest of the tables is empty.\<close>

definition demo_s2 :: "jd_state \<Rightarrow> bool" where
  "demo_s2 st \<longleftrightarrow>
     jd_clients st = [demo_c1\<lparr>jc_user_logged := True, jc_alloc_window_start := 100, jc_alloc_count := 1\<rparr>] \<and>
     jd_tokens st = [demo_t1] \<and> jd_token_count st = 1 \<and> jd_token_snapshot_bytes st = 0 \<and>
     jd_coalesce st = [] \<and> pending_declares st = [] \<and> jd_validate_q st = [] \<and> jd_checkblock_inflight st = 0"

lemma demo_allocate_step:
  assumes addr: "bch_address_to_script addr bitcoincash = Some pool_script"
  shows "\<exists>r st. sv2_jd_handle_frame (demo_env addr) [demo_token] 1
    (framed SV2_MSG_ALLOCATE_MINING_JOB_TOKEN allocate_payload) demo_s1 = Some (r, st) \<and> demo_s2 st"
proof -
  have c: "cstr (c_buf 256 [0x61]) = [0x61]" by (simp add: cstr_c_buf)
  have t: "new_token demo_token 1 (c_buf 256 [0x61]) 100 ([0x01] @ replicate 8 0 @ [25] @ pool_script) = demo_t1"
    using demo_outputs(3) [OF addr]
    by (simp add: new_token_def token_set_payout_from_outputs_locked_def demo_t1_def c)
  have room: "make_token_room st = Some st" if "jd_token_count st < 4096" for st
    using that by (subst make_token_room.simps) (simp add: SV2_JD_MAX_TOKENS_GLOBAL_def)
  have l: "length allocate_payload \<le> 65536" by (simp add: allocate_payload_def)
  have e: "env_now (demo_env addr) = 100" by (simp add: demo_env_def)
  show ?thesis
    unfolding frame_dispatch [OF l]
    by (simp add: SV2_MSG_SETUP_CONNECTION_def SV2_MSG_ALLOCATE_MINING_JOB_TOKEN_def
        client_get_def find_client_def demo_s1_def demo_c1_def jd_init_def update_client_def new_client_def
        handle_allocate_def demo_decodes Let_def e demo_outputs(2) [OF addr]
        expire_old_tokens_locked_def free_tokens_where_def set_tokens_def
        SV2_JD_MAX_TOKENS_PER_MIN_def SV2_JD_MAX_TOKENS_GLOBAL_def)
       (simp add: allocate_new_def room update_client_def allocate_reply_def Let_def e t [simplified]
        SV2_JD_MAX_TOKENS_GLOBAL_def client_put_def client_unref_locked_def JD_STAT_INC_def demo_s2_def
        demo_c1_def new_client_def)
qed

definition demo_pending :: sv2_jd_pending where
  "demo_pending = \<lparr> pd_request_id = 9, pd_client_id = 1, pd_created = 100, pd_token = demo_token,
     pd_version = 0x20000000, pd_coinbase_tx_prefix = demo_prefix, pd_coinbase_tx_suffix = demo_suffix,
     pd_wtxid_list = [], pd_wtxid_count = 0, pd_tx_raws = [], pd_tx_bytes = 0, pd_missing = [],
     pd_awaiting_missing = False \<rparr>"

text \<open>After the third frame: the declaration is in the validation queue.\<close>

definition demo_s3 :: "jd_state \<Rightarrow> bool" where
  "demo_s3 st \<longleftrightarrow> jd_tokens st = [demo_t1] \<and> jd_token_count st = 1 \<and> jd_token_snapshot_bytes st = 0 \<and>
     pending_declares st = [] \<and> jd_validate_q st = [demo_pending]"

lemma demo_coinbase:
  "derive_coinbase_enonce_len demo_prefix = Some 12"
  "coinbase_spendable (demo_prefix @ replicate 12 0 @ demo_suffix) pool_script = Some (100, 0)"
  "length demo_prefix = 42" "length demo_suffix = 43"
  by code_simp+

lemma demo_funded: "declare_funded (demo_env addr) demo_prefix demo_suffix pool_script"
proof -
  have "pool_min_payout (demo_env addr) = 0" by (simp add: pool_min_payout_def Let_def demo_env_def)
  then have "payout_rule_ok (demo_env addr) (100, 0)" by (simp add: payout_rule_ok_def demo_env_def)
  moreover have "pool_script \<noteq> []" by (simp add: pool_script_def)
  ultimately show ?thesis
    using demo_coinbase(2-4) by (simp add: declare_funded_def demo_coinbase(1) coinbase_tx_funds_payout_def)
qed

lemma demo_declare_step:
  assumes st: "demo_s2 st"
  shows "\<exists>st'. sv2_jd_handle_frame (demo_env addr) draws 1
    (framed SV2_MSG_DECLARE_MINING_JOB declare_payload) st = Some (None, st') \<and> demo_s3 st'"
proof -
  have l: "length declare_payload \<le> 65536"
    using demo_coinbase(3,4) by (simp add: declare_payload_def demo_token_def)
  have t: "take 16 (c_buf 255 demo_token) = demo_token" by (simp add: c_buf_def demo_token_def)
  have e: "env_now (demo_env addr) = 100" "env_queue_ok (demo_env addr)" by (simp_all add: demo_env_def)
  have f: "find_token_locked demo_token [demo_t1] = Some 0" by (simp add: find_token_locked_def demo_t1_def)
  have p: "tk_client_id demo_t1 = 1" "tk_has_payout demo_t1" "tk_payout_script demo_t1 = pool_script" "pool_script \<noteq> []"
    by (simp_all add: demo_t1_def pool_script_def)
  show ?thesis
    unfolding frame_dispatch [OF l]
    using st
    by (simp add: SV2_MSG_SETUP_CONNECTION_def SV2_MSG_ALLOCATE_MINING_JOB_TOKEN_def SV2_MSG_DECLARE_MINING_JOB_def
        client_get_def find_client_def update_client_def new_client_def demo_s2_def demo_c1_def
        handle_declare_def demo_decodes Let_def e t f p demo_funded SV2_MAX_JD_TXNS_def SV2_JD_MAX_DECLARES_PER_MIN_def
        new_pending_def pending_alloc_tx_slots_def declare_transactions_def pending_fill_from_cache_locked_def
        pending_collect_missing_def start_declare_validation_def try_coalesce_declare_def coalesce_lookup_locked_def
        checkblock_try_begin_def SV2_JD_CHECKBLOCK_MAX_INFLIGHT_def client_put_def client_unref_locked_def
        demo_s3_def demo_pending_def)
qed

section \<open>The validation\<close>

lemma demo_pend_ok: "pend_ok demo_pending" "length (pd_token demo_pending) \<le> 255"
  using demo_coinbase(3,4)
  by (simp_all add: pend_ok_def demo_pending_def slots_ok_def slot_bytes_def demo_token_def)

lemma demo_tries: "enonce_tries (demo_env addr) demo_pending = [12]"
  by (simp add: enonce_tries_def demo_pending_def demo_coinbase demo_env_def)

lemma demo_walk: "tx_walk (demo_prefix @ replicate 12 0 @ demo_suffix) \<noteq> None"
  by code_simp

lemma demo_txid: "\<exists>t. sv2_bitcoin_txid (demo_prefix @ replicate 12 0 @ demo_suffix) = Some t"
  using demo_walk by (cases "\<exists>b. tx_walk (demo_prefix @ replicate 12 0 @ demo_suffix) = Some b \<and> tb_witness b")
    (auto simp: sv2_bitcoin_txid_def)

lemma demo_assembled: "\<exists>block. assemble_candidate_block (demo_env addr) demo_pending 12 = Some block"
proof -
  obtain t where t: "sv2_bitcoin_txid (demo_prefix @ replicate 12 0 @ demo_suffix) = Some t"
    using demo_txid by blast
  show ?thesis
    using demo_coinbase(3,4)
    by (simp add: assemble_candidate_block_def demo_env_def demo_pending_def pending_txs_complete_def
        SV2_JD_MAX_BLOCK_BYTES_def assemble_block_def t Let_def sv2_compact_size_len_def)
qed

lemma demo_kept:
  assumes "demo_s3 st"
  shows "jd_tokens (expire_old_tokens_locked 100 st) = [demo_t1]"
    "find_token_locked (pd_token demo_pending) (jd_tokens (expire_old_tokens_locked 100 st)) = Some 0"
    "token_snapshot_may_add_locked (pd_client_id demo_pending) (pending_snapshot_bytes demo_pending)
      (expire_old_tokens_locked 100 st)"
proof -
  have x: "\<not> token_expired 100 demo_t1"
    by (simp add: token_expired_def demo_t1_def SV2_JD_TOKEN_TTL_UNDECLARED_SECS_def)
  then have "jd_tokens (expire_old_tokens_locked 100 st) = [demo_t1] \<and>
      jd_token_snapshot_bytes (expire_old_tokens_locked 100 st) = 0"
    using assms by (simp add: demo_s3_def expire_old_tokens_locked_def free_tokens_where_def set_tokens_def)
  then show "jd_tokens (expire_old_tokens_locked 100 st) = [demo_t1]"
    "find_token_locked (pd_token demo_pending) (jd_tokens (expire_old_tokens_locked 100 st)) = Some 0"
    "token_snapshot_may_add_locked (pd_client_id demo_pending) (pending_snapshot_bytes demo_pending)
      (expire_old_tokens_locked 100 st)"
    using demo_coinbase(3,4)
    by (simp_all add: find_token_locked_def demo_t1_def demo_pending_def token_snapshot_may_add_locked_def
        pending_snapshot_bytes_def token_snapshot_client_bytes_locked_def
        SV2_JD_MAX_TOKEN_SNAPSHOT_BYTES_GLOBAL_def SV2_JD_MAX_TOKEN_SNAPSHOT_BYTES_CLIENT_def)
qed

text \<open>The run: a reachable state of the shared pool with the declaration waiting for its check.\<close>

lemma demo_run:
  obtains addr st where "bch_address_to_script addr bitcoincash = Some pool_script"
    "pool_pays pool_script (demo_env addr)"
    "jd_reach (pool_pays pool_script) (\<lambda>draws _. set draws \<subseteq> {demo_token}) st" "demo_s3 st"
proof -
  let ?E = "pool_pays pool_script" and ?F = "\<lambda>draws (_ :: jd_state). set draws \<subseteq> {demo_token}"
  have "pool_script = hash160_to_p2pkh_script (replicate 20 0x11)"
    by (simp add: pool_script_def hash160_to_p2pkh_script_def)
  moreover have "strcaseeq bitcoincash bitcoincash \<longleftrightarrow> fst (address_chain []) = hrp_bc" by code_simp
  ultimately obtain addr where a: "bch_address_to_script addr bitcoincash = Some pool_script"
    using script_address_script [of "replicate 20 0x11" 128 bitcoincash "[]" False] by (auto simp: pays_def)
  note E = demo_outputs(1) [OF a]
  obtain r2 s2 where r2: "sv2_jd_handle_frame (demo_env addr) [demo_token] 1
      (framed SV2_MSG_ALLOCATE_MINING_JOB_TOKEN allocate_payload) demo_s1 = Some (r2, s2)" "demo_s2 s2"
    using demo_allocate_step [OF a] by blast
  obtain s3 where r3: "sv2_jd_handle_frame (demo_env addr) [] 1
      (framed SV2_MSG_DECLARE_MINING_JOB declare_payload) s2 = Some (None, s3)" "demo_s3 s3"
    using demo_declare_step [OF r2(2)] by blast
  have step: "jd_reach ?E ?F t"
    if "jd_reach ?E ?F s" "?F draws s" "sv2_jd_handle_frame (demo_env addr) draws 1 bs s = Some (r, t)" for s t r bs draws
    by (rule jd_reach.step [OF that(1)], rule jd_step.frame) (use E that in auto)
  have "jd_reach ?E ?F s3"
    by (rule step [OF step [OF step [OF jd_reach.start _ demo_setup_step [of "demo_env addr" "[]"]] _ r2(1)] _ r3(1)]) simp_all
  then show thesis by (rule that [OF a E _ r3(2)])
qed

text \<open>The node's answer makes the token a declared one.\<close>

lemma demo_declared:
  obtains addr st tok where "bch_address_to_script addr bitcoincash = Some pool_script"
    "jd_reach (pool_pays pool_script) (\<lambda>draws _. set draws \<subseteq> {demo_token}) st"
    "tok \<in> set (jd_tokens st)" "find_token_locked demo_token (jd_tokens st) = Some 0" "tok = jd_tokens st ! 0"
    "holds_template demo_pending 12 tok"
proof -
  obtain addr st where r: "bch_address_to_script addr bitcoincash = Some pool_script"
      "pool_pays pool_script (demo_env addr)"
      "jd_reach (pool_pays pool_script) (\<lambda>draws _. set draws \<subseteq> {demo_token}) st"
    and q: "demo_s3 st"
    by (rule demo_run)
  obtain block where b: "assemble_candidate_block (demo_env addr) demo_pending 12 = Some block"
    using demo_assembled by blast
  have qi: "0 < length (jd_validate_q st)" "demo_pending = jd_validate_q st ! 0" using q by (simp_all add: demo_s3_def)
  have e: "env_svc_ready (demo_env addr)" "env_check_block (demo_env addr) block = Some (True, [])"
    "expire_old_tokens_locked 100 st = expire_old_tokens_locked (env_now2 (demo_env addr)) st"
    by (simp_all add: demo_env_def)
  have t: "tk_client_id (jd_tokens (expire_old_tokens_locked 100 st) ! 0) = pd_client_id demo_pending"
    "\<not> tk_declared (jd_tokens (expire_old_tokens_locked 100 st) ! 0)"
    using demo_kept(1) [OF q] by (simp_all add: demo_t1_def demo_pending_def)
  obtain bs st' where s: "jd_validate_process (demo_env addr) [] 0 st = Some (Some bs, st')"
    "find_token_locked (pd_token demo_pending) (jd_tokens st') = Some 0" "holds_template demo_pending 12 (jd_tokens st' ! 0)"
    using validated [OF qi demo_pend_ok demo_tries b e demo_kept(2) [OF q] t demo_kept(3) [OF q]] by blast
  have "jd_reach (pool_pays pool_script) (\<lambda>draws _. set draws \<subseteq> {demo_token}) st'"
    by (rule jd_reach.step [OF r(3)], rule jd_step.validate) (use r(2) s(1) qi(1) in auto)
  with r(1) s(2,3) show thesis
    using find_token_Some [OF s(2)] that [of addr st' "jd_tokens st' ! 0"] by (simp add: demo_pending_def)
qed

section \<open>Outputs built from the list handed out\<close>

definition demo_built :: bytes where
  "demo_built = [2, 0, 0xf2, 0x05, 0x2a, 1, 0, 0, 0, 25] @ pool_script @ [0, 0, 0, 0, 0, 0, 0, 0, 1, 0x6a]"

lemma demo_builds:
  "sv2_cb_build_outputs 200 ([0x01] @ replicate 8 0 @ [25] @ pool_script) 5000000000
    [0, 0, 0, 0, 0, 0, 0, 0, 1, 0x6a] 10 = Some demo_built"
  by code_simp

section \<open>A declaration that waits for a transaction\<close>

definition answer_payload :: bytes where "answer_payload = [9, 0, 0, 0, 1, 0, 3, 0, 0, 1, 2, 3]"

lemma answer_decoded:
  "sv2_decode_provide_missing_transactions_success answer_payload =
    Some \<lparr> pms_request_id = 9, pms_tx_count = 1, pms_transactions = [[1, 2, 3]], pms_tx_lens = [3] \<rparr>"
  by code_simp

definition waiting :: sv2_jd_pending where
  "waiting = demo_pending\<lparr>pd_wtxid_count := 1, pd_wtxid_list := gen_hash [1, 2, 3], pd_tx_raws := [None],
     pd_missing := [0], pd_awaiting_missing := True\<rparr>"

definition waiting_state :: jd_state where
  "waiting_state = demo_s1\<lparr>pending_declares := [waiting]\<rparr>"

lemma waiting_ok: "jd_ok (\<lambda>_. True) token_sound waiting_state"
proof -
  have "pend_ok waiting"
    using demo_coinbase(3,4) by (simp add: waiting_def demo_pending_def pend_ok_def slots_ok_def slot_bytes_def)
  moreover have "pending_count_client_locked cid waiting_state \<le> 8" for cid
    by (simp add: pending_count_client_locked_def waiting_state_def)
  ultimately show ?thesis
    using base.ok_init
    by (simp add: waiting_state_def demo_s1_def jd_ok_def tables_ok_def queue_ok_def clients_ok_def demo_c1_def
        new_client_def tokens_exact_def tokens_bounded_def cache_ok_def cache_exact_def coalesce_ok_def)
qed

end
