(* ===== verification/Float64.thy ===== *)
theory Float64
  imports Ck_Prelude Complex_Main "HOL-Library.Log_Nat"
begin

text \<open>
  The C type \<open>double\<close> as the code uses it: IEEE 754 binary64 with rounding to nearest, ties to
  even.  A finite value is the rational it denotes, so the two zeros are one value; no code
  modelled here divides by a zero or looks at the sign of one.  An operation on finite values is
  the exact result rounded.  A conversion to an integer type that the value does not fit in is
  \<open>None\<close>: the program unmasks \<open>FE_INVALID\<close> and dies there.
\<close>

section \<open>Rounding\<close>

definition floor_log2 :: "rat \<Rightarrow> int" where
  "floor_log2 x = (if 1 \<le> x then bitlen \<lfloor>x\<rfloor> - 1 else - bitlen (\<lceil>1 / x\<rceil> - 1))"

text \<open>The nearest integer, the even one of two.\<close>

definition round_even :: "rat \<Rightarrow> int" where
  "round_even x =
     (let n = \<lfloor>x\<rfloor>; d = x - of_int n
      in if d < 1 / 2 then n else if d > 1 / 2 then n + 1 else if even n then n else n + 1)"

text \<open>The exponent of the last place of a positive value, and the value rounded to that place.\<close>

definition f64_exp :: "rat \<Rightarrow> int" where
  "f64_exp x = max (floor_log2 x - 52) (- 1074)"

definition f64_mag :: "rat \<Rightarrow> rat" where
  "f64_mag x = (if x = 0 then 0
     else of_int (round_even (x / 2 powi f64_exp x)) * 2 powi f64_exp x)"

datatype f64 = F64_nan | F64_inf bool | F64 rat

text \<open>The flag of an infinity says that it is negative.\<close>

definition f64_round :: "rat \<Rightarrow> f64" where
  "f64_round x =
     (let y = f64_mag \<bar>x\<bar>
      in if y \<ge> 2 ^ 1024 then F64_inf (x < 0) else F64 (if x < 0 then - y else y))"

section \<open>Operations\<close>

fun f64_neg :: "f64 \<Rightarrow> f64" where
  "f64_neg F64_nan = F64_nan"
| "f64_neg (F64_inf s) = F64_inf (\<not> s)"
| "f64_neg (F64 x) = F64 (- x)"

fun f64_add :: "f64 \<Rightarrow> f64 \<Rightarrow> f64" where
  "f64_add (F64 x) (F64 y) = f64_round (x + y)"
| "f64_add (F64_inf s) (F64_inf t) = (if s = t then F64_inf s else F64_nan)"
| "f64_add (F64_inf s) (F64 y) = F64_inf s"
| "f64_add (F64 x) (F64_inf t) = F64_inf t"
| "f64_add _ _ = F64_nan"

definition f64_sub :: "f64 \<Rightarrow> f64 \<Rightarrow> f64" where
  "f64_sub a b = f64_add a (f64_neg b)"

fun f64_mul :: "f64 \<Rightarrow> f64 \<Rightarrow> f64" where
  "f64_mul (F64 x) (F64 y) = f64_round (x * y)"
| "f64_mul (F64_inf s) (F64_inf t) = F64_inf (s \<noteq> t)"
| "f64_mul (F64_inf s) (F64 y) = (if y = 0 then F64_nan else F64_inf (s \<noteq> (y < 0)))"
| "f64_mul (F64 x) (F64_inf t) = (if x = 0 then F64_nan else F64_inf ((x < 0) \<noteq> t))"
| "f64_mul _ _ = F64_nan"

fun f64_div :: "f64 \<Rightarrow> f64 \<Rightarrow> f64" where
  "f64_div (F64 x) (F64 y) =
     (if y = 0 then if x = 0 then F64_nan else F64_inf (x < 0) else f64_round (x / y))"
| "f64_div (F64_inf s) (F64_inf t) = F64_nan"
| "f64_div (F64_inf s) (F64 y) = F64_inf (s \<noteq> (y < 0))"
| "f64_div (F64 x) (F64_inf t) = F64 0"
| "f64_div _ _ = F64_nan"

fun f64_lt :: "f64 \<Rightarrow> f64 \<Rightarrow> bool" where
  "f64_lt (F64 x) (F64 y) \<longleftrightarrow> x < y"
| "f64_lt (F64_inf s) (F64_inf t) \<longleftrightarrow> s \<and> \<not> t"
| "f64_lt (F64_inf s) (F64 y) \<longleftrightarrow> s"
| "f64_lt (F64 x) (F64_inf t) \<longleftrightarrow> \<not> t"
| "f64_lt _ _ \<longleftrightarrow> False"

definition f64_le :: "f64 \<Rightarrow> f64 \<Rightarrow> bool" where
  "f64_le a b \<longleftrightarrow> f64_lt a b \<or> a = b \<and> a \<noteq> F64_nan"

definition f64_isfinite :: "f64 \<Rightarrow> bool" where
  "f64_isfinite a \<longleftrightarrow> (case a of F64 _ \<Rightarrow> True | _ \<Rightarrow> False)"

section \<open>Conversions\<close>

definition f64_of_int :: "int \<Rightarrow> f64" where
  "f64_of_int n = f64_round (of_int n)"

definition f64_of_u64 :: "u64 \<Rightarrow> f64" where
  "f64_of_u64 n = f64_of_int (uint n)"

definition rat_trunc :: "rat \<Rightarrow> int" where
  "rat_trunc x = (if x < 0 then \<lceil>x\<rceil> else \<lfloor>x\<rfloor>)"

definition f64_to_u64 :: "f64 \<Rightarrow> u64 option" where
  "f64_to_u64 a = (case a of
     F64 x \<Rightarrow> if 0 \<le> rat_trunc x \<and> rat_trunc x < 2 ^ 64 then Some (word_of_int (rat_trunc x)) else None
   | _ \<Rightarrow> None)"

definition f64_to_i64 :: "f64 \<Rightarrow> int option" where
  "f64_to_i64 a = (case a of
     F64 x \<Rightarrow> if - (2 ^ 63) \<le> rat_trunc x \<and> rat_trunc x < 2 ^ 63 then Some (rat_trunc x) else None
   | _ \<Rightarrow> None)"

text \<open>A \<open>float\<close> given by its bits, converted to \<open>double\<close>, which is exact.\<close>

definition f64_of_f32 :: "u32 \<Rightarrow> f64" where
  "f64_of_f32 b =
     (let s = bit b 31;
          e = uint (drop_bit 23 b AND 0xff);
          m = uint (b AND 0x7fffff);
          v = (if e = 0 then of_int m * 2 powi (- 149) else of_int (2 ^ 23 + m) * 2 powi (e - 150))
      in if e = 255 then if m = 0 then F64_inf s else F64_nan
         else F64 (if s then - v else v))"

section \<open>Powers of two\<close>

lemma powi_two_pos [simp]: "(0 :: rat) < 2 powi k"
  by (simp add: zero_less_power_int)

lemma powi_two_nonneg [simp]: "(0 :: rat) \<le> 2 powi k"
  by (simp add: less_imp_le)

lemma powi_two_le: "j \<le> k \<Longrightarrow> (2 :: rat) powi j \<le> 2 powi k"
  by (simp add: power_int_increasing)

lemma powi_two_diff: "(2 :: rat) powi a / 2 powi b = 2 powi (a - b)"
  by (simp add: power_int_diff)

lemma powi_two_int: "0 \<le> k \<Longrightarrow> (2 :: rat) powi k = of_int (2 ^ nat k)"
  by (simp add: power_int_def)

lemma powi_two_split: "(2 :: rat) powi (a + b) = 2 powi a * 2 powi b"
  by (simp add: power_int_add)

lemma floor_log2_bounds:
  assumes "0 < x"
  shows "2 powi floor_log2 x \<le> x" and "x < 2 powi (floor_log2 x + 1)"
proof -
  have "2 powi floor_log2 x \<le> x \<and> x < 2 powi (floor_log2 x + 1)"
  proof (cases "1 \<le> x")
    case True
    let ?n = "\<lfloor>x\<rfloor>"
    have n: "0 < ?n" using True by simp
    have b: "2 ^ nat (bitlen ?n - 1) \<le> ?n" "?n < 2 ^ nat (bitlen ?n)"
      using bitlen_bounds [OF n] by auto
    have pos: "0 < bitlen ?n" using n bitlen_eq_zero_iff [of ?n] bitlen_nonneg [of ?n] by linarith
    have "of_int (2 ^ nat (bitlen ?n - 1)) \<le> (of_int ?n :: rat)" using b(1) by linarith
    then have lo: "2 powi (bitlen ?n - 1) \<le> x"
      using pos by (subst powi_two_int) (auto intro: order_trans [OF _ of_int_floor_le])
    have "?n + 1 \<le> 2 ^ nat (bitlen ?n)" using b(2) by linarith
    then have "(of_int (?n + 1) :: rat) \<le> of_int (2 ^ nat (bitlen ?n))" by linarith
    moreover have "x < of_int (?n + 1)" by linarith
    ultimately have "x < 2 powi (bitlen ?n)"
      using pos by (subst powi_two_int) auto
    with lo show ?thesis using True by (simp add: floor_log2_def)
  next
    case False
    let ?c = "\<lceil>1 / x\<rceil> - 1"
    have inv: "1 < 1 / x" using False assms by simp
    then have c: "0 < ?c" by linarith
    have b: "2 ^ nat (bitlen ?c - 1) \<le> ?c" "?c < 2 ^ nat (bitlen ?c)"
      using bitlen_bounds [OF c] by auto
    have pos: "0 < bitlen ?c" using c bitlen_eq_zero_iff [of ?c] bitlen_nonneg [of ?c] by linarith
    have "(of_int (?c + 1) :: rat) \<le> of_int (2 ^ nat (bitlen ?c))" using b(2) by linarith
    moreover have "1 / x \<le> of_int (?c + 1)" by simp
    ultimately have "1 / x \<le> of_int (2 ^ nat (bitlen ?c))" by linarith
    then have "1 / x \<le> 2 powi (bitlen ?c)"
      using pos by (simp add: powi_two_int)
    then have lo: "2 powi (- bitlen ?c) \<le> x"
      using assms by (simp add: power_int_minus field_simps)
    have "of_int (2 ^ nat (bitlen ?c - 1)) \<le> (of_int ?c :: rat)" using b(1) by linarith
    moreover have "of_int ?c < 1 / x" by linarith
    ultimately have "2 powi (bitlen ?c - 1) < 1 / x"
      using pos by (subst powi_two_int) auto
    then have "x < 1 / 2 powi (bitlen ?c - 1)"
      using assms by (simp add: field_simps)
    then have "x < 2 powi (- (bitlen ?c - 1))"
      by (simp add: power_int_diff)
    then show ?thesis using lo False by (simp add: floor_log2_def)
  qed
  then show "2 powi floor_log2 x \<le> x" and "x < 2 powi (floor_log2 x + 1)" by auto
qed

lemma floor_log2_unique:
  assumes "2 powi k \<le> x" and "x < 2 powi (k + 1)"
  shows "floor_log2 x = k"
proof -
  have x: "0 < x" using assms(1) powi_two_pos [of k] by linarith
  note b = floor_log2_bounds [OF x]
  have "\<not> floor_log2 x + 1 \<le> k"
    using b(2) assms(1) powi_two_le [of "floor_log2 x + 1" k] by linarith
  moreover have "\<not> k + 1 \<le> floor_log2 x"
    using b(1) assms(2) powi_two_le [of "k + 1" "floor_log2 x"] by linarith
  ultimately show ?thesis by linarith
qed

lemma floor_log2_mono:
  assumes "0 < x" and "x \<le> y"
  shows "floor_log2 x \<le> floor_log2 y"
proof (rule ccontr)
  assume "\<not> ?thesis"
  then have "floor_log2 y + 1 \<le> floor_log2 x" by simp
  then have "2 powi (floor_log2 y + 1) \<le> x"
    using floor_log2_bounds(1) [OF assms(1)] powi_two_le order_trans by blast
  with floor_log2_bounds(2) [of y] assms show False by linarith
qed

lemma floor_log2_powi [simp]: "floor_log2 (2 powi k) = k"
  by (rule floor_log2_unique) (simp_all add: powi_two_split)


section \<open>Rounding to an integer\<close>

lemma round_even_cases: "round_even x = \<lfloor>x\<rfloor> \<or> round_even x = \<lfloor>x\<rfloor> + 1"
  by (simp add: round_even_def Let_def)

lemma round_even_of_int [simp]: "round_even (of_int n) = n"
  by (simp add: round_even_def)

lemma round_even_error: "\<bar>of_int (round_even x) - x\<bar> \<le> 1 / 2"
proof -
  have "of_int \<lfloor>x\<rfloor> \<le> x" and "x < of_int \<lfloor>x\<rfloor> + 1" by linarith+
  then show ?thesis
    unfolding round_even_def Let_def abs_if by (simp split: if_splits) linarith
qed

lemma round_even_mono:
  assumes "x \<le> y"
  shows "round_even x \<le> round_even y"
proof (cases "\<lfloor>x\<rfloor> = \<lfloor>y\<rfloor>")
  case True
  then show ?thesis using assms by (auto simp: round_even_def Let_def split: if_splits)
next
  case False
  then have "\<lfloor>x\<rfloor> + 1 \<le> \<lfloor>y\<rfloor>" using floor_mono [OF assms] by linarith
  then show ?thesis using round_even_cases [of x] round_even_cases [of y] by linarith
qed

lemma round_even_ge: "of_int n \<le> x \<Longrightarrow> n \<le> round_even x"
  using round_even_mono [of "of_int n" x] by simp

lemma round_even_le: "x \<le> of_int n \<Longrightarrow> round_even x \<le> n"
  using round_even_mono [of x "of_int n"] by simp

section \<open>Representable values\<close>

text \<open>The numbers a \<open>double\<close> has, but for the bound on their size.\<close>

definition f64_rep :: "rat \<Rightarrow> bool" where
  "f64_rep x \<longleftrightarrow> (\<exists>m e. \<bar>m\<bar> \<le> 2 ^ 53 \<and> - 1074 \<le> e \<and> x = of_int m * 2 powi e)"

lemma f64_repI: "\<bar>m\<bar> \<le> 2 ^ 53 \<Longrightarrow> - 1074 \<le> e \<Longrightarrow> x = of_int m * 2 powi e \<Longrightarrow> f64_rep x"
  unfolding f64_rep_def by blast

lemma f64_rep_int: "\<bar>n\<bar> \<le> 2 ^ 53 \<Longrightarrow> f64_rep (of_int n)"
  by (rule f64_repI [of n 0]) auto

lemma f64_rep_minus [simp]: "f64_rep (- x) \<longleftrightarrow> f64_rep x"
proof -
  have "f64_rep (- y)" if "f64_rep y" for y
  proof -
    obtain m e where "\<bar>m\<bar> \<le> 2 ^ 53" "- 1074 \<le> e" "y = of_int m * 2 powi e"
      using \<open>f64_rep y\<close> unfolding f64_rep_def by blast
    then show ?thesis by (intro f64_repI [of "- m" e]) auto
  qed
  from this [of x] this [of "- x"] show ?thesis by auto
qed

lemma f64_rep_abs: "f64_rep \<bar>x\<bar> \<longleftrightarrow> f64_rep x"
  by (simp add: abs_if)

lemma f64_exp_ge: "- 1074 \<le> f64_exp x"
  by (simp add: f64_exp_def)

text \<open>A representable value is a multiple of its last place.\<close>

lemma f64_rep_on_grid:
  assumes rep: "f64_rep x" and x: "0 < x"
  obtains n where "x = of_int n * 2 powi f64_exp x"
proof -
  from rep obtain m e where m: "\<bar>m\<bar> \<le> 2 ^ 53" and e: "- 1074 \<le> e" and xe: "x = of_int m * 2 powi e"
    unfolding f64_rep_def by blast
  have m0: "0 < m" using x xe powi_two_pos [of e] by (simp add: zero_less_mult_iff)
  show thesis
  proof (cases "f64_exp x \<le> e")
    case True
    have "x = of_int (m * 2 ^ nat (e - f64_exp x)) * 2 powi f64_exp x"
      using True xe powi_two_split [of "e - f64_exp x" "f64_exp x"]
      by (simp add: powi_two_int)
    then show thesis by (rule that)
  next
    case False
    then have p: "f64_exp x = floor_log2 x - 52" and ep: "e + 53 \<le> floor_log2 x"
      using e by (auto simp: f64_exp_def max_def split: if_splits)
    have "2 powi (e + 53) \<le> x"
      using floor_log2_bounds(1) [OF x] powi_two_le [OF ep] by linarith
    then have "(of_int (2 ^ 53) :: rat) \<le> of_int m"
      unfolding xe powi_two_split by (simp add: mult.commute)
    then have "2 ^ 53 \<le> m" by (simp only: of_int_le_iff)
    then have "m = 2 ^ 53" using m m0 by linarith
    then have "x = 2 powi (e + 53)" by (simp add: xe powi_two_split)
    then have "f64_exp x = e + 1" using p by simp
    then have "x = of_int (2 ^ 52) * 2 powi f64_exp x"
      by (simp add: \<open>x = 2 powi (e + 53)\<close> powi_two_split)
    then show thesis by (rule that)
  qed
qed

lemma f64_mag_rep:
  assumes "f64_rep x" and "0 \<le> x"
  shows "f64_mag x = x"
proof (cases "x = 0")
  case False
  with assms have "0 < x" by simp
  then obtain n where n: "x = of_int n * 2 powi f64_exp x" by (rule f64_rep_on_grid [OF assms(1)])
  then have "x / 2 powi f64_exp x = of_int n"
    using powi_two_pos [of "f64_exp x"] by (metis nonzero_mult_div_cancel_right less_irrefl)
  then show ?thesis using False n by (simp add: f64_mag_def)
qed (simp add: f64_mag_def)

lemma f64_scaled_less: "0 < x \<Longrightarrow> x / 2 powi f64_exp x < 2 ^ 53"
proof -
  assume x: "0 < x"
  have "floor_log2 x + 1 \<le> 53 + f64_exp x" by (simp add: f64_exp_def)
  then have "x < 2 powi (53 + f64_exp x)"
    using floor_log2_bounds(2) [OF x] powi_two_le by (meson less_le_trans)
  then show ?thesis by (simp add: powi_two_split field_simps)
qed

lemma f64_mag_is_rep: "0 \<le> x \<Longrightarrow> f64_rep (f64_mag x)"
proof (cases "x = 0")
  case False
  assume "0 \<le> x"
  with False have x: "0 < x" by simp
  let ?q = "x / 2 powi f64_exp x"
  have "0 \<le> ?q" using x by simp
  then have "0 \<le> round_even ?q" using round_even_ge [of 0 ?q] by simp
  moreover have "round_even ?q \<le> 2 ^ 53"
    using f64_scaled_less [OF x] by (intro round_even_le) simp
  ultimately show ?thesis
    using False f64_exp_ge [of x] by (intro f64_repI [of "round_even ?q" "f64_exp x"]) (auto simp: f64_mag_def)
qed (simp add: f64_mag_def f64_rep_def exI [of _ 0])

lemma f64_mag_nonneg: "0 \<le> x \<Longrightarrow> 0 \<le> f64_mag x"
  using round_even_ge [of 0 "x / 2 powi f64_exp x"] by (auto simp: f64_mag_def)


text \<open>Rounding preserves the order.\<close>

lemma f64_mag_mono:
  assumes "0 \<le> x" and "x \<le> y"
  shows "f64_mag x \<le> f64_mag y"
proof (cases "x = 0")
  case True
  then show ?thesis using f64_mag_nonneg [of y] assms by (simp add: f64_mag_def)
next
  case False
  with assms have x: "0 < x" and y: "0 < y" by auto
  have le: "f64_exp x \<le> f64_exp y"
    using floor_log2_mono [OF x assms(2)] by (simp add: f64_exp_def)
  show ?thesis
  proof (cases "f64_exp x = f64_exp y")
    case True
    have "round_even (x / 2 powi f64_exp x) \<le> round_even (y / 2 powi f64_exp y)"
      unfolding True using assms(2) by (intro round_even_mono divide_right_mono) auto
    then show ?thesis using True x y by (simp add: f64_mag_def)
  next
    case ne: False
    define q where "q = floor_log2 y"
    have eq: "f64_exp y = q - 52" and exq: "f64_exp x < q - 52"
      using le ne by (auto simp: f64_exp_def q_def max_def split: if_splits)
    have "floor_log2 x + 1 \<le> q" using exq by (simp add: f64_exp_def)
    then have xq: "x \<le> 2 powi q"
      using floor_log2_bounds(2) [OF x] powi_two_le [of "floor_log2 x + 1" q] by linarith
    have "x / 2 powi f64_exp x \<le> 2 powi (q - f64_exp x)"
      using xq by (simp add: power_int_diff divide_right_mono)
    also have "\<dots> = of_int (2 ^ nat (q - f64_exp x))" using exq by (intro powi_two_int) simp
    finally have "round_even (x / 2 powi f64_exp x) \<le> 2 ^ nat (q - f64_exp x)"
      by (rule round_even_le)
    then have "f64_mag x \<le> of_int (2 ^ nat (q - f64_exp x)) * 2 powi f64_exp x"
      using x by (simp only: f64_mag_def of_int_le_iff) (auto intro: mult_right_mono)
    also have "\<dots> = 2 powi (q - f64_exp x) * 2 powi f64_exp x"
      using exq by (simp add: powi_two_int)
    also have "\<dots> = 2 powi q" by (simp flip: powi_two_split)
    finally have upper: "f64_mag x \<le> 2 powi q" .
    have "2 powi q \<le> y" using floor_log2_bounds(1) [OF y] by (simp add: q_def)
    then have "2 powi q / 2 powi (q - 52) \<le> y / 2 powi f64_exp y"
      unfolding eq by (intro divide_right_mono) auto
    then have "of_int (2 ^ 52) \<le> y / 2 powi f64_exp y" by (simp add: powi_two_diff)
    then have "2 ^ 52 \<le> round_even (y / 2 powi f64_exp y)" by (rule round_even_ge)
    then have "(of_int (2 ^ 52) :: rat) \<le> of_int (round_even (y / 2 powi f64_exp y))"
      by (simp only: of_int_le_iff)
    then have "of_int (2 ^ 52) * 2 powi f64_exp y \<le> f64_mag y"
      using y by (simp add: f64_mag_def mult_right_mono)
    moreover have "of_int (2 ^ 52) * 2 powi f64_exp y = (2 powi q :: rat)"
      by (simp add: eq power_int_diff)
    ultimately show ?thesis using upper by linarith
  qed
qed

text \<open>The error is at most half of the last place, relative to the value at most \<open>2\<^sup>-\<^sup>5\<^sup>3\<close>.\<close>

lemma f64_mag_half_ulp: "0 < x \<Longrightarrow> \<bar>f64_mag x - x\<bar> \<le> 2 powi f64_exp x / 2"
proof -
  assume x: "0 < x"
  let ?u = "2 powi f64_exp x :: rat"
  have "f64_mag x - x = (of_int (round_even (x / ?u)) - x / ?u) * ?u"
    using x by (simp add: f64_mag_def field_simps)
  then have "\<bar>f64_mag x - x\<bar> = \<bar>of_int (round_even (x / ?u)) - x / ?u\<bar> * ?u"
    by (simp add: abs_mult)
  also have "\<dots> \<le> 1 / 2 * ?u" using round_even_error by (intro mult_right_mono) auto
  finally show ?thesis by simp
qed

lemma f64_mag_error:
  assumes "2 powi (- 1022) \<le> x"
  shows "\<bar>f64_mag x - x\<bar> \<le> x / 2 ^ 53"
proof -
  have x: "0 < x" using assms powi_two_pos [of "- 1022"] by linarith
  have "- 1022 \<le> floor_log2 x"
    using floor_log2_mono [OF powi_two_pos assms] by (simp only: floor_log2_powi)
  then have e: "f64_exp x = floor_log2 x - 52" by (simp add: f64_exp_def)
  have "2 powi f64_exp x / 2 = (2 powi floor_log2 x / 2 ^ 53 :: rat)"
    unfolding e by (simp add: power_int_diff)
  also have "\<dots> \<le> x / 2 ^ 53" using floor_log2_bounds(1) [OF x] by (intro divide_right_mono) auto
  finally show ?thesis using f64_mag_half_ulp [OF x] by linarith
qed

section \<open>The operations on finite values\<close>

definition f64_ok :: "rat \<Rightarrow> bool" where
  "f64_ok x \<longleftrightarrow> f64_rep x \<and> \<bar>x\<bar> < 2 ^ 1024"

lemma f64_round_exact: "f64_ok x \<Longrightarrow> f64_round x = F64 x"
  using f64_mag_rep [of "\<bar>x\<bar>"] by (auto simp: f64_round_def f64_ok_def f64_rep_abs Let_def)

lemma f64_round_nonneg:
  assumes "0 \<le> x" and "f64_mag x < 2 ^ 1024"
  shows "f64_round x = F64 (f64_mag x)" and "f64_ok (f64_mag x)"
  using assms f64_mag_is_rep [of x] f64_mag_nonneg [of x] by (auto simp: f64_round_def Let_def f64_ok_def)

lemma f64_mag_le: "0 \<le> x \<Longrightarrow> x \<le> y \<Longrightarrow> f64_rep y \<Longrightarrow> f64_mag x \<le> y"
  using f64_mag_mono [of x y] f64_mag_rep [of y] by simp

lemma f64_mag_ge: "0 \<le> y \<Longrightarrow> y \<le> x \<Longrightarrow> f64_rep y \<Longrightarrow> y \<le> f64_mag x"
  using f64_mag_mono [of y x] f64_mag_rep [of y] by simp

lemma f64_rep_powi: "- 1074 \<le> k \<Longrightarrow> f64_rep (2 powi k)"
  by (rule f64_repI [of 1 k]) auto

end
