(* ===== verification/Difficulty.thy ===== *)
theory Difficulty
  imports Float64
begin

text \<open>
  Difficulties and targets: the conversions of \<^verbatim>\<open>src/src/libckpool.c\<close> and the choice of a channel's
  difficulty in \<^verbatim>\<open>src/src/sv2_strat.c\<close>.  A target is its 32 bytes, least significant first.

  Every product here is by a power of two, so a compiler that fuses it with the following sum
  rounds no differently.
\<close>

section \<open>Constants\<close>

definition truediffone :: f64 where
  "truediffone = F64 26959535291011309493156476344723991336010898738574164086137773096960"
definition bits192 :: f64 where
  "bits192 = F64 6277101735386680763835789423207666416102355444464034512896"
definition bits128 :: f64 where "bits128 = F64 340282366920938463463374607431768211456"
definition bits64 :: f64 where "bits64 = F64 18446744073709551616"

section \<open>Targets\<close>

text \<open>The eight bytes at an offset, as \<open>le64toh(read_u64(p))\<close> and \<open>be64toh(read_u64(p))\<close>.\<close>

definition le64_at :: "bytes \<Rightarrow> nat \<Rightarrow> u64" where
  "le64_at bs k = le_word (take 8 (drop k bs))"

definition be64_at :: "bytes \<Rightarrow> nat \<Rightarrow> u64" where
  "be64_at bs k = le_word (rev (take 8 (drop k bs)))"

definition le256todouble :: "bytes \<Rightarrow> f64" where
  "le256todouble target =
     (let dcut64 = f64_mul (f64_of_u64 (le64_at target 24)) bits192;
          dcut64 = f64_add dcut64 (f64_mul (f64_of_u64 (le64_at target 16)) bits128);
          dcut64 = f64_add dcut64 (f64_mul (f64_of_u64 (le64_at target 8)) bits64)
      in f64_add dcut64 (f64_of_u64 (le64_at target 0)))"

definition be256todouble :: "bytes \<Rightarrow> f64" where
  "be256todouble target =
     (let dcut64 = f64_mul (f64_of_u64 (be64_at target 0)) bits192;
          dcut64 = f64_add dcut64 (f64_mul (f64_of_u64 (be64_at target 8)) bits128);
          dcut64 = f64_add dcut64 (f64_mul (f64_of_u64 (be64_at target 16)) bits64)
      in f64_add dcut64 (f64_of_u64 (be64_at target 24)))"

definition diff_from_target :: "bytes \<Rightarrow> f64" where
  "diff_from_target target =
     (let dcut64 = le256todouble target
      in f64_div truediffone (if f64_le dcut64 (F64 0) then F64 1 else dcut64))"

definition diff_from_betarget :: "bytes \<Rightarrow> f64" where
  "diff_from_betarget target =
     (let dcut64 = be256todouble target
      in f64_div truediffone (if f64_le dcut64 (F64 0) then F64 1 else dcut64))"

text \<open>The network difficulty of the four bytes of a packed header's \<open>nbits\<close>.\<close>

definition diff_from_nbits :: "bytes \<Rightarrow> f64" where
  "diff_from_nbits nbits =
     (let shift = unat (nbits ! 0);
          shift = (if shift < 3 then 3 else if shift > 32 then 32 else shift)
      in diff_from_betarget
           (replicate (32 - shift) 0 @ take 3 (drop 1 nbits) @ replicate (shift - 3) 0))"

text \<open>One 64-bit digit of a target: the integer part of the quotient, and what is left.\<close>

definition target_digit :: "f64 \<Rightarrow> f64 \<Rightarrow> (u64 \<times> f64) option" where
  "target_digit unit d64 = do {
     h64 \<leftarrow> f64_to_u64 (f64_div d64 unit);
     Some (h64, f64_sub d64 (f64_mul (f64_of_u64 h64) unit)) }"

definition target_from_diff :: "f64 \<Rightarrow> bytes option" where
  "target_from_diff diff =
     (if diff = F64 0 then Some (replicate 32 0xff)
      else do {
        let d64 = f64_div truediffone diff;
        (h3, d64) \<leftarrow> target_digit bits192 d64;
        (h2, d64) \<leftarrow> target_digit bits128 d64;
        (h1, d64) \<leftarrow> target_digit bits64 d64;
        h0 \<leftarrow> f64_to_u64 d64;
        Some (le_bytes 8 h0 @ le_bytes 8 h1 @ le_bytes 8 h2 @ le_bytes 8 h3) })"

text \<open>The loop compares from byte \<open>n - 1\<close> down.\<close>

fun target_cmp_from :: "nat \<Rightarrow> bytes \<Rightarrow> bytes \<Rightarrow> int" where
  "target_cmp_from 0 a b = 0"
| "target_cmp_from (Suc i) a b =
     (if a ! i \<noteq> b ! i then uint (a ! i) - uint (b ! i) else target_cmp_from i a b)"

definition target_cmp_le :: "bytes \<Rightarrow> bytes \<Rightarrow> int" where
  "target_cmp_le a b = target_cmp_from 32 a b"

section \<open>The difficulty of a channel\<close>

definition SV2_MAX_CHANNEL_DIFF :: f64 where "SV2_MAX_CHANNEL_DIFF = F64 1000000000000000"

text \<open>The fields of \<open>ckpool\<close> that bound difficulties; \<open>None\<close> is a null array.\<close>

record diff_config =
  dc_mindiff :: int
  dc_startdiff :: int
  dc_highdiff :: int
  dc_maxdiff :: int
  dc_serverurls :: int
  dc_server_highdiff :: "bool list option"

definition wire_f32_finite :: "u32 \<Rightarrow> bool" where
  "wire_f32_finite bits \<longleftrightarrow> bits AND 0x7f800000 \<noteq> 0x7f800000"

definition clamp_channel_diff :: "f64 \<Rightarrow> f64" where
  "clamp_channel_diff diff =
     (if \<not> f64_isfinite diff \<or> f64_lt diff (F64 1) then F64 1
      else if f64_lt SV2_MAX_CHANNEL_DIFF diff then SV2_MAX_CHANNEL_DIFF else diff)"

definition server_diff_floor :: "diff_config \<Rightarrow> int \<Rightarrow> f64" where
  "server_diff_floor cfg server =
     (case dc_server_highdiff cfg of None \<Rightarrow> F64 0
      | Some flags \<Rightarrow>
          if server \<ge> 0 \<and> server < dc_serverurls cfg \<and> flags ! nat server
          then f64_of_int (dc_highdiff cfg) else F64 0)"

definition choose_channel_diff :: "diff_config \<Rightarrow> u32 \<Rightarrow> bytes \<Rightarrow> f64 \<Rightarrow> f64" where
  "choose_channel_diff cfg nominal_hr max_target floor_diff =
     (let diff = f64_of_int (dc_startdiff cfg);
          mindiff = f64_of_int (dc_mindiff cfg);
          mindiff = (if f64_lt mindiff floor_diff then floor_diff else mindiff);
          hr = (if wire_f32_finite nominal_hr \<and> f64_lt (F64 0) (f64_of_f32 nominal_hr)
                then f64_of_f32 nominal_hr else F64 0);
          want = f64_mul (f64_div hr (F64 4294967296)) (F64 10);
          diff = (if f64_lt (F64 0) hr \<and> f64_isfinite want \<and> f64_lt (F64 1) want then want else diff);
          diff = (if f64_lt diff mindiff then mindiff else diff);
          diff = (if dc_maxdiff cfg \<noteq> 0 \<and> f64_lt (f64_of_int (dc_maxdiff cfg)) diff
                  then f64_of_int (dc_maxdiff cfg) else diff);
          max_diff = diff_from_target max_target;
          diff = (if f64_isfinite max_diff \<and> f64_lt (F64 0) max_diff \<and> f64_lt diff max_diff
                  then max_diff else diff)
      in clamp_channel_diff diff)"

text \<open>
  The integer difficulty the stratifier holds a session to (\<open>sane_diff_int64\<close> in
  \<^verbatim>\<open>src/src/stratifier.c\<close>).
\<close>

definition sane_diff_int64 :: "f64 \<Rightarrow> int option" where
  "sane_diff_int64 diff =
     (if \<not> f64_isfinite diff \<or> f64_lt diff (F64 1) then Some 0
      else if f64_lt (F64 1000000000000000000) diff then Some 1000000000000000000
      else f64_to_i64 (f64_add diff (f64_round (999999 / 1000000))))"

section \<open>Times\<close>

record tv_t =
  tv_sec :: int
  tv_usec :: int

definition tvdiff :: "tv_t \<Rightarrow> tv_t \<Rightarrow> f64" where
  "tvdiff end start =
     f64_add (f64_of_int (tv_sec end - tv_sec start))
       (f64_div (f64_of_int (tv_usec end - tv_usec start)) (F64 1000000))"


section \<open>The number a target is\<close>

fun target_value :: "bytes \<Rightarrow> int" where
  "target_value [] = 0"
| "target_value (b # bs) = uint b + 256 * target_value bs"

lemma target_value_nonneg [simp]: "0 \<le> target_value bs"
  by (induction bs) auto

lemma uint_byte_le: "uint (b :: byte) \<le> 255"
  using uint_lt2p [of b] by simp

lemma target_value_less: "target_value bs < 2 ^ (8 * length bs)"
proof (induction bs)
  case (Cons b bs)
  then show ?case using uint_byte_le [of b] by (simp add: power_add)
qed simp

lemma target_value_append:
  "target_value (a @ b) = target_value a + 2 ^ (8 * length a) * target_value b"
  by (induction a) (simp_all add: power_add algebra_simps)

lemma le_bytes_Suc: "le_bytes (Suc n) v = ucast v # le_bytes n (drop_bit 8 v)"
  by (simp add: le_bytes_def map_upt_Suc add.commute del: upt_Suc)

lemma target_value_le_bytes:
  "target_value (le_bytes n (v :: u64)) = uint v mod 2 ^ (8 * n)"
proof (induction n arbitrary: v)
  case 0
  then show ?case by (simp add: le_bytes_def)
next
  case (Suc n)
  have low: "uint (ucast v :: byte) = uint v mod 256"
    by (simp add: unsigned_ucast_eq take_bit_eq_mod)
  have "uint v mod (256 * 2 ^ (8 * n)) = uint v mod 256 + 256 * (uint v div 256 mod 2 ^ (8 * n))"
    using mod_mult2_eq' [of "uint v" 256 "2 ^ (8 * n)"] by (simp add: zmod_zmult2_eq)
  moreover have "uint (drop_bit 8 v) = uint v div 256"
    by (simp add: drop_bit_eq_div uint_div_distrib)
  ultimately show ?case by (simp add: le_bytes_Suc Suc low power_add)
qed

lemma target_value_le_bytes8 [simp]: "target_value (le_bytes 8 (v :: u64)) = uint v"
  using uint_lt2p [of v] by (simp add: target_value_le_bytes)

lemma uint_le_word: "length bs \<le> 8 \<Longrightarrow> uint (le_word bs :: u64) = target_value bs"
proof -
  assume "length bs \<le> 8"
  define cs where "cs = bs @ replicate (8 - length bs) 0"
  have "length cs = 8" using \<open>length bs \<le> 8\<close> by (simp add: cs_def)
  then have "le_bytes 8 (le_word cs :: u64) = cs" by (intro le_bytes_le_word) auto
  then have v: "uint (le_word cs :: u64) = target_value cs" using target_value_le_bytes8 by metis
  have z: "target_value (replicate k 0) = 0" for k by (induction k) auto
  have lz: "(le_word (replicate k 0) :: u64) = 0" for k by (induction k) auto
  have "(le_word (a @ replicate k 0) :: u64) = le_word a" for a k
    by (induction a) (simp_all add: lz)
  then show ?thesis using v by (simp add: cs_def target_value_append z)
qed

lemma uint_le64_at: "uint (le64_at bs k) = target_value (take 8 (drop k bs))"
  by (simp add: le64_at_def uint_le_word)

lemma target_value_drop:
  assumes "k + 8 \<le> length t"
  shows "target_value (drop k t) = uint (le64_at t k) + 2 ^ 64 * target_value (drop (k + 8) t)"
proof -
  have "drop k t = take 8 (drop k t) @ drop (k + 8) t"
    by (metis add.commute append_take_drop_id drop_drop)
  then have "target_value (drop k t) = target_value (take 8 (drop k t) @ drop (k + 8) t)" by simp
  also have "\<dots> = uint (le64_at t k) + 2 ^ (8 * length (take 8 (drop k t))) * target_value (drop (k + 8) t)"
    by (simp only: target_value_append uint_le64_at)
  finally show ?thesis using assms by simp
qed

lemma target_value_words:
  assumes "length t = 32"
  shows "target_value t = uint (le64_at t 0) + 2 ^ 64 * uint (le64_at t 8) +
    2 ^ 128 * uint (le64_at t 16) + 2 ^ 192 * uint (le64_at t 24)"
  using target_value_drop [of 0 t] target_value_drop [of 8 t] target_value_drop [of 16 t]
    target_value_drop [of 24 t] assms by simp

text \<open>The comparison of two targets is the comparison of their numbers.\<close>

lemma target_cmp_from_sgn:
  "n \<le> length a \<Longrightarrow> n \<le> length b \<Longrightarrow>
    sgn (target_cmp_from n a b) = sgn (target_value (take n a) - target_value (take n b))"
proof (induction n)
  case (Suc i)
  have v: "target_value (take (Suc i) c) = target_value (take i c) + 2 ^ (8 * i) * uint (c ! i)"
    if "Suc i \<le> length c" for c
    using that by (simp add: take_Suc_conv_app_nth target_value_append)
  have bound: "target_value (take i c) < 2 ^ (8 * i)" if "Suc i \<le> length c" for c
    using target_value_less [of "take i c"] that by simp
  show ?case
  proof (cases "a ! i = b ! i")
    case True
    then show ?thesis using Suc v [of a] v [of b] by simp
  next
    case False
    let ?d = "uint (a ! i) - uint (b ! i)"
    have d: "?d \<noteq> 0" using False by (simp add: word_uint_eq_iff)
    have bd: "target_value (take (Suc i) a) - target_value (take (Suc i) b) =
        (target_value (take i a) - target_value (take i b)) + 2 ^ (8 * i) * ?d"
      using v [of a] v [of b] Suc.prems by (simp add: algebra_simps)
    let ?l = "target_value (take i a) - target_value (take i b)"
    have l: "\<bar>?l\<bar> < 2 ^ (8 * i)"
      using bound [of a] bound [of b] Suc.prems target_value_nonneg [of "take i a"]
        target_value_nonneg [of "take i b"] by linarith
    have "sgn (?l + 2 ^ (8 * i) * ?d) = sgn ?d"
    proof (cases "0 < ?d")
      case True
      then have "2 ^ (8 * i) \<le> 2 ^ (8 * i) * ?d" by simp
      with l have "0 < ?l + 2 ^ (8 * i) * ?d" by linarith
      with True show ?thesis by (simp only: sgn_pos)
    next
      case neg: False
      with d have dn: "?d < 0" by linarith
      then have "2 ^ (8 * i) * ?d \<le> 2 ^ (8 * i) * (- 1)" by (intro mult_left_mono) auto
      with l have "?l + 2 ^ (8 * i) * ?d < 0" by linarith
      with dn show ?thesis by (simp only: sgn_neg)
    qed
    then have "sgn (target_value (take (Suc i) a) - target_value (take (Suc i) b)) = sgn ?d"
      by (simp only: bd)
    then show ?thesis using False by simp
  qed
qed simp

lemma target_cmp_le_sgn:
  "length a = 32 \<Longrightarrow> length b = 32 \<Longrightarrow>
    sgn (target_cmp_le a b) = sgn (target_value a - target_value b)"
  using target_cmp_from_sgn [of 32 a b] by (simp add: target_cmp_le_def)

lemma target_cmp_le_pos:
  "length a = 32 \<Longrightarrow> length b = 32 \<Longrightarrow> target_cmp_le a b > 0 \<longleftrightarrow> target_value b < target_value a"
  using target_cmp_le_sgn [of a b] by (simp add: sgn_if split: if_splits)

end
