(* ===== verification/Hex.thy ===== *)
theory Hex
  imports Ck_Prelude
begin

text \<open>
  Hexadecimal strings as \<^verbatim>\<open>src/src/libckpool.c\<close> writes and reads them.  A string is the characters
  before its terminator.
\<close>

definition hex_digits :: bytes where
  "hex_digits = [0x30, 0x31, 0x32, 0x33, 0x34, 0x35, 0x36, 0x37, 0x38, 0x39,
                 0x61, 0x62, 0x63, 0x64, 0x65, 0x66]"

definition bin2hex :: "bytes \<Rightarrow> bytes" where
  "bin2hex p = concat (map (\<lambda>b. [hex_digits ! unat (drop_bit 4 b), hex_digits ! unat (b AND 0xF)]) p)"

definition hex2bin_tbl :: "int list" where
  "hex2bin_tbl =
     replicate 48 (- 1) @ [0, 1, 2, 3, 4, 5, 6, 7, 8, 9] @ replicate 7 (- 1) @
     [10, 11, 12, 13, 14, 15] @ replicate 26 (- 1) @ [10, 11, 12, 13, 14, 15] @ replicate 153 (- 1)"

definition validhex :: "bytes \<Rightarrow> bool" where
  "validhex buf \<longleftrightarrow>
     (let slen = length buf
      in slen \<noteq> 0 \<and> slen mod 2 = 0 \<and> list_all (\<lambda>c. hex2bin_tbl ! unat c \<noteq> - 1) buf)"

text \<open>The bytes stored, and whether \<open>len\<close> of them were read from exactly the whole string.\<close>

fun hex2bin :: "nat \<Rightarrow> bytes \<Rightarrow> bytes \<times> bool" where
  "hex2bin 0 s = ([], s = [])"
| "hex2bin (Suc len) [] = ([], False)"
| "hex2bin (Suc len) [_] = ([], False)"
| "hex2bin (Suc len) (c # d # s) =
     (let nibble1 = hex2bin_tbl ! unat c; nibble2 = hex2bin_tbl ! unat d
      in if nibble1 < 0 \<or> nibble2 < 0 then ([], False)
         else let (bs, ret) = hex2bin len s
              in ((push_bit 4 (word_of_int nibble1) OR word_of_int nibble2) # bs, ret))"

lemma length_bin2hex [simp]: "length (bin2hex bs) = 2 * length bs"
  by (simp add: bin2hex_def length_concat_const [of bs _ 2])

lemma bin2hex_Nil [simp]: "bin2hex [] = []"
  by (simp add: bin2hex_def)

lemma bin2hex_Cons:
  "bin2hex (b # bs) = hex_digits ! unat (drop_bit 4 b) # hex_digits ! unat (b AND 0xF) # bin2hex bs"
  by (simp add: bin2hex_def)

lemma bin2hex_append: "bin2hex (a @ b) = bin2hex a @ bin2hex b"
  by (simp add: bin2hex_def)

lemma nibble_tbl: "\<forall>n\<in>{0..<16}. hex2bin_tbl ! unat (hex_digits ! n) = int n"
  by code_simp

lemma nibbles: "unat (drop_bit 4 (b :: byte)) < 16" "unat (b AND 0xF) < 16"
proof -
  have "unat (drop_bit 4 b) = unat b div 16"
    by (simp add: drop_bit_eq_div unat_div)
  then show "unat (drop_bit 4 b) < 16" using unat_byte_lt [of b] by simp
  have "(0xF :: byte) = mask 4" by (simp add: mask_eq_exp_minus_1)
  then have "b AND 0xF = take_bit 4 b" by (simp only: take_bit_eq_mask)
  then have "unat (b AND 0xF) = unat b mod 16" by (simp add: take_bit_eq_mod unat_mod)
  then show "unat (b AND 0xF) < 16" by simp
qed

lemma nibbles_join:
  "push_bit 4 (word_of_int (int (unat (drop_bit 4 b)))) OR word_of_int (int (unat (b AND 0xF))) = (b :: byte)"
proof -
  have m: "(0xF :: byte) = mask 4" by (simp add: mask_eq_exp_minus_1)
  have "word_of_int (int (unat w)) = (w :: byte)" for w by (simp add: word_of_int_uint flip: uint_nat)
  then show ?thesis
    unfolding m by (intro bit_word_eqI) (auto simp: bit_simps)
qed

lemma hex_tbl_digits:
  "hex2bin_tbl ! unat (hex_digits ! unat (drop_bit 4 (b :: byte))) = int (unat (drop_bit 4 b))"
  "hex2bin_tbl ! unat (hex_digits ! unat (b AND 0xF)) = int (unat (b AND 0xF))"
  using nibble_tbl nibbles [of b] by auto

lemma hex2bin_prefix: "hex2bin (length bs) (bin2hex bs @ rest) = (bs, rest = [])"
proof (induction bs)
  case (Cons b bs)
  then show ?case using nibbles_join [of b] by (simp add: bin2hex_Cons hex_tbl_digits Let_def)
qed simp

lemma hex2bin_bin2hex: "hex2bin (length bs) (bin2hex bs) = (bs, True)"
  using hex2bin_prefix [of bs "[]"] by simp

lemma validhex_bin2hex: "bs \<noteq> [] \<Longrightarrow> validhex (bin2hex bs)"
proof -
  have "list_all (\<lambda>c. hex2bin_tbl ! unat c \<noteq> - 1) (bin2hex bs)"
  proof (induction bs)
    case (Cons b bs)
    have "uint w \<noteq> - 1" for w :: byte using uint_ge_0 [of w] by linarith
    then show ?case using Cons by (simp add: bin2hex_Cons hex_tbl_digits)
  qed simp
  then show "bs \<noteq> [] \<Longrightarrow> validhex (bin2hex bs)" by (simp add: validhex_def)
qed

end
