(* ===== verification/Pool_Coinbase.thy ===== *)
theory Pool_Coinbase
  imports Float64 Hex Sv2_Tx Coinbase_Final
begin

text \<open>
  The coinbase transaction the pool mines: \<open>generate_coinbase\<close> and \<open>__generate_userwb\<close> of
  \<^verbatim>\<open>src/src/stratifier.c\<close> with \<open>ser_number\<close> of \<^verbatim>\<open>src/src/libckpool.c\<close>.  The transaction is cut into
  what precedes the extranonces (\<open>coinb1\<close>), what follows them (\<open>coinb2\<close>) and, for a solo pool,
  what follows the user's output (\<open>coinb3\<close>).  The fee is computed in floating point; \<open>None\<close> is a
  conversion to an integer that traps.
\<close>

section \<open>Numbers in the script\<close>

text \<open>The bytes that count: of the five stored the callers keep the first \<open>len\<close>.\<close>

definition ser_number :: "int \<Rightarrow> bytes" where
  "ser_number val =
     (let len = (if val < 0x80 then 1 else if val < 0x8000 then 2 else if val < 0x800000 then 3 else 4)
      in of_nat len # take len (le_bytes 4 (word_of_int val :: u32)))"

text \<open>The \<open>do\<close> loop that takes off the low byte until nothing is left.\<close>

function le_minimal :: "u32 \<Rightarrow> bytes" where
  "le_minimal h = ucast (h AND 0xff) # (if drop_bit 8 h = 0 then [] else le_minimal (drop_bit 8 h))"
  by auto

termination
proof (relation "measure unat")
  fix h :: u32
  assume "drop_bit 8 h \<noteq> 0"
  moreover have "unat (drop_bit 8 h) = unat h div 256" by (simp add: drop_bit_eq_div unat_div)
  moreover have "0 < unat h" using \<open>drop_bit 8 h \<noteq> 0\<close> by (auto simp: unat_gt_0)
  ultimately show "(drop_bit 8 h, h) \<in> measure unat" by simp
qed simp

definition ser_bip34_height :: "u32 \<Rightarrow> bytes" where
  "ser_bip34_height height =
     (if height = 0 then [0x00]
      else if height \<le> 16 then [0x50 + ucast height]
      else
        let tmp = le_minimal height;
            tmp = (if last tmp AND 0x80 \<noteq> 0 then tmp @ [0x00] else tmp)
        in of_nat (length tmp) # tmp)"

section \<open>Configuration and template\<close>

definition MAX_GBT_FLAGS_LEN :: nat where "MAX_GBT_FLAGS_LEN = 32"
definition witnessdata_size :: nat where "witnessdata_size = 36"

definition scriptsig_header :: bytes where
  "scriptsig_header = [1, 0, 0, 0, 1] @ replicate 32 0 @ [0xff, 0xff, 0xff, 0xff]"

text \<open>
  \<open>ckpool\<close> and \<open>sdata\<close>: the network, the extranonce lengths, the signature string, the operator's
  fee in percent with its script, and the script of the pool's address.
\<close>

record coinbase_config =
  cc_regtest :: bool
  cc_btcsolo :: bool
  cc_nonce1length :: nat
  cc_nonce2length :: nat
  cc_btcsig :: "bytes option"
  cc_poolvalid :: bool
  cc_poolfee :: f64
  cc_txnbin :: bytes
  cc_pooltxnbin :: bytes

text \<open>What \<open>generate_coinbase\<close> reads of the workbase and the clock.\<close>

record coinbase_template =
  ct_height :: int
  ct_flags :: bytes
  ct_coinbasevalue :: u64
  ct_insert_witness :: bool
  ct_witnessdata :: bytes
  ct_sec :: int
  ct_nsec :: int

record coinbase_parts =
  cp_coinb1 :: bytes
  cp_coinb2 :: bytes
  cp_coinb3 :: bytes
  cp_poolfee :: f64

section \<open>The first part\<close>

text \<open>A buffer cleared before \<open>hex2bin\<close> stored into it.\<close>

definition hex_field :: "nat \<Rightarrow> bytes \<Rightarrow> bytes" where
  "hex_field len s = c_buf len (fst (hex2bin len s))"

text \<open>Height, flags, time and the randomiser, up to the extranonces' push.\<close>

definition coinb1_script :: "coinbase_config \<Rightarrow> coinbase_template \<Rightarrow> bytes" where
  "coinb1_script cfg wb =
     (let flags_len = min (length (ct_flags wb) div 2) MAX_GBT_FLAGS_LEN
      in (if cc_regtest cfg then ser_bip34_height (word_of_int (ct_height wb)) else ser_number (ct_height wb)) @
         [of_nat flags_len] @ hex_field flags_len (ct_flags wb) @
         ser_number (ct_sec wb) @ ser_number (ct_nsec wb) @
         [of_nat (cc_nonce1length cfg + cc_nonce2length cfg)])"

definition btcsig_push :: "coinbase_config \<Rightarrow> bytes" where
  "btcsig_push cfg =
     (case cc_btcsig cfg of None \<Rightarrow> []
      | Some sig \<Rightarrow> if sig = [] then [] else of_nat (length sig) # sig)"

text \<open>The script's length byte, stored once everything else of the script is known.\<close>

definition generate_coinb1 :: "coinbase_config \<Rightarrow> coinbase_template \<Rightarrow> bytes" where
  "generate_coinb1 cfg wb =
     (let script = coinb1_script cfg wb;
          len = 1 + length script + cc_nonce1length cfg + cc_nonce2length cfg + length (btcsig_push cfg)
      in scriptsig_header @ [of_nat (len - 1)] @ script)"

section \<open>The outputs\<close>

text \<open>The fee in satoshis, \<open>0\<close> for one below the dust threshold.\<close>

definition pool_fee :: "coinbase_config \<Rightarrow> u64 \<Rightarrow> u64 option" where
  "pool_fee cfg g64 = do {
     d64 \<leftarrow> f64_to_u64 (f64_mul (f64_div (f64_of_u64 g64) (F64 100)) (cc_poolfee cfg));
     Some (if d64 < 546 then 0 else d64) }"

definition charges_fee :: "coinbase_config \<Rightarrow> bool" where
  "charges_fee cfg \<longleftrightarrow> cc_poolvalid cfg \<and> f64_lt (F64 0) (cc_poolfee cfg)"

definition fee_output :: "coinbase_config \<Rightarrow> u64 \<Rightarrow> bytes" where
  "fee_output cfg d64 = le_bytes 8 d64 @ [of_nat (length (cc_pooltxnbin cfg))] @ cc_pooltxnbin cfg"

definition witness_output :: "coinbase_template \<Rightarrow> bytes" where
  "witness_output wb =
     replicate 8 0 @ [of_nat (witnessdata_size + 2), 0x6a, of_nat witnessdata_size] @
     hex_field witnessdata_size (ct_witnessdata wb)"

text \<open>
  \<open>generate_coinbase\<close>.  A pool that is not configured to charge a fee has its percentage set to
  zero; one whose fee is dust this time keeps it.
\<close>

definition generate_coinbase :: "coinbase_config \<Rightarrow> coinbase_template \<Rightarrow> coinbase_parts option" where
  "generate_coinbase cfg wb = do {
     let g64 = ct_coinbasevalue wb;
     let witness = (if ct_insert_witness wb then 1 else 0 :: nat);
     (g64, d64, nouts, poolfee) \<leftarrow>
       (if charges_fee cfg then do {
          d64 \<leftarrow> pool_fee cfg g64;
          Some (if d64 = 0 then (g64, 0, 1 + witness, cc_poolfee cfg)
                else (g64 - d64, d64, 2 + witness, cc_poolfee cfg)) }
        else Some (g64, 0, 1 + witness, F64 0));
     (let coinb2 = btcsig_push cfg @ [0xff, 0xff, 0xff, 0xff] @ [of_nat nouts] @ le_bytes 8 g64;
          coinb3 = (if d64 \<noteq> 0 then fee_output cfg d64 else []) @
                  (if ct_insert_witness wb then witness_output wb else []) @ replicate 4 0
      in Some (if cc_btcsolo cfg
              then \<lparr> cp_coinb1 = generate_coinb1 cfg wb, cp_coinb2 = coinb2, cp_coinb3 = coinb3,
                     cp_poolfee = poolfee \<rparr>
              else \<lparr> cp_coinb1 = generate_coinb1 cfg wb,
                     cp_coinb2 = coinb2 @ [of_nat (length (cc_txnbin cfg))] @ cc_txnbin cfg @ coinb3,
                     cp_coinb3 = [], cp_poolfee = poolfee \<rparr>)) }"

text \<open>The second part of one user of a solo pool; a user without a script has none.\<close>

definition generate_userwb :: "coinbase_parts \<Rightarrow> bytes \<Rightarrow> bytes option" where
  "generate_userwb parts txnbin =
     (if txnbin = [] then None
      else Some (cp_coinb2 parts @ [of_nat (length txnbin)] @ txnbin @ cp_coinb3 parts))"

end
