(* ===== verification/Pool_Work.thy ===== *)
theory Pool_Work
  imports Difficulty Hex Merkle Pool_Coinbase
begin

text \<open>
  From the node's block template to the pool's work and back to a block: \<open>gen_gbtbase\<close> of
  \<^verbatim>\<open>src/src/bitcoin.c\<close>, the merkle branch, header and block of \<^verbatim>\<open>src/src/stratifier.c\<close>, and the byte order
  helpers of \<^verbatim>\<open>src/src/libckpool.h\<close>.  The JSON answer of the node is the record of its decoded members.
\<close>

section \<open>Byte orders\<close>

definition bswap_32 :: "u32 \<Rightarrow> u32" where
  "bswap_32 x = le_word (rev (le_bytes 4 x))"

definition read_u32 :: "bytes \<Rightarrow> u32" where
  "read_u32 p = le_word (take 4 p)"

definition write_u32 :: "u32 \<Rightarrow> bytes" where
  "write_u32 v = le_bytes 4 v"

definition swap_256 :: "bytes \<Rightarrow> bytes" where
  "swap_256 src = concat (map (\<lambda>i. write_u32 (read_u32 (drop ((7 - i) * 4) src))) [0..<8])"

definition bswap_256 :: "bytes \<Rightarrow> bytes" where
  "bswap_256 src = concat (map (\<lambda>i. write_u32 (bswap_32 (read_u32 (drop ((7 - i) * 4) src)))) [0..<8])"

definition flip_32 :: "bytes \<Rightarrow> bytes" where
  "flip_32 src = concat (map (\<lambda>i. write_u32 (bswap_32 (read_u32 (drop (i * 4) src)))) [0..<8])"

definition flip_80 :: "bytes \<Rightarrow> bytes" where
  "flip_80 src = concat (map (\<lambda>i. write_u32 (bswap_32 (read_u32 (drop (i * 4) src)))) [0..<20])"

text \<open>\<open>%08x\<close> of a 32 bit value.\<close>

definition hex8 :: "u32 \<Rightarrow> bytes" where
  "hex8 v = bin2hex (write_u32 (bswap_32 v))"

section \<open>The template of the node\<close>

text \<open>The members read from \<open>result\<close>: \<open>None\<close> for a string or unsigned number that is not there.\<close>

record gbt_answer =
  ga_rules :: "bytes list"
  ga_previousblockhash :: "bytes option"
  ga_target :: "bytes option"
  ga_version :: u32
  ga_curtime :: u32
  ga_bits :: "bytes option"
  ga_height :: int
  ga_coinbasevalue :: "u64 option"
  ga_flags :: "bytes option"

record gbtbase =
  gb_target :: bytes
  gb_diff :: f64
  gb_version :: u32
  gb_curtime :: u32
  gb_prevhash :: bytes
  gb_ntime :: bytes
  gb_ntime32 :: u32
  gb_bbversion :: bytes
  gb_nbit :: bytes
  gb_coinbasevalue :: u64
  gb_height :: int
  gb_flags :: bytes

definition understood_rules :: "bytes list" where
  "understood_rules = [ascii ''segwit'']"

definition check_required_rule :: "bytes \<Rightarrow> bool" where
  "check_required_rule rule \<longleftrightarrow> rule \<in> set understood_rules"

definition gen_gbtbase :: "gbt_answer \<Rightarrow> gbtbase option" where
  "gen_gbtbase a =
     (if list_ex (\<lambda>rule. rule \<noteq> [] \<and> hd rule = 0x21 \<and> \<not> check_required_rule (tl rule)) (ga_rules a)
      then None
      else
        case (ga_previousblockhash a, ga_target a, ga_bits a) of
          (Some previousblockhash, Some target, Some bits) \<Rightarrow>
            if ga_version a = 0 \<or> ga_curtime a = 0 then None
            else (case ga_coinbasevalue a of
              None \<Rightarrow> None
            | Some coinbasevalue \<Rightarrow>
                let (prev, prev_ok) = hex2bin 32 previousblockhash; (tgt, tgt_ok) = hex2bin 32 target;
                    flags = (case ga_flags a of None \<Rightarrow> [] | Some f \<Rightarrow> f)
                in if \<not> prev_ok \<or> \<not> tgt_ok then None
                   else Some \<lparr> gb_target = take 67 target, gb_diff = diff_from_target (bswap_256 tgt),
                     gb_version = ga_version a, gb_curtime = ga_curtime a,
                     gb_prevhash = bin2hex (swap_256 prev), gb_ntime = hex8 (ga_curtime a),
                     gb_ntime32 = ga_curtime a, gb_bbversion = hex8 (ga_version a),
                     gb_nbit = take 8 bits, gb_coinbasevalue = coinbasevalue, gb_height = ga_height a,
                     gb_flags = (if flags \<noteq> [] \<and> (length flags > MAX_GBT_FLAGS_LEN * 2 \<or> \<not> validhex flags)
                                 then [] else flags) \<rparr>)
        | _ \<Rightarrow> None)"

section \<open>The transactions of the template\<close>

record gbt_txn =
  gt_data :: "bytes option"
  gt_txid :: "bytes option"
  gt_hash :: "bytes option"

definition INT_MAX :: nat where "INT_MAX = 2 ^ 31 - 1"

record txn_work =
  tw_txns :: nat
  tw_txn_data :: bytes
  tw_txn_hashes :: bytes
  tw_merklebin :: "bytes list"

text \<open>The checks on the identities of one transaction, and its row of the merkle workspace.\<close>

definition txn_txid :: "gbt_txn \<Rightarrow> bytes option" where
  "txn_txid txn =
     (case (case gt_txid txn of None \<Rightarrow> gt_hash txn | Some txid \<Rightarrow> Some txid) of
        None \<Rightarrow> None
      | Some txid \<Rightarrow>
          if length txid \<noteq> 64 \<or> \<not> validhex txid then None
          else (case gt_hash txn of
                  None \<Rightarrow> Some txid
                | Some hash \<Rightarrow> if length hash \<noteq> 64 \<or> \<not> validhex hash then None else Some txid))"

definition txn_row :: "bytes \<Rightarrow> bytes option" where
  "txn_row txid = (let (binswap, ok) = hex2bin 32 txid in if ok then Some (bswap_256 binswap) else None)"

text \<open>\<open>None\<close> leaves the workbase marked incomplete.  The row before the first is cleared, the one after
  the last is the scratch row of \<open>cashstratum_merkle_branch\<close>.\<close>

definition wb_merkle_bin_txns :: "gbt_txn list \<Rightarrow> txn_work option" where
  "wb_merkle_bin_txns txn_array =
     (let count = length txn_array in
      if count > INT_MAX \<or> count > SIZE_MAX div 65 - 1 \<or> count > SIZE_MAX div 32 - 2 then None
      else if list_ex (\<lambda>txn. case gt_data txn of None \<Rightarrow> True | Some d \<Rightarrow> \<not> validhex d) txn_array then None
      else if SIZE_MAX < 1 + sum_list (map (\<lambda>txn. length (the (gt_data txn))) txn_array) + 1 then None
      else do {
        txids \<leftarrow> those (map txn_txid txn_array);
        rows \<leftarrow> those (map txn_row txids);
        branch \<leftarrow> cashstratum_merkle_branch (replicate 32 0 # rows @ [replicate 32 0]) (count + 1);
        Some \<lparr> tw_txns = count, tw_txn_data = concat (map (\<lambda>txn. the (gt_data txn)) txn_array),
               tw_txn_hashes = concat (map (\<lambda>txid. txid @ [0x20]) txids), tw_merklebin = branch \<rparr> })"

section \<open>The workbase\<close>

definition workpadding :: bytes where
  "workpadding = ascii ''00000080'' @ replicate 80 0x30 @ ascii ''80020000''"

record genwork =
  gw_id :: int
  gw_readcount :: nat
  gw_gentime :: int
  gw_diff :: f64
  gw_network_diff :: f64
  gw_version :: u32
  gw_prevhash :: bytes
  gw_ntime :: bytes
  gw_ntime32 :: u32
  gw_bbversion :: bytes
  gw_nbit :: bytes
  gw_height :: int
  gw_txns :: nat
  gw_txn_data :: bytes
  gw_merklebin :: "bytes list"
  gw_coinb1bin :: bytes
  gw_enonce1constlen :: nat
  gw_enonce1varlen :: nat
  gw_enonce2varlen :: nat
  gw_coinb2bin :: bytes
  gw_coinb3bin :: bytes
  gw_headerbin :: bytes

definition workbase_header :: "bytes \<Rightarrow> bytes \<Rightarrow> bytes \<Rightarrow> bytes \<Rightarrow> bytes" where
  "workbase_header bbversion prevhash ntime nbit =
     (let header = take 269 (bbversion @ prevhash @ replicate 64 0x30 @ ntime @ nbit @ replicate 8 0x30 @ workpadding)
      in hex_field 112 (take 224 header))"

text \<open>
  \<open>block_update\<close> up to \<open>add_base\<close>: the template, its transactions and the coinbase.  The identifier,
  the time and the network difficulty are stored by \<open>add_base\<close>.  \<open>None\<close>: no template, or invalid
  transactions, or a conversion that traps.
\<close>

definition build_workbase :: "coinbase_config \<Rightarrow> int \<times> int \<Rightarrow> gbt_answer \<Rightarrow> gbt_txn list \<Rightarrow> genwork option" where
  "build_workbase cfg now a txn_array = do {
     gbt \<leftarrow> gen_gbtbase a;
     tw \<leftarrow> wb_merkle_bin_txns txn_array;
     parts \<leftarrow> generate_coinbase cfg
       \<lparr> ct_height = gb_height gbt, ct_flags = gb_flags gbt, ct_coinbasevalue = gb_coinbasevalue gbt,
         ct_insert_witness = False, ct_witnessdata = [], ct_sec = fst now, ct_nsec = snd now \<rparr>;
     Some \<lparr> gw_id = 0, gw_readcount = 0, gw_gentime = 0, gw_diff = gb_diff gbt, gw_network_diff = F64 0,
       gw_version = gb_version gbt, gw_prevhash = gb_prevhash gbt, gw_ntime = gb_ntime gbt,
       gw_ntime32 = gb_ntime32 gbt, gw_bbversion = gb_bbversion gbt, gw_nbit = gb_nbit gbt,
       gw_height = gb_height gbt, gw_txns = tw_txns tw, gw_txn_data = tw_txn_data tw,
       gw_merklebin = tw_merklebin tw, gw_coinb1bin = cp_coinb1 parts, gw_enonce1constlen = 0,
       gw_enonce1varlen = cc_nonce1length cfg, gw_enonce2varlen = cc_nonce2length cfg,
       gw_coinb2bin = cp_coinb2 parts, gw_coinb3bin = cp_coinb3 parts,
       gw_headerbin = workbase_header (gb_bbversion gbt) (gb_prevhash gbt) (gb_ntime gbt) (gb_nbit gbt) \<rparr> }"

section \<open>The block\<close>

text \<open>The hexadecimal block, the flipped hash and the block hash in hexadecimal.\<close>

definition process_block :: "genwork \<Rightarrow> bytes \<Rightarrow> bytes \<Rightarrow> bytes \<Rightarrow> bytes \<times> bytes \<times> bytes" where
  "process_block wb coinbase data hash =
     (let txns = gw_txns wb + 1;
          flip32 = flip_32 hash;
          varint = (if txns < 0xfd then bin2hex [of_nat txns]
                    else if txns \<le> 0xffff then ascii ''fd'' @ bin2hex (le_bytes 2 (of_nat txns :: u16))
                    else ascii ''fe'' @ bin2hex (le_bytes 4 (of_nat txns :: u32)))
      in (bin2hex (take 80 data) @ varint @ bin2hex coinbase @ (if gw_txns wb \<noteq> 0 then gw_txn_data wb else []),
          flip32, bin2hex flip32))"

end
