(* ===== verification/Pool_Share.thy ===== *)
theory Pool_Share
  imports Pool_Work
begin

text \<open>
  Work handed out and shares hashed: \<open>submission_diff\<close>, \<open>share_diff\<close>, \<open>test_blocksolve\<close>,
  \<open>stratifier_sv2_snapshot_work\<close>, \<open>stratifier_sv2_merkle_root\<close>, \<open>stratifier_sv2_tip_for_jd\<close> and
  \<open>stratifier_sv2_alloc_enonce1\<close> of \<^verbatim>\<open>src/src/stratifier.c\<close>.  Work is the pool's own (neither proxied nor
  from the mining IPC interface); strings read by \<open>hex2bin\<close> into fresh memory are valid hexadecimal.
\<close>

section \<open>Hashing a share\<close>

definition share_merkle_root :: "genwork \<Rightarrow> bytes \<Rightarrow> bytes" where
  "share_merkle_root wb coinbase =
     flip_32 (foldl (\<lambda>merkle_sha branch. gen_hash (merkle_sha @ branch)) (gen_hash coinbase) (gw_merklebin wb))"

definition share_coinbase :: "genwork \<Rightarrow> bytes \<Rightarrow> bytes \<Rightarrow> bytes \<Rightarrow> bytes" where
  "share_coinbase wb enonce1bin nonce2 coinb2 =
     gw_coinb1bin wb @ take (gw_enonce1constlen wb + gw_enonce1varlen wb) enonce1bin @
     hex_field (gw_enonce2varlen wb) nonce2 @ coinb2"

text \<open>The 80 bytes hashed: the cached header with root, version, nonce and time, each word flipped.\<close>

definition share_header :: "genwork \<Rightarrow> bytes \<Rightarrow> u32 \<Rightarrow> bool \<Rightarrow> bytes \<Rightarrow> u32 \<Rightarrow> bytes" where
  "share_header wb coinbase version_field full_version nonce ntime32 =
     (let data = take 80 (gw_headerbin wb);
          data = mem_store 36 (share_merkle_root wb coinbase) data;
          data = (if full_version then mem_store 0 (write_u32 (bswap_32 version_field)) data
                  else if version_field \<noteq> 0
                  then mem_store 0 (write_u32 (read_u32 data OR bswap_32 version_field)) data
                  else data);
          data = mem_store 76 (hex_field 4 nonce) data;
          data = mem_store 68 (write_u32 (bswap_32 ntime32)) data
      in flip_80 data)"

definition share_hash :: "bytes \<Rightarrow> bytes" where
  "share_hash swap = sha256 (sha256 swap)"

text \<open>The coinbase, header and hash of an older entry point, for a coinbase common to all users.\<close>

definition share_diff :: "bytes \<Rightarrow> genwork \<Rightarrow> bytes \<Rightarrow> u32 \<Rightarrow> u32 \<Rightarrow> bytes \<Rightarrow> bytes \<times> bytes \<times> bytes \<times> f64" where
  "share_diff enonce1bin wb nonce2 ntime32 version_mask nonce =
     (let coinbase = share_coinbase wb enonce1bin nonce2 (gw_coinb2bin wb);
          swap = share_header wb coinbase version_mask False nonce ntime32;
          hash = share_hash swap
      in (coinbase, swap, hash, diff_from_target hash))"

text \<open>The second part of the coinbase of a client, of its user in a solo pool.\<close>

definition user_coinb2 :: "bool \<Rightarrow> (int \<times> bytes) list \<Rightarrow> genwork \<Rightarrow> bytes option" where
  "user_coinb2 btcsolo userwbs wb =
     (if \<not> btcsolo then Some (gw_coinb2bin wb) else map_of userwbs (gw_id wb))"

section \<open>A solved block\<close>

text \<open>The network difficulty \<open>add_base\<close> stores: that of the header's target bits, at least one.\<close>

definition base_network_diff :: "bytes \<Rightarrow> f64" where
  "base_network_diff headerbin =
     (let network_diff = diff_from_nbits (take 4 (drop 72 headerbin))
      in if f64_lt network_diff (F64 1) then F64 1 else network_diff)"

text \<open>
  What is submitted, if anything: the network difficulty is that of the current workbase.
  Reports to other servers and the log are not modelled, nor is the finality check, which only
  reports (\<open>coinbase_finality\<close> is modelled on its own).
\<close>

definition test_blocksolve :: "f64 \<Rightarrow> genwork \<Rightarrow> bytes \<Rightarrow> bytes \<Rightarrow> f64 \<Rightarrow> bytes \<Rightarrow> u32 \<Rightarrow> (bytes \<times> bytes \<times> bytes) option" where
  "test_blocksolve current_network_diff wb data hash diff coinbase ntime32 =
     (let network_diff = f64_mul current_network_diff (f64_round (999 / 1000)) in
      if f64_lt diff network_diff then None
      else if ntime32 < gw_ntime32 wb \<or> ntime32 > gw_ntime32 wb + 7000 then None
      else Some (process_block wb coinbase data hash))"

record submission =
  su_coinbase :: bytes
  su_swap :: bytes
  su_hash :: bytes
  su_diff :: f64
  su_block :: "(bytes \<times> bytes \<times> bytes) option"

text \<open>\<open>None\<close> is \<open>SUBMISSION_NO_COINBASE\<close>.\<close>

definition submission_diff ::
  "f64 \<Rightarrow> bool \<Rightarrow> (int \<times> bytes) list \<Rightarrow> bytes \<Rightarrow> genwork \<Rightarrow> bytes \<Rightarrow> u32 \<Rightarrow> u32 \<Rightarrow> bool \<Rightarrow> bytes \<Rightarrow> submission option" where
  "submission_diff current_network_diff btcsolo userwbs enonce1bin wb nonce2 ntime32 version_field full_version nonce =
     (case user_coinb2 btcsolo userwbs wb of
        None \<Rightarrow> None
      | Some coinb2 \<Rightarrow>
          let coinbase = share_coinbase wb enonce1bin nonce2 coinb2;
              swap = share_header wb coinbase version_field full_version nonce ntime32;
              hash = share_hash swap;
              ret = diff_from_target hash
          in Some \<lparr> su_coinbase = coinbase, su_swap = swap, su_hash = hash, su_diff = ret,
                    su_block = test_blocksolve current_network_diff wb swap hash ret coinbase ntime32 \<rparr>)"

section \<open>Work handed out\<close>

record sv2_work_snap =
  ws_wb_id :: int
  ws_version :: u32
  ws_ntime :: u32
  ws_nbits :: u32
  ws_prevhash :: bytes
  ws_coinb1 :: bytes
  ws_coinb2 :: bytes
  ws_enonce1varlen :: nat
  ws_enonce2varlen :: nat
  ws_merklebin :: "bytes list"

text \<open>
  The user whose coinbase a channel's work carries: its script and what was generated for it.
  \<open>None\<close> for work without a client.
\<close>

record solo_user =
  us_txnbin :: bytes
  us_btcaddress :: bool
  us_userwbs :: "(int \<times> bytes) list"

text \<open>\<open>__generate_userwb\<close> on the user's table.\<close>

definition generate_userwb_for :: "genwork \<Rightarrow> solo_user \<Rightarrow> solo_user" where
  "generate_userwb_for wb user =
     (if us_txnbin user = [] then user
      else case map_of (us_userwbs user) (gw_id wb) of
        Some _ \<Rightarrow> user
      | None \<Rightarrow> user\<lparr>us_userwbs := us_userwbs user @
          [(gw_id wb, gw_coinb2bin wb @ [of_nat (length (us_txnbin user))] @ us_txnbin user @ gw_coinb3bin wb)]\<rparr>)"

definition snapshot_nbits :: "genwork \<Rightarrow> u32" where
  "snapshot_nbits wb =
     (if length (gw_nbit wb) \<ge> 8 then bswap_32 (read_u32 (hex_field 4 (gw_nbit wb))) else 0)"

text \<open>The snapshot with the user's table afterwards; the sizes are those of the snapshot's arrays.\<close>

definition stratifier_sv2_snapshot_work ::
  "bool \<Rightarrow> genwork option \<Rightarrow> solo_user option \<Rightarrow> sv2_work_snap option \<times> solo_user option" where
  "stratifier_sv2_snapshot_work btcsolo current_workbase client =
     (case current_workbase of
        None \<Rightarrow> (None, client)
      | Some wb \<Rightarrow>
          if length (gw_coinb1bin wb) > 256 then (None, client)
          else
            let snap = \<lambda>coinb2. \<lparr> ws_wb_id = gw_id wb, ws_version = gw_version wb, ws_ntime = gw_ntime32 wb,
                  ws_nbits = snapshot_nbits wb, ws_prevhash = flip_32 (drop 4 (gw_headerbin wb)),
                  ws_coinb1 = gw_coinb1bin wb, ws_coinb2 = coinb2, ws_enonce1varlen = gw_enonce1varlen wb,
                  ws_enonce2varlen = gw_enonce2varlen wb,
                  ws_merklebin = take GENWORK_MAX_MERKLE_DEPTH (gw_merklebin wb) \<rparr>
            in case client of
                 Some user \<Rightarrow>
                   let user = (if btcsolo \<and> us_btcaddress user then generate_userwb_for wb user else user)
                   in (case user_coinb2 btcsolo (us_userwbs user) wb of
                         None \<Rightarrow> (None, Some user)
                       | Some coinb2 \<Rightarrow> (if length coinb2 \<le> 512 then Some (snap coinb2) else None, Some user))
               | None \<Rightarrow>
                   (if length (gw_coinb2bin wb) \<le> 512 then Some (snap (gw_coinb2bin wb)) else None, None))"

text \<open>The first \<open>len\<close> bytes of the counter, and the counter afterwards.\<close>

definition stratifier_sv2_alloc_enonce1 :: "u64 \<Rightarrow> int \<Rightarrow> bytes option \<times> u64" where
  "stratifier_sv2_alloc_enonce1 enonce1_64 len =
     (if len < 2 \<or> len > 8 then (None, enonce1_64)
      else (Some (take (nat len) (le_bytes 8 (enonce1_64 + 1))), enonce1_64 + 1))"

text \<open>Version, previous hash, time and target bits of the current tip, as in a header.\<close>

definition stratifier_sv2_tip_for_jd :: "genwork option \<Rightarrow> (u32 \<times> bytes \<times> u32 \<times> u32) option" where
  "stratifier_sv2_tip_for_jd current_workbase =
     (case current_workbase of
        None \<Rightarrow> None
      | Some wb \<Rightarrow>
          let wire = flip_80 (gw_headerbin wb)
          in Some (read_u32 wire, take 32 (drop 4 wire), read_u32 (drop 68 wire), read_u32 (drop 72 wire)))"

text \<open>The root sent to a header-only channel: the client's extranonce, zeros for the rest.\<close>

definition stratifier_sv2_merkle_root :: "bytes \<Rightarrow> sv2_work_snap \<Rightarrow> bytes" where
  "stratifier_sv2_merkle_root enonce1bin snap =
     (let en1len = (if ws_enonce1varlen snap < 1 then 4 else ws_enonce1varlen snap);
          coinbase = ws_coinb1 snap @ take en1len enonce1bin @ replicate (ws_enonce2varlen snap) 0 @ ws_coinb2 snap
      in flip_32 (foldl (\<lambda>merkle_sha branch. gen_hash (merkle_sha @ branch)) (gen_hash coinbase) (ws_merklebin snap)))"

end
