(* ===== verification/Pool_Account.thy ===== *)
theory Pool_Account
  imports Pool_Share
begin

text \<open>
  The stratifier's tables and the accounting of shares (\<^verbatim>\<open>src/src/stratifier.c\<close>): workbases and
  their ageing, the table of share hashes, the sessions of SV2 channels, and the two ways a share
  is credited.  A pool without upstream proxies; best shares, hash rates and logs are not modelled.
  Each call is one step, so a reference taken in it is returned in it and is not counted.
\<close>

section \<open>State\<close>

text \<open>\<open>si_user\<close> is the key of the user in \<open>sd_users\<close>.\<close>

record stratum_instance =
  si_id :: int
  si_enonce1bin :: bytes
  si_authorised :: bool
  si_diff :: int
  si_old_diff :: int
  si_diff_change_job_id :: int
  si_user :: int

record sdata_t =
  sd_instances :: "stratum_instance list"
  sd_users :: "(int \<times> solo_user) list"
  sd_workbases :: "genwork list"
  sd_current :: "int option"
  sd_workbase_id :: int
  sd_blockchange_id :: int
  sd_lasthash :: bytes
  sd_shares :: "(bytes \<times> int) list"
  sd_enonce1_64 :: u64

definition find_workbase :: "sdata_t \<Rightarrow> int \<Rightarrow> genwork option" where
  "find_workbase sd i = find (\<lambda>wb. gw_id wb = i) (sd_workbases sd)"

definition current_workbase :: "sdata_t \<Rightarrow> genwork option" where
  "current_workbase sd = (case sd_current sd of None \<Rightarrow> None | Some i \<Rightarrow> find_workbase sd i)"

definition ref_instance_by_id :: "sdata_t \<Rightarrow> int \<Rightarrow> stratum_instance option" where
  "ref_instance_by_id sd i = find (\<lambda>client. si_id client = i) (sd_instances sd)"

definition update_instance :: "int \<Rightarrow> (stratum_instance \<Rightarrow> stratum_instance) \<Rightarrow> sdata_t \<Rightarrow> sdata_t" where
  "update_instance i f sd =
     sd\<lparr>sd_instances := map (\<lambda>client. if si_id client = i then f client else client) (sd_instances sd)\<rparr>"

definition user_table :: "sdata_t \<Rightarrow> stratum_instance \<Rightarrow> (int \<times> bytes) list" where
  "user_table sd client =
     (case map_of (sd_users sd) (si_user client) of None \<Rightarrow> [] | Some user \<Rightarrow> us_userwbs user)"

section \<open>Shares\<close>

definition new_share :: "bytes \<Rightarrow> int \<Rightarrow> sdata_t \<Rightarrow> bool \<times> sdata_t" where
  "new_share hash wb_id sd =
     (case map_of (sd_shares sd) hash of
        Some _ \<Rightarrow> (False, sd)
      | None \<Rightarrow> (True, sd\<lparr>sd_shares := sd_shares sd @ [(hash, wb_id)]\<rparr>))"

definition purge_share_hashtable :: "int \<Rightarrow> sdata_t \<Rightarrow> sdata_t" where
  "purge_share_hashtable wb_id sd = sd\<lparr>sd_shares := filter (\<lambda>s. \<not> snd s < wb_id) (sd_shares sd)\<rparr>"

definition age_share_hashtable :: "int \<Rightarrow> sdata_t \<Rightarrow> sdata_t" where
  "age_share_hashtable wb_id sd = sd\<lparr>sd_shares := filter (\<lambda>s. \<not> snd s = wb_id) (sd_shares sd)\<rparr>"

section \<open>Workbases\<close>

definition clear_userwb :: "int \<Rightarrow> sdata_t \<Rightarrow> sdata_t" where
  "clear_userwb i sd = sd\<lparr>sd_users := map (\<lambda>(k, user).
     (k, user\<lparr>us_userwbs := filter (\<lambda>(w, _). w \<noteq> i) (us_userwbs user)\<rparr>)) (sd_users sd)\<rparr>"

definition clear_workbase :: "bool \<Rightarrow> int \<Rightarrow> sdata_t \<Rightarrow> sdata_t" where
  "clear_workbase btcsolo i sd = (if btcsolo then clear_userwb i sd else sd)"

definition generate_userwbs :: "genwork \<Rightarrow> sdata_t \<Rightarrow> sdata_t" where
  "generate_userwbs wb sd = sd\<lparr>sd_users := map (\<lambda>(k, user). (k, generate_userwb_for wb user)) (sd_users sd)\<rparr>"

text \<open>The loop over the table as it was; the current workbase and those being read stay.\<close>

fun age_workbases :: "bool \<Rightarrow> genwork \<Rightarrow> genwork list \<Rightarrow> sdata_t \<Rightarrow> sdata_t" where
  "age_workbases btcsolo wb [] sd = sd"
| "age_workbases btcsolo wb (tmp # rest) sd =
     (if length (sd_workbases sd) < 3 then sd
      else if gw_id tmp = gw_id wb \<or> gw_readcount tmp \<noteq> 0 \<or> \<not> gw_gentime tmp < gw_gentime wb - 600
      then age_workbases btcsolo wb rest sd
      else age_workbases btcsolo wb rest
        (clear_workbase btcsolo (gw_id tmp) (age_share_hashtable (gw_id tmp)
          (sd\<lparr>sd_workbases := filter (\<lambda>w. gw_id w \<noteq> gw_id tmp) (sd_workbases sd)\<rparr>))))"

text \<open>\<open>add_base\<close> at the time \<open>now\<close>, with \<open>*new_block\<close>.\<close>

definition add_base :: "bool \<Rightarrow> int \<Rightarrow> genwork \<Rightarrow> sdata_t \<Rightarrow> bool \<times> sdata_t" where
  "add_base btcsolo now wb sd =
     (let i = sd_workbase_id sd;
          wb = wb\<lparr>gw_gentime := now, gw_network_diff := base_network_diff (gw_headerbin wb),
                  gw_id := i, gw_readcount := 0\<rparr>;
          new_block = (take 64 (gw_prevhash wb) \<noteq> take 64 (sd_lasthash sd));
          sd = sd\<lparr>sd_workbase_id := i + 1\<rparr>;
          sd = (if new_block then sd\<lparr>sd_lasthash := gw_prevhash wb, sd_blockchange_id := i\<rparr> else sd);
          sd = sd\<lparr>sd_workbases := sd_workbases sd @ [wb], sd_current := Some i\<rparr>;
          sd = age_workbases btcsolo wb (sd_workbases sd) sd;
          sd = (if btcsolo then generate_userwbs wb sd else sd);
          sd = (if new_block then purge_share_hashtable i sd else sd)
      in (new_block, sd))"

section \<open>Variable difficulty\<close>

text \<open>\<open>lround\<close>, half away from zero; \<open>None\<close> is a value that does not fit and traps.\<close>

definition f64_lround :: "f64 \<Rightarrow> int option" where
  "f64_lround x =
     (case x of
        F64 r \<Rightarrow> let k = (if 0 \<le> r then \<lfloor>r + 1 / 2\<rfloor> else - \<lfloor>1 / 2 - r\<rfloor>)
                 in if - (2 ^ 63) \<le> k \<and> k < 2 ^ 63 then Some k else None
      | _ \<Rightarrow> None)"

text \<open>The bounds: the minimum, the client's own floor, the maximum, the network difficulty.\<close>

definition vardiff_clamp :: "int \<Rightarrow> int \<Rightarrow> int \<Rightarrow> int \<Rightarrow> f64 \<Rightarrow> int option" where
  "vardiff_clamp optimal floor_diff pool_mindiff pool_maxdiff network_diff =
     (let optimal = max optimal pool_mindiff;
          optimal = max optimal floor_diff;
          optimal = (if pool_maxdiff \<noteq> 0 then min optimal pool_maxdiff else optimal)
      in map_option (\<lambda>optimal. if optimal < 1 then 0 else optimal)
        (f64_to_i64 (if f64_lt (f64_of_int optimal) network_diff then f64_of_int optimal else network_diff)))"

definition vardiff_target :: "f64 \<Rightarrow> int \<Rightarrow> int \<Rightarrow> int \<Rightarrow> int \<Rightarrow> f64 \<Rightarrow> int option" where
  "vardiff_target dsps cur_diff floor_diff pool_mindiff pool_maxdiff network_diff =
     (let drr = f64_div dsps (f64_of_int cur_diff) in
      if f64_lt (f64_round (15 / 100)) drr \<and> f64_lt drr (f64_round (4 / 10)) then Some 0
      else if floor_diff \<noteq> 0 \<and> f64_lt drr (F64 (1 / 2)) then Some 0
      else do {
        optimal \<leftarrow> f64_lround (f64_mul dsps (f64_round (if floor_diff \<noteq> 0 then 24 / 10 else 333 / 100)));
        vardiff_clamp optimal floor_diff pool_mindiff pool_maxdiff network_diff })"

definition clamp_requested_diff :: "diff_config \<Rightarrow> int \<Rightarrow> int" where
  "clamp_requested_diff cfg diff =
     (let diff = (if diff < dc_mindiff cfg then dc_mindiff cfg else diff)
      in if dc_maxdiff cfg \<noteq> 0 \<and> diff > dc_maxdiff cfg then dc_maxdiff cfg else diff)"

section \<open>Sessions\<close>

text \<open>
  A session's instance: \<open>client_id\<close> from \<open>connector_newclientid\<close>; \<open>user\<close> is the user found or made
  for the identity (\<open>None\<close>: the table is full) and whether it has an address.  The result of
  \<open>client_auth\<close> is \<open>true\<close> here.  \<open>None\<close> is a conversion that traps.
\<close>

definition stratifier_sv2_open_session ::
  "bool \<Rightarrow> diff_config \<Rightarrow> int \<Rightarrow> bytes \<Rightarrow> f64 \<Rightarrow> int option \<Rightarrow> sdata_t \<Rightarrow> (int option \<times> sdata_t) option" where
  "stratifier_sv2_open_session btcsolo cfg client_id enonce1 diff user sd =
     (if length enonce1 < 1 \<or> length enonce1 > 16 then Some (None, sd)
      else do {
        d \<leftarrow> sane_diff_int64 diff;
        let d = (if d < 1 then dc_startdiff cfg else d);
        (case user of
           None \<Rightarrow> Some (None, sd)
         | Some u \<Rightarrow>
             if btcsolo \<and> \<not> (case map_of (sd_users sd) u of None \<Rightarrow> False | Some x \<Rightarrow> us_btcaddress x)
             then Some (None, sd)
             else
               let client = \<lparr> si_id = client_id, si_enonce1bin = c_buf 16 enonce1, si_authorised = True,
                     si_diff = d, si_old_diff = d, si_diff_change_job_id = 0, si_user = u \<rparr>;
                   sd = sd\<lparr>sd_instances := sd_instances sd @ [client]\<rparr>;
                   sd = (case (btcsolo, current_workbase sd) of
                           (True, Some wb) \<Rightarrow> sd\<lparr>sd_users := map (\<lambda>(k, x).
                             (k, if k = u then generate_userwb_for wb x else x)) (sd_users sd)\<rparr>
                         | _ \<Rightarrow> sd)
               in Some (Some client_id, sd)) })"

definition stratifier_sv2_close_session :: "int \<Rightarrow> sdata_t \<Rightarrow> sdata_t" where
  "stratifier_sv2_close_session instance_id sd =
     (if instance_id = 0 then sd
      else sd\<lparr>sd_instances := filter (\<lambda>client. si_id client \<noteq> instance_id) (sd_instances sd)\<rparr>)"

definition stratifier_sv2_set_diff :: "int \<Rightarrow> f64 \<Rightarrow> sdata_t \<Rightarrow> sdata_t option" where
  "stratifier_sv2_set_diff instance_id diff sd =
     (if instance_id < 1 then Some sd
      else do {
        d \<leftarrow> sane_diff_int64 diff;
        Some (if d < 1 then sd
              else
                let change = (case current_workbase sd of
                       Some wb \<Rightarrow> gw_id wb + 1 | None \<Rightarrow> sd_workbase_id sd + 1)
                in update_instance instance_id (\<lambda>client.
                     client\<lparr>si_old_diff := si_diff client, si_diff := d, si_diff_change_job_id := change\<rparr>) sd) })"

section \<open>Crediting a share\<close>

text \<open>The difficulty a share of a workbase must meet: the smaller of new and old until a newer one.\<close>

definition required_diff :: "stratum_instance \<Rightarrow> int \<Rightarrow> f64" where
  "required_diff client workbase_id =
     (let diff = f64_of_int (si_diff client)
      in if workbase_id \<noteq> 0 \<and> workbase_id < si_diff_change_job_id client \<and> si_old_diff client > 0
         then (if f64_lt diff (f64_of_int (si_old_diff client)) then diff else f64_of_int (si_old_diff client))
         else diff)"

text \<open>The answer to a share: accepted, or the error code; with the block to submit, if any.\<close>

record share_answer =
  sa_error :: "bytes option"
  sa_diff :: f64
  sa_block :: "(bytes \<times> bytes \<times> bytes) option"

definition refuse_share :: "string \<Rightarrow> share_answer" where
  "refuse_share code = \<lparr> sa_error = Some (ascii code), sa_diff = F64 0, sa_block = None \<rparr>"

text \<open>The nonce of a share in hexadecimal; no extranonce is one of zeros.\<close>

definition share_nonce2 :: "genwork \<Rightarrow> bytes \<Rightarrow> bytes option" where
  "share_nonce2 wb nonce2hex_in =
     (let n2len = gw_enonce2varlen wb;
          n2len = (if n2len < 1 then 1 else if n2len > 31 then 31 else n2len);
          expect = n2len * 2
      in if nonce2hex_in \<noteq> []
         then (if length nonce2hex_in \<noteq> expect \<or> \<not> validhex nonce2hex_in then None else Some nonce2hex_in)
         else Some (replicate expect 0x30))"

definition stratifier_sv2_submit_share ::
  "bool \<Rightarrow> int \<Rightarrow> int \<Rightarrow> u32 \<Rightarrow> u32 \<Rightarrow> u32 \<Rightarrow> bytes \<Rightarrow> sdata_t \<Rightarrow> share_answer \<times> sdata_t" where
  "stratifier_sv2_submit_share btcsolo instance_id workbase_id ntime nonce version nonce2hex_in sd =
     (case ref_instance_by_id sd instance_id of
        None \<Rightarrow> (refuse_share ''unauthorized-worker'', sd)
      | Some client \<Rightarrow>
          if \<not> si_authorised client then (refuse_share ''unauthorized-worker'', sd)
          else (case find_workbase sd workbase_id of
            None \<Rightarrow> (refuse_share ''invalid-job-id'', sd)
          | Some wb \<Rightarrow>
              let stale = workbase_id < sd_blockchange_id sd;
                  current_nd = (case current_workbase sd of None \<Rightarrow> F64 0 | Some cur \<Rightarrow> gw_network_diff cur)
              in case share_nonce2 wb nonce2hex_in of
                   None \<Rightarrow> (refuse_share ''invalid-extranonce-size'', sd)
                 | Some nonce2hex \<Rightarrow>
                     case submission_diff current_nd btcsolo (user_table sd client) (si_enonce1bin client) wb
                            nonce2hex ntime version True (hex8 nonce) of
                       None \<Rightarrow> (refuse_share ''invalid-job-id'', sd)
                     | Some su \<Rightarrow>
                         let sdiff = su_diff su;
                             answer = \<lambda>e. \<lparr> sa_error = e, sa_diff = sdiff, sa_block = su_block su \<rparr>
                         in if stale then (answer (Some (ascii ''stale-share'')), sd)
                            else if ntime < gw_ntime32 wb \<or> ntime > gw_ntime32 wb + 7000
                            then (answer (Some (ascii ''invalid-ntime'')), sd)
                            else if f64_le (required_diff client workbase_id) sdiff
                            then (let (fresh, sd) = new_share (su_hash su) workbase_id sd
                                  in (answer (if fresh then None else Some (ascii ''duplicate-share'')), sd))
                            else (answer (Some (ascii ''difficulty-too-low'')), sd)))"

text \<open>A share hashed elsewhere (a custom job): accepted or not, and whether it solves a block.\<close>

definition stratifier_sv2_account_share ::
  "int \<Rightarrow> int \<Rightarrow> bytes \<Rightarrow> f64 \<Rightarrow> sdata_t \<Rightarrow> (bytes option \<times> bool) \<times> sdata_t" where
  "stratifier_sv2_account_share instance_id workbase_id hash sdiff sd =
     (case ref_instance_by_id sd instance_id of
        None \<Rightarrow> ((Some (ascii ''unauthorized-worker''), False), sd)
      | Some client \<Rightarrow>
          if \<not> si_authorised client then ((Some (ascii ''unauthorized-worker''), False), sd)
          else
            let wb_id = (if workbase_id = 0
                         then (case current_workbase sd of None \<Rightarrow> 0 | Some wb \<Rightarrow> gw_id wb) else workbase_id);
                network_diff = (case current_workbase sd of None \<Rightarrow> F64 0 | Some wb \<Rightarrow> gw_network_diff wb)
            in if f64_le (required_diff client wb_id) sdiff
               then (let (fresh, sd) = new_share hash wb_id sd
                     in if fresh
                        then ((None, f64_le network_diff sdiff \<and> f64_lt (F64 0) network_diff), sd)
                        else ((Some (ascii ''duplicate-share''), False), sd))
               else ((Some (ascii ''difficulty-too-low''), False), sd))"

text \<open>The answers about the tip.\<close>

definition stratifier_sv2_tip_height :: "sdata_t \<Rightarrow> int" where
  "stratifier_sv2_tip_height sd = (case current_workbase sd of None \<Rightarrow> 0 | Some wb \<Rightarrow> gw_height wb)"

definition stratifier_sv2_network_diff :: "sdata_t \<Rightarrow> f64" where
  "stratifier_sv2_network_diff sd = (case current_workbase sd of None \<Rightarrow> F64 0 | Some wb \<Rightarrow> gw_network_diff wb)"

end
