(* ===== verification/Target_Exact.thy ===== *)
theory Target_Exact
  imports Difficulty
begin

text \<open>
  \<open>target_from_diff\<close> cuts a quotient into 64-bit digits with floating-point operations.  On the
  values it meets every one of them is exact, so the bytes are the quotient, and no conversion
  to an integer overflows.
\<close>

section \<open>Integers that are doubles\<close>

definition int_rep :: "int \<Rightarrow> bool" where
  "int_rep n \<longleftrightarrow> (\<exists>m (e :: nat). 0 \<le> m \<and> m \<le> 2 ^ 53 \<and> n = m * 2 ^ e)"

lemma int_repI: "0 \<le> m \<Longrightarrow> m \<le> 2 ^ 53 \<Longrightarrow> n = m * 2 ^ e \<Longrightarrow> int_rep n"
  unfolding int_rep_def by blast

lemma int_rep_nonneg: "int_rep n \<Longrightarrow> 0 \<le> n"
  by (auto simp: int_rep_def)

lemma int_rep_rep: "int_rep n \<Longrightarrow> f64_rep (of_int n)"
proof -
  assume "int_rep n"
  then obtain m and e :: nat where "0 \<le> m" "m \<le> 2 ^ 53" "n = m * 2 ^ e" unfolding int_rep_def by blast
  then show ?thesis by (intro f64_repI [of m "int e"]) auto
qed

lemma int_rep_scaled: "int_rep n \<Longrightarrow> k \<le> 1074 \<Longrightarrow> f64_rep (of_int n / 2 ^ k)"
proof -
  assume "int_rep n" and k: "k \<le> 1074"
  then obtain m and e :: nat where m: "0 \<le> m" "m \<le> 2 ^ 53" "n = m * 2 ^ e" unfolding int_rep_def by blast
  have "(of_int n / 2 ^ k :: rat) = of_int m * 2 powi (int e - int k)"
    by (simp add: m power_int_diff)
  then show ?thesis using m k by (intro f64_repI [of m "int e - int k"]) auto
qed

lemma div_pow_mult_le: "(n :: int) div 2 ^ k * 2 ^ k \<le> n"
proof -
  have "0 \<le> n mod 2 ^ k" by simp
  then show ?thesis using div_mult_mod_eq [of n "2 ^ k"] by linarith
qed

lemma div_pow_le: "0 \<le> n \<Longrightarrow> (n :: int) div 2 ^ k \<le> n"
proof -
  assume "0 \<le> n"
  then have "0 \<le> n div 2 ^ k" by (simp add: pos_imp_zdiv_nonneg_iff)
  then have "n div 2 ^ k * 1 \<le> n div 2 ^ k * 2 ^ k" by (intro mult_left_mono) auto
  then show ?thesis using div_pow_mult_le [of n k] by linarith
qed

lemma div_pow_less: "(n :: int) < 2 ^ (a + b) \<Longrightarrow> n div 2 ^ b < 2 ^ a"
proof -
  assume "n < 2 ^ (a + b)"
  then have "n div 2 ^ b * 2 ^ b < 2 ^ a * 2 ^ b"
    using div_pow_mult_le [of n b] unfolding power_add by linarith
  then show ?thesis by (simp only: mult_less_cancel_right_pos zero_less_power zero_less_numeral)
qed

lemma int_rep_div: "int_rep n \<Longrightarrow> int_rep (n div 2 ^ k)"
proof -
  assume "int_rep n"
  then obtain m and e :: nat where m: "0 \<le> m" "m \<le> 2 ^ 53" "n = m * 2 ^ e" unfolding int_rep_def by blast
  show ?thesis
  proof (cases "k \<le> e")
    case True
    then have "n div 2 ^ k = m * 2 ^ (e - k)"
      using m(3) by (simp add: power_diff div_mult_swap le_imp_power_dvd)
    then show ?thesis using m by (intro int_repI)
  next
    case False
    then have "n div 2 ^ k = m div 2 ^ (k - e)"
      using m(3) zdiv_zmult2_eq [of "2 ^ (k - e)" n "2 ^ e"] by (simp flip: power_add)
    moreover have "m div 2 ^ (k - e) \<le> m" using m(1) by (rule div_pow_le)
    ultimately show ?thesis using m by (intro int_repI [of "m div 2 ^ (k - e)" _ 0]) (auto simp: pos_imp_zdiv_nonneg_iff)
  qed
qed

lemma int_rep_mod: "int_rep n \<Longrightarrow> int_rep (n mod 2 ^ k)"
proof -
  assume "int_rep n"
  then obtain m and e :: nat where m: "0 \<le> m" "m \<le> 2 ^ 53" "n = m * 2 ^ e" unfolding int_rep_def by blast
  show ?thesis
  proof (cases "k \<le> e")
    case True
    then have "n mod 2 ^ k = 0" using m(3) by (simp add: le_imp_power_dvd dvd_imp_mod_0)
    then show ?thesis by (intro int_repI [of 0 _ 0]) auto
  next
    case False
    then have "(2 :: int) ^ k = 2 ^ (k - e) * 2 ^ e" by (simp flip: power_add)
    then have "n mod 2 ^ k = (m mod 2 ^ (k - e)) * 2 ^ e"
      using m(3) by (simp add: mult_mod_left)
    moreover have "m mod 2 ^ (k - e) \<le> m" using m(1) by (rule zmod_le_nonneg_dividend)
    ultimately show ?thesis using m by (intro int_repI [of "m mod 2 ^ (k - e)" _ e]) auto
  qed
qed

lemma int_rep_mult: "int_rep n \<Longrightarrow> int_rep (n * 2 ^ k)"
  unfolding int_rep_def by (metis mult.assoc power_add)

lemma pow256_less: "(2 :: rat) ^ 256 < 2 ^ 1024"
  by (rule power_strict_increasing) auto

lemma f64_ok_int: "int_rep n \<Longrightarrow> n < 2 ^ 256 \<Longrightarrow> f64_ok (of_int n)"
proof -
  assume n: "int_rep n" "n < 2 ^ 256"
  then have "(of_int n :: rat) < of_int (2 ^ 256)" by (simp only: of_int_less_iff)
  then show ?thesis
    using int_rep_rep [OF n(1)] int_rep_nonneg [OF n(1)] pow256_less by (simp add: f64_ok_def)
qed

section \<open>One digit\<close>

lemma rat_div_pow_floor: "\<lfloor>(of_int n / 2 ^ k :: rat)\<rfloor> = n div 2 ^ k"
  using floor_divide_of_int_eq [of n "2 ^ k", where 'a = rat] by simp

lemma target_digit_exact:
  assumes rep: "int_rep n" and n: "n < 2 ^ 256" and k: "k \<le> 192" and small: "n div 2 ^ k < 2 ^ 64"
  shows "target_digit (F64 (2 ^ k)) (F64 (of_int n)) =
    Some (word_of_int (n div 2 ^ k), F64 (of_int (n mod 2 ^ k)))"
proof -
  note n0 = int_rep_nonneg [OF rep]
  have le: "(of_int n / 2 ^ k :: rat) \<le> of_int n"
    using n0 by (simp add: divide_le_eq mult_le_cancel_left1)
  have nr: "(of_int n :: rat) < 2 ^ 1024"
    using f64_ok_int [OF rep n] n0 by (simp add: f64_ok_def)
  have ok1: "f64_ok (of_int n / 2 ^ k)"
    using int_rep_scaled [OF rep, of k] k n0 le nr by (simp add: f64_ok_def)
  have q0: "0 \<le> n div 2 ^ k" using n0 by (simp add: pos_imp_zdiv_nonneg_iff)
  have q1: "\<not> (of_int n / 2 ^ k :: rat) < 0" using n0 by (simp add: not_less)
  have conv: "f64_to_u64 (f64_div (F64 (of_int n)) (F64 (2 ^ k))) = Some (word_of_int (n div 2 ^ k))"
    using q1 q0 small by (simp add: f64_round_exact [OF ok1] f64_to_u64_def rat_trunc_def rat_div_pow_floor)
  have repq: "int_rep (n div 2 ^ k)" by (rule int_rep_div [OF rep])
  have w: "uint (word_of_int (n div 2 ^ k) :: u64) = n div 2 ^ k"
    using q0 small by (simp add: word_of_int_inverse)
  have "n div 2 ^ k < 2 ^ 256" using small by (rule less_trans) simp
  then have okq: "f64_ok (of_int (n div 2 ^ k))" by (rule f64_ok_int [OF repq])
  then have h: "f64_of_u64 (word_of_int (n div 2 ^ k)) = F64 (of_int (n div 2 ^ k))"
    by (simp add: f64_of_u64_def f64_of_int_def w f64_round_exact)
  have prod_le: "n div 2 ^ k * 2 ^ k \<le> n" by (rule div_pow_mult_le)
  have "n div 2 ^ k * 2 ^ k < 2 ^ 256" using prod_le n by linarith
  then have "f64_ok (of_int (n div 2 ^ k * 2 ^ k))" by (rule f64_ok_int [OF int_rep_mult [OF repq]])
  then have m: "f64_mul (F64 (of_int (n div 2 ^ k))) (F64 (2 ^ k)) = F64 (of_int (n div 2 ^ k * 2 ^ k))"
    by (simp add: f64_round_exact)
  have rem: "(of_int n - of_int (n div 2 ^ k * 2 ^ k) :: rat) = of_int (n mod 2 ^ k)"
    using minus_div_mult_eq_mod [of n "2 ^ k"] by (simp only: of_int_diff [symmetric])
  have "n mod 2 ^ k < 2 ^ 256" using n n0 zmod_le_nonneg_dividend [of n "2 ^ k"] by linarith
  then have "f64_ok (of_int (n mod 2 ^ k))" by (rule f64_ok_int [OF int_rep_mod [OF rep]])
  then have "f64_sub (F64 (of_int n)) (F64 (of_int (n div 2 ^ k * 2 ^ k))) = F64 (of_int (n mod 2 ^ k))"
    using rem by (simp add: f64_sub_def f64_round_exact)
  with conv h m show ?thesis by (simp add: target_digit_def)
qed


section \<open>The whole target\<close>

definition diff_one :: rat where "diff_one = 65535 * 2 ^ 208"

lemma truediffone_eq: "truediffone = F64 diff_one"
  by (simp add: truediffone_def diff_one_def)

lemma diff_one_pos [simp]: "0 < diff_one"
  by (simp add: diff_one_def)

lemma diff_one_nonneg [simp]: "0 \<le> diff_one"
  by (simp add: less_imp_le)

lemma diff_one_rep: "f64_rep diff_one"
  by (rule f64_repI [of 65535 208]) (simp_all add: diff_one_def)

lemma diff_one_less: "diff_one < 2 ^ 224"
  by (simp add: diff_one_def)

lemma bits_eq: "bits192 = F64 (2 ^ 192)" "bits128 = F64 (2 ^ 128)" "bits64 = F64 (2 ^ 64)"
  by (simp_all add: bits192_def bits128_def bits64_def)

lemma f64_mag_int_rep:
  assumes "2 powi 52 \<le> x"
  obtains n where "f64_mag x = of_int n" and "int_rep n"
proof -
  have x: "0 < x" using assms powi_two_pos [of 52] by linarith
  have "52 \<le> floor_log2 x" using floor_log2_mono [OF powi_two_pos assms] by (simp only: floor_log2_powi)
  then have e: "0 \<le> f64_exp x" by (simp add: f64_exp_def)
  define m where "m = round_even (x / 2 powi f64_exp x)"
  have "0 \<le> m" unfolding m_def using x by (intro round_even_ge) simp
  moreover have "m \<le> 2 ^ 53" unfolding m_def using f64_scaled_less [OF x] by (intro round_even_le) simp
  moreover have "f64_mag x = of_int (m * 2 ^ nat (f64_exp x))"
    using x e by (simp add: f64_mag_def m_def powi_two_int)
  ultimately show thesis by (intro that [of "m * 2 ^ nat (f64_exp x)"] int_repI) auto
qed

lemma target_quotient:
  assumes "1 \<le> d" and "d \<le> 2 ^ 64"
  obtains n where "f64_div truediffone (F64 d) = F64 (of_int n)" and "int_rep n" and "n < 2 ^ 224"
    and "\<bar>of_int n - diff_one / d\<bar> \<le> diff_one / d / 2 ^ 53" and "f64_mag (diff_one / d) = of_int n"
proof -
  have d: "0 < d" using assms by simp
  have up: "diff_one / d \<le> diff_one" using divide_left_mono [of 1 d diff_one] assms by simp
  have "diff_one / 2 ^ 64 \<le> diff_one / d" using assms by (intro divide_left_mono) auto
  moreover have "(2 :: rat) ^ 144 \<le> diff_one / 2 ^ 64" by (simp add: diff_one_def)
  ultimately have lo: "2 ^ 144 \<le> diff_one / d" by linarith
  have "(2 :: rat) powi 52 \<le> 2 ^ 144" by simp
  with lo have "2 powi 52 \<le> diff_one / d" by linarith
  then obtain n where n: "f64_mag (diff_one / d) = of_int n" "int_rep n" by (rule f64_mag_int_rep)
  have "f64_mag (diff_one / d) \<le> diff_one" using up d diff_one_rep by (intro f64_mag_le) auto
  then have "(of_int n :: rat) < 2 ^ 224" using n(1) diff_one_less by linarith
  then have "(of_int n :: rat) < of_int (2 ^ 224)" by simp
  then have lt: "n < 2 ^ 224" by (simp only: of_int_less_iff)
  have "(2 :: rat) powi (- 1022) \<le> 2 powi 52" by (rule powi_two_le) simp
  then have "2 powi (- 1022) \<le> diff_one / d" using \<open>2 powi 52 \<le> diff_one / d\<close> by (rule order_trans)
  then have err: "\<bar>of_int n - diff_one / d\<bar> \<le> diff_one / d / 2 ^ 53"
    using f64_mag_error n(1) by metis
  have "f64_mag (diff_one / d) < 2 ^ 1024"
  proof -
    have "(2 :: rat) ^ 224 \<le> 2 ^ 1024" by (rule power_increasing) auto
    then show ?thesis using \<open>(of_int n :: rat) < 2 ^ 224\<close> n(1) by linarith
  qed
  then have "f64_round (diff_one / d) = F64 (of_int n)"
    using d n(1) by (subst f64_round_nonneg) (auto simp: less_imp_le)
  then have "f64_div truediffone (F64 d) = F64 (of_int n)"
    using d by (simp add: truediffone_eq)
  then show thesis using n(2) lt err n(1) by (rule that)
qed

lemma target_from_diff_digits:
  assumes q: "f64_div truediffone (F64 d) = F64 (of_int n)" and d: "d \<noteq> 0"
    and rep: "int_rep n" and lt: "n < 2 ^ 224"
  obtains tgt where "target_from_diff (F64 d) = Some tgt" and "length tgt = 32" and "target_value tgt = n"
proof -
  note n0 = int_rep_nonneg [OF rep]
  define r3 where "r3 = n mod 2 ^ 192"
  define r2 where "r2 = r3 mod 2 ^ 128"
  define r1 where "r1 = r2 mod 2 ^ 64"
  have rep3: "int_rep r3" and rep2: "int_rep r2" and rep1: "int_rep r1"
    by (simp_all only: r1_def r2_def r3_def int_rep_mod rep)
  have b3: "0 \<le> r3 \<and> r3 < 2 ^ 192" and b2: "0 \<le> r2 \<and> r2 < 2 ^ 128" and b1: "0 \<le> r1 \<and> r1 < 2 ^ 64"
    by (simp_all add: r1_def r2_def r3_def)
  have n256: "n < 2 ^ 256" using lt by simp
  have h3: "n div 2 ^ 192 < 2 ^ 64" using lt by simp
  have h2: "r3 div 2 ^ 128 < 2 ^ 64" using b3 by (intro div_pow_less) simp
  have h1: "r2 div 2 ^ 64 < 2 ^ 64" using b2 by (intro div_pow_less) simp
  have s3: "target_digit bits192 (F64 (of_int n)) = Some (word_of_int (n div 2 ^ 192), F64 (of_int r3))"
    unfolding bits_eq r3_def by (rule target_digit_exact [OF rep n256 _ h3]) simp
  have s2: "target_digit bits128 (F64 (of_int r3)) = Some (word_of_int (r3 div 2 ^ 128), F64 (of_int r2))"
    unfolding bits_eq r2_def using b3 by (intro target_digit_exact [OF rep3 _ _ h2]) auto
  have s1: "target_digit bits64 (F64 (of_int r2)) = Some (word_of_int (r2 div 2 ^ 64), F64 (of_int r1))"
    unfolding bits_eq r1_def using b2 by (intro target_digit_exact [OF rep2 _ _ h1]) auto
  have s0: "f64_to_u64 (F64 (of_int r1)) = Some (word_of_int r1)"
    using b1 by (simp add: f64_to_u64_def rat_trunc_def)
  have inv: "uint (word_of_int k :: u64) = k" if "0 \<le> k" "k < 2 ^ 64" for k
    using that by (simp add: word_of_int_inverse)
  have q3: "0 \<le> n div 2 ^ 192" and q2: "0 \<le> r3 div 2 ^ 128" and q1: "0 \<le> r2 div 2 ^ 64"
    using n0 b3 b2 by (simp_all add: pos_imp_zdiv_nonneg_iff)
  let ?t = "le_bytes 8 (word_of_int r1 :: u64) @ le_bytes 8 (word_of_int (r2 div 2 ^ 64) :: u64) @
    le_bytes 8 (word_of_int (r3 div 2 ^ 128) :: u64) @ le_bytes 8 (word_of_int (n div 2 ^ 192) :: u64)"
  have val: "target_value ?t = n"
  proof -
    have "target_value ?t = r1 + 2 ^ 64 * (r2 div 2 ^ 64) + 2 ^ 128 * (r3 div 2 ^ 128) + 2 ^ 192 * (n div 2 ^ 192)"
      using inv [of r1] inv [OF q1 h1] inv [OF q2 h2] inv [OF q3 h3] b1
      by (simp add: target_value_append)
    also have "\<dots> = n"
      using mult_div_mod_eq [of "2 ^ 64" r2] mult_div_mod_eq [of "2 ^ 128" r3] mult_div_mod_eq [of "2 ^ 192" n]
      unfolding r1_def r2_def r3_def by linarith
    finally show ?thesis .
  qed
  have "target_from_diff (F64 d) = Some ?t"
    using d by (simp add: target_from_diff_def q s3 s2 s1 s0)
  then show thesis using val by (intro that) auto
qed

lemma target_from_diff_exact:
  assumes "1 \<le> d" and "d \<le> 2 ^ 64"
  obtains tgt where "target_from_diff (F64 d) = Some tgt" and "length tgt = 32"
    and "of_int (target_value tgt) = f64_mag (diff_one / d)"
    and "\<bar>of_int (target_value tgt) - diff_one / d\<bar> \<le> diff_one / d / 2 ^ 53"
proof -
  obtain n where q: "f64_div truediffone (F64 d) = F64 (of_int n)" and rep: "int_rep n" and lt: "n < 2 ^ 224"
    and err: "\<bar>of_int n - diff_one / d\<bar> \<le> diff_one / d / 2 ^ 53" and mag: "f64_mag (diff_one / d) = of_int n"
    by (rule target_quotient [OF assms])
  have "d \<noteq> 0" using assms by auto
  then obtain tgt where "target_from_diff (F64 d) = Some tgt" "length tgt = 32" "target_value tgt = n"
    by (rule target_from_diff_digits [OF q _ rep lt])
  then show thesis using err mag by (intro that [of tgt]) auto
qed

lemma target_from_diff_antimono:
  assumes "1 \<le> d" and "d \<le> d'" and "d' \<le> 2 ^ 64"
    and "target_from_diff (F64 d) = Some t" and "target_from_diff (F64 d') = Some t'"
  shows "target_value t' \<le> target_value t"
proof -
  have v: "of_int (target_value u) = f64_mag (diff_one / e)"
    if "1 \<le> e" "e \<le> 2 ^ 64" "target_from_diff (F64 e) = Some u" for e u
    by (rule target_from_diff_exact [OF that(1,2)]) (use that(3) in simp)
  have "of_int (target_value t') = f64_mag (diff_one / d')"
    and "of_int (target_value t) = f64_mag (diff_one / d)"
    using assms by (simp_all add: v)
  moreover have "f64_mag (diff_one / d') \<le> f64_mag (diff_one / d)"
    using assms by (intro f64_mag_mono divide_left_mono divide_nonneg_nonneg) auto
  ultimately have "(of_int (target_value t') :: rat) \<le> of_int (target_value t)" by simp
  then show ?thesis by (simp only: of_int_le_iff)
qed

end
