(* ===== verification/Diff_Bounds.thy ===== *)
theory Diff_Bounds
  imports Target_Exact
begin

text \<open>
  How far the difficulty of a target is from the exact quotient, the range of the difficulties
  a channel is given, and what a hash that meets an advertised target is worth.
\<close>

section \<open>Accumulated rounding\<close>

definition unit_roundoff :: rat where "unit_roundoff = 1 / 2 ^ 53"

text \<open>\<open>x\<close> is \<open>y\<close> after at most \<open>k\<close> roundings.\<close>

definition near :: "nat \<Rightarrow> rat \<Rightarrow> rat \<Rightarrow> bool" where
  "near k x y \<longleftrightarrow> y * (1 - unit_roundoff) ^ k \<le> x \<and> x \<le> y * (1 + unit_roundoff) ^ k"

lemma near_self [simp]: "near 0 x x"
  by (simp add: near_def)

lemma near_trans: "near j x y \<Longrightarrow> near k y z \<Longrightarrow> near (j + k) x z"
proof -
  assume a: "near j x y" "near k y z"
  have p: "0 \<le> (1 - unit_roundoff) ^ j" "0 \<le> (1 + unit_roundoff) ^ j"
    by (simp_all add: unit_roundoff_def)
  have "z * (1 - unit_roundoff) ^ k * (1 - unit_roundoff) ^ j \<le> y * (1 - unit_roundoff) ^ j"
    and "y * (1 + unit_roundoff) ^ j \<le> z * (1 + unit_roundoff) ^ k * (1 + unit_roundoff) ^ j"
    using a(2) p by (auto simp: near_def intro: mult_right_mono)
  with a(1) show ?thesis by (simp add: near_def power_add mult_ac)
qed

lemma near_add: "near k x y \<Longrightarrow> near k x' y' \<Longrightarrow> near k (x + x') (y + y')"
  by (auto simp: near_def distrib_right)

lemma near_scale: "near k x y \<Longrightarrow> 0 \<le> c \<Longrightarrow> near k (x * c) (y * c)"
  using mult_right_mono [of "y * (1 - unit_roundoff) ^ k" x c] mult_right_mono [of x "y * (1 + unit_roundoff) ^ k" c]
  by (simp add: near_def mult_ac)

lemma near_weaken: "near k x y \<Longrightarrow> 0 \<le> y \<Longrightarrow> k \<le> n \<Longrightarrow> near n x y"
proof -
  assume a: "near k x y" "0 \<le> y" "k \<le> n"
  have "(1 - unit_roundoff) ^ n \<le> (1 - unit_roundoff) ^ k"
    using a(3) by (intro power_decreasing) (auto simp: unit_roundoff_def)
  moreover have "(1 + unit_roundoff) ^ k \<le> (1 + unit_roundoff) ^ n"
    using a(3) by (intro power_increasing) (auto simp: unit_roundoff_def)
  ultimately have "y * (1 - unit_roundoff) ^ n \<le> y * (1 - unit_roundoff) ^ k"
    and "y * (1 + unit_roundoff) ^ k \<le> y * (1 + unit_roundoff) ^ n"
    using a(2) by (auto intro: mult_left_mono)
  with a(1) show ?thesis by (auto simp: near_def)
qed

lemma near_mag:
  assumes "2 powi (- 1022) \<le> x"
  shows "near 1 (f64_mag x) x"
proof -
  have "\<bar>f64_mag x - x\<bar> \<le> x * unit_roundoff"
    using f64_mag_error [OF assms] by (simp add: unit_roundoff_def)
  then show ?thesis unfolding near_def abs_le_iff power_one_right distrib_left right_diff_distrib by linarith
qed

text \<open>A value that is zero or at least one, and at most a power of two, rounds to such a value.\<close>

definition tame :: "nat \<Rightarrow> rat \<Rightarrow> bool" where
  "tame b x \<longleftrightarrow> (x = 0 \<or> 1 \<le> x) \<and> x \<le> 2 ^ b"

lemma tame_nonneg: "tame b x \<Longrightarrow> 0 \<le> x"
  by (auto simp: tame_def)

lemma tame_add: "tame b x \<Longrightarrow> tame b y \<Longrightarrow> tame (Suc b) (x + y)"
  by (auto simp: tame_def)

lemma tame_weaken: "tame b x \<Longrightarrow> b \<le> c \<Longrightarrow> tame c x"
  unfolding tame_def using power_increasing [of b c "2 :: rat"] by (auto intro: order_trans)

lemma tame_mag: "tame b x \<Longrightarrow> b < 1024 \<Longrightarrow>
  f64_round x = F64 (f64_mag x) \<and> tame b (f64_mag x) \<and> near 1 (f64_mag x) x"
proof (cases "x = 0")
  case True
  assume "tame b x"
  with True show ?thesis by (simp add: f64_mag_def f64_round_def near_def tame_def)
next
  case False
  assume t: "tame b x" and b: "b < 1024"
  with False have x: "1 \<le> x" "x \<le> 2 ^ b" by (auto simp: tame_def)
  have r: "f64_rep ((2 :: rat) ^ b)" by (rule f64_repI [of 1 "int b"]) auto
  have up: "f64_mag x \<le> 2 ^ b" using x by (intro f64_mag_le r) auto
  have "f64_rep 1" using f64_rep_int [of 1] by simp
  then have lo: "1 \<le> f64_mag x" using x by (intro f64_mag_ge) auto
  have "(2 :: rat) ^ b < 2 ^ 1024" using b by (intro power_strict_increasing) auto
  then have rnd: "f64_round x = F64 (f64_mag x)" using up x by (intro f64_round_nonneg) auto
  have "(2 :: rat) powi (- 1022) \<le> 2 powi 0" by (rule powi_two_le) simp
  then have "2 powi (- 1022) \<le> x" using x by (simp only: power_int_0_right)
  then show ?thesis using rnd up lo near_mag by (simp add: tame_def)
qed

section \<open>The value of a target as a double\<close>

lemma f64_rep_shift: "f64_rep x \<Longrightarrow> f64_rep (x * 2 ^ k)"
proof -
  assume "f64_rep x"
  then obtain m e where me: "\<bar>m\<bar> \<le> 2 ^ 53" "- 1074 \<le> e" "x = of_int m * 2 powi e"
    unfolding f64_rep_def by blast
  then have "x * 2 ^ k = of_int m * 2 powi (e + int k)" by (simp add: powi_two_split)
  then show ?thesis using me by (intro f64_repI [of m "e + int k"]) auto
qed

text \<open>One 64-bit digit: converted, then scaled without error.\<close>

lemma digit_conv:
  assumes "0 \<le> n" and "n < 2 ^ 64"
  shows "f64_of_int n = F64 (f64_mag (of_int n))" and "tame 64 (f64_mag (of_int n))"
    and "near 1 (f64_mag (of_int n)) (of_int n)"
proof -
  have "(of_int n :: rat) \<le> of_int (2 ^ 64)" using assms by (simp only: of_int_le_iff)
  moreover have "n = 0 \<or> 1 \<le> n" using assms by linarith
  ultimately have "tame 64 (of_int n)" by (auto simp: tame_def)
  then show "f64_of_int n = F64 (f64_mag (of_int n))" and "tame 64 (f64_mag (of_int n))"
    and "near 1 (f64_mag (of_int n)) (of_int n)"
    using tame_mag [of 64 "of_int n"] by (auto simp: f64_of_int_def)
qed

lemma tame_scale: "tame b x \<Longrightarrow> tame (b + k) (x * 2 ^ k)"
proof -
  assume t: "tame b x"
  have "x * 2 ^ k \<le> 2 ^ b * 2 ^ k" using t by (intro mult_right_mono) (auto simp: tame_def)
  moreover have "1 \<le> x * 2 ^ k" if "1 \<le> x"
    using mult_mono [of 1 x 1 "2 ^ k"] that by simp
  ultimately show ?thesis using t by (auto simp: tame_def power_add)
qed

lemma digit_scaled:
  assumes n: "0 \<le> n" "n < 2 ^ 64" and k: "k \<le> 192"
  obtains x where "f64_mul (f64_of_int n) (F64 (2 ^ k)) = F64 x" and "tame (64 + k) x"
    and "near 1 x (of_int (2 ^ k * n))"
proof -
  note c = digit_conv [OF n]
  let ?x = "f64_mag (of_int n) * 2 ^ k"
  have t: "tame (64 + k) ?x" by (rule tame_scale [OF c(2)])
  have "f64_rep ?x" using n by (intro f64_rep_shift f64_mag_is_rep) simp
  moreover have "\<bar>?x\<bar> < 2 ^ 1024"
  proof -
    have "(2 :: rat) ^ (64 + k) < 2 ^ 1024" using k by (intro power_strict_increasing) auto
    moreover have "?x \<le> 2 ^ (64 + k)" using t by (simp only: tame_def)
    ultimately show ?thesis using tame_nonneg [OF t] by linarith
  qed
  ultimately have "f64_round ?x = F64 ?x" by (intro f64_round_exact) (simp add: f64_ok_def)
  then have "f64_mul (f64_of_int n) (F64 (2 ^ k)) = F64 ?x" by (simp add: c(1))
  moreover have "near 1 ?x (of_int (2 ^ k * n))"
    using near_scale [OF c(3), of "2 ^ k"] by (simp add: mult.commute)
  ultimately show thesis using t that by blast
qed

lemma tame_sum:
  assumes t: "tame b x" "tame c y" "c \<le> b" and n: "near (Suc j) x (of_int x')" "near 1 y (of_int y')"
    and b: "b < 1000" and z: "0 \<le> y'"
  obtains z where "f64_add (F64 x) (F64 y) = F64 z" and "tame (Suc b) z"
    and "near (Suc (Suc j)) z (of_int (x' + y'))"
proof -
  have s: "tame (Suc b) (x + y)" using t by (intro tame_add tame_weaken [OF t(2)]) auto
  have "near (Suc j) y (of_int y')" using n(2) z by (intro near_weaken [OF n(2)]) auto
  then have a: "near (Suc j) (x + y) (of_int (x' + y'))" using near_add [OF n(1)] by simp
  have "Suc b < 1024" using b by simp
  note m = tame_mag [OF s this]
  have "near (1 + Suc j) (f64_mag (x + y)) (of_int (x' + y'))" using m a by (intro near_trans) auto
  then show thesis using m by (intro that [of "f64_mag (x + y)"]) auto
qed

lemma le256todouble_near:
  assumes "length t = 32"
  obtains x where "le256todouble t = F64 x" and "tame 259 x" and "near 4 x (of_int (target_value t))"
proof -
  let ?n = "\<lambda>k. uint (le64_at t k)"
  have n: "0 \<le> ?n k" "?n k < 2 ^ 64" for k using uint_lt2p [of "le64_at t k"] by simp_all
  have le: "(192 :: nat) \<le> 192" "(128 :: nat) \<le> 192" "(64 :: nat) \<le> 192" by simp_all
  obtain a3 where a3: "f64_mul (f64_of_int (?n 24)) (F64 (2 ^ 192)) = F64 a3" "tame (64 + 192) a3"
      "near 1 a3 (of_int (2 ^ 192 * ?n 24))" by (rule digit_scaled [OF n [of 24] le(1)])
  obtain a2 where a2: "f64_mul (f64_of_int (?n 16)) (F64 (2 ^ 128)) = F64 a2" "tame (64 + 128) a2"
      "near 1 a2 (of_int (2 ^ 128 * ?n 16))" by (rule digit_scaled [OF n [of 16] le(2)])
  obtain a1 where a1: "f64_mul (f64_of_int (?n 8)) (F64 (2 ^ 64)) = F64 a1" "tame (64 + 64) a1"
      "near 1 a1 (of_int (2 ^ 64 * ?n 8))" by (rule digit_scaled [OF n [of 8] le(3)])
  note a0 = digit_conv [OF n, of 0]
  have a3s: "near (Suc 0) a3 (of_int (2 ^ 192 * ?n 24))" using a3(3) by (simp only: One_nat_def)
  obtain s2 where s2: "f64_add (F64 a3) (F64 a2) = F64 s2" "tame (Suc (64 + 192)) s2"
      "near (Suc (Suc 0)) s2 (of_int (2 ^ 192 * ?n 24 + 2 ^ 128 * ?n 16))"
    by (rule tame_sum [OF a3(2) a2(2) _ a3s a2(3)]) (use n(1) in auto)
  obtain s1 where s1: "f64_add (F64 s2) (F64 a1) = F64 s1" "tame (Suc (Suc (64 + 192))) s1"
      "near (Suc (Suc (Suc 0))) s1 (of_int (2 ^ 192 * ?n 24 + 2 ^ 128 * ?n 16 + 2 ^ 64 * ?n 8))"
    by (rule tame_sum [OF s2(2) a1(2) _ s2(3) a1(3)]) (use n(1) in auto)
  obtain s0 where s0: "f64_add (F64 s1) (F64 (f64_mag (of_int (?n 0)))) = F64 s0" "tame (Suc (Suc (Suc (64 + 192)))) s0"
      "near (Suc (Suc (Suc (Suc 0)))) s0
        (of_int (2 ^ 192 * ?n 24 + 2 ^ 128 * ?n 16 + 2 ^ 64 * ?n 8 + ?n 0))"
    by (rule tame_sum [OF s1(2) a0(2) _ s1(3) a0(3)]) (use n(1) in auto)
  have v: "2 ^ 192 * ?n 24 + 2 ^ 128 * ?n 16 + 2 ^ 64 * ?n 8 + ?n 0 = target_value t"
    using target_value_words [OF assms] by linarith
  have "le256todouble t = F64 s0"
    unfolding le256todouble_def Let_def f64_of_u64_def bits_eq a3(1) a2(1) a1(1) s2(1) s1(1) a0(1) s0(1) ..
  moreover have "near 4 s0 (of_int (target_value t))" using s0(3) unfolding v by (simp add: eval_nat_numeral)
  ultimately show thesis using s0(2) by (intro that [of s0]) auto
qed


section \<open>The difficulty of a target\<close>

lemma f64_le_zero: "0 \<le> x \<Longrightarrow> f64_le (F64 x) (F64 0) \<longleftrightarrow> x = 0"
  by (auto simp: f64_le_def)

lemma diff_quotient:
  assumes x: "1 \<le> x" and b: "x \<le> 2 ^ 259"
  obtains s where "f64_div truediffone (F64 x) = F64 s" and "near 1 s (diff_one / x)"
    and "2 powi (- 40) \<le> s" and "s \<le> diff_one"
proof -
  have up: "diff_one / x \<le> diff_one" using divide_left_mono [of 1 x diff_one] x by simp
  have "diff_one / 2 ^ 259 \<le> diff_one / x" using x b by (intro divide_left_mono) auto
  moreover have "(2 :: rat) powi (- 40) \<le> diff_one / 2 ^ 259" by (simp add: diff_one_def)
  ultimately have lo: "2 powi (- 40) \<le> diff_one / x" by (rule order_trans [rotated])
  have nn: "0 \<le> diff_one / x" using x by simp
  have "(2 :: rat) powi (- 1022) \<le> 2 powi (- 40)" by (rule powi_two_le) simp
  then have n: "near 1 (f64_mag (diff_one / x)) (diff_one / x)" using lo by (intro near_mag) (rule order_trans)
  have u: "f64_mag (diff_one / x) \<le> diff_one" using up nn diff_one_rep by (intro f64_mag_le)
  have l: "2 powi (- 40) \<le> f64_mag (diff_one / x)"
    using lo by (intro f64_mag_ge f64_rep_powi) auto
  have "(2 :: rat) ^ 224 \<le> 2 ^ 1024" by (rule power_increasing) auto
  then have "f64_mag (diff_one / x) < 2 ^ 1024" using u diff_one_less by linarith
  then have "f64_round (diff_one / x) = F64 (f64_mag (diff_one / x))" by (intro f64_round_nonneg nn)
  then have "f64_div truediffone (F64 x) = F64 (f64_mag (diff_one / x))" using x by (simp add: truediffone_eq)
  then show thesis using n l u by (rule that)
qed

lemma diff_from_target_value:
  assumes "length t = 32"
  obtains s y where "diff_from_target t = F64 s" and "near 1 s (diff_one / y)" and "1 \<le> y"
    and "y = 1 \<and> target_value t = 0 \<or> near 4 y (of_int (target_value t))"
    and "2 powi (- 40) \<le> s" and "s \<le> diff_one"
proof -
  obtain x where x: "le256todouble t = F64 x" "tame 259 x" "near 4 x (of_int (target_value t))"
    by (rule le256todouble_near [OF assms])
  define y where "y = (if x = 0 then 1 else x)"
  have y: "1 \<le> y" "y \<le> 2 ^ 259" using x(2) by (auto simp: y_def tame_def)
  have "diff_from_target t = f64_div truediffone (F64 y)"
    using x(1) tame_nonneg [OF x(2)] by (simp add: diff_from_target_def f64_le_zero y_def)
  moreover have "y = 1 \<and> target_value t = 0 \<or> near 4 y (of_int (target_value t))"
  proof (cases "x = 0")
    case True
    then have "of_int (target_value t) * (1 - unit_roundoff) ^ 4 \<le> (0 :: rat)" using x(3) by (simp add: near_def)
    moreover have "0 < (1 - unit_roundoff) ^ 4" by (simp add: unit_roundoff_def)
    ultimately have "(of_int (target_value t) :: rat) \<le> 0" by (simp add: mult_le_0_iff)
    then have "target_value t = 0" using target_value_nonneg [of t] by simp
    then show ?thesis using True by (simp add: y_def)
  qed (use x(3) in \<open>simp add: y_def\<close>)
  ultimately show thesis using diff_quotient [OF y] y(1) that by metis
qed

text \<open>A hash at or under an advertised target is worth its difficulty, one at or over it no more.\<close>

lemma roundoff_numbers:
  "(1 - unit_roundoff) \<ge> (1 - 1 / 2 ^ 50) * (1 + unit_roundoff) ^ 5"
  "(1 + unit_roundoff) \<le> (1 + 1 / 2 ^ 50) * (1 - unit_roundoff) ^ 5"
  by (simp_all add: unit_roundoff_def power_divide)

lemma share_meets_target:
  assumes d: "1 \<le> d" "d \<le> 2 ^ 64" and tgt: "target_from_diff (F64 d) = Some tgt"
    and h: "length h = 32" and le: "target_value h \<le> target_value tgt"
  obtains s where "diff_from_target h = F64 s" and "d * (1 - 1 / 2 ^ 50) \<le> s"
proof -
  obtain s y where s: "diff_from_target h = F64 s" "near 1 s (diff_one / y)" "1 \<le> y"
    "y = 1 \<and> target_value h = 0 \<or> near 4 y (of_int (target_value h))"
    by (rule diff_from_target_value [OF h])
  let ?u = "unit_roundoff"
  have u: "0 < ?u" "?u < 1" by (simp_all add: unit_roundoff_def)
  have q0: "1 \<le> diff_one / d" using d order_trans [OF d(2), of diff_one] by (simp add: diff_one_def)
  have v: "of_int (target_value tgt) \<le> diff_one / d * (1 + ?u)"
    by (rule target_from_diff_exact [OF d]) (use tgt in \<open>simp add: unit_roundoff_def distrib_left abs_le_iff\<close>)
  have yle: "y \<le> diff_one / d * (1 + ?u) ^ 5"
    using s(4)
  proof
    assume "y = 1 \<and> target_value h = 0"
    moreover have "1 \<le> (1 + ?u) ^ 5" using u by (intro one_le_power) simp
    ultimately show ?thesis using q0 mult_mono [of 1 "diff_one / d" 1 "(1 + ?u) ^ 5"] by simp
  next
    assume "near 4 y (of_int (target_value h))"
    then have "y \<le> of_int (target_value h) * (1 + ?u) ^ 4" by (simp add: near_def)
    also have "\<dots> \<le> of_int (target_value tgt) * (1 + ?u) ^ 4" using le u by (intro mult_right_mono) auto
    also have "\<dots> \<le> diff_one / d * (1 + ?u) * (1 + ?u) ^ 4" using v u by (intro mult_right_mono) auto
    finally show ?thesis by (simp add: eval_nat_numeral mult.assoc)
  qed
  have P: "0 < (1 + ?u) ^ 5" using u by simp
  have "d * y \<le> diff_one * (1 + ?u) ^ 5" using yle d by (simp add: field_simps)
  then have "d / (1 + ?u) ^ 5 \<le> diff_one / y" using s(3) P by (simp add: field_simps)
  then have "d / (1 + ?u) ^ 5 * (1 - ?u) \<le> diff_one / y * (1 - ?u)" using u by (intro mult_right_mono) auto
  also have "\<dots> \<le> s" using s(2) by (simp add: near_def)
  finally have lo: "d / (1 + ?u) ^ 5 * (1 - ?u) \<le> s" .
  have "d / (1 + ?u) ^ 5 * ((1 - 1 / 2 ^ 50) * (1 + ?u) ^ 5) \<le> d / (1 + ?u) ^ 5 * (1 - ?u)"
    using d P by (intro mult_left_mono roundoff_numbers) auto
  moreover have "d / (1 + ?u) ^ 5 * ((1 - 1 / 2 ^ 50) * (1 + ?u) ^ 5) = d * (1 - 1 / 2 ^ 50)"
    using P by (simp add: field_simps)
  ultimately have "d * (1 - 1 / 2 ^ 50) \<le> s" using lo by linarith
  with s(1) show thesis by (rule that)
qed

lemma share_misses_target:
  assumes d: "1 \<le> d" "d \<le> 2 ^ 64" and tgt: "target_from_diff (F64 d) = Some tgt"
    and h: "length h = 32" and le: "target_value tgt \<le> target_value h"
  obtains s where "diff_from_target h = F64 s" and "s \<le> d * (1 + 1 / 2 ^ 50)"
proof -
  obtain s y where s: "diff_from_target h = F64 s" "near 1 s (diff_one / y)" "1 \<le> y"
    "y = 1 \<and> target_value h = 0 \<or> near 4 y (of_int (target_value h))"
    by (rule diff_from_target_value [OF h])
  let ?u = "unit_roundoff"
  have u: "0 < ?u" "?u < 1" by (simp_all add: unit_roundoff_def)
  have q0: "1 \<le> diff_one / d" using d order_trans [OF d(2), of diff_one] by (simp add: diff_one_def)
  have v: "diff_one / d * (1 - ?u) \<le> of_int (target_value tgt)"
    by (rule target_from_diff_exact [OF d]) (use tgt in \<open>simp add: unit_roundoff_def right_diff_distrib abs_le_iff\<close>)
  have pos: "0 < diff_one / d * (1 - ?u)" using d u by simp
  then have "0 < target_value h" using v le by (metis less_le_trans of_int_0_less_iff)
  then have "near 4 y (of_int (target_value h))" using s(4) by auto
  then have "of_int (target_value h) * (1 - ?u) ^ 4 \<le> y" by (simp add: near_def)
  moreover have "of_int (target_value tgt) * (1 - ?u) ^ 4 \<le> of_int (target_value h) * (1 - ?u) ^ 4"
    using le u by (intro mult_right_mono) auto
  moreover have "diff_one / d * (1 - ?u) * (1 - ?u) ^ 4 \<le> of_int (target_value tgt) * (1 - ?u) ^ 4"
    using v u by (intro mult_right_mono) auto
  ultimately have "diff_one / d * (1 - ?u) * (1 - ?u) ^ 4 \<le> y" by linarith
  then have yge: "diff_one / d * (1 - ?u) ^ 5 \<le> y" by (simp add: eval_nat_numeral mult.assoc)
  have P: "0 < (1 - ?u) ^ 5" using u by simp
  have "diff_one * (1 - ?u) ^ 5 \<le> d * y" using yge d by (simp add: field_simps)
  then have "diff_one / y \<le> d / (1 - ?u) ^ 5" using s(3) P by (simp add: field_simps)
  then have "diff_one / y * (1 + ?u) \<le> d / (1 - ?u) ^ 5 * (1 + ?u)" using u by (intro mult_right_mono) auto
  moreover have "s \<le> diff_one / y * (1 + ?u)" using s(2) by (simp add: near_def)
  moreover have "d / (1 - ?u) ^ 5 * (1 + ?u) \<le> d / (1 - ?u) ^ 5 * ((1 + 1 / 2 ^ 50) * (1 - ?u) ^ 5)"
    using d P by (intro mult_left_mono roundoff_numbers) auto
  moreover have "d / (1 - ?u) ^ 5 * ((1 + 1 / 2 ^ 50) * (1 - ?u) ^ 5) = d * (1 + 1 / 2 ^ 50)"
    using P by (simp add: field_simps)
  ultimately have "s \<le> d * (1 + 1 / 2 ^ 50)" by linarith
  with s(1) show thesis by (rule that)
qed


section \<open>Targets with few significant bits\<close>

lemma int_rep_exact: "int_rep n \<Longrightarrow> n < 2 ^ 256 \<Longrightarrow> f64_of_int n = F64 (of_int n)"
  by (simp add: f64_of_int_def f64_round_exact f64_ok_int)

lemma mul_exact:
  "int_rep n \<Longrightarrow> n * 2 ^ k < 2 ^ 256 \<Longrightarrow> f64_mul (F64 (of_int n)) (F64 (2 ^ k)) = F64 (of_int (n * 2 ^ k))"
  using f64_ok_int [OF int_rep_mult [of n k]] by (simp add: f64_round_exact)

lemma add_exact:
  "int_rep (a + b) \<Longrightarrow> a + b < 2 ^ 256 \<Longrightarrow> f64_add (F64 (of_int a)) (F64 (of_int b)) = F64 (of_int (a + b))"
  using f64_ok_int [of "a + b"] by (simp add: f64_round_exact)

lemma div_split: "(n :: int) div 2 ^ (a + b) * 2 ^ (a + b) + (n div 2 ^ b) mod 2 ^ a * 2 ^ b = n div 2 ^ b * 2 ^ b"
proof -
  have "n div 2 ^ (a + b) = n div 2 ^ b div 2 ^ a"
    using zdiv_zmult2_eq [of "2 ^ a" n "2 ^ b"] by (simp add: power_add mult.commute)
  then have "(n div 2 ^ (a + b) * 2 ^ a + (n div 2 ^ b) mod 2 ^ a) * 2 ^ b = n div 2 ^ b * 2 ^ b"
    by (simp only: div_mult_mod_eq)
  then show ?thesis by (simp only: power_add distrib_right mult.assoc)
qed

lemma four_digits:
  fixes B :: int
  assumes B: "0 < B" and n: "n = w0 + B * (w1 + B * (w2 + B * w3))"
    and w: "0 \<le> w0" "w0 < B" "0 \<le> w1" "w1 < B" "0 \<le> w2" "w2 < B"
  shows "w0 = n mod B" and "w1 = n div B mod B" and "w2 = n div (B * B) mod B" and "w3 = n div (B * B * B)"
proof -
  have low: "(a + B * b) div B = b \<and> (a + B * b) mod B = a" if "0 \<le> a" "a < B" for a b
    using that B by simp
  have d1: "n div B = w1 + B * (w2 + B * w3)" using low [OF w(1,2)] n by simp
  have d2: "n div (B * B) = w2 + B * w3"
    using d1 low [OF w(3,4)] zdiv_zmult2_eq [of B n B] B by simp
  have d3: "n div (B * B * B) = w3"
    using d2 low [OF w(5,6)] zdiv_zmult2_eq [of B n "B * B"] B by simp
  show "w0 = n mod B" and "w1 = n div B mod B" and "w2 = n div (B * B) mod B" and "w3 = n div (B * B * B)"
    using n d1 d2 d3 low [OF w(1,2)] low [OF w(3,4)] low [OF w(5,6)] by simp_all
qed

lemma le256todouble_exact:
  assumes len: "length t = 32" and rep: "int_rep (target_value t)"
  shows "le256todouble t = F64 (of_int (target_value t))"
proof -
  let ?n = "target_value t"
  let ?w = "\<lambda>k. uint (le64_at t k)"
  have w: "0 \<le> ?w k \<and> ?w k < 2 ^ 64" for k using uint_lt2p [of "le64_at t k"] by simp
  have n: "0 \<le> ?n" "?n < 2 ^ 256" using target_value_less [of t] len by simp_all
  have nw: "?n = ?w 0 + 2 ^ 64 * ?w 8 + 2 ^ 128 * ?w 16 + 2 ^ 192 * ?w 24"
    by (rule target_value_words [OF len])
  have "?n = ?w 0 + 2 ^ 64 * (?w 8 + 2 ^ 64 * (?w 16 + 2 ^ 64 * ?w 24))"
    unfolding nw by (simp add: algebra_simps)
  note f = four_digits [OF _ this]
  have B: "(2 :: int) ^ 64 * 2 ^ 64 = 2 ^ 128" "(2 :: int) ^ 128 * 2 ^ 64 = 2 ^ 192" "(0 :: int) < 2 ^ 64"
    by simp_all
  have w0: "?w 0 = ?n mod 2 ^ 64" and w8: "?w 8 = ?n div 2 ^ 64 mod 2 ^ 64"
    and w16: "?w 16 = ?n div 2 ^ 128 mod 2 ^ 64" and w24: "?w 24 = ?n div 2 ^ 192"
    using f [OF B(3)] w unfolding B by blast+
  have r3: "int_rep (?n div 2 ^ 192)" and r2: "int_rep (?n div 2 ^ 128 mod 2 ^ 64)"
    and r1: "int_rep (?n div 2 ^ 64 mod 2 ^ 64)" and r0: "int_rep (?n mod 2 ^ 64)"
    by (intro int_rep_div int_rep_mod rep)+
  have big: "k < 2 ^ 256" if "0 \<le> k \<and> k < 2 ^ 64" for k :: int using that by simp
  have s: "?n div 2 ^ j * 2 ^ j < 2 ^ 256" for j using div_pow_mult_le [of ?n j] n by linarith
  have m: "k mod 2 ^ 64 * 2 ^ j < 2 ^ 256" if "j \<le> 192" for k :: int and j
  proof -
    have "k mod 2 ^ 64 * 2 ^ j < 2 ^ 64 * 2 ^ j" by (intro mult_strict_right_mono) auto
    also have "(2 :: int) ^ 64 * 2 ^ j \<le> 2 ^ 256"
      unfolding power_add [symmetric] using that by (intro power_increasing) auto
    finally show ?thesis .
  qed
  have sum2: "?n div 2 ^ 192 * 2 ^ 192 + ?n div 2 ^ 128 mod 2 ^ 64 * 2 ^ 128 = ?n div 2 ^ 128 * 2 ^ 128"
    using div_split [of ?n 64 128] by simp
  have sum1: "?n div 2 ^ 128 * 2 ^ 128 + ?n div 2 ^ 64 mod 2 ^ 64 * 2 ^ 64 = ?n div 2 ^ 64 * 2 ^ 64"
    using div_split [of ?n 64 64] by simp
  have sum0: "?n div 2 ^ 64 * 2 ^ 64 + ?n mod 2 ^ 64 = ?n" by simp
  have c: "f64_of_u64 (le64_at t 24) = F64 (of_int (?n div 2 ^ 192))"
    "f64_of_u64 (le64_at t 16) = F64 (of_int (?n div 2 ^ 128 mod 2 ^ 64))"
    "f64_of_u64 (le64_at t 8) = F64 (of_int (?n div 2 ^ 64 mod 2 ^ 64))"
    "f64_of_u64 (le64_at t 0) = F64 (of_int (?n mod 2 ^ 64))"
    unfolding f64_of_u64_def
    by (simp_all only: w24 [symmetric] w16 [symmetric] w8 [symmetric] w0 [symmetric])
      (intro int_rep_exact big w; simp only: w24 w16 w8 w0 r3 r2 r1 r0)+
  have p: "f64_mul (F64 (of_int (?n div 2 ^ 192))) (F64 (2 ^ 192)) = F64 (of_int (?n div 2 ^ 192 * 2 ^ 192))"
    "f64_mul (F64 (of_int (?n div 2 ^ 128 mod 2 ^ 64))) (F64 (2 ^ 128)) = F64 (of_int (?n div 2 ^ 128 mod 2 ^ 64 * 2 ^ 128))"
    "f64_mul (F64 (of_int (?n div 2 ^ 64 mod 2 ^ 64))) (F64 (2 ^ 64)) = F64 (of_int (?n div 2 ^ 64 mod 2 ^ 64 * 2 ^ 64))"
    by (intro mul_exact r3 r2 r1 s m; simp)+
  have a2: "f64_add (F64 (of_int (?n div 2 ^ 192 * 2 ^ 192))) (F64 (of_int (?n div 2 ^ 128 mod 2 ^ 64 * 2 ^ 128))) =
      F64 (of_int (?n div 2 ^ 128 * 2 ^ 128))"
    by (subst add_exact; simp only: sum2 s int_rep_mult int_rep_div rep)
  have a1: "f64_add (F64 (of_int (?n div 2 ^ 128 * 2 ^ 128))) (F64 (of_int (?n div 2 ^ 64 mod 2 ^ 64 * 2 ^ 64))) =
      F64 (of_int (?n div 2 ^ 64 * 2 ^ 64))"
    by (subst add_exact; simp only: sum1 s int_rep_mult int_rep_div rep)
  have a0: "f64_add (F64 (of_int (?n div 2 ^ 64 * 2 ^ 64))) (F64 (of_int (?n mod 2 ^ 64))) = F64 (of_int ?n)"
    by (subst add_exact; simp only: sum0 rep n)
  show ?thesis unfolding le256todouble_def Let_def bits_eq c p a2 a1 a0 ..
qed

lemma be256todouble_rev: "length t = 32 \<Longrightarrow> be256todouble t = le256todouble (rev t)"
proof -
  assume len: "length t = 32"
  have "be64_at t k = le64_at (rev t) (24 - k)" if "k \<le> 24" for k
  proof -
    have "rev (take 8 (drop k t)) = take 8 (drop (24 - k) (rev t))"
      using len that by (intro nth_equalityI) (auto simp: rev_nth add.commute)
    then show ?thesis by (simp add: be64_at_def le64_at_def)
  qed
  then show ?thesis by (simp add: be256todouble_def le256todouble_def)
qed


lemma target_value_zeros [simp]: "target_value (replicate k 0) = 0"
  by (induction k) auto

text \<open>The compact form: three bytes of mantissa, and the number of bytes of the whole.\<close>

lemma diff_from_nbits_compact:
  assumes s: "3 \<le> s" "s \<le> 32" and m: "m = uint b1 * 65536 + uint b2 * 256 + uint b3" and pos: "0 < m"
  shows "diff_from_nbits [of_nat s, b1, b2, b3] = f64_round (diff_one / of_int (m * 256 ^ (s - 3)))"
proof -
  have "unat (of_nat s :: byte) = s" using s by (simp add: unat_of_nat take_bit_nat_eq_self)
  then have d: "diff_from_nbits [of_nat s, b1, b2, b3] =
      diff_from_betarget (replicate (32 - s) 0 @ [b1, b2, b3] @ replicate (s - 3) 0)" (is "_ = diff_from_betarget ?t")
    using s by (simp add: diff_from_nbits_def Let_def)
  have len: "length ?t = 32" using s by simp
  have v: "target_value (rev ?t) = m * 2 ^ (8 * (s - 3))"
    using m by (simp add: target_value_append)
  have "m \<le> 2 ^ 24" using m uint_byte_le [of b1] uint_byte_le [of b2] uint_byte_le [of b3] by simp
  then have "int_rep (target_value (rev ?t))"
    unfolding v using pos by (intro int_repI [of m]) auto
  then have "be256todouble ?t = F64 (of_int (m * 2 ^ (8 * (s - 3))))"
    using len by (simp only: be256todouble_rev le256todouble_exact length_rev v)
  moreover have "(2 :: int) ^ (8 * (s - 3)) = 256 ^ (s - 3)" by (simp add: power_mult)
  ultimately have b: "be256todouble ?t = F64 (of_int (m * 256 ^ (s - 3)))" by simp
  have "0 < m * 256 ^ (s - 3)" using pos by simp
  then have p: "(0 :: rat) < of_int (m * 256 ^ (s - 3))" by (simp only: of_int_0_less_iff)
  then have "\<not> f64_le (F64 (of_int (m * 256 ^ (s - 3)))) (F64 0)" by (subst f64_le_zero) auto
  then show ?thesis using p pos by (simp only: d diff_from_betarget_def b Let_def if_False truediffone_eq) simp
qed

section \<open>The difficulty a channel gets\<close>

lemma clamp_range:
  obtains w where "clamp_channel_diff a = F64 w" and "1 \<le> w" and "w \<le> 10 ^ 15"
proof -
  have "\<exists>w. clamp_channel_diff a = F64 w \<and> 1 \<le> w \<and> w \<le> 10 ^ 15"
    by (cases a) (simp_all add: clamp_channel_diff_def f64_isfinite_def SV2_MAX_CHANNEL_DIFF_def)
  then show thesis using that by blast
qed

lemma clamp_ge: "s \<le> p \<Longrightarrow> clamp_channel_diff (F64 p) = F64 w \<Longrightarrow> s \<le> w \<or> w = 10 ^ 15"
  by (auto simp: clamp_channel_diff_def f64_isfinite_def SV2_MAX_CHANNEL_DIFF_def split: if_splits)

lemma choose_range:
  obtains w where "choose_channel_diff cfg hr max_target fl = F64 w" and "1 \<le> w" and "w \<le> 10 ^ 15"
  unfolding choose_channel_diff_def Let_def by (rule clamp_range)

text \<open>The configured numbers are \<open>int64_t\<close>.\<close>

definition diff_config_ok :: "diff_config \<Rightarrow> bool" where
  "diff_config_ok cfg \<longleftrightarrow>
     (\<forall>n\<in>{dc_mindiff cfg, dc_startdiff cfg, dc_highdiff cfg, dc_maxdiff cfg}. \<bar>n\<bar> \<le> 2 ^ 63)"

lemma f64_of_int_finite:
  assumes "\<bar>n\<bar> \<le> 2 ^ 63"
  obtains x where "f64_of_int n = F64 x"
proof (cases "0 \<le> n")
  case True
  then show thesis using digit_conv(1) [of n] assms that by simp
next
  case False
  have "f64_of_int (- n) = F64 (f64_mag (of_int (- n)))" using False assms by (intro digit_conv) auto
  then have "f64_of_int n = F64 (- f64_mag (of_int (- n)))"
    using False by (auto simp: f64_of_int_def f64_round_def Let_def split: if_splits)
  then show thesis by (rule that)
qed

lemma server_floor_finite:
  assumes "diff_config_ok cfg"
  obtains x where "server_diff_floor cfg server = F64 x"
proof -
  obtain h where "f64_of_int (dc_highdiff cfg) = F64 h"
    using f64_of_int_finite assms by (auto simp: diff_config_ok_def)
  then have "\<exists>x. server_diff_floor cfg server = F64 x"
    by (simp add: server_diff_floor_def split: option.splits)
  then show thesis using that by blast
qed

text \<open>A channel is never easier than its \<open>max_target\<close>, but for the ceiling.\<close>

lemma choose_not_easier:
  assumes cfg: "diff_config_ok cfg" and fl: "fl = F64 f" and t: "diff_from_target max_target = F64 s" and s: "0 < s"
    and w: "choose_channel_diff cfg hr max_target fl = F64 w"
  shows "s \<le> w \<or> w = 10 ^ 15"
proof -
  obtain a where a: "f64_of_int (dc_startdiff cfg) = F64 a"
    using f64_of_int_finite cfg by (auto simp: diff_config_ok_def)
  obtain b where b: "f64_of_int (dc_mindiff cfg) = F64 b"
    using f64_of_int_finite cfg by (auto simp: diff_config_ok_def)
  obtain c where c: "f64_of_int (dc_maxdiff cfg) = F64 c"
    using f64_of_int_finite cfg by (auto simp: diff_config_ok_def)
  define want where "want = f64_mul (f64_div (if wire_f32_finite hr \<and> f64_lt (F64 0) (f64_of_f32 hr)
      then f64_of_f32 hr else F64 0) (F64 4294967296)) (F64 10)"
  define d0 where "d0 = (if f64_lt (F64 0) (if wire_f32_finite hr \<and> f64_lt (F64 0) (f64_of_f32 hr)
      then f64_of_f32 hr else F64 0) \<and> f64_isfinite want \<and> f64_lt (F64 1) want then want else F64 a)"
  have "\<exists>x0. d0 = F64 x0" by (cases want) (simp_all add: d0_def f64_isfinite_def)
  then obtain x0 where x0: "d0 = F64 x0" by blast
  define m where "m = (if f64_lt (F64 b) fl then fl else F64 b)"
  have "\<exists>x1. m = F64 x1" by (simp add: m_def fl)
  then obtain x1 where x1: "m = F64 x1" by blast
  define d1 where "d1 = (if f64_lt d0 m then m else d0)"
  have "\<exists>x2. d1 = F64 x2" by (simp add: d1_def x0 x1)
  then obtain x2 where x2: "d1 = F64 x2" by blast
  define d2 where "d2 = (if dc_maxdiff cfg \<noteq> 0 \<and> f64_lt (F64 c) d1 then F64 c else d1)"
  have "\<exists>x3. d2 = F64 x3" by (simp add: d2_def x2)
  then obtain x3 where x3: "d2 = F64 x3" by blast
  have "clamp_channel_diff (if f64_isfinite (F64 s) \<and> f64_lt (F64 0) (F64 s) \<and> f64_lt d2 (F64 s)
      then F64 s else d2) = F64 w"
    using w unfolding choose_channel_diff_def Let_def a b c t want_def [symmetric] d0_def [symmetric]
      m_def [symmetric] d1_def [symmetric] d2_def [symmetric] .
  then have "clamp_channel_diff (if f64_lt d2 (F64 s) then F64 s else d2) = F64 w"
    using s by (simp add: f64_isfinite_def)
  then show ?thesis
    using clamp_ge [of s s w] clamp_ge [of s x3 w] by (cases "x3 < s") (auto simp: x3)
qed

lemma target_from_diff_some:
  "1 \<le> d \<Longrightarrow> d \<le> 2 ^ 64 \<Longrightarrow> \<exists>tgt. target_from_diff (F64 d) = Some tgt \<and> length tgt = 32"
  by (metis target_from_diff_exact)

section \<open>The threshold of the stratifier\<close>

lemma sane_diff_near:
  assumes d: "1 \<le> d" "d \<le> 10 ^ 15"
  obtains k where "sane_diff_int64 (F64 d) = Some k" and "d - 1 / 8 < of_int k" and "of_int k \<le> d + 9 / 8" and "1 \<le> k"
proof -
  define c where "c = f64_mag (999999 / 1000000)"
  have "(2 :: rat) powi (- 1022) \<le> 2 powi (- 1)" by (rule powi_two_le) simp
  also have "(2 :: rat) powi (- 1) \<le> 999999 / 1000000" by simp
  finally have c: "\<bar>c - 999999 / 1000000\<bar> \<le> 999999 / 1000000 / 2 ^ 53"
    unfolding c_def by (rule f64_mag_error)
  have "999999 / 1000000 / 2 ^ 53 \<le> (1 / 10000000 :: rat)" by simp
  with c have "\<bar>c - 999999 / 1000000\<bar> \<le> 1 / 10000000" by (rule order_trans)
  then have cb: "998 / 1000 \<le> c" "c \<le> 1" unfolding abs_le_iff by linarith+
  have "c < 2 ^ 1024" using cb one_less_power [of "2 :: rat" 1024] by linarith
  then have rc: "f64_round (999999 / 1000000) = F64 c" unfolding c_def by (intro f64_round_nonneg) auto
  have t: "tame 60 (d + c)" using d cb by (auto simp: tame_def)
  have m: "f64_round (d + c) = F64 (f64_mag (d + c))"
    using tame_mag [OF t] by auto
  have "(2 :: rat) powi (- 1022) \<le> 1" using powi_two_le [of "- 1022" 0] unfolding power_int_0_right by linarith
  then have "2 powi (- 1022) \<le> d + c" using d cb by linarith
  then have e: "\<bar>f64_mag (d + c) - (d + c)\<bar> \<le> (d + c) / 2 ^ 53" by (rule f64_mag_error)
  have "(d + c) / 2 ^ 53 \<le> (10 ^ 15 + 1) / 2 ^ 53" using d cb by (intro divide_right_mono add_mono) auto
  also have "\<dots> \<le> (112 / 1000 :: rat)" by simp
  finally have e2: "\<bar>f64_mag (d + c) - (d + c)\<bar> \<le> 112 / 1000" using e by linarith
  define x where "x = f64_mag (d + c)"
  have x: "d + 886 / 1000 \<le> x" "x \<le> d + 1 + 112 / 1000"
    using e2 cb unfolding x_def abs_le_iff by linarith+
  have x0: "0 \<le> x" using x d by linarith
  have k1: "of_int \<lfloor>x\<rfloor> \<le> x" "x < of_int \<lfloor>x\<rfloor> + 1" by linarith+
  have lo: "d - 1 / 8 < of_int \<lfloor>x\<rfloor>" and hi: "of_int \<lfloor>x\<rfloor> \<le> d + 9 / 8" using k1 x by linarith+
  have "(0 :: rat) < of_int \<lfloor>x\<rfloor>" using lo d by linarith
  then have one: "1 \<le> \<lfloor>x\<rfloor>" by simp
  have "x < 2 ^ 63" using x d by simp
  then have top: "\<lfloor>x\<rfloor> < 2 ^ 63" by (simp add: floor_less_iff)
  have "sane_diff_int64 (F64 d) = Some \<lfloor>x\<rfloor>"
    using d m x0 one top by (simp add: sane_diff_int64_def f64_isfinite_def rc f64_to_i64_def rat_trunc_def flip: x_def)
  then show thesis using lo hi one by (rule that)
qed

end
