(* ===== verification/Coinbase_Facts.thy ===== *)
theory Coinbase_Facts
  imports Pool_Coinbase Diff_Bounds
begin

text \<open>
  The pool's coinbase: the fee never exceeds the reward and the outputs add up to it, and the
  three parts around the extranonces are the serialisation of a transaction with one input and
  those outputs.
\<close>

section \<open>The fee\<close>

definition coinbase_config_ok :: "coinbase_config \<Rightarrow> bool" where
  "coinbase_config_ok cfg \<longleftrightarrow>
     cc_nonce1length cfg \<le> 8 \<and> cc_nonce2length cfg \<le> 8 \<and>
     (\<forall>sig. cc_btcsig cfg = Some sig \<longrightarrow> length sig \<le> 38) \<and>
     length (cc_txnbin cfg) < 0xfd \<and> length (cc_pooltxnbin cfg) < 0xfd \<and>
     (\<exists>f. cc_poolfee cfg = F64 f \<and> 0 \<le> f \<and> f \<le> 50)"

lemma near_ge_tiny: "2 powi (- 1000) \<le> x \<Longrightarrow> near 1 (f64_mag x) x"
  using powi_two_le [of "- 1022" "- 1000"] by (intro near_mag) simp

lemma tiny_le: "1 / 1000 \<le> x \<Longrightarrow> 2 powi (- 1000) \<le> (x :: rat)"
proof -
  assume x: "1 / 1000 \<le> x"
  have "(2 :: rat) powi (- 1000) \<le> 2 powi (- 10)" by (rule powi_two_le) simp
  also have "(2 :: rat) powi (- 10) \<le> 1 / 1000" by simp
  finally show ?thesis using x by (rule order_trans)
qed

lemma mag_small: "0 \<le> x \<Longrightarrow> x \<le> 2 ^ 100 \<Longrightarrow> f64_round x = F64 (f64_mag x)"
proof -
  assume x: "0 \<le> x" "x \<le> 2 ^ 100"
  have "f64_rep ((2 :: rat) ^ 100)" by (rule f64_repI [of 1 100]) auto
  then have "f64_mag x \<le> 2 ^ 100" using x by (intro f64_mag_le)
  moreover have "(2 :: rat) ^ 100 < 2 ^ 1024" by (rule power_strict_increasing) auto
  ultimately have "f64_mag x < 2 ^ 1024" by linarith
  then show ?thesis by (rule f64_round_nonneg [OF x(1)])
qed

text \<open>The reward in hundredths of a percent of the whole, after two roundings.\<close>

lemma percent_of_reward:
  assumes "0 < g"
  obtains x where "f64_div (f64_of_u64 g) (F64 100) = F64 x" and "near 2 x (of_int (uint g) / 100)"
    and "1 / 1000 \<le> x" and "x \<le> of_int (uint g) / 99"
proof -
  define n where "n = uint g"
  have n: "1 \<le> n" "0 \<le> n" "n < 2 ^ 64"
    using assms uint_lt2p [of g] by (simp_all add: n_def word_less_def)
  note c = digit_conv [OF n(2,3)]
  define a where "a = f64_mag (of_int n)"
  have n1: "(1 :: rat) \<le> of_int n" using n(1) by simp
  have b: "near 1 a (of_int n)" using c(3) by (simp add: a_def)
  have a1: "1 \<le> a" using n1 f64_rep_int [of 1] unfolding a_def by (intro f64_mag_ge) auto
  have a2: "a \<le> 2 ^ 64" using c(2) by (simp add: a_def tame_def)
  have r: "f64_round (a / 100) = F64 (f64_mag (a / 100))" using a1 a2 by (intro mag_small) auto
  have m: "near 1 (f64_mag (a / 100)) (a / 100)" using a1 by (intro near_ge_tiny tiny_le) simp
  have "near 1 (a * (1 / 100)) (of_int n * (1 / 100))" using b by (intro near_scale) auto
  then have "near (1 + 1) (f64_mag (a / 100)) (of_int n / 100)" using m by (intro near_trans) auto
  then have nr: "near 2 (f64_mag (a / 100)) (of_int n / 100)"
    by (simp only: one_add_one times_divide_eq_right mult_1_right)
  have "of_int n / 100 * (1 - unit_roundoff) ^ 2 \<le> f64_mag (a / 100)"
    and up: "f64_mag (a / 100) \<le> of_int n / 100 * (1 + unit_roundoff) ^ 2"
    using nr by (auto simp: near_def)
  moreover have "1 / 100 * (1 - unit_roundoff) ^ 2 \<le> of_int n / 100 * (1 - unit_roundoff) ^ 2"
    using n1 by (intro mult_right_mono divide_right_mono) auto
  moreover have "(1 / 1000 :: rat) \<le> 1 / 100 * (1 - unit_roundoff) ^ 2"
    by (simp add: unit_roundoff_def power_divide)
  ultimately have lo: "1 / 1000 \<le> f64_mag (a / 100)" by linarith
  have "of_int n / 100 * (1 + unit_roundoff) ^ 2 \<le> of_int n / 100 * (100 / 99)"
    using n1 by (intro mult_left_mono) (auto simp: unit_roundoff_def power_divide)
  then have hi: "f64_mag (a / 100) \<le> of_int n / 99" using up by simp
  have "f64_div (f64_of_u64 g) (F64 100) = F64 (f64_mag (a / 100))"
    using c(1) r by (simp add: f64_of_u64_def a_def n_def)
  then show thesis using nr lo hi unfolding n_def by (rule that)
qed

lemma pool_fee_bounds:
  assumes f: "cc_poolfee cfg = F64 f" "0 \<le> f" "f \<le> 50"
  obtains d where "pool_fee cfg g = Some d" and "d \<le> g" and "d = 0 \<or> 546 \<le> d"
proof (cases "g = 0")
  case True
  have "f64_div (f64_of_u64 0) (F64 100) = F64 0"
    by (simp add: f64_of_u64_def f64_of_int_def f64_round_def f64_mag_def)
  then have "pool_fee cfg g = Some 0"
    using True f by (simp add: pool_fee_def f64_round_def f64_mag_def f64_to_u64_def rat_trunc_def)
  then show thesis using that by simp
next
  case False
  then have "0 < g" by (simp add: word_gt_0)
  then obtain x where x: "f64_div (f64_of_u64 g) (F64 100) = F64 x" "1 / 1000 \<le> x" "x \<le> of_int (uint g) / 99"
    by (rule percent_of_reward)
  have g: "uint g < 2 ^ 64" "0 < uint g" using uint_lt2p [of g] \<open>0 < g\<close> by (simp_all add: word_less_def)
  have gr: "(of_int (uint g) :: rat) \<le> 2 ^ 64" "(1 :: rat) \<le> of_int (uint g)"
    using g of_int_le_iff [of "uint g" "2 ^ 64", where 'a = rat] of_int_le_iff [of 1 "uint g", where 'a = rat]
    by (simp_all del: of_int_le_iff)
  define y where "y = f64_mag (x * f)"
  have xf: "0 \<le> x * f" "x * f \<le> x * 50" using x f by (auto intro: mult_left_mono)
  have x50: "x * 50 \<le> of_int (uint g) * (50 / 99)" using x(3) by simp
  have "y \<le> f64_mag (x * 50)" unfolding y_def using xf by (rule f64_mag_mono)
  also have "\<dots> \<le> x * 50 * (1 + unit_roundoff)"
    using near_ge_tiny [OF tiny_le, of "x * 50"] x(2) by (simp add: near_def)
  also have "\<dots> \<le> of_int (uint g) * (50 / 99) * (1 + unit_roundoff)"
    using x50 by (intro mult_right_mono) (auto simp: unit_roundoff_def)
  also have "\<dots> \<le> of_int (uint g) * 1"
    unfolding mult.assoc using gr by (intro mult_left_mono) (auto simp: unit_roundoff_def)
  finally have yg: "y \<le> of_int (uint g)" by simp
  have y0: "0 \<le> y" unfolding y_def by (rule f64_mag_nonneg [OF xf(1)])
  have "x * f \<le> 2 ^ 100" using xf x50 gr by simp
  then have rnd: "f64_mul (F64 x) (F64 f) = F64 y" using xf by (simp add: mag_small y_def)
  have fl: "0 \<le> \<lfloor>y\<rfloor>" "\<lfloor>y\<rfloor> \<le> uint g" using y0 yg by (simp_all add: floor_le_iff)
  then have "\<lfloor>y\<rfloor> < 2 ^ 64" using g by linarith
  then have conv: "f64_to_u64 (F64 y) = Some (word_of_int \<lfloor>y\<rfloor>)"
    using y0 fl by (simp add: f64_to_u64_def rat_trunc_def)
  have "uint (word_of_int \<lfloor>y\<rfloor> :: u64) = \<lfloor>y\<rfloor>" using fl \<open>\<lfloor>y\<rfloor> < 2 ^ 64\<close> by (simp add: word_of_int_inverse)
  then have le: "(word_of_int \<lfloor>y\<rfloor> :: u64) \<le> g" using fl by (simp add: word_le_def)
  let ?d = "if (word_of_int \<lfloor>y\<rfloor> :: u64) < 546 then 0 else (word_of_int \<lfloor>y\<rfloor> :: u64)"
  have "pool_fee cfg g = Some ?d" by (simp only: pool_fee_def x(1) f(1) rnd conv Option.bind.simps)
  moreover have "?d \<le> g" using le by simp
  moreover have "?d = 0 \<or> 546 \<le> ?d" by (auto simp: not_less)
  ultimately show thesis by (rule that)
qed

section \<open>The shape of the transaction\<close>

lemma length_ser_number: "length (ser_number v) \<le> 5"
  by (simp add: ser_number_def Let_def)

declare le_minimal.simps [simp del]

lemma length_le_minimal: "unat h < 256 ^ k \<Longrightarrow> 0 < k \<Longrightarrow> length (le_minimal h) \<le> k"
proof (induction h arbitrary: k rule: le_minimal.induct)
  case (1 h)
  have d: "unat (drop_bit 8 h) = unat h div 256" by (simp add: drop_bit_eq_div unat_div)
  show ?case
  proof (cases "drop_bit 8 h = 0")
    case False
    then have "unat h div 256 \<noteq> 0" by (simp only: unat_eq_0 flip: d) (simp add: unat_eq_zero)
    then have k: "1 < k" using 1(2,3) by (cases "k = 1") auto
    have "unat (drop_bit 8 h) < 256 ^ (k - 1)"
      unfolding d using 1(2) k power_minus_mult [of k "256 :: nat"] by (intro less_mult_imp_div_less) simp
    then have "length (le_minimal (drop_bit 8 h)) \<le> k - 1" using False k by (intro 1(1)) auto
    then have "Suc (length (le_minimal (drop_bit 8 h))) \<le> k" using k by arith
    then show ?thesis using k by (subst le_minimal.simps) simp
  qed (use 1(3) in \<open>subst le_minimal.simps, simp\<close>)
qed

lemma length_ser_bip34_height: "length (ser_bip34_height h) \<le> 6"
  using length_le_minimal [of h 4] unsigned_less [of h, where ?'a = nat] by (simp add: ser_bip34_height_def Let_def)

lemma length_hex2bin: "length (fst (hex2bin n s)) \<le> n"
  by (induction n s rule: hex2bin.induct) (auto simp: Let_def split: prod.splits)

lemma length_hex_field: "length (hex_field n s) = n"
  unfolding hex_field_def by (rule length_c_buf) (rule length_hex2bin)

lemma length_coinb1_script: "length (coinb1_script cfg wb) \<le> 50"
  using length_ser_number [of "ct_height wb"] length_ser_number [of "ct_sec wb"]
    length_ser_number [of "ct_nsec wb"] length_ser_bip34_height [of "word_of_int (ct_height wb)"]
  by (auto simp add: coinb1_script_def Let_def length_hex_field MAX_GBT_FLAGS_LEN_def min_def)

text \<open>The transaction around the extranonces \<open>en\<close>.\<close>

definition coinbase_script :: "coinbase_config \<Rightarrow> coinbase_template \<Rightarrow> bytes \<Rightarrow> bytes" where
  "coinbase_script cfg wb en = coinb1_script cfg wb @ en @ btcsig_push cfg"

definition coinbase_outs :: "coinbase_config \<Rightarrow> coinbase_template \<Rightarrow> u64 \<Rightarrow> bytes \<Rightarrow> btxout list" where
  "coinbase_outs cfg wb d txn =
     [\<lparr> bo_value = le_bytes 8 (ct_coinbasevalue wb - d), bo_script = txn \<rparr>] @
     (if d = 0 then [] else [\<lparr> bo_value = le_bytes 8 d, bo_script = cc_pooltxnbin cfg \<rparr>]) @
     (if ct_insert_witness wb
      then [\<lparr> bo_value = le_bytes 8 (0 :: u64),
              bo_script = [0x6a, 36] @ hex_field 36 (ct_witnessdata wb) \<rparr>] else [])"

definition coinbase_tx :: "coinbase_config \<Rightarrow> coinbase_template \<Rightarrow> u64 \<Rightarrow> bytes \<Rightarrow> bytes \<Rightarrow> btx" where
  "coinbase_tx cfg wb d txn en =
     \<lparr> bt_version = le_bytes 4 (1 :: u32),
       bt_ins = [\<lparr> bi_prevout = null_prevout, bi_script = coinbase_script cfg wb en,
                   bi_sequence = le_bytes 4 (0xffffffff :: u32) \<rparr>],
       bt_outs = coinbase_outs cfg wb d txn, bt_segwit = False, bt_stacks = [],
       bt_locktime = le_bytes 4 (0 :: u32) \<rparr>"

text \<open>What is hashed: the first part, the extranonces, and the second part of the client.\<close>

definition assembled_coinbase :: "coinbase_config \<Rightarrow> coinbase_parts \<Rightarrow> bytes \<Rightarrow> bytes \<Rightarrow> bytes option" where
  "assembled_coinbase cfg parts txn en =
     (if cc_btcsolo cfg
      then map_option (\<lambda>c2. cp_coinb1 parts @ en @ c2) (generate_userwb parts txn)
      else Some (cp_coinb1 parts @ en @ cp_coinb2 parts))"

definition fee_of :: "coinbase_config \<Rightarrow> coinbase_template \<Rightarrow> u64 option" where
  "fee_of cfg wb = (if charges_fee cfg then pool_fee cfg (ct_coinbasevalue wb) else Some 0)"

lemma length_btcsig_push: "coinbase_config_ok cfg \<Longrightarrow> length (btcsig_push cfg) \<le> 39"
  by (auto simp: btcsig_push_def coinbase_config_ok_def split: option.splits)

lemma length_coinbase_script:
  assumes "coinbase_config_ok cfg" and "length en = cc_nonce1length cfg + cc_nonce2length cfg"
  shows "length (coinbase_script cfg wb en) \<le> 105"
  using assms length_btcsig_push [OF assms(1)] length_coinb1_script [of cfg wb]
  by (simp add: coinbase_script_def coinbase_config_ok_def)

lemma ser_var_byte: "length s < 0xfd \<Longrightarrow> ser_var s = of_nat (length s) # s"
  by (simp add: ser_var_def compact_small)

lemma fee_of_some:
  assumes "coinbase_config_ok cfg"
  obtains d where "fee_of cfg wb = Some d" and "d \<le> ct_coinbasevalue wb" and "d = 0 \<or> 546 \<le> d"
proof -
  obtain f where f: "cc_poolfee cfg = F64 f" "0 \<le> f" "f \<le> 50"
    using assms by (auto simp: coinbase_config_ok_def)
  obtain d where d: "pool_fee cfg (ct_coinbasevalue wb) = Some d" "d \<le> ct_coinbasevalue wb" "d = 0 \<or> 546 \<le> d"
    by (rule pool_fee_bounds [OF f])
  show thesis
  proof (cases "charges_fee cfg")
    case True
    then show ?thesis using d by (intro that [of d]) (simp_all add: fee_of_def)
  next
    case False
    then show ?thesis by (intro that [of 0]) (simp_all add: fee_of_def)
  qed
qed

lemma generate_coinbase_parts:
  assumes "fee_of cfg wb = Some d" and "script \<noteq> []" and "script = (if cc_btcsolo cfg then txn else cc_txnbin cfg)"
  shows "\<exists>parts. generate_coinbase cfg wb = Some parts \<and>
    assembled_coinbase cfg parts txn en =
      Some (generate_coinb1 cfg wb @ en @ btcsig_push cfg @ [0xff, 0xff, 0xff, 0xff] @
         [of_nat (length (coinbase_outs cfg wb d script))] @ le_bytes 8 (ct_coinbasevalue wb - d) @
         of_nat (length script) # script @
         (if d = 0 then [] else fee_output cfg d) @
         (if ct_insert_witness wb then witness_output wb else []) @ replicate 4 0)"
  using assms
  by (cases "charges_fee cfg"; cases "d = 0"; cases "cc_btcsolo cfg"; cases "ct_insert_witness wb")
     (simp_all add: generate_coinbase_def fee_of_def assembled_coinbase_def generate_userwb_def
       coinbase_outs_def Let_def)

lemma ser_witness_out:
  "ser_out \<lparr> bo_value = le_bytes 8 (0 :: u64),
     bo_script = [0x6a, 36] @ hex_field 36 (ct_witnessdata wb) \<rparr> = witness_output wb"
proof -
  let ?s = "[0x6a, 36] @ hex_field 36 (ct_witnessdata wb)"
  have z: "le_bytes 8 (0 :: u64) = replicate 8 0" by code_simp
  have v: "ser_var ?s = 38 # ?s" by (subst ser_var_byte) (simp_all add: length_hex_field)
  show ?thesis
    unfolding ser_out_def btxout.simps z v witness_output_def witnessdata_size_def by simp
qed

lemma ser_coinbase_outs:
  assumes "coinbase_config_ok cfg" and "length script < 0xfd"
  shows "concat (map ser_out (coinbase_outs cfg wb d script)) =
    le_bytes 8 (ct_coinbasevalue wb - d) @ of_nat (length script) # script @
    (if d = 0 then [] else fee_output cfg d) @ (if ct_insert_witness wb then witness_output wb else [])"
proof -
  have o: "ser_out \<lparr> bo_value = v, bo_script = s \<rparr> = v @ of_nat (length s) # s" if "length s < 0xfd" for v s
    using that by (simp add: ser_out_def ser_var_byte)
  show ?thesis
    using assms by (simp add: coinbase_outs_def ser_witness_out o fee_output_def coinbase_config_ok_def del: append_Cons append.simps)
qed

lemma coinbase_outs_wf:
  assumes "coinbase_config_ok cfg" and "length script < 0xfd"
  shows "length (coinbase_outs cfg wb d script) \<le> 3"
    and "list_all wf_out (coinbase_outs cfg wb d script)"
  using assms by (auto simp: coinbase_outs_def coinbase_config_ok_def length_hex_field wf_out_def)

lemma wf_coinbase_tx:
  assumes "coinbase_config_ok cfg" and "length script < 0xfd"
    and "length en = cc_nonce1length cfg + cc_nonce2length cfg"
  shows "wf_tx (coinbase_tx cfg wb d script en)"
  using coinbase_outs_wf [OF assms(1,2), of wb d] length_coinbase_script [OF assms(1,3), of wb]
  by (simp add: wf_tx_def coinbase_tx_def wf_in_def)

theorem assembled_coinbase_serialised:
  assumes ok: "coinbase_config_ok cfg" and s: "length script < 0xfd" "script \<noteq> []"
    and en: "length en = cc_nonce1length cfg + cc_nonce2length cfg"
    and solo: "script = (if cc_btcsolo cfg then txn else cc_txnbin cfg)"
    and fee: "fee_of cfg wb = Some d"
  shows "\<exists>parts. generate_coinbase cfg wb = Some parts \<and>
    assembled_coinbase cfg parts txn en = Some (ser_tx (coinbase_tx cfg wb d script en))"
proof -
  obtain parts where p: "generate_coinbase cfg wb = Some parts"
    and a: "assembled_coinbase cfg parts txn en =
       Some (generate_coinb1 cfg wb @ en @ btcsig_push cfg @ [0xff, 0xff, 0xff, 0xff] @
         [of_nat (length (coinbase_outs cfg wb d script))] @ le_bytes 8 (ct_coinbasevalue wb - d) @
         of_nat (length script) # script @
         (if d = 0 then [] else fee_output cfg d) @
         (if ct_insert_witness wb then witness_output wb else []) @ replicate 4 0)"
    using generate_coinbase_parts [OF fee s(2) solo, of en] by blast
  let ?s = "coinbase_script cfg wb en"
  have sl: "length ?s \<le> 105" by (rule length_coinbase_script [OF ok en])
  have one: "sv2_write_compact_size 1 = [1]" using compact_small [of 1] by simp
  have inp: "ser_in \<lparr> bi_prevout = null_prevout, bi_script = ?s, bi_sequence = le_bytes 4 (0xffffffff :: u32) \<rparr> =
      null_prevout @ (of_nat (length ?s) # ?s) @ [0xff, 0xff, 0xff, 0xff]"
    using sl by (simp add: ser_in_def ser_var_byte) code_simp
  have outs: "sv2_write_compact_size (of_nat (length (coinbase_outs cfg wb d script))) =
      [of_nat (length (coinbase_outs cfg wb d script))]"
    using coinbase_outs_wf(1) [OF ok s(1), of wb d] by (intro compact_small) simp
  have hd: "generate_coinb1 cfg wb @ en @ btcsig_push cfg =
      le_bytes 4 (1 :: u32) @ [1] @ null_prevout @ (of_nat (length ?s) # ?s)"
  proof -
    have c: "le_bytes 4 (1 :: u32) = [1, 0, 0, 0]" "replicate 4 (0xff :: byte) = [0xff, 0xff, 0xff, 0xff]"
      by code_simp+
    show ?thesis
      using en by (simp add: generate_coinb1_def Let_def scriptsig_header_def null_prevout_def
          coinbase_script_def c)
  qed
  have lock: "le_bytes 4 (0 :: u32) = replicate 4 0" by code_simp
  have ser: "ser_tx (coinbase_tx cfg wb d script en) =
      (le_bytes 4 (1 :: u32) @ [1] @ null_prevout @ (of_nat (length ?s) # ?s)) @ [0xff, 0xff, 0xff, 0xff] @
      [of_nat (length (coinbase_outs cfg wb d script))] @
      concat (map ser_out (coinbase_outs cfg wb d script)) @ replicate 4 0"
    by (simp add: ser_tx_def coinbase_tx_def ser_body_def ser_witness_def one inp outs lock)
  have "assembled_coinbase cfg parts txn en = Some (ser_tx (coinbase_tx cfg wb d script en))"
    unfolding a ser ser_coinbase_outs [OF ok s(1)] hd [symmetric] by (simp only: append_assoc append_Cons append_Nil)
  with p show ?thesis by blast
qed

lemma coinbase_tx_final:
  assumes "coinbase_config_ok cfg" and "length en = cc_nonce1length cfg + cc_nonce2length cfg"
  shows "fst (coinbase_finality (ser_tx (coinbase_tx cfg wb d script en)) height) = CBF_FINAL"
proof -
  let ?s = "coinbase_script cfg wb en"
  let ?outs = "sv2_write_compact_size (of_nat (length (coinbase_outs cfg wb d script))) @ concat (map ser_out (coinbase_outs cfg wb d script))"
  have sl: "length ?s \<le> 105" by (rule length_coinbase_script [OF assms])
  then have u: "unat (of_nat (length ?s) :: byte) = length ?s" by (simp add: unat_of_nat take_bit_nat_eq_self)
  have one: "sv2_write_compact_size 1 = [1]" using compact_small [of 1] by simp
  have "ser_tx (coinbase_tx cfg wb d script en) = (le_bytes 4 (1 :: u32) @ [1] @ null_prevout) @ [of_nat (length ?s)] @ ?s @
      le_bytes 4 (0xffffffff :: u32) @ ?outs @ le_bytes 4 (0 :: u32)"
    using sl by (simp add: ser_tx_def coinbase_tx_def ser_body_def ser_witness_def one ser_in_def ser_var_byte)
  then show ?thesis
    using finality_of_shape [of "le_bytes 4 (1 :: u32) @ [1] @ null_prevout" "of_nat (length ?s)" ?s "0xffffffff" ?outs 0 height] sl u
    by simp
qed

text \<open>The values of the outputs.\<close>

definition total_value :: "btxout list \<Rightarrow> nat" where
  "total_value outs = sum_list (map (\<lambda>out. unat (le_word (bo_value out) :: u64)) outs)"

lemma coinbase_outs_total:
  assumes "d \<le> ct_coinbasevalue wb"
  shows "total_value (coinbase_outs cfg wb d script) = unat (ct_coinbasevalue wb)"
  using assms
  by (simp add: total_value_def coinbase_outs_def le_word_le_bytes take_bit_word_eq_self unat_sub word_le_nat_alt)

text \<open>The longest script the settings allow exceeds what a block may carry.\<close>

definition MAX_COINBASE_SCRIPT :: nat where "MAX_COINBASE_SCRIPT = 100"

definition full_config :: coinbase_config where
  "full_config = \<lparr> cc_regtest = False, cc_btcsolo = False, cc_nonce1length = 8, cc_nonce2length = 8,
     cc_btcsig = Some (replicate 38 0x41), cc_poolvalid = True, cc_poolfee = F64 1,
     cc_txnbin = [0x76], cc_pooltxnbin = [0x51] \<rparr>"

definition full_template :: coinbase_template where
  "full_template = \<lparr> ct_height = 900000, ct_flags = replicate 64 0x30, ct_coinbasevalue = 312500000,
     ct_insert_witness = False, ct_witnessdata = [], ct_sec = 1760000000, ct_nsec = 123456789 \<rparr>"

lemma full_config_ok: "coinbase_config_ok full_config"
  by (simp add: coinbase_config_ok_def full_config_def)

lemma full_script_length:
  "length (coinbase_script full_config full_template (replicate 16 0)) = 103"
  by (simp add: coinbase_script_def coinb1_script_def Let_def length_hex_field MAX_GBT_FLAGS_LEN_def
      full_config_def full_template_def ser_number_def btcsig_push_def)

end
