(* ===== verification/Share_Facts.thy ===== *)
theory Share_Facts
  imports Pool_Share Coinbase_Facts Jd_Block
begin

text \<open>
  The header a share is hashed as is the header of the block that would be submitted, and the
  fields a miner is sent are the fields of that header.
\<close>

section \<open>Words flipped\<close>

fun flip_words :: "bytes \<Rightarrow> bytes" where
  "flip_words (a # b # c # d # r) = d # c # b # a # flip_words r"
| "flip_words _ = []"

lemma length_four: "length s = 4 \<Longrightarrow> \<exists>a b c d. s = [a, b, c, d]"
  by (auto simp: length_Suc_conv numeral_eq_Suc)

lemma write_bswap:
  assumes "length s = 4" shows "write_u32 (bswap_32 (le_word s)) = rev s"
proof -
  have "le_bytes 4 (le_word s :: u32) = s" using assms by (intro le_bytes_le_word) auto
  then show ?thesis using assms by (simp add: write_u32_def bswap_32_def le_bytes_le_word)
qed

lemma write_read: "4 \<le> length p \<Longrightarrow> write_u32 (read_u32 p) = take 4 p"
  by (simp add: write_u32_def read_u32_def le_bytes_le_word)

lemma flip_read: "4 \<le> length p \<Longrightarrow> write_u32 (bswap_32 (read_u32 p)) = rev (take 4 p)"
  using write_bswap [of "take 4 p"] by (simp add: read_u32_def)

lemma flip_words_append: "4 dvd length a \<Longrightarrow> flip_words (a @ b) = flip_words a @ flip_words b"
proof (induction a rule: flip_words.induct)
  case (1 a b c d r)
  then have "4 dvd length r" by (simp add: dvd_def) presburger
  then show ?case using 1 by simp
qed (auto dest: dvd_imp_le)

lemma length_flip_words: "4 dvd length a \<Longrightarrow> length (flip_words a) = length a"
proof (induction a rule: flip_words.induct)
  case (1 a b c d r)
  then have "4 dvd length r" by (simp add: dvd_def) presburger
  then show ?case using 1 by simp
qed (auto dest: dvd_imp_le)

lemma flip_words_twice: "4 dvd length a \<Longrightarrow> flip_words (flip_words a) = a"
proof (induction a rule: flip_words.induct)
  case (1 a b c d r)
  then have "4 dvd length r" by (simp add: dvd_def) presburger
  then show ?case using 1 by simp
qed (auto dest: dvd_imp_le)

lemma flip_words_rows:
  "length s = 4 * n \<Longrightarrow> concat (map (\<lambda>i. rev (take 4 (drop (i * 4) s))) [0..<n]) = flip_words s"
proof (induction n arbitrary: s)
  case (Suc n)
  then have "length (take 4 s) = 4" by simp
  then obtain a b c d where "take 4 s = [a, b, c, d]" using length_four by blast
  then have "s = [a, b, c, d] @ drop 4 s" by (metis append_take_drop_id)
  then obtain r where s: "s = a # b # c # d # r" "length r = 4 * n" using Suc.prems by (cases "drop 4 s") auto
  have "[0..<Suc n] = 0 # map Suc [0..<n]" by (simp add: map_Suc_upt upt_conv_Cons)
  then show ?case using Suc.IH [OF s(2)] by (simp add: s(1) o_def numeral_eq_Suc del: upt_Suc)
qed simp

lemma flip_32_words: assumes "32 \<le> length s" shows "flip_32 s = flip_words (take 32 s)"
proof -
  have "flip_32 s = concat (map (\<lambda>i. rev (take 4 (drop (i * 4) (take 32 s)))) [0..<8])"
    unfolding flip_32_def
    by (rule arg_cong [where f = concat], rule map_cong [OF refl])
       (use assms in \<open>simp add: flip_read drop_take min_def del: upt_Suc\<close>)
  then show ?thesis using flip_words_rows [of "take 32 s" 8] assms by simp
qed

lemma flip_80_words: assumes "80 \<le> length s" shows "flip_80 s = flip_words (take 80 s)"
proof -
  have "flip_80 s = concat (map (\<lambda>i. rev (take 4 (drop (i * 4) (take 80 s)))) [0..<20])"
    unfolding flip_80_def
    by (rule arg_cong [where f = concat], rule map_cong [OF refl])
       (use assms in \<open>simp add: flip_read drop_take min_def del: upt_Suc\<close>)
  then show ?thesis using flip_words_rows [of "take 80 s" 20] assms by simp
qed

lemma eight_words:
  assumes "length s = 32"
  obtains w0 w1 w2 w3 w4 w5 w6 w7 where "s = w0 @ w1 @ w2 @ w3 @ w4 @ w5 @ w6 @ w7"
    and "list_all (\<lambda>w. length w = 4) [w0, w1, w2, w3, w4, w5, w6, w7]"
proof -
  let ?w = "\<lambda>i. take 4 (drop (4 * i) s)"
  have step: "drop (4 * i) s = ?w i @ drop (4 * Suc i) s" for i
    by (metis append_take_drop_id drop_drop add.commute mult_Suc_right)
  have "s = ?w 0 @ ?w 1 @ ?w 2 @ ?w 3 @ ?w 4 @ ?w 5 @ ?w 6 @ ?w 7"
    using step [of 0] step [of 1] step [of 2] step [of 3] step [of 4] step [of 5] step [of 6] step [of 7] assms
    by (simp add: eval_nat_numeral)
  then show thesis by (rule that) (use assms in simp)
qed

text \<open>The two swaps of a hash displayed by the node give it as in a header.\<close>

lemma swap_256_words:
  assumes "list_all (\<lambda>w. length w = 4) [w0, w1, w2, w3, w4, w5, w6, w7]"
  shows "swap_256 (w0 @ w1 @ w2 @ w3 @ w4 @ w5 @ w6 @ w7) = w7 @ w6 @ w5 @ w4 @ w3 @ w2 @ w1 @ w0"
    and "bswap_256 (w0 @ w1 @ w2 @ w3 @ w4 @ w5 @ w6 @ w7) =
      rev w7 @ rev w6 @ rev w5 @ rev w4 @ rev w3 @ rev w2 @ rev w1 @ rev w0"
  using assms by (simp_all add: swap_256_def bswap_256_def upt_conv_Cons write_read flip_read)

lemma flip_swap_256: "length h = 32 \<Longrightarrow> flip_words (swap_256 h) = rev h"
proof -
  assume "length h = 32"
  then obtain w0 w1 w2 w3 w4 w5 w6 w7 where h: "h = w0 @ w1 @ w2 @ w3 @ w4 @ w5 @ w6 @ w7"
    and l: "list_all (\<lambda>w. length w = 4) [w0, w1, w2, w3, w4, w5, w6, w7]" by (rule eight_words)
  have r: "flip_words (w @ x) = rev w @ flip_words x" if "length w = 4" for w x
    using length_four [OF that] by auto
  have "flip_words w = rev w" if "length w = 4" for w using r [OF that, of "[]"] by simp
  then show ?thesis using l by (simp add: h swap_256_words [OF l] r)
qed

lemma bswap_256_rev: "length h = 32 \<Longrightarrow> bswap_256 h = rev h"
proof -
  assume "length h = 32"
  then obtain w0 w1 w2 w3 w4 w5 w6 w7 where h: "h = w0 @ w1 @ w2 @ w3 @ w4 @ w5 @ w6 @ w7"
    and l: "list_all (\<lambda>w. length w = 4) [w0, w1, w2, w3, w4, w5, w6, w7]" by (rule eight_words)
  show ?thesis by (simp add: h swap_256_words [OF l])
qed

lemma length_swap_256: "length h = 32 \<Longrightarrow> length (swap_256 h) = 32"
  by (simp add: swap_256_def write_u32_def upt_conv_Cons)

section \<open>The cached header\<close>

lemma take_bin2hex: "take (2 * n) (bin2hex bs) = bin2hex (take n bs)"
proof -
  have "bin2hex bs = bin2hex (take n bs) @ bin2hex (drop n bs)" by (simp flip: bin2hex_append)
  moreover have "length (bin2hex (take n bs)) = 2 * min (length bs) n" by simp
  ultimately show ?thesis by (cases "n \<le> length bs") (auto simp: min_def)
qed

lemma hex_field_bin2hex: "length bs = n \<Longrightarrow> hex_field n (bin2hex bs) = bs"
  using hex2bin_bin2hex [of bs] by (auto simp: hex_field_def c_buf_def)

lemma bin2hex_zeros: "bin2hex (replicate n 0) = replicate (2 * n) 0x30"
  by (induction n) (simp_all add: bin2hex_Cons hex_digits_def)

lemma workpadding_hex: "workpadding = bin2hex ([0, 0, 0, 0x80] @ replicate 40 0 @ [0x80, 0x02, 0, 0])"
  by (simp add: workpadding_def bin2hex_append bin2hex_zeros ascii_def bin2hex_Cons hex_digits_def)

definition be32 :: "u32 \<Rightarrow> bytes" where "be32 v = rev (le_bytes 4 v)"

lemma hex8_be32: "hex8 v = bin2hex (be32 v)"
proof -
  have "bswap_32 v = le_word (rev (le_bytes 4 v))" by (simp add: bswap_32_def)
  then show ?thesis by (simp add: hex8_def be32_def write_u32_def le_bytes_le_word)
qed

lemma workbase_header_bytes:
  assumes "length prev = 32" and "length nbits = 4"
  shows "workbase_header (hex8 v) (bin2hex prev) (hex8 t) (bin2hex nbits) =
    be32 v @ prev @ replicate 32 0 @ be32 t @ nbits @ replicate 4 0 @ take 32 ([0, 0, 0, 0x80] @ replicate 40 0 @ [0x80, 0x02, 0, 0])"
proof -
  let ?pad = "[0, 0, 0, 0x80] @ replicate 40 0 @ [0x80, 0x02, 0, 0]"
  let ?b = "be32 v @ prev @ replicate 32 0 @ be32 t @ nbits @ replicate 4 0 @ ?pad"
  have z: "replicate 64 0x30 = bin2hex (replicate 32 0)" "replicate 8 0x30 = bin2hex (replicate 4 0)"
    by (simp_all add: bin2hex_zeros)
  have h: "hex8 v @ bin2hex prev @ replicate 64 0x30 @ hex8 t @ bin2hex nbits @ replicate 8 0x30 @ workpadding = bin2hex ?b"
    unfolding hex8_be32 z workpadding_hex bin2hex_append by simp
  have l: "length ?b = 128" using assms by (simp add: be32_def)
  have "take 224 (take 269 (bin2hex ?b)) = bin2hex (take 112 ?b)"
    using l take_bin2hex [of 112 ?b] by simp
  then have "workbase_header (hex8 v) (bin2hex prev) (hex8 t) (bin2hex nbits) = take 112 ?b"
    unfolding workbase_header_def Let_def h using l hex_field_bin2hex [of "take 112 ?b" 112] by simp
  then show ?thesis using assms by (simp add: be32_def)
qed

lemma length_share_hash [simp]: "length (share_hash d) = 32"
  by (simp add: share_hash_def)

lemma length_gen_hash' [simp]: "length (gen_hash d) = 32"
  by (simp add: gen_hash_def)

text \<open>A workbase whose header is that of a version, a previous hash as displayed, a time and target bits.\<close>

definition header_of :: "genwork \<Rightarrow> u32 \<Rightarrow> bytes \<Rightarrow> u32 \<Rightarrow> u32 \<Rightarrow> bool" where
  "header_of wb v prev t nbits \<longleftrightarrow> length prev = 32 \<and>
     gw_version wb = v \<and> gw_ntime32 wb = t \<and> gw_nbit wb = bin2hex (be32 nbits) \<and>
     gw_headerbin wb = workbase_header (hex8 v) (bin2hex (swap_256 prev)) (hex8 t) (gw_nbit wb)"

lemma header_of_bytes:
  assumes "header_of wb v prev t nbits"
  shows "gw_headerbin wb = be32 v @ swap_256 prev @ replicate 32 0 @ be32 t @ be32 nbits @ replicate 4 0 @
    take 32 ([0, 0, 0, 0x80] @ replicate 40 0 @ [0x80, 0x02, 0, 0])"
  using assms workbase_header_bytes [of "swap_256 prev" "be32 nbits" v t]
  by (simp add: header_of_def length_swap_256 be32_def)

lemma share_root_fold:
  "foldl (\<lambda>m b. gen_hash (m @ b)) h path = sv2_merkle_root_from_path h path"
  by (induction path arbitrary: h) simp_all

lemma length_root: "length h = 32 \<Longrightarrow> length (sv2_merkle_root_from_path h path) = 32"
  by (induction path arbitrary: h) simp_all

lemma mem_store_part:
  "length a = off \<Longrightarrow> length src = length b \<Longrightarrow> mem_store off src (a @ b @ c) = a @ src @ c"
  by (simp add: mem_store_def)

lemma write_bswap_be32: "write_u32 (bswap_32 v) = be32 v"
  using write_bswap [of "le_bytes 4 v"] by (simp add: be32_def le_word_le_bytes take_bit_word_eq_self)

lemma length_be32 [simp]: "length (be32 v) = 4"
  by (simp add: be32_def)

lemma bswap_bswap: "bswap_32 (bswap_32 v) = v"
proof -
  have "le_bytes 4 (bswap_32 v) = be32 v" using write_bswap_be32 [of v] by (simp add: write_u32_def)
  then have "bswap_32 (bswap_32 v) = le_word (rev (be32 v))" by (simp add: bswap_32_def)
  then show ?thesis by (simp add: be32_def le_word_le_bytes take_bit_word_eq_self)
qed

lemma read_be32: "read_u32 (be32 v @ r) = bswap_32 v"
  by (simp add: read_u32_def bswap_32_def be32_def)

lemma bswap_or: "bswap_32 v OR bswap_32 w = bswap_32 (v OR w)"
proof (rule bit_word_eqI)
  fix n :: nat
  assume n: "n < LENGTH(32)"
  then have k: "n div 8 < 4" by simp
  have b: "bit (bswap_32 x) n \<longleftrightarrow> bit (le_bytes 4 x ! (3 - n div 8)) (n mod 8)" for x
    using n k by (simp add: bswap_32_def bit_le_word rev_nth)
  have i: "3 - n div 8 < 4" by simp
  show "bit (bswap_32 v OR bswap_32 w) n \<longleftrightarrow> bit (bswap_32 (v OR w)) n"
    unfolding bit_or_iff b using i by (simp add: bit_ucast_iff bit_drop_bit_eq bit_or_iff)
qed

lemma flip_be32: "flip_words (be32 v @ r) = le_bytes 4 v @ flip_words r"
proof -
  obtain a b c d where "le_bytes 4 v = [a, b, c, d]" using length_four [of "le_bytes 4 v"] by auto
  then show ?thesis by (simp add: be32_def)
qed

text \<open>The header hashed, on the wire.\<close>

definition share_version :: "u32 \<Rightarrow> u32 \<Rightarrow> bool \<Rightarrow> u32" where
  "share_version v version_field full = (if full then version_field else v OR version_field)"

lemma share_header_wire:
  assumes h: "header_of wb v prev t nbits"
  shows "share_header wb coinbase vf full (hex8 nonce) ntime =
    block_header (share_version v vf full) (rev prev)
      (sv2_merkle_root_from_path (gen_hash coinbase) (gw_merklebin wb)) ntime nbits nonce"
proof -
  let ?root = "sv2_merkle_root_from_path (gen_hash coinbase) (gw_merklebin wb)"
  let ?ver = "share_version v vf full"
  have len: "length prev = 32" using h by (simp add: header_of_def)
  have root: "length ?root = 32" by (simp add: length_root)
  have fr: "share_merkle_root wb coinbase = flip_words ?root"
    using root by (simp add: share_merkle_root_def share_root_fold flip_32_words)
  have lfr: "length (flip_words ?root) = 32" using root by (subst length_flip_words) simp_all
  have take80: "take 80 (gw_headerbin wb) = be32 v @ swap_256 prev @ replicate 32 0 @ be32 t @ be32 nbits @ replicate 4 0"
    using header_of_bytes [OF h] len by (simp add: length_swap_256)
  have s1: "mem_store 36 (flip_words ?root) (take 80 (gw_headerbin wb)) =
      be32 v @ swap_256 prev @ flip_words ?root @ be32 t @ be32 nbits @ replicate 4 0"
    unfolding take80 using len lfr mem_store_part [of "be32 v @ swap_256 prev" 36 "flip_words ?root" "replicate 32 0"
        "be32 t @ be32 nbits @ replicate 4 0"] by (simp add: length_swap_256)
  let ?tail = "swap_256 prev @ flip_words ?root @ be32 t @ be32 nbits @ replicate 4 0"
  have s2: "(if full then mem_store 0 (write_u32 (bswap_32 vf)) (be32 v @ ?tail)
       else if vf \<noteq> 0 then mem_store 0 (write_u32 (read_u32 (be32 v @ ?tail) OR bswap_32 vf)) (be32 v @ ?tail)
       else be32 v @ ?tail) = be32 ?ver @ ?tail"
    using mem_store_part [of "[]" 0 _ "be32 v" ?tail]
    by (auto simp: share_version_def read_be32 bswap_or write_bswap_be32)
  have s3: "mem_store 76 (hex_field 4 (hex8 nonce)) (be32 ?ver @ ?tail) =
      be32 ?ver @ swap_256 prev @ flip_words ?root @ be32 t @ be32 nbits @ be32 nonce"
    using len lfr mem_store_part [of "be32 ?ver @ swap_256 prev @ flip_words ?root @ be32 t @ be32 nbits" 76
        "be32 nonce" "replicate 4 0" "[]"]
    by (simp add: length_swap_256 hex8_be32 hex_field_bin2hex)
  have s4: "mem_store 68 (write_u32 (bswap_32 ntime)) (be32 ?ver @ swap_256 prev @ flip_words ?root @ be32 t @ be32 nbits @ be32 nonce) =
      be32 ?ver @ swap_256 prev @ flip_words ?root @ be32 ntime @ be32 nbits @ be32 nonce" (is "_ = ?data")
    using len lfr mem_store_part [of "be32 ?ver @ swap_256 prev @ flip_words ?root" 68 "be32 ntime" "be32 t" "be32 nbits @ be32 nonce"]
    by (simp add: length_swap_256 write_bswap_be32)
  have l80: "length ?data = 80" using len lfr by (simp add: length_swap_256)
  have data: "share_header wb coinbase vf full (hex8 nonce) ntime = flip_80 ?data"
    unfolding share_header_def Let_def fr s1 s2 s3 s4 ..
  have ft: "flip_words (be32 w) = le_bytes 4 w" for w using flip_be32 [of w "[]"] by simp
  have "flip_words ?data = le_bytes 4 ?ver @ rev prev @ ?root @ le_bytes 4 ntime @ le_bytes 4 nbits @ le_bytes 4 nonce"
    using len lfr root
    by (simp add: flip_be32 flip_words_append length_swap_256 flip_swap_256 flip_words_twice ft)
  then show ?thesis using l80 len by (simp add: data flip_80_words block_header_def)
qed

section \<open>Work from the template\<close>

lemma hex2bin_whole: "hex2bin n s = (bs, True) \<Longrightarrow> length bs = n"
  by (induction n s arbitrary: bs rule: hex2bin.induct) (auto simp: Let_def split: if_splits prod.splits)

lemma gen_gbtbase_some:
  assumes "gen_gbtbase a = Some gbt"
  obtains p t bits prev tgt val where "ga_previousblockhash a = Some p" and "ga_target a = Some t"
    and "ga_bits a = Some bits" and "ga_coinbasevalue a = Some val" and "hex2bin 32 p = (prev, True)"
    and "hex2bin 32 t = (tgt, True)" and "ga_version a \<noteq> 0" and "ga_curtime a \<noteq> 0"
    and "gb_prevhash gbt = bin2hex (swap_256 prev)" and "gb_bbversion gbt = hex8 (ga_version a)"
    and "gb_version gbt = ga_version a" and "gb_ntime gbt = hex8 (ga_curtime a)" and "gb_ntime32 gbt = ga_curtime a"
    and "gb_nbit gbt = take 8 bits" and "gb_coinbasevalue gbt = val" and "gb_height gbt = ga_height a"
    and "gb_diff gbt = diff_from_target (bswap_256 tgt)"
    and "length (gb_flags gbt) \<le> 64" and "gb_flags gbt \<noteq> [] \<longrightarrow> validhex (gb_flags gbt)"
proof -
  obtain p t bits where q: "ga_previousblockhash a = Some p" "ga_target a = Some t" "ga_bits a = Some bits"
    using assms by (auto simp: gen_gbtbase_def split: if_splits option.splits)
  obtain val where val: "ga_coinbasevalue a = Some val"
    using assms q by (auto simp: gen_gbtbase_def split: if_splits option.splits)
  obtain prev po where prev: "hex2bin 32 p = (prev, po)" by (cases "hex2bin 32 p")
  obtain tgt t_ok where tgt: "hex2bin 32 t = (tgt, t_ok)" by (cases "hex2bin 32 t")
  have ok: "po" "t_ok" "ga_version a \<noteq> 0" "ga_curtime a \<noteq> 0"
    using assms q val prev tgt by (auto simp: gen_gbtbase_def Let_def split: if_splits)
  then show thesis
    using assms q val prev tgt
    by (intro that [of p t bits val prev tgt])
       (auto simp: gen_gbtbase_def Let_def MAX_GBT_FLAGS_LEN_def split: if_splits option.splits)
qed

lemma build_workbase_some:
  assumes "build_workbase cfg now a txs = Some wb"
  obtains gbt tw parts where "gen_gbtbase a = Some gbt" and "wb_merkle_bin_txns txs = Some tw"
    and "generate_coinbase cfg \<lparr> ct_height = gb_height gbt, ct_flags = gb_flags gbt,
       ct_coinbasevalue = gb_coinbasevalue gbt, ct_insert_witness = False, ct_witnessdata = [],
       ct_sec = fst now, ct_nsec = snd now \<rparr> = Some parts"
    and "gw_txns wb = tw_txns tw" and "gw_txn_data wb = tw_txn_data tw" and "gw_merklebin wb = tw_merklebin tw"
    and "gw_coinb1bin wb = cp_coinb1 parts" and "gw_coinb2bin wb = cp_coinb2 parts"
    and "gw_coinb3bin wb = cp_coinb3 parts" and "gw_enonce1constlen wb = 0"
    and "gw_enonce1varlen wb = cc_nonce1length cfg" and "gw_enonce2varlen wb = cc_nonce2length cfg"
    and "gw_version wb = gb_version gbt" and "gw_ntime32 wb = gb_ntime32 gbt" and "gw_nbit wb = gb_nbit gbt"
    and "gw_headerbin wb = workbase_header (gb_bbversion gbt) (gb_prevhash gbt) (gb_ntime gbt) (gb_nbit gbt)"
  using assms by (auto simp: build_workbase_def bind_eq_Some_conv Let_def intro: that)

text \<open>The node displays its hashes and target bits in hexadecimal.\<close>

definition displays :: "gbt_answer \<Rightarrow> bytes \<Rightarrow> u32 \<Rightarrow> bool" where
  "displays a prev nbits \<longleftrightarrow> length prev = 32 \<and>
     ga_previousblockhash a = Some (bin2hex prev) \<and> ga_bits a = Some (bin2hex (be32 nbits))"

lemma build_workbase_header:
  assumes "build_workbase cfg now a txs = Some wb" and d: "displays a prev nbits"
  shows "header_of wb (ga_version a) prev (ga_curtime a) nbits"
proof -
  obtain gbt where g: "gen_gbtbase a = Some gbt" and w: "gw_version wb = gb_version gbt" "gw_ntime32 wb = gb_ntime32 gbt"
    "gw_nbit wb = gb_nbit gbt"
    "gw_headerbin wb = workbase_header (gb_bbversion gbt) (gb_prevhash gbt) (gb_ntime gbt) (gb_nbit gbt)"
    by (rule build_workbase_some [OF assms(1)])
  have "hex2bin 32 (bin2hex prev) = (prev, True)" using d hex2bin_bin2hex [of prev] by (simp add: displays_def)
  then show ?thesis
    using d w by (cases rule: gen_gbtbase_some [OF g]) (auto simp: header_of_def displays_def)
qed

lemma those_some: "those (map f xs) = Some ys \<Longrightarrow> map f xs = map Some ys"
  by (rule those_map_Some [THEN iffD1])

lemma wb_merkle_some:
  assumes "wb_merkle_bin_txns txs = Some tw"
  obtains txids rows where "map txn_txid txs = map Some txids" and "map txn_row txids = map Some rows"
    and "length rows = length txs" and "tw_txns tw = length txs" and "length txs < 2 ^ 31"
    and "\<forall>txn\<in>set txs. \<exists>d. gt_data txn = Some d \<and> validhex d"
    and "tw_txn_data tw = concat (map (\<lambda>txn. the (gt_data txn)) txs)"
    and "\<And>cb. sv2_merkle_root_from_path cb (tw_merklebin tw) = sv2_merkle_root_from_txids (cb # rows)"
    and "length (tw_merklebin tw) \<le> GENWORK_MAX_MERKLE_DEPTH"
proof -
  obtain txids rows branch where
    q: "those (map txn_txid txs) = Some txids" "those (map txn_row txids) = Some rows"
      "cashstratum_merkle_branch (replicate 32 0 # rows @ [replicate 32 0]) (length txs + 1) = Some branch"
    and c: "\<not> length txs > INT_MAX"
      "\<not> list_ex (\<lambda>txn. case gt_data txn of None \<Rightarrow> True | Some d \<Rightarrow> \<not> validhex d) txs"
    and tw: "tw = \<lparr> tw_txns = length txs, tw_txn_data = concat (map (\<lambda>txn. the (gt_data txn)) txs),
      tw_txn_hashes = concat (map (\<lambda>txid. txid @ [0x20]) txids), tw_merklebin = branch \<rparr>"
    using assms unfolding wb_merkle_bin_txns_def Let_def by (auto simp: bind_eq_Some_conv split: if_splits)
  have m: "map txn_txid txs = map Some txids" "map txn_row txids = map Some rows"
    using those_some [OF q(1)] those_some [OF q(2)] by simp_all
  then have l: "length txids = length txs" "length rows = length txs"
    by (metis length_map)+
  have "\<exists>d. gt_data txn = Some d \<and> validhex d" if "txn \<in> set txs" for txn
    using c(2) that by (auto simp: list_ex_iff split: option.splits)
  moreover have "sv2_merkle_root_from_path cb branch = sv2_merkle_root_from_txids (cb # rows) \<and>
      length branch \<le> GENWORK_MAX_MERKLE_DEPTH" for cb
    using merkle_branch_root [of "replicate 32 0 # rows @ [replicate 32 0]" rows branch cb] q(3) l
    by (simp add: nth_append)
  ultimately show thesis
    using m l c(1) by (intro that [of txids rows]) (auto simp: tw INT_MAX_def)
qed

text \<open>What the node shows of a transaction \<open>raw\<close> with identity \<open>i\<close>.\<close>

definition shows_txn :: "gbt_txn \<Rightarrow> bytes \<Rightarrow> bytes \<Rightarrow> bool" where
  "shows_txn txn raw i \<longleftrightarrow> length i = 32 \<and> gt_data txn = Some (bin2hex raw) \<and> gt_txid txn = Some (bin2hex (rev i))"

lemma txn_row_shown: "shows_txn txn raw i \<Longrightarrow> txn_txid txn = Some txid \<Longrightarrow> txn_row txid = Some i"
  using hex2bin_bin2hex [of "rev i"]
  by (auto simp: shows_txn_def txn_txid_def txn_row_def bswap_256_rev split: if_splits option.splits)

lemma rows_shown:
  assumes "list_all2 (\<lambda>txn (raw, i). shows_txn txn raw i) txs raws"
    and "map txn_txid txs = map Some txids" and "map txn_row txids = map Some rows"
  shows "rows = map snd raws \<and> concat (map (\<lambda>txn. the (gt_data txn)) txs) = bin2hex (concat (map fst raws))"
  using assms
proof (induction txs raws arbitrary: txids rows rule: list_all2_induct)
  case (Cons txn txs p raws)
  obtain raw i where p: "p = (raw, i)" by (cases p)
  obtain txid txids' where t: "txids = txid # txids'" "txn_txid txn = Some txid" "map txn_txid txs = map Some txids'"
    using Cons.prems(1) by (cases txids) auto
  obtain row rows' where r: "rows = row # rows'" "txn_row txid = Some row" "map txn_row txids' = map Some rows'"
    using Cons.prems(2) t(1) by (cases rows) auto
  have sh: "shows_txn txn raw i" using Cons.hyps(1) by (simp add: p)
  have "row = i" using txn_row_shown [OF sh t(2)] r(2) by simp
  moreover have "gt_data txn = Some (bin2hex raw)" using sh by (simp add: shows_txn_def)
  ultimately show ?case using Cons.IH [OF t(3) r(3)] by (simp add: p r(1) bin2hex_append)
qed simp

lemma bin2hex_byte: "bin2hex [b] = [hex_digits ! unat (drop_bit 4 b), hex_digits ! unat (b AND 0xF)]"
  by (simp add: bin2hex_def)

lemma le_bytes_of_nat:
  assumes "8 * m \<le> LENGTH('a)" and "8 * m \<le> LENGTH('b)"
  shows "le_bytes m (of_nat k :: 'a::len word) = le_bytes m (of_nat k :: 'b::len word)"
proof (rule nth_equalityI)
  fix i assume "i < length (le_bytes m (of_nat k :: 'a word))"
  then have i: "i < m" by simp
  then have "8 * i + n < 8 * m" if "n < 8" for n using that by simp
  then show "le_bytes m (of_nat k :: 'a word) ! i = le_bytes m (of_nat k :: 'b word) ! i"
    using assms i by (intro bit_word_eqI) (simp add: bit_ucast_iff bit_drop_bit_eq bit_of_nat_iff order_less_le_trans)
qed simp

lemma bin2hex_split: "bin2hex (x # xs) = bin2hex [x] @ bin2hex xs"
  using bin2hex_append [of "[x]" xs] by simp

lemma ucast_of_nat64: "ucast (of_nat k :: u64) = (of_nat k :: byte)"
  by (rule bit_word_eqI) (simp add: bit_ucast_iff bit_of_nat_iff)

lemma process_block_bytes:
  assumes "length data = 80" and "gw_txns wb < 2 ^ 31" and "gw_txn_data wb = bin2hex raw"
    and "gw_txns wb = 0 \<Longrightarrow> raw = []"
  shows "fst (process_block wb coinbase data hash) =
    bin2hex (data @ sv2_write_compact_size (of_nat (gw_txns wb + 1)) @ coinbase @ raw)"
proof -
  let ?n = "gw_txns wb + 1"
  have ff: "ascii ''fd'' = bin2hex [0xfd]" "ascii ''fe'' = bin2hex [0xfe]"
    by (simp_all add: ascii_def bin2hex_byte hex_digits_def)
  have n: "unat (of_nat ?n :: u64) = ?n" using assms(2) by (intro unat_of_nat64) simp
  have "(if ?n < 0xfd then bin2hex [of_nat ?n]
       else if ?n \<le> 0xffff then ascii ''fd'' @ bin2hex (le_bytes 2 (of_nat ?n :: u16))
       else ascii ''fe'' @ bin2hex (le_bytes 4 (of_nat ?n :: u32))) =
      bin2hex (sv2_write_compact_size (of_nat ?n))"
  proof -
    have c: "le_bytes 2 (of_nat ?n :: u16) = le_bytes 2 (of_nat ?n :: u64)"
      "le_bytes 4 (of_nat ?n :: u32) = le_bytes 4 (of_nat ?n :: u64)"
      by (rule le_bytes_of_nat; simp)+
    have o: "(ucast (of_nat ?n :: u64) :: byte) = of_nat ?n" by (rule ucast_of_nat64)
    have l: "((of_nat ?n :: u64) < 0xfd) = (?n < 0xfd)" "((of_nat ?n :: u64) \<le> 0xffff) = (?n \<le> 0xffff)"
      "(of_nat ?n :: u64) \<le> 0xffffffff"
      using n assms(2) by (simp_all only: word_less_nat_alt word_le_nat_alt) simp_all
    show ?thesis unfolding c ff write_compact_le l o using l(3)
bin2hex_split [where x = "0xfd" and xs = "le_bytes 2 (of_nat ?n :: u64)"]
        bin2hex_split [where x = "0xfe" and xs = "le_bytes 4 (of_nat ?n :: u64)"] by simp
  qed
  then show ?thesis
    using assms(1,3,4) by (auto simp: process_block_def Let_def bin2hex_append)
qed

section \<open>From the template to the block\<close>

text \<open>The user of a channel whose table has nothing for the workbase yet.\<close>

definition fresh_user :: "bytes \<Rightarrow> genwork \<Rightarrow> solo_user \<Rightarrow> bool" where
  "fresh_user txn wb user \<longleftrightarrow> us_txnbin user = txn \<and> txn \<noteq> [] \<and> map_of (us_userwbs user) (gw_id wb) = None"

lemma generated_userwb:
  assumes "fresh_user txn wb user"
  shows "map_of (us_userwbs (generate_userwb_for wb user)) (gw_id wb) =
    Some (gw_coinb2bin wb @ [of_nat (length txn)] @ txn @ gw_coinb3bin wb)"
proof -
  have "gw_id wb \<notin> fst ` set (us_userwbs user)"
    using assms by (auto simp: fresh_user_def map_of_eq_None_iff)
  then have "map_of (us_userwbs user @ [(gw_id wb, c)]) (gw_id wb) = Some c" for c
    by (simp add: map_of_append map_add_def map_of_eq_None_iff [THEN iffD2])
  then show ?thesis using assms by (simp add: generate_userwb_for_def fresh_user_def)
qed

lemma fee_of_generated: "generate_coinbase cfg wb = Some parts \<Longrightarrow> \<exists>d. fee_of cfg wb = Some d"
  by (auto simp: generate_coinbase_def fee_of_def bind_eq_Some_conv Let_def split: if_splits)

text \<open>The part of the template the coinbase is made of.\<close>

definition coinbase_template_of :: "int \<times> int \<Rightarrow> gbtbase \<Rightarrow> coinbase_template" where
  "coinbase_template_of now gbt =
     \<lparr> ct_height = gb_height gbt, ct_flags = gb_flags gbt, ct_coinbasevalue = gb_coinbasevalue gbt,
       ct_insert_witness = False, ct_witnessdata = [], ct_sec = fst now, ct_nsec = snd now \<rparr>"

lemma share_coinbase_tx:
  assumes b: "build_workbase cfg now a txs = Some wb0" and wb: "wb = wb0\<lparr>gw_id := i, gw_gentime := t, gw_network_diff := nd\<rparr>"
    and cfg: "coinbase_config_ok cfg" and en1: "cc_nonce1length cfg \<le> length enonce1" and en2: "length en2 = cc_nonce2length cfg"
    and script: "script = (if cc_btcsolo cfg then txn else cc_txnbin cfg)" "script \<noteq> []" "length script < 0xfd"
    and user: "cc_btcsolo cfg \<Longrightarrow> fresh_user txn wb user"
  shows "\<exists>gbt d cb2. gen_gbtbase a = Some gbt \<and> fee_of cfg (coinbase_template_of now gbt) = Some d \<and>
    user_coinb2 (cc_btcsolo cfg) (us_userwbs (generate_userwb_for wb user)) wb = Some cb2 \<and>
    share_coinbase wb enonce1 (bin2hex en2) cb2 =
      ser_tx (coinbase_tx cfg (coinbase_template_of now gbt) d script (take (cc_nonce1length cfg) enonce1 @ en2))"
proof -
  obtain gbt tw parts where g: "gen_gbtbase a = Some gbt"
    and p: "generate_coinbase cfg (coinbase_template_of now gbt) = Some parts"
    and w: "gw_coinb1bin wb0 = cp_coinb1 parts" "gw_coinb2bin wb0 = cp_coinb2 parts" "gw_coinb3bin wb0 = cp_coinb3 parts"
      "gw_enonce1constlen wb0 = 0" "gw_enonce1varlen wb0 = cc_nonce1length cfg" "gw_enonce2varlen wb0 = cc_nonce2length cfg"
    using b by (rule build_workbase_some) (auto simp: coinbase_template_of_def intro: that)
  obtain d where d: "fee_of cfg (coinbase_template_of now gbt) = Some d" using fee_of_generated [OF p] by blast
  let ?en = "take (cc_nonce1length cfg) enonce1 @ en2"
  have len: "length ?en = cc_nonce1length cfg + cc_nonce2length cfg" using en1 en2 by simp
  have a: "assembled_coinbase cfg parts txn ?en =
      Some (ser_tx (coinbase_tx cfg (coinbase_template_of now gbt) d script ?en))"
    using assembled_coinbase_serialised [OF cfg script(3,2) len script(1) d] p by simp
  let ?cb2 = "if cc_btcsolo cfg then gw_coinb2bin wb @ [of_nat (length txn)] @ txn @ gw_coinb3bin wb else gw_coinb2bin wb"
  have u: "user_coinb2 (cc_btcsolo cfg) (us_userwbs (generate_userwb_for wb user)) wb = Some ?cb2"
    using generated_userwb [OF user] by (simp add: user_coinb2_def)
  have "share_coinbase wb enonce1 (bin2hex en2) ?cb2 = the (assembled_coinbase cfg parts txn ?en)"
    using script(1,2) en2
    by (cases "cc_btcsolo cfg") (simp_all add: share_coinbase_def wb w assembled_coinbase_def generate_userwb_def hex_field_bin2hex)
  then have "share_coinbase wb enonce1 (bin2hex en2) ?cb2 =
      ser_tx (coinbase_tx cfg (coinbase_template_of now gbt) d script ?en)" by (simp add: a)
  with g d u show ?thesis by blast
qed

lemma generate_coinbase_sizes:
  assumes "generate_coinbase cfg wb = Some parts"
  shows "length (cp_coinb1 parts) \<le> 92" and "length (cp_coinb2 parts) \<le> length (btcsig_push cfg) + length (cc_txnbin cfg) + length (cc_pooltxnbin cfg) + 74"
  using assms length_coinb1_script [of cfg wb]
  by (auto simp: generate_coinbase_def bind_eq_Some_conv Let_def generate_coinb1_def scriptsig_header_def
      fee_output_def witness_output_def length_hex_field witnessdata_size_def split: if_splits)

lemma coinbase_tx_txid: "gen_hash (ser_tx (coinbase_tx cfg wb d script en)) = gen_hash (ser_stripped (coinbase_tx cfg wb d script en))"
  by (simp add: ser_tx_def ser_stripped_def ser_witness_def coinbase_tx_def)

lemma submission_parts:
  assumes "submission_diff cnd solo userwbs enonce1 wb nonce2 ntime vf full nonce = Some su"
    and "user_coinb2 solo userwbs wb = Some cb2"
  shows "su_coinbase su = share_coinbase wb enonce1 nonce2 cb2 \<and>
    su_swap su = share_header wb (su_coinbase su) vf full nonce ntime \<and> su_hash su = gen_hash (su_swap su) \<and>
    su_diff su = diff_from_target (su_hash su) \<and>
    su_block su = test_blocksolve cnd wb (su_swap su) (su_hash su) (su_diff su) (su_coinbase su) ntime"
  using assms by (auto simp: submission_diff_def Let_def share_hash_def gen_hash_def)

lemma length_block_header: "length prev = 32 \<Longrightarrow> length r = 32 \<Longrightarrow> length (block_header v prev r t b n) = 80"
  by (simp add: block_header_def)

lemma block_of_solve:
  "test_blocksolve cnd wb data hash diff coinbase ntime = Some blk \<Longrightarrow> blk = process_block wb coinbase data hash"
  by (auto simp: test_blocksolve_def Let_def split: if_splits)

text \<open>A header-only channel's root is word-wise flipped, the hashed one is not.\<close>

lemma standard_root_flipped:
  assumes "1 \<le> ws_enonce1varlen snap"
  shows "stratifier_sv2_merkle_root enonce1 snap =
    flip_words (sv2_merkle_root_from_path
      (gen_hash (ws_coinb1 snap @ take (ws_enonce1varlen snap) enonce1 @ replicate (ws_enonce2varlen snap) 0 @ ws_coinb2 snap))
      (ws_merklebin snap))"
  using assms by (simp add: stratifier_sv2_merkle_root_def Let_def share_root_fold flip_32_words length_root)

section \<open>What a miner is told\<close>

lemma snapshot_some:
  assumes "stratifier_sv2_snapshot_work solo (Some wb) (Some user) = (Some snap, u)"
  obtains user' cb2 where "u = Some user'" and "user_coinb2 solo (us_userwbs user') wb = Some cb2"
    and "user' = user \<or> solo \<and> user' = generate_userwb_for wb user" and "ws_coinb2 snap = cb2"
    and "ws_wb_id snap = gw_id wb" and "ws_version snap = gw_version wb" and "ws_ntime snap = gw_ntime32 wb"
    and "ws_nbits snap = snapshot_nbits wb" and "ws_prevhash snap = flip_32 (drop 4 (gw_headerbin wb))"
    and "ws_coinb1 snap = gw_coinb1bin wb" and "ws_enonce1varlen snap = gw_enonce1varlen wb"
    and "ws_enonce2varlen snap = gw_enonce2varlen wb"
    and "ws_merklebin snap = take GENWORK_MAX_MERKLE_DEPTH (gw_merklebin wb)"
proof -
  let ?user = "if solo \<and> us_btcaddress user then generate_userwb_for wb user else user"
  obtain cb2 where c: "user_coinb2 solo (us_userwbs ?user) wb = Some cb2"
    using assms by (auto simp: stratifier_sv2_snapshot_work_def Let_def split: if_splits option.splits)
  then show thesis
    using assms by (intro that [of ?user cb2]) (auto simp: stratifier_sv2_snapshot_work_def Let_def split: if_splits)
qed

lemma snapshot_fields:
  assumes h: "header_of wb v prev t nbits"
  shows "flip_32 (drop 4 (gw_headerbin wb)) = rev prev" and "snapshot_nbits wb = nbits"
    and "stratifier_sv2_tip_for_jd (Some wb) = Some (v, rev prev, t, nbits)"
proof -
  have len: "length prev = 32" using h by (simp add: header_of_def)
  have d: "drop 4 (gw_headerbin wb) = swap_256 prev @ drop 36 (gw_headerbin wb)" "36 \<le> length (gw_headerbin wb)"
    unfolding header_of_bytes [OF h] using len by (simp_all add: length_swap_256)
  then show "flip_32 (drop 4 (gw_headerbin wb)) = rev prev"
    using len by (simp add: flip_32_words length_swap_256 flip_swap_256)
  have r: "bswap_32 (read_u32 (be32 w)) = w" for w using read_be32 [of w "[]"] by (simp add: bswap_bswap)
  show "snapshot_nbits wb = nbits"
    using h by (simp add: header_of_def snapshot_nbits_def hex_field_bin2hex r)
  let ?data = "be32 v @ swap_256 prev @ replicate 32 0 @ be32 t @ be32 nbits @ replicate 4 0"
  have "take 80 (gw_headerbin wb) = ?data" using header_of_bytes [OF h] len by (simp add: length_swap_256)
  moreover have "80 \<le> length (gw_headerbin wb)" unfolding header_of_bytes [OF h] using len by (simp add: length_swap_256)
  ultimately have f: "flip_80 (gw_headerbin wb) = flip_words ?data" by (simp add: flip_80_words)
  have ft: "flip_words (be32 w) = le_bytes 4 w" for w using flip_be32 [of w "[]"] by simp
  have "flip_words ?data = le_bytes 4 v @ rev prev @ flip_words (replicate 32 0) @ le_bytes 4 t @ le_bytes 4 nbits @ flip_words (replicate 4 0)"
    using len by (simp add: flip_be32 flip_words_append length_swap_256 flip_swap_256)
  then have f2: "flip_80 (gw_headerbin wb) = le_bytes 4 v @ rev prev @ flip_words (replicate 32 0) @ le_bytes 4 t @ le_bytes 4 nbits @ flip_words (replicate 4 0)"
    by (simp only: f)
  have l: "length (flip_words (replicate 32 0)) = 32" by (subst length_flip_words) simp_all
  have rd: "read_u32 (le_bytes 4 w @ x) = w" for w x by (simp add: read_u32_def le_word_le_bytes take_bit_word_eq_self)
  show "stratifier_sv2_tip_for_jd (Some wb) = Some (v, rev prev, t, nbits)"
    using len l by (simp add: stratifier_sv2_tip_for_jd_def Let_def f2 rd)
qed

lemma snapshot_header:
  assumes "header_of wb v prev t nbits" and "length (gw_merklebin wb) \<le> GENWORK_MAX_MERKLE_DEPTH"
    and "stratifier_sv2_snapshot_work solo (Some wb) (Some user) = (Some snap, Some user')"
    and "submission_diff cnd solo (us_userwbs user') enonce1 wb nonce2 ntime version True (hex8 nonce) = Some su"
  shows "su_swap su = block_header version (ws_prevhash snap)
      (sv2_merkle_root_from_path
        (gen_hash (ws_coinb1 snap @ take (gw_enonce1constlen wb + ws_enonce1varlen snap) enonce1 @
          hex_field (ws_enonce2varlen snap) nonce2 @ ws_coinb2 snap)) (ws_merklebin snap))
      ntime (ws_nbits snap) nonce \<and>
    ws_wb_id snap = gw_id wb \<and> ws_version snap = v \<and> ws_ntime snap = t \<and> ws_prevhash snap = rev prev \<and>
    ws_nbits snap = nbits \<and> stratifier_sv2_tip_for_jd (Some wb) = Some (v, ws_prevhash snap, t, ws_nbits snap)"
proof -
  obtain cb2 where s: "user_coinb2 solo (us_userwbs user') wb = Some cb2" "ws_coinb2 snap = cb2"
    "ws_wb_id snap = gw_id wb" "ws_version snap = gw_version wb" "ws_ntime snap = gw_ntime32 wb"
    "ws_nbits snap = snapshot_nbits wb" "ws_prevhash snap = flip_32 (drop 4 (gw_headerbin wb))"
    "ws_coinb1 snap = gw_coinb1bin wb" "ws_enonce1varlen snap = gw_enonce1varlen wb"
    "ws_enonce2varlen snap = gw_enonce2varlen wb" "ws_merklebin snap = take GENWORK_MAX_MERKLE_DEPTH (gw_merklebin wb)"
    by (rule snapshot_some [OF assms(3)]) auto
  have f: "ws_prevhash snap = rev prev" "ws_nbits snap = nbits" "gw_version wb = v" "gw_ntime32 wb = t"
    using snapshot_fields [OF assms(1)] s assms(1) by (simp_all add: header_of_def)
  have swap: "su_swap su = block_header version (rev prev)
      (sv2_merkle_root_from_path (gen_hash (share_coinbase wb enonce1 nonce2 cb2)) (gw_merklebin wb)) ntime nbits nonce"
    using submission_parts [OF assms(4) s(1)] share_header_wire [OF assms(1)] by (simp add: share_version_def)
  have tip: "stratifier_sv2_tip_for_jd (Some wb) = Some (v, ws_prevhash snap, t, ws_nbits snap)"
    using snapshot_fields(3) [OF assms(1)] by (simp only: f)
  show ?thesis
    using assms(2) s f tip by (simp add: swap share_coinbase_def)
qed

lemma flip_words_same:
  assumes "length r = 32"
  shows "flip_words r = r \<longleftrightarrow> (\<forall>k<8. take 4 (drop (4 * k) r) = rev (take 4 (drop (4 * k) r)))"
proof -
  obtain w0 w1 w2 w3 w4 w5 w6 w7 where r: "r = w0 @ w1 @ w2 @ w3 @ w4 @ w5 @ w6 @ w7"
    and l: "list_all (\<lambda>w. length w = 4) [w0, w1, w2, w3, w4, w5, w6, w7]" using assms by (rule eight_words)
  have c: "flip_words (w @ x) = rev w @ flip_words x" if "length w = 4" for w x
    using length_four [OF that] by auto
  have e: "flip_words w = rev w" if "length w = 4" for w using c [OF that, of "[]"] by simp
  have "flip_words r = rev w0 @ rev w1 @ rev w2 @ rev w3 @ rev w4 @ rev w5 @ rev w6 @ rev w7"
    using l by (simp add: r c e)
  then have "flip_words r = r \<longleftrightarrow> rev w0 = w0 \<and> rev w1 = w1 \<and> rev w2 = w2 \<and> rev w3 = w3 \<and> rev w4 = w4 \<and> rev w5 = w5 \<and> rev w6 = w6 \<and> rev w7 = w7"
    using l by (simp add: r)
  moreover have t: "take 4 (drop (4 * 0) r) = w0" "take 4 (drop (4 * 1) r) = w1" "take 4 (drop (4 * 2) r) = w2"
    "take 4 (drop (4 * 3) r) = w3" "take 4 (drop (4 * 4) r) = w4" "take 4 (drop (4 * 5) r) = w5"
    "take 4 (drop (4 * 6) r) = w6" "take 4 (drop (4 * 7) r) = w7" using l by (simp_all add: r)
  moreover have all8: "(\<forall>k<8. P k) \<longleftrightarrow> P 0 \<and> P 1 \<and> P 2 \<and> P 3 \<and> P 4 \<and> P 5 \<and> P 6 \<and> P (7 :: nat)" for P
  proof
    assume p: "P 0 \<and> P 1 \<and> P 2 \<and> P 3 \<and> P 4 \<and> P 5 \<and> P 6 \<and> P 7"
    have "k \<in> {0, 1, 2, 3, 4, 5, 6, 7}" if "k < 8" for k :: nat using that by auto
    with p show "\<forall>k<8. P k" by blast
  qed simp
  ultimately show ?thesis unfolding all8 t by metis
qed

section \<open>No solved block is missed\<close>

lemma solve_numbers: "(1 + unit_roundoff) ^ 2 * (999 / 1000 * (1 + unit_roundoff)) * (1 + unit_roundoff) ^ 4 \<le> 1 - unit_roundoff"
  by (simp add: unit_roundoff_def power_divide)

lemma network_threshold:
  assumes s: "3 \<le> s" "s \<le> 32" and m: "m = uint b1 * 65536 + uint b2 * 256 + uint b3" and pos: "0 < m"
    and nb: "take 4 (drop 72 hb) = [of_nat s, b1, b2, b3]" and T: "T = (of_int (m * 256 ^ (s - 3)) :: rat)" and le: "T \<le> diff_one"
  obtains y where "f64_mul (base_network_diff hb) (f64_round (999 / 1000)) = F64 y"
    and "y \<le> diff_one / T * ((1 + unit_roundoff) ^ 2 * (999 / 1000 * (1 + unit_roundoff)))"
proof -
  let ?u = unit_roundoff
  have u: "0 < ?u" by (simp add: unit_roundoff_def)
  have "1 \<le> m * 256 ^ (s - 3)" using pos by (simp add: pos_zmult_eq_1_iff_lemma int_one_le_iff_zero_less)
  then have T1: "1 \<le> T" unfolding T by (simp only: of_int_1_le_iff)
  define q where "q = diff_one / T"
  have q: "1 \<le> q" "q \<le> diff_one" using T1 le divide_left_mono [of 1 T diff_one] by (simp_all add: q_def diff_one_def)
  have d256: "diff_one \<le> 2 ^ 226" by (simp add: diff_one_def)
  have tq: "tame 226 q" using q d256 by (auto simp: tame_def)
  note r = tame_mag [OF tq, simplified]
  have nd: "diff_from_nbits [of_nat s, b1, b2, b3] = F64 (f64_mag q)"
    using diff_from_nbits_compact [OF s m pos] r by (simp add: q_def T)
  have g1: "1 \<le> f64_mag q" using q f64_rep_int [of 1] by (intro f64_mag_ge) auto
  have base: "base_network_diff hb = F64 (f64_mag q)"
    using g1 by (simp add: base_network_diff_def nb nd)
  define c where "c = f64_mag (999 / 1000)"
  have cn: "near 1 c (999 / 1000)" unfolding c_def by (intro near_ge_tiny tiny_le) simp
  have c0: "0 \<le> c" unfolding c_def by (rule f64_mag_nonneg) simp
  have cr: "f64_round (999 / 1000) = F64 c" unfolding c_def by (rule mag_small) simp_all
  have cu: "c \<le> 999 / 1000 * (1 + ?u)" using cn by (simp add: near_def)
  have cl: "1 / 2 \<le> c"
  proof -
    have "f64_rep ((1 :: rat) / 2)" by (rule f64_repI [of 1 "- 1"]) (simp_all add: power_int_minus)
    then show ?thesis unfolding c_def by (intro f64_mag_ge) simp_all
  qed
  have gq: "f64_mag q \<le> q * (1 + ?u)" using r by (simp add: near_def)
  have p: "f64_mag q * c \<le> 2 ^ 226" 
  proof -
    have "c \<le> 1" using cu by (simp add: unit_roundoff_def)
    then have "f64_mag q * c \<le> f64_mag q * 1" using g1 by (intro mult_left_mono) auto
    also have "\<dots> \<le> 2 ^ 226" using r by (simp add: tame_def)
    finally show ?thesis .
  qed
  have p2: "1 / 2 \<le> f64_mag q * c" using mult_mono [of 1 "f64_mag q" "1 / 2" c] g1 cl by simp
  have "f64_mag (f64_mag q * c) \<le> 2 ^ 226"
  proof -
    have "f64_rep ((2 :: rat) ^ 226)" by (rule f64_repI [of 1 226]) auto
    then show ?thesis using p p2 by (intro f64_mag_le) auto
  qed
  also have "(2 :: rat) ^ 226 < 2 ^ 1024" by (rule power_strict_increasing) auto
  finally have rnd: "f64_round (f64_mag q * c) = F64 (f64_mag (f64_mag q * c))"
    using p2 by (intro f64_round_nonneg) auto
  have "f64_mag (f64_mag q * c) \<le> f64_mag q * c * (1 + ?u)"
    using near_ge_tiny [OF tiny_le, of "f64_mag q * c"] p2 by (simp add: near_def)
  also have "\<dots> \<le> q * (1 + ?u) * (999 / 1000 * (1 + ?u)) * (1 + ?u)"
    using gq cu c0 q u by (intro mult_right_mono mult_mono) auto
  also have "\<dots> = q * ((1 + ?u) ^ 2 * (999 / 1000 * (1 + ?u)))" by (simp add: power2_eq_square)
  finally show thesis using base cr rnd by (intro that [of "f64_mag (f64_mag q * c)"]) (simp_all add: q_def)
qed

lemma solve_reaches_threshold:
  assumes s: "3 \<le> s" "s \<le> 32" and m: "m = uint b1 * 65536 + uint b2 * 256 + uint b3" and pos: "0 < m"
    and nb: "take 4 (drop 72 hb) = [of_nat s, b1, b2, b3]" and T: "T = (of_int (m * 256 ^ (s - 3)) :: rat)" and le: "T \<le> diff_one"
    and h: "length h = 32" and hit: "target_value h \<le> m * 256 ^ (s - 3)"
  shows "\<not> f64_lt (diff_from_target h) (f64_mul (base_network_diff hb) (f64_round (999 / 1000)))"
proof -
  let ?u = unit_roundoff
  have u: "0 < ?u" "?u < 1" by (simp_all add: unit_roundoff_def)
  obtain y where y: "f64_mul (base_network_diff hb) (f64_round (999 / 1000)) = F64 y"
    "y \<le> diff_one / T * ((1 + ?u) ^ 2 * (999 / 1000 * (1 + ?u)))"
    by (rule network_threshold [OF s m pos nb T le])
  obtain x z where x: "diff_from_target h = F64 x" "near 1 x (diff_one / z)" "1 \<le> z"
    "z = 1 \<and> target_value h = 0 \<or> near 4 z (of_int (target_value h))"
    by (rule diff_from_target_value [OF h])
  have "1 \<le> m * 256 ^ (s - 3)" using pos by (simp add: int_one_le_iff_zero_less)
  then have T1: "1 \<le> T" unfolding T by (simp only: of_int_1_le_iff)
  have hT: "of_int (target_value h) \<le> T" unfolding T using hit by (simp only: of_int_le_iff)
  have "z \<le> T * (1 + ?u) ^ 4"
  proof (cases "near 4 z (of_int (target_value h))")
    case True
    then have "z \<le> of_int (target_value h) * (1 + ?u) ^ 4" by (simp add: near_def)
    also have "\<dots> \<le> T * (1 + ?u) ^ 4" using hT u by (intro mult_right_mono) auto
    finally show ?thesis .
  next
    case False
    then have "z = 1" using x(4) by blast
    moreover have "1 \<le> (1 + ?u) ^ 4" using u by (intro one_le_power) simp
    ultimately show ?thesis using mult_mono [of 1 T 1 "(1 + ?u) ^ 4"] T1 by simp
  qed
  then have "diff_one / (T * (1 + ?u) ^ 4) \<le> diff_one / z"
    using x(3) by (intro divide_left_mono) (auto simp: diff_one_def)
  then have "diff_one / (T * (1 + ?u) ^ 4) * (1 - ?u) \<le> diff_one / z * (1 - ?u)"
    using u by (intro mult_right_mono) auto
  also have "\<dots> \<le> x" using x(2) by (simp add: near_def)
  finally have lo: "diff_one / (T * (1 + ?u) ^ 4) * (1 - ?u) \<le> x" .
  have "diff_one / T * ((1 + ?u) ^ 2 * (999 / 1000 * (1 + ?u))) \<le> diff_one / (T * (1 + ?u) ^ 4) * (1 - ?u)"
  proof -
    let ?P = "(1 + ?u) ^ 4"
    have P: "0 < ?P" using u by simp
    have "(1 + ?u) ^ 2 * (999 / 1000 * (1 + ?u)) \<le> (1 - ?u) / ?P"
      using solve_numbers P by (simp add: pos_le_divide_eq)
    then have "diff_one / T * ((1 + ?u) ^ 2 * (999 / 1000 * (1 + ?u))) \<le> diff_one / T * ((1 - ?u) / ?P)"
      using T1 by (intro mult_left_mono) (auto simp: diff_one_def)
    then show ?thesis by simp
  qed
  with y(2) lo have "y \<le> x" by linarith
  then show ?thesis by (simp add: x(1) y(1))
qed

end
