(* ===== verification/Account_Facts.thy ===== *)
theory Account_Facts
  imports Pool_Account Share_Facts
begin

text \<open>
  A share of the pool's own work is credited at most once, over any sequence of calls; the
  current workbase is never aged out; and what can go wrong for a share of a custom job.
\<close>

section \<open>Calls as steps\<close>

text \<open>
  A step is labelled with the share it credits by \<open>stratifier_sv2_submit_share\<close>: the workbase
  and the hash.  \<open>new_id\<close> is what \<open>connector_newclientid\<close> returns.
\<close>

inductive acct_step :: "bool \<Rightarrow> diff_config \<Rightarrow> sdata_t \<Rightarrow> (int \<times> bytes) option \<Rightarrow> sdata_t \<Rightarrow> bool"
  for solo :: bool and cfg :: diff_config
where
  base: "add_base solo now wb sd = (new_block, sd') \<Longrightarrow> acct_step solo cfg sd None sd'"
| credit: "stratifier_sv2_submit_share solo i w ntime nonce version n2 sd = (ans, sd') \<Longrightarrow> sa_error ans = None \<Longrightarrow>
    sd_shares sd' = sd_shares sd @ [(h, w)] \<Longrightarrow> acct_step solo cfg sd (Some (w, h)) sd'"
| refuse: "stratifier_sv2_submit_share solo i w ntime nonce version n2 sd = (ans, sd') \<Longrightarrow> sa_error ans \<noteq> None \<Longrightarrow>
    acct_step solo cfg sd None sd'"
| account: "stratifier_sv2_account_share i w h sdiff sd = (ans, sd') \<Longrightarrow> acct_step solo cfg sd None sd'"
| open_session: "stratifier_sv2_open_session solo cfg new_id en d user sd = Some (r, sd') \<Longrightarrow> acct_step solo cfg sd None sd'"
| close: "acct_step solo cfg sd None (stratifier_sv2_close_session i sd)"
| set_diff: "stratifier_sv2_set_diff i d sd = Some sd' \<Longrightarrow> acct_step solo cfg sd None sd'"

inductive acct_run :: "bool \<Rightarrow> diff_config \<Rightarrow> sdata_t \<Rightarrow> (int \<times> bytes) list \<Rightarrow> sdata_t \<Rightarrow> bool"
  for solo :: bool and cfg :: diff_config
where
  start: "acct_run solo cfg sd [] sd"
| step: "acct_run solo cfg sd cs sd1 \<Longrightarrow> acct_step solo cfg sd1 c sd2 \<Longrightarrow>
    acct_run solo cfg sd (cs @ (case c of None \<Rightarrow> [] | Some x \<Rightarrow> [x])) sd2"

section \<open>What the calls change\<close>

lemma submit_cases:
  assumes "stratifier_sv2_submit_share solo i w ntime nonce version n2 sd = (ans, sd')"
  shows "(sa_error ans \<noteq> None \<and> sd' = sd) \<or>
    (\<exists>client wb nonce2 su. sa_error ans = None \<and> ref_instance_by_id sd i = Some client \<and> si_authorised client \<and>
      find_workbase sd w = Some wb \<and> sd_blockchange_id sd \<le> w \<and> share_nonce2 wb n2 = Some nonce2 \<and>
      submission_diff (case current_workbase sd of None \<Rightarrow> F64 0 | Some cur \<Rightarrow> gw_network_diff cur) solo
        (user_table sd client) (si_enonce1bin client) wb nonce2 ntime version True (hex8 nonce) = Some su \<and>
      sa_diff ans = su_diff su \<and> sa_block ans = su_block su \<and> f64_le (required_diff client w) (su_diff su) \<and>
      gw_ntime32 wb \<le> ntime \<and> ntime \<le> gw_ntime32 wb + 7000 \<and>
      map_of (sd_shares sd) (su_hash su) = None \<and> sd' = sd\<lparr>sd_shares := sd_shares sd @ [(su_hash su, w)]\<rparr>)"
  using assms
  by (auto simp: stratifier_sv2_submit_share_def Let_def refuse_share_def new_share_def not_less
      split: option.splits if_splits)

lemma account_cases:
  assumes "stratifier_sv2_account_share i w h sdiff sd = (ans, sd')"
  shows "sd' = sd \<or> (\<exists>v. map_of (sd_shares sd) h = None \<and> sd' = sd\<lparr>sd_shares := sd_shares sd @ [(h, v)]\<rparr>)"
  using assms
  by (auto simp: stratifier_sv2_account_share_def Let_def new_share_def split: option.splits if_splits)

text \<open>The parts of the state that matter to shares.\<close>

definition same_shares :: "sdata_t \<Rightarrow> sdata_t \<Rightarrow> bool" where
  "same_shares sd sd' \<longleftrightarrow> sd_shares sd' = sd_shares sd \<and> sd_workbases sd' = sd_workbases sd \<and>
     sd_current sd' = sd_current sd \<and> sd_workbase_id sd' = sd_workbase_id sd \<and>
     sd_blockchange_id sd' = sd_blockchange_id sd"

lemma session_steps_same:
  "stratifier_sv2_open_session solo cfg new_id en d user sd = Some (r, sd') \<Longrightarrow> same_shares sd sd'"
  "same_shares sd (stratifier_sv2_close_session i sd)"
  "stratifier_sv2_set_diff i dd sd = Some sd' \<Longrightarrow> same_shares sd sd'"
  by (auto simp: stratifier_sv2_open_session_def stratifier_sv2_close_session_def stratifier_sv2_set_diff_def
      same_shares_def update_instance_def bind_eq_Some_conv Let_def split: if_splits option.splits bool.splits)

text \<open>The loop that ages workbases.\<close>

lemma clear_workbase_fields [simp]:
  "sd_shares (clear_workbase solo i sd) = sd_shares sd" "sd_workbases (clear_workbase solo i sd) = sd_workbases sd"
  "sd_current (clear_workbase solo i sd) = sd_current sd" "sd_workbase_id (clear_workbase solo i sd) = sd_workbase_id sd"
  "sd_blockchange_id (clear_workbase solo i sd) = sd_blockchange_id sd"
  "sd_instances (clear_workbase solo i sd) = sd_instances sd"
  by (simp_all add: clear_workbase_def clear_userwb_def)

lemma age_workbases_fields:
  "sd_current (age_workbases solo wb tmps sd) = sd_current sd \<and>
   sd_workbase_id (age_workbases solo wb tmps sd) = sd_workbase_id sd \<and>
   sd_blockchange_id (age_workbases solo wb tmps sd) = sd_blockchange_id sd \<and>
   sd_instances (age_workbases solo wb tmps sd) = sd_instances sd"
  by (induction tmps arbitrary: sd) (simp_all add: age_share_hashtable_def)

text \<open>What is aged goes with its shares, and only that.\<close>

lemma age_workbases_parts:
  "\<exists>gone. sd_workbases (age_workbases solo wb tmps sd) = filter (\<lambda>w. gw_id w \<notin> gone) (sd_workbases sd) \<and>
     sd_shares (age_workbases solo wb tmps sd) = filter (\<lambda>s. snd s \<notin> gone) (sd_shares sd) \<and>
     gone \<subseteq> gw_id ` set tmps \<and> gw_id wb \<notin> gone"
proof (induction tmps arbitrary: sd)
  case Nil
  show ?case by (intro exI [of _ "{}"]) simp
next
  case (Cons tmp rest)
  show ?case
  proof (cases "length (sd_workbases sd) < 3 \<or> gw_id tmp = gw_id wb \<or> gw_readcount tmp \<noteq> 0 \<or>
      \<not> gw_gentime tmp < gw_gentime wb - 600")
    case True
    show ?thesis
    proof (cases "length (sd_workbases sd) < 3")
      case True
      then show ?thesis by (intro exI [of _ "{}"]) simp
    next
      case short: False
      then show ?thesis using Cons.IH [of sd] \<open>_ \<or> _\<close> by auto
    qed
  next
    case False
    let ?sd = "clear_workbase solo (gw_id tmp) (age_share_hashtable (gw_id tmp)
      (sd\<lparr>sd_workbases := filter (\<lambda>w. gw_id w \<noteq> gw_id tmp) (sd_workbases sd)\<rparr>))"
    obtain gone where g: "sd_workbases (age_workbases solo wb rest ?sd) = filter (\<lambda>w. gw_id w \<notin> gone) (sd_workbases ?sd)"
      "sd_shares (age_workbases solo wb rest ?sd) = filter (\<lambda>s. snd s \<notin> gone) (sd_shares ?sd)"
      "gone \<subseteq> gw_id ` set rest" "gw_id wb \<notin> gone" using Cons.IH [of ?sd] by blast
    have "age_workbases solo wb (tmp # rest) sd = age_workbases solo wb rest ?sd" using False by simp
    then show ?thesis
      using g False
      by (intro exI [of _ "insert (gw_id tmp) gone"])
         (auto simp: age_share_hashtable_def intro!: filter_cong)
  qed
qed

lemma add_base_parts:
  assumes "add_base solo now wb sd = (nb, sd')"
  obtains gone wb' where "gw_id wb' = sd_workbase_id sd" and "gw_gentime wb' = now"
    and "gw_network_diff wb' = base_network_diff (gw_headerbin wb)" and "gw_headerbin wb' = gw_headerbin wb"
    and "nb = (take 64 (gw_prevhash wb) \<noteq> take 64 (sd_lasthash sd))"
    and "sd_workbases sd' = filter (\<lambda>w. gw_id w \<notin> gone) (sd_workbases sd @ [wb'])"
    and "sd_shares sd' = filter (\<lambda>s. snd s \<notin> gone \<and> \<not> (nb \<and> snd s < sd_workbase_id sd)) (sd_shares sd)"
    and "gone \<subseteq> gw_id ` set (sd_workbases sd @ [wb'])" and "gw_id wb' \<notin> gone"
    and "sd_current sd' = Some (sd_workbase_id sd)" and "sd_workbase_id sd' = sd_workbase_id sd + 1"
    and "sd_blockchange_id sd' = (if nb then sd_workbase_id sd else sd_blockchange_id sd)"
    and "sd_instances sd' = sd_instances sd"
proof -
  let ?i = "sd_workbase_id sd"
  define wb' where "wb' = wb\<lparr>gw_gentime := now, gw_network_diff := base_network_diff (gw_headerbin wb),
    gw_id := ?i, gw_readcount := 0\<rparr>"
  define nb' where "nb' = (take 64 (gw_prevhash wb) \<noteq> take 64 (sd_lasthash sd))"
  define sd1 where "sd1 = (let sd = sd\<lparr>sd_workbase_id := ?i + 1\<rparr>;
      sd = (if nb' then sd\<lparr>sd_lasthash := gw_prevhash wb', sd_blockchange_id := ?i\<rparr> else sd)
      in sd\<lparr>sd_workbases := sd_workbases sd @ [wb'], sd_current := Some ?i\<rparr>)"
  define sd2 where "sd2 = age_workbases solo wb' (sd_workbases sd1) sd1"
  obtain gone where g: "sd_workbases sd2 = filter (\<lambda>w. gw_id w \<notin> gone) (sd_workbases sd1)"
    "sd_shares sd2 = filter (\<lambda>s. snd s \<notin> gone) (sd_shares sd1)" "gone \<subseteq> gw_id ` set (sd_workbases sd1)" "gw_id wb' \<notin> gone"
    unfolding sd2_def using age_workbases_parts by blast
  note f = age_workbases_fields [of solo wb' "sd_workbases sd1" sd1, folded sd2_def]
  have one: "sd_workbases sd1 = sd_workbases sd @ [wb']" "sd_shares sd1 = sd_shares sd" "sd_current sd1 = Some ?i"
    "sd_workbase_id sd1 = ?i + 1" "sd_blockchange_id sd1 = (if nb' then ?i else sd_blockchange_id sd)"
    "sd_instances sd1 = sd_instances sd"
    by (simp_all add: sd1_def Let_def)
  have "add_base solo now wb sd = (nb', if nb' then purge_share_hashtable ?i (if solo then generate_userwbs wb' sd2 else sd2)
      else if solo then generate_userwbs wb' sd2 else sd2)"
    by (simp add: add_base_def Let_def wb'_def nb'_def sd1_def sd2_def)
  then have res: "nb = nb'" "sd' = (if nb' then purge_share_hashtable ?i (if solo then generate_userwbs wb' sd2 else sd2)
      else if solo then generate_userwbs wb' sd2 else sd2)"
    using assms by simp_all
  have r: "sd_workbases sd' = sd_workbases sd2" "sd_current sd' = sd_current sd2" "sd_workbase_id sd' = sd_workbase_id sd2"
    "sd_blockchange_id sd' = sd_blockchange_id sd2" "sd_instances sd' = sd_instances sd2"
    "sd_shares sd' = filter (\<lambda>s. \<not> (nb \<and> snd s < ?i)) (sd_shares sd2)"
    using res by (simp_all add: purge_share_hashtable_def generate_userwbs_def)
  have sh: "sd_shares sd' = filter (\<lambda>s. snd s \<notin> gone \<and> \<not> (nb \<and> snd s < ?i)) (sd_shares sd)"
    unfolding r g(2) one filter_filter by (rule filter_cong) auto
  have w: "gw_id wb' = ?i" "gw_gentime wb' = now" "gw_network_diff wb' = base_network_diff (gw_headerbin wb)"
    "gw_headerbin wb' = gw_headerbin wb" by (simp_all add: wb'_def)
  have nb: "nb = (take 64 (gw_prevhash wb) \<noteq> take 64 (sd_lasthash sd))" using res by (simp add: nb'_def)
  have wbs: "sd_workbases sd' = filter (\<lambda>w. gw_id w \<notin> gone) (sd_workbases sd @ [wb'])" by (simp only: r g one)
  have rest: "sd_current sd' = Some ?i" "sd_workbase_id sd' = ?i + 1"
    "sd_blockchange_id sd' = (if nb then ?i else sd_blockchange_id sd)" "sd_instances sd' = sd_instances sd"
    using f one by (simp_all add: r res(1))
  show thesis by (rule that [OF w nb wbs sh g(3) [unfolded one] g(4) rest])
qed

section \<open>Credited once\<close>

definition acct_ok :: "(int \<times> bytes) list \<Rightarrow> sdata_t \<Rightarrow> bool" where
  "acct_ok cs sd \<longleftrightarrow> distinct cs \<and> distinct (map gw_id (sd_workbases sd)) \<and>
     (\<forall>wb\<in>set (sd_workbases sd). gw_id wb < sd_workbase_id sd) \<and>
     (\<forall>c. sd_current sd = Some c \<longrightarrow> c \<in> gw_id ` set (sd_workbases sd)) \<and>
     (\<forall>(w, h)\<in>set cs. w < sd_workbase_id sd \<and>
        ((h, w) \<in> set (sd_shares sd) \<or> w \<notin> gw_id ` set (sd_workbases sd) \<or> w < sd_blockchange_id sd))"

lemma acct_ok_same: "acct_ok cs sd \<Longrightarrow> same_shares sd sd' \<Longrightarrow> acct_ok cs sd'"
  by (simp add: acct_ok_def same_shares_def)

lemma acct_ok_base:
  assumes "acct_ok cs sd" and "add_base solo now wb sd = (nb, sd')"
  shows "acct_ok cs sd'"
proof -
  obtain gone wb' where b: "gw_id wb' = sd_workbase_id sd"
    "sd_workbases sd' = filter (\<lambda>w. gw_id w \<notin> gone) (sd_workbases sd @ [wb'])"
    "sd_shares sd' = filter (\<lambda>s. snd s \<notin> gone \<and> \<not> (nb \<and> snd s < sd_workbase_id sd)) (sd_shares sd)"
    "gw_id wb' \<notin> gone" "sd_current sd' = Some (sd_workbase_id sd)" "sd_workbase_id sd' = sd_workbase_id sd + 1"
    "sd_blockchange_id sd' = (if nb then sd_workbase_id sd else sd_blockchange_id sd)"
    by (rule add_base_parts [OF assms(2)])
  have d: "distinct (map gw_id (sd_workbases sd @ [wb']))" using assms(1) b(1) by (auto simp: acct_ok_def)
  have "distinct (map gw_id (sd_workbases sd'))" unfolding b(2) using d by (rule distinct_map_filter)
  moreover have "\<forall>wb\<in>set (sd_workbases sd'). gw_id wb < sd_workbase_id sd'"
    using assms(1) b(1) by (auto simp: b(2,6) acct_ok_def)
  moreover have "sd_workbase_id sd \<in> gw_id ` set (sd_workbases sd')"
    using b(1,4) by (auto simp: b(2) image_iff)
  moreover have "w < sd_workbase_id sd' \<and>
      ((h, w) \<in> set (sd_shares sd') \<or> w \<notin> gw_id ` set (sd_workbases sd') \<or> w < sd_blockchange_id sd')"
    if "(w, h) \<in> set cs" for w h
  proof -
    have c: "w < sd_workbase_id sd" "(h, w) \<in> set (sd_shares sd) \<or> w \<notin> gw_id ` set (sd_workbases sd) \<or> w < sd_blockchange_id sd"
      using assms(1) that by (auto simp: acct_ok_def)
    then show ?thesis using b(1) by (auto simp: b(2,3,6,7))
  qed
  ultimately show ?thesis using assms(1) b(5) by (auto simp: acct_ok_def)
qed

lemma acct_ok_share:
  assumes "acct_ok cs sd" and "sd' = sd\<lparr>sd_shares := sd_shares sd @ [x]\<rparr>"
  shows "acct_ok cs sd'"
  using assms by (auto simp: acct_ok_def)

lemma find_workbase_id: "find_workbase sd w = Some wb \<Longrightarrow> wb \<in> set (sd_workbases sd) \<and> gw_id wb = w"
  by (auto simp: find_workbase_def find_Some_iff)

lemma submit_accepted:
  assumes "stratifier_sv2_submit_share solo i w ntime nonce version n2 sd = (ans, sd')" and "sa_error ans = None"
  shows "\<exists>wb (su :: submission). find_workbase sd w = Some wb \<and> sd_blockchange_id sd \<le> w \<and>
    map_of (sd_shares sd) (su_hash su) = None \<and> sd' = sd\<lparr>sd_shares := sd_shares sd @ [(su_hash su, w)]\<rparr>"
  using submit_cases [OF assms(1)]
proof (elim disjE exE conjE)
  fix client wb nonce2 and su :: submission
  assume "find_workbase sd w = Some wb" "sd_blockchange_id sd \<le> w" "map_of (sd_shares sd) (su_hash su) = None"
    "sd' = sd\<lparr>sd_shares := sd_shares sd @ [(su_hash su, w)]\<rparr>"
  then show ?thesis by blast
qed (use assms(2) in simp)

lemma acct_ok_credit:
  assumes ok: "acct_ok cs sd" and s: "stratifier_sv2_submit_share solo i w ntime nonce version n2 sd = (ans, sd')"
    and a: "sa_error ans = None" and h: "sd_shares sd' = sd_shares sd @ [(h, w)]"
  shows "acct_ok (cs @ [(w, h)]) sd'"
proof -
  obtain wb and su :: submission where c: "find_workbase sd w = Some wb" "sd_blockchange_id sd \<le> w"
    "map_of (sd_shares sd) (su_hash su) = None" "sd' = sd\<lparr>sd_shares := sd_shares sd @ [(su_hash su, w)]\<rparr>"
    using submit_accepted [OF s a] by blast
  have hh: "su_hash su = h" using h c(4) by simp
  have w: "w \<in> gw_id ` set (sd_workbases sd)" "w < sd_workbase_id sd"
    using find_workbase_id [OF c(1)] ok by (auto simp: acct_ok_def)
  have "(h, w) \<notin> set (sd_shares sd)" using c(3) hh by (auto simp: map_of_eq_None_iff image_iff)
  then have "(w, h) \<notin> set cs" using ok w c(2) by (auto simp: acct_ok_def)
  then show ?thesis using ok w by (auto simp: acct_ok_def c(4) hh)
qed

lemma acct_run_ok: "acct_run solo cfg sd cs sd' \<Longrightarrow> acct_ok [] sd \<Longrightarrow> acct_ok cs sd'"
proof (induction rule: acct_run.induct)
  case (step sd cs sd1 c sd2)
  then have ok: "acct_ok cs sd1" by simp
  from step.hyps(2) show ?case
  proof cases
    case (base now wb nb)
    then show ?thesis using acct_ok_base [OF ok] by simp
  next
    case (credit i w ntime nonce version n2 ans h)
    then show ?thesis using acct_ok_credit [OF ok] by simp
  next
    case (refuse i w ntime nonce version n2 ans)
    then show ?thesis using ok submit_cases [OF refuse(2)] by auto
  next
    case (account i w h sdiff ans)
    from account_cases [OF account(2)] show ?thesis using ok acct_ok_share account(1) by auto
  qed (use ok acct_ok_same session_steps_same in auto)
qed simp

text \<open>The tables at the start.\<close>

definition sdata_init :: "(int \<times> solo_user) list \<Rightarrow> u64 \<Rightarrow> int \<Rightarrow> sdata_t" where
  "sdata_init users enonce1 first_id =
     \<lparr> sd_instances = [], sd_users = users, sd_workbases = [], sd_current = None, sd_workbase_id = first_id,
       sd_blockchange_id = 0, sd_lasthash = [], sd_shares = [], sd_enonce1_64 = enonce1 \<rparr>"

lemma acct_ok_init: "acct_ok [] (sdata_init users enonce1 first_id)"
  by (simp add: acct_ok_def sdata_init_def)

section \<open>Custom jobs\<close>

lemma account_accepted:
  assumes "stratifier_sv2_account_share i w h sdiff sd = ((None, b), sd')" and "w \<noteq> 0"
  shows "map_of (sd_shares sd) h = None \<and> sd' = sd\<lparr>sd_shares := sd_shares sd @ [(h, w)]\<rparr> \<and>
    (\<exists>client. ref_instance_by_id sd i = Some client \<and> si_authorised client \<and> f64_le (required_diff client w) sdiff)"
  using assms
  by (auto simp: stratifier_sv2_account_share_def Let_def new_share_def split: option.splits if_splits)

text \<open>The oldest workbase goes when its time is up.\<close>

lemma oldest_aged:
  assumes "sd_workbases sd = old # rest" and "rest \<noteq> []" and "gw_readcount old = 0" and "gw_gentime old < now - 600"
    and "gw_id old \<noteq> sd_workbase_id sd" and "add_base solo now wb sd = (nb, sd')"
  shows "(\<forall>s\<in>set (sd_shares sd'). snd s \<noteq> gw_id old) \<and> set (sd_shares sd') \<subseteq> set (sd_shares sd)"
proof -
  let ?i = "sd_workbase_id sd"
  define wb' where "wb' = wb\<lparr>gw_gentime := now, gw_network_diff := base_network_diff (gw_headerbin wb),
    gw_id := ?i, gw_readcount := 0\<rparr>"
  define nb' where "nb' = (take 64 (gw_prevhash wb) \<noteq> take 64 (sd_lasthash sd))"
  define sd1 where "sd1 = (let sd = sd\<lparr>sd_workbase_id := ?i + 1\<rparr>;
      sd = (if nb' then sd\<lparr>sd_lasthash := gw_prevhash wb', sd_blockchange_id := ?i\<rparr> else sd)
      in sd\<lparr>sd_workbases := sd_workbases sd @ [wb'], sd_current := Some ?i\<rparr>)"
  define sd2 where "sd2 = age_workbases solo wb' (sd_workbases sd1) sd1"
  have w1: "sd_workbases sd1 = old # rest @ [wb']" "sd_shares sd1 = sd_shares sd"
    using assms(1) by (simp_all add: sd1_def Let_def)
  let ?sd = "clear_workbase solo (gw_id old) (age_share_hashtable (gw_id old)
      (sd1\<lparr>sd_workbases := filter (\<lambda>w. gw_id w \<noteq> gw_id old) (sd_workbases sd1)\<rparr>))"
  have "\<not> length (sd_workbases sd1) < 3" using assms(2) by (cases rest) (simp_all add: w1)
  then have "sd2 = age_workbases solo wb' (rest @ [wb']) ?sd"
    unfolding sd2_def w1 using assms(3-5) by (simp add: w1 wb'_def)
  moreover obtain gone where "sd_shares (age_workbases solo wb' (rest @ [wb']) ?sd) = filter (\<lambda>s. snd s \<notin> gone) (sd_shares ?sd)"
    using age_workbases_parts by blast
  ultimately have "set (sd_shares sd2) \<subseteq> {s \<in> set (sd_shares sd). snd s \<noteq> gw_id old}"
    by (auto simp: age_share_hashtable_def w1)
  moreover have "set (sd_shares sd') \<subseteq> set (sd_shares sd2)"
  proof -
    have "add_base solo now wb sd = (nb', if nb' then purge_share_hashtable ?i (if solo then generate_userwbs wb' sd2 else sd2)
        else if solo then generate_userwbs wb' sd2 else sd2)"
      by (simp add: add_base_def Let_def wb'_def nb'_def sd1_def sd2_def)
    then show ?thesis using assms(6) by (auto simp: purge_share_hashtable_def generate_userwbs_def split: if_splits)
  qed
  ultimately show ?thesis by blast
qed

lemma account_again:
  assumes c: "stratifier_sv2_account_share i w h sdiff sd = ((None, b), sd1)" and w: "w \<noteq> 0"
    and old: "sd_workbases sd1 = old # rest" "rest \<noteq> []" "gw_id old = w" "gw_readcount old = 0" "gw_gentime old < now - 600"
      "w \<noteq> sd_workbase_id sd1"
    and base: "add_base solo now wb sd1 = (nb, sd2)"
  shows "\<exists>b' sd3. stratifier_sv2_account_share i w h sdiff sd2 = ((None, b'), sd3)"
proof -
  have a: "map_of (sd_shares sd) h = None" "sd1 = sd\<lparr>sd_shares := sd_shares sd @ [(h, w)]\<rparr>"
    and "\<exists>client. ref_instance_by_id sd i = Some client \<and> si_authorised client \<and> f64_le (required_diff client w) sdiff"
    using account_accepted [OF c w] by auto
  then obtain client where cl: "ref_instance_by_id sd i = Some client" "si_authorised client" "f64_le (required_diff client w) sdiff"
    by blast
  have inst: "sd_instances sd2 = sd_instances sd" using a(2) by (rule_tac add_base_parts [OF base]) simp
  have "(\<forall>s\<in>set (sd_shares sd2). snd s \<noteq> w) \<and> set (sd_shares sd2) \<subseteq> set (sd_shares sd1)"
    using oldest_aged [OF old(1,2,4,5) _ base] old(3,6) by simp
  moreover have "(h, v) \<notin> set (sd_shares sd)" for v using a(1) by (auto simp: map_of_eq_None_iff image_iff)
  ultimately have "(h, v) \<notin> set (sd_shares sd2)" for v using a(2) by fastforce
  then have "map_of (sd_shares sd2) h = None" by (auto simp: map_of_eq_None_iff image_iff)
  then show ?thesis
    using cl w by (simp add: stratifier_sv2_account_share_def ref_instance_by_id_def inst Let_def new_share_def)
qed

lemma diff_from_target_nonneg:
  assumes "length t = 32"
  obtains x where "diff_from_target t = F64 x" and "0 \<le> x"
proof -
  obtain s where s: "diff_from_target t = F64 s" "2 powi (- 40) \<le> s" by (rule diff_from_target_value [OF assms])
  have "0 \<le> s" using powi_two_nonneg s(2) by (rule order_trans)
  with s(1) show thesis by (rule that)
qed

section \<open>Changing a difficulty\<close>

lemma required_after_set_diff:
  assumes "stratifier_sv2_set_diff i (F64 d) sd = Some sd'" and "ref_instance_by_id sd i = Some client" and "0 < i"
    and "1 \<le> d" "d \<le> 10 ^ 15" and "current_workbase sd = Some cur" and "w \<noteq> 0"
  shows "\<exists>client' k. ref_instance_by_id sd' i = Some client' \<and> sane_diff_int64 (F64 d) = Some k \<and>
    required_diff client' w = (if w \<le> gw_id cur \<and> 0 < si_diff client
      then (if f64_lt (f64_of_int k) (f64_of_int (si_diff client)) then f64_of_int k else f64_of_int (si_diff client))
      else f64_of_int k)"
proof -
  obtain k where k: "sane_diff_int64 (F64 d) = Some k" "1 \<le> k" using sane_diff_near [OF assms(4,5)] by metis
  let ?f = "\<lambda>client :: stratum_instance. client\<lparr>si_old_diff := si_diff client, si_diff := k, si_diff_change_job_id := gw_id cur + 1\<rparr>"
  have sd': "sd' = update_instance i ?f sd"
    using assms(1,3,6) k by (simp add: stratifier_sv2_set_diff_def Let_def)
  have "find (\<lambda>c. si_id c = i) (map (\<lambda>c. if si_id c = i then ?f c else c) cs) = map_option ?f (find (\<lambda>c. si_id c = i) cs)" for cs
    by (induction cs) auto
  then have "ref_instance_by_id sd' i = Some (?f client)"
    using assms(2) by (simp add: ref_instance_by_id_def sd' update_instance_def)
  then show ?thesis using k assms(7) by (intro exI [of _ "?f client"] exI [of _ k]) (auto simp: required_diff_def Let_def)
qed

section \<open>Variable difficulty\<close>

lemma vardiff_clamped:
  "vardiff_target dsps cur fl mind maxd nd = Some k \<Longrightarrow> k \<noteq> 0 \<Longrightarrow> \<exists>y. vardiff_clamp y fl mind maxd nd = Some k"
  by (auto simp: vardiff_target_def Let_def bind_eq_Some_conv split: if_split_asm)

lemma vardiff_range:
  assumes v: "vardiff_target dsps cur fl mind maxd (F64 n) = Some k" and k: "k \<noteq> 0"
    and conf: "0 \<le> mind" "0 < maxd" "maxd \<le> 2 ^ 53"
  shows "1 \<le> k \<and> of_int k \<le> n \<and> k \<le> maxd \<and> (min mind maxd \<le> k \<or> n < of_int (k + 1))"
proof -
  obtain y where y: "vardiff_clamp y fl mind maxd (F64 n) = Some k" using vardiff_clamped [OF v k] by blast
  define opt where "opt = min (max (max y mind) fl) maxd"
  have b: "min mind maxd \<le> opt" "opt \<le> maxd" by (simp_all add: opt_def)
  have "vardiff_clamp y fl mind maxd (F64 n) = map_option (\<lambda>optimal. if optimal < 1 then 0 else optimal)
      (f64_to_i64 (if f64_lt (f64_of_int opt) (F64 n) then f64_of_int opt else F64 n))"
    unfolding vardiff_clamp_def Let_def opt_def using conf(2) by simp
  then have "map_option (\<lambda>optimal. if optimal < 1 then 0 else optimal)
      (f64_to_i64 (if f64_lt (f64_of_int opt) (F64 n) then f64_of_int opt else F64 n)) = Some k"
    unfolding y by (rule sym)
  then obtain k' where "f64_to_i64 (if f64_lt (f64_of_int opt) (F64 n) then f64_of_int opt else F64 n) = Some k'"
    "k = (if k' < 1 then 0 else k')"
    unfolding map_option_eq_Some by blast
  then have o: "f64_to_i64 (if f64_lt (f64_of_int opt) (F64 n) then f64_of_int opt else F64 n) = Some k" and k1: "1 \<le> k"
    using k by (auto split: if_splits)
  have "0 \<le> opt" using b conf by linarith
  then have "int_rep opt" using b conf by (intro int_repI [of opt opt 0]) auto
  then have e: "f64_of_int opt = F64 (of_int opt)"
    using b conf by (intro int_rep_exact) auto
  show ?thesis
  proof (cases "of_int opt < n")
    case True
    then have "k = opt" using o by (auto simp: e f64_to_i64_def rat_trunc_def split: if_splits)
    then show ?thesis using True b k1 by auto
  next
    case False
    then have kt: "k = rat_trunc n" using o by (auto simp: e f64_to_i64_def split: if_splits)
    then have n0: "0 \<le> n" using k1 by (cases "0 \<le> n") (auto simp: rat_trunc_def le_floor_iff)
    then have kf: "k = \<lfloor>n\<rfloor>" using kt by (simp add: rat_trunc_def)
    then have "of_int k \<le> n" "n < of_int (k + 1)" using floor_correct [of n] by simp_all
    moreover have "k \<le> opt" using False kf floor_le_iff [of n opt] by (simp add: floor_le_iff not_less)
    ultimately show ?thesis using b k1 by auto
  qed
qed

end
