(* ===== verification/Spec2Isabelle.thy ===== *)
theory Spec2Isabelle
  imports Demo_Values Jd_Demo Account_Facts
begin

text \<open>
  \<^bold>\<open>What is verified.\<close>  CashStratum is a mining pool: a node supplies block templates, miners hash
  on them over the encrypted Stratum V2 protocol, and a job declaration server lets miners bring
  templates of their own.  This development follows the C sources under \<^verbatim>\<open>src/src/\<close> that carry that
  logic.  Every definition of the model keeps the name of the function, structure or macro it
  translates; definitions that only occur in specifications are introduced as such in the text
  before them.

  \<^bold>\<open>Parts, and the theories that model them.\<close>

  \<^item> \<open>Ck_Prelude\<close>: bytes, little-endian words, C strings in fixed buffers, readers, bounded copies.

  \<^item> \<open>Sv2_Types\<close>, \<open>Sv2_Wire\<close>, \<open>Sv2_Codec_Mining\<close>, \<open>Sv2_Codec_Jd\<close>: \<^verbatim>\<open>sv2_types.h\<close> and \<^verbatim>\<open>sv2_codec.c\<close>, the
    message structures, the wire primitives, and every encoder and decoder.  The locales
    \<open>wire_field\<close>, \<open>sv2_encoder\<close> and \<open>sv2_message\<close> state what a field and a codec promise and are
    interpreted for every message (\<open>m_setup\<close>, \<open>m_declare\<close>, \<open>m_custom\<close>, ...).

  \<^item> \<open>Sha2\<close>: the portable streaming SHA-256 of \<^verbatim>\<open>sha2.c\<close> and \<open>gen_hash\<close> of \<^verbatim>\<open>libckpool.c\<close>, against the
    padding and compression of FIPS 180-4.

  \<^item> \<open>Sv2_Tx\<close>, \<open>Merkle\<close>: \<^verbatim>\<open>sv2_tx.c\<close> and \<^verbatim>\<open>merkle.c\<close>, walking a transaction, its two identities, merkle
    roots and the merkle branch folded in place.

  \<^item> \<open>Sv2_Cb\<close>, \<open>Coinbase_Final\<close>: \<^verbatim>\<open>sv2_cb.c\<close> and \<^verbatim>\<open>coinbase_final.c\<close>, assembling and declaring coinbases.

  \<^item> \<open>Sv2_Bridge\<close>: \<^verbatim>\<open>sv2_bridge.c\<close>, the ring of recent tips as a bounded history.

  \<^item> \<open>Sv2_Conn\<close>: the handshake throttle of \<^verbatim>\<open>sv2_conn.c\<close>, an open-addressed table under a lock, as an
    inductive reachability over reservations and releases.

  \<^item> \<open>Sv2_Noise\<close>, \<open>Sv2_Transport\<close>: \<^verbatim>\<open>sv2_noise.c\<close> and the rest of \<^verbatim>\<open>sv2_conn.c\<close>, cipher states, frames cut
    into AEAD chunks, and the receive buffer with its feed loop.

  \<^item> \<open>Positional\<close>, \<open>Checksum\<close>, \<open>Cashaddr\<close>, \<open>Bch_Address\<close>: \<^verbatim>\<open>cashaddr_simple.c\<close> and the address part of
    \<^verbatim>\<open>libckpool.c\<close>: cash addresses with their error detecting code, Base58Check both ways, the
    classifier, and scripts to addresses.

  \<^item> \<open>Jd_Payout\<close>, \<open>Jd_State\<close>, \<open>Jd_Block\<close>, \<open>Jd_Declare\<close>, \<open>Jd_Handlers\<close>: the job declaration server
    \<^verbatim>\<open>sv2_jd.c\<close>.  \<open>jd_state\<close> is its file-level tables as one record, \<open>jd_env\<close> what it reads of the rest
    of the program at one moment (clock, configuration, tip, answers of the node), and \<open>jd_step\<close> one
    atomic action: a frame from a client (\<open>sv2_jd_handle_frame\<close>), a finished validation or submission
    in a worker, a connection that comes or goes, a new tip.  \<open>jd_reach\<close> are the states such steps
    lead to.

  \<^item> \<open>Jd_Tables\<close>, \<open>Jd_Accept\<close>, \<open>Jd_Reply\<close>: lemmas on its operations.  \<open>room_loop\<close> is the contract of the
    two loops that make room in a full table, interpreted for the token table and the transaction
    cache; \<open>accept_result\<close> is what binding a declaration to a token can do; replies are read back
    by the decoders (\<open>carries\<close>).

  \<^item> \<open>Jd_Contract\<close>: the locale \<open>jd_contract\<close> says what a property of tokens and one of declarations
    must promise so that every handler keeps them; \<open>ok_step\<close> and \<open>ok_reach\<close> are its invariant.
    \<open>Jd_Server\<close> interprets it for complete templates and exact byte totals (\<open>base\<close>) and shows that
    every handler returns; \<open>Jd_Funds\<close> interprets it for the payout of a shared pool (\<open>pool\<close>).

  \<^item> \<open>Jd_Progress\<close>, \<open>Jd_Wire\<close>: what the server achieves (an accepted template becomes a declared
    token, the order of candidates, a client that leaves) and the form of every reply.

  \<^item> \<open>Float64\<close>, \<open>Difficulty\<close>: binary64 arithmetic, and the difficulty and target computations of
    \<^verbatim>\<open>libckpool.c\<close> (\<open>target_from_diff\<close>, \<open>diff_from_target\<close>, \<open>diff_from_nbits\<close>), \<^verbatim>\<open>sv2_strat.c\<close>
    (\<open>choose_channel_diff\<close>) and \<^verbatim>\<open>stratifier.c\<close>.  \<open>Target_Exact\<close> shows which of those steps are exact,
    \<open>Diff_Bounds\<close> bounds the error of the others (\<open>near\<close> counts roundings).

  \<^item> \<open>Hex\<close>: \<open>hex2bin\<close>, \<open>validhex\<close> and \<open>bin2hex\<close> of \<^verbatim>\<open>libckpool.c\<close>, with their round trip.

  \<^item> \<open>Pool_Coinbase\<close>, \<open>Coinbase_Facts\<close>: the pool's own coinbase (\<open>generate_coinbase\<close>,
    \<open>__generate_userwb\<close> of \<^verbatim>\<open>stratifier.c\<close>) and the transaction its parts are the serialisation of.

  \<^item> \<open>Pool_Work\<close>: a block template on its way from the node's reply (\<open>gen_gbtbase\<close> of \<^verbatim>\<open>bitcoin.c\<close>)
    to a workbase (\<open>wb_merkle_bin_txns\<close>, \<open>build_workbase\<close> for the template part of \<open>block_update\<close>) and
    from a share to the submitted block (\<open>process_block\<close>); the record \<open>genwork\<close> is the structure
    of that name.

  \<^item> \<open>Pool_Share\<close>, \<open>Share_Facts\<close>: the header of a share and its hash (\<open>share_diff\<close>), the test for a
    block (\<open>test_blocksolve\<close>), the work handed to the Stratum V2 server
    (\<open>stratifier_sv2_snapshot_work\<close>), and how they agree with the transaction walker and the merkle root
    of the other theories.

  \<^item> \<open>Pool_Account\<close>, \<open>Account_Facts\<close>: the tables the stratifier keeps for it as one record
    \<open>sdata_t\<close>: workbases and their ageing (\<open>add_base\<close>), share hashes, sessions; opening and closing a
    session, changing its difficulty, submitting a share of the pool's work
    (\<open>stratifier_sv2_submit_share\<close>) or of a custom job (\<open>stratifier_sv2_account_share\<close>).  \<open>acct_run\<close> are
    the sequences of these operations with the shares they credit, \<open>acct_ok\<close> is their invariant.

  \<^item> \<open>Demo_Values\<close>, \<open>Jd_Demo\<close>: the concrete inputs of the witnesses, among them a run of the server
    from its start to a declared token.

  The parts meet in the byte formats: a frame is built by \<open>sv2_build_frame\<close>, sealed by
  \<open>sv2_conn_encrypt\<close>, collected by \<open>sv2_conn_feed\<close>, its payload read by a decoder and acted on by a
  handler, which reaches the transaction walker, the merkle root and the address codec.  The pool's
  coinbase and header are shown to be the serialisations those theories read.

  \<^bold>\<open>How C is rendered.\<close>  Fixed-width integers are words and wrap; \<open>time_t\<close> and \<open>int\<close> counters are
  integers.  A buffer is the list of its bytes and a reader returns the rest of its input, so that
  a read past the end is the error branch of the code.  A failing function returns an option, with
  the state where the code leaves one behind.  A loop that might not end is a
  \<^theory_text>\<open>partial_function\<close>, with \<open>None\<close> for not returning, and its termination is a theorem.  Hash tables of
  uthash are lists in insertion order.  A lock makes the section it protects one step; the model
  runs a whole handler as one step, with the tip and the clock free to change where it reads them again.
  A \<^verbatim>\<open>double\<close> is a rational, an infinity or a NaN (\<open>f64\<close>); every operation rounds the exact result to 53
  bits, ties to even, with subnormals, so results are those of IEEE 754.  The sign of zero is not
  kept; nothing modelled divides by a zero or looks at that sign.  A conversion to an integer type that
  cannot hold the value, undefined in C, is \<open>None\<close>.

  \<^bold>\<open>Bounds.\<close>  No fuel is used.  The receive loop ends because each frame consumes bytes, the loops of
  the job declaration server because each round removes an entry; minting a token ends when the
  random generator still has more different values than the table has entries (at most 4096).

  \<^bold>\<open>Parameters.\<close>  ChaCha20-Poly1305 is a pair of functions with the law that opening undoes sealing
  (\<open>aead_laws\<close>); the node's verdict on an address and on a block, the floating-point comparison of
  a header with a target and the values of the random generator are fields of \<open>jd_env\<close> or arguments.
  The node's template is the record \<open>gbt_answer\<close> of the fields the code reads from the reply; the clock,
  client identities, the table of users' payout scripts and a session's share rate are arguments.

  \<^bold>\<open>Not modelled.\<close>  The Noise handshake and key files (library calls and I/O), the message handlers of
  the stratum server and the job declaration client; of the stratifier: the Stratum V1 parser and its
  JSON, proxy mode, remote and IPC templates, worker and user statistics, best shares and hash rates,
  log files and the message queues; the generator and connector (sockets, JSON-RPC, event loops), the
  SIMD back ends of SHA-256, and third-party code.  Of \<^verbatim>\<open>sv2_jd.c\<close>: logging, memory management, the
  JSON rendering of the statistics and the submission of a solved block without a worker queue.  The
  interleaving of other threads between two lock sections of one handler is not modelled.
\<close>

section \<open>The pool's own work\<close>

text \<open>
  C1. From the template to the block.  For a template the node shows (previous hash and target bits
  in hexadecimal, transactions with their identities) the 80 bytes a share is hashed as are the
  header with the reversed previous hash and the merkle root over the coinbase's txid and the
  transactions' identities; the coinbase is the serialised transaction with the operator's fee;
  and the block submitted for it is header, transaction count, coinbase and transactions.
\<close>

theorem pool_block_of_template:
  assumes "build_workbase cfg now a txs = Some wb0" and "displays a prev nbits"
    and "list_all2 (\<lambda>txn (raw, i). shows_txn txn raw i) txs raws"
    and "wb = wb0\<lparr>gw_id := j, gw_gentime := t, gw_network_diff := nd\<rparr>"
    and "coinbase_config_ok cfg" and "cc_nonce1length cfg \<le> length enonce1" and "length en2 = cc_nonce2length cfg"
    and "script = (if cc_btcsolo cfg then txn else cc_txnbin cfg)" and "script \<noteq> []" and "length script < 0xfd"
    and "cc_btcsolo cfg \<Longrightarrow> fresh_user txn wb user"
    and "submission_diff cnd (cc_btcsolo cfg) (us_userwbs (generate_userwb_for wb user)) enonce1 wb (bin2hex en2)
      ntime vf full (hex8 nonce) = Some su"
  shows "\<exists>gbt d cb header. gen_gbtbase a = Some gbt \<and> fee_of cfg (coinbase_template_of now gbt) = Some d \<and>
    cb = coinbase_tx cfg (coinbase_template_of now gbt) d script (take (cc_nonce1length cfg) enonce1 @ en2) \<and>
    header = block_header (share_version (ga_version a) vf full) (rev prev)
      (sv2_merkle_root_from_txids (gen_hash (ser_stripped cb) # map snd raws)) ntime nbits nonce \<and>
    su_coinbase su = ser_tx cb \<and> su_swap su = header \<and> su_hash su = gen_hash header \<and>
    su_diff su = diff_from_target (su_hash su) \<and>
    (\<forall>blk. su_block su = Some blk \<longrightarrow> fst blk =
      bin2hex (header @ sv2_write_compact_size (of_nat (length txs + 1)) @ ser_tx cb @ concat (map fst raws)))"
proof -
  obtain gbt d cb2 where g: "gen_gbtbase a = Some gbt" "fee_of cfg (coinbase_template_of now gbt) = Some d"
    "user_coinb2 (cc_btcsolo cfg) (us_userwbs (generate_userwb_for wb user)) wb = Some cb2"
    and cb: "share_coinbase wb enonce1 (bin2hex en2) cb2 =
      ser_tx (coinbase_tx cfg (coinbase_template_of now gbt) d script (take (cc_nonce1length cfg) enonce1 @ en2))"
      (is "_ = ser_tx ?cb")
    using share_coinbase_tx [OF assms(1,4,5,6,7,8,9,10,11)] by blast
  obtain tw where tw: "wb_merkle_bin_txns txs = Some tw" "gw_txns wb0 = tw_txns tw" "gw_txn_data wb0 = tw_txn_data tw"
    "gw_merklebin wb0 = tw_merklebin tw" by (rule build_workbase_some [OF assms(1)])
  obtain txids rows where m: "map txn_txid txs = map Some txids" "map txn_row txids = map Some rows"
    "tw_txns tw = length txs" "length txs < 2 ^ 31" "tw_txn_data tw = concat (map (\<lambda>txn. the (gt_data txn)) txs)"
    "\<And>c. sv2_merkle_root_from_path c (tw_merklebin tw) = sv2_merkle_root_from_txids (c # rows)"
    by (rule wb_merkle_some [OF tw(1)]) blast
  note rows = rows_shown [OF assms(3) m(1,2)]
  note su = submission_parts [OF assms(12) g(3)]
  have h: "header_of wb (ga_version a) prev (ga_curtime a) nbits"
    using build_workbase_header [OF assms(1,2)] by (simp add: assms(4) header_of_def)
  let ?header = "block_header (share_version (ga_version a) vf full) (rev prev)
      (sv2_merkle_root_from_txids (gen_hash (ser_stripped ?cb) # map snd raws)) ntime nbits nonce"
  have root: "sv2_merkle_root_from_path (gen_hash (ser_tx ?cb)) (gw_merklebin wb) =
      sv2_merkle_root_from_txids (gen_hash (ser_stripped ?cb) # map snd raws)"
    by (simp add: assms(4) tw(4) m(6) rows coinbase_tx_txid)
  have swap: "su_swap su = ?header" using su share_header_wire [OF h] by (simp add: cb root)
  have len: "length ?header = 80"
    using assms(2) length_root [of "gen_hash (ser_tx ?cb)" "gw_merklebin wb"]
    by (intro length_block_header) (simp_all add: displays_def root)
  have block: "\<forall>blk. su_block su = Some blk \<longrightarrow> fst blk =
      bin2hex (?header @ sv2_write_compact_size (of_nat (length txs + 1)) @ ser_tx ?cb @ concat (map fst raws))"
  proof (intro allI impI)
    fix blk assume that: "su_block su = Some blk"
    have "blk = process_block wb (ser_tx ?cb) ?header (su_hash su)"
      using su that block_of_solve by (simp add: cb swap)
    moreover have "gw_txns wb = length txs" "gw_txn_data wb = bin2hex (concat (map fst raws))"
      using tw m(3,5) rows by (simp_all add: assms(4))
    moreover have "concat (map fst raws) = []" if "length txs = 0"
      using that list_all2_lengthD [OF assms(3)] by simp
    ultimately have "fst (process_block wb (ser_tx ?cb) ?header (su_hash su)) =
        bin2hex (?header @ sv2_write_compact_size (of_nat (gw_txns wb + 1)) @ ser_tx ?cb @ concat (map fst raws))"
      using m(4) by (intro process_block_bytes [OF len]) auto
    then show "fst blk = bin2hex (?header @ sv2_write_compact_size (of_nat (length txs + 1)) @ ser_tx ?cb @ concat (map fst raws))"
      unfolding \<open>blk = _\<close> \<open>gw_txns wb = _\<close> .
  qed
  have parts: "su_coinbase su = ser_tx ?cb" "su_hash su = gen_hash ?header" "su_diff su = diff_from_target (su_hash su)"
    using su by (simp_all only: cb swap)
  show ?thesis
    by (intro exI conjI, rule g(1), rule g(2), rule refl, rule refl, rule parts(1), rule swap, rule parts(2), rule parts(3), rule block)
qed

text \<open>A template with no transactions for the network's minimum difficulty, and the pool mining on it.\<close>

definition demo_answer :: gbt_answer where
  "demo_answer = \<lparr> ga_rules = [], ga_previousblockhash = Some (bin2hex (replicate 32 0)),
     ga_target = Some (bin2hex (replicate 4 0 @ replicate 28 0xff)), ga_version = 0x20000000, ga_curtime = 1760000000,
     ga_bits = Some (bin2hex (be32 0x1d00ffff)), ga_height = 900000, ga_coinbasevalue = Some 312500000, ga_flags = None \<rparr>"

definition demo_pool :: coinbase_config where
  "demo_pool = \<lparr> cc_regtest = False, cc_btcsolo = False, cc_nonce1length = 4, cc_nonce2length = 8,
     cc_btcsig = None, cc_poolvalid = True, cc_poolfee = F64 1, cc_txnbin = [0x76], cc_pooltxnbin = [0x51] \<rparr>"

lemma demo_pool_ok: "coinbase_config_ok demo_pool"
  by (simp add: coinbase_config_ok_def demo_pool_def)

lemma demo_script: "[0x76] = (if cc_btcsolo demo_pool then [] else cc_txnbin demo_pool)"
  by (simp add: demo_pool_def)

lemma demo_displays: "displays demo_answer (replicate 32 0) 0x1d00ffff"
  by (simp add: displays_def demo_answer_def)

lemma demo_workbase:
  obtains wb where "build_workbase demo_pool (1760000001, 5) demo_answer [] = Some wb"
proof -
  have "hex2bin 32 (bin2hex bs) = (bs, True)" if "length bs = 32" for bs using hex2bin_bin2hex [of bs] that by simp
  then have "\<exists>gbt. gen_gbtbase demo_answer = Some gbt" by (simp add: gen_gbtbase_def demo_answer_def)
  then obtain gbt where g: "gen_gbtbase demo_answer = Some gbt" by blast
  obtain d where d: "fee_of demo_pool (coinbase_template_of (1760000001, 5) gbt) = Some d"
    by (rule fee_of_some [OF demo_pool_ok])
  obtain parts where p: "generate_coinbase demo_pool (coinbase_template_of (1760000001, 5) gbt) = Some parts"
    using generate_coinbase_parts [OF d _ demo_script, of "[]"] by blast
  define hs where "hs = [replicate 32 0, replicate 32 (0 :: byte)]"
  have "cashstratum_merkle_branch hs 1 \<noteq> None" unfolding merkle_branch_some_iff by simp
  then obtain branch where "cashstratum_merkle_branch hs 1 = Some branch" by blast
  then have "\<exists>tw. wb_merkle_bin_txns [] = Some tw"
    by (simp add: wb_merkle_bin_txns_def SIZE_MAX_def hs_def)
  then obtain tw where "wb_merkle_bin_txns [] = Some tw" by blast
  then have "\<exists>wb. build_workbase demo_pool (1760000001, 5) demo_answer [] = Some wb"
    using g p by (simp add: build_workbase_def coinbase_template_of_def)
  then show thesis using that by blast
qed

lemma pool_block_of_template_witness:
  "\<exists>(su :: submission) cb. su_coinbase su = ser_tx cb \<and> su_swap su = block_header 0x20000000 (replicate 32 0)
    (sv2_merkle_root_from_txids [gen_hash (ser_stripped cb)]) 1760000007 0x1d00ffff 42"
proof -
  obtain wb0 where b: "build_workbase demo_pool (1760000001, 5) demo_answer [] = Some wb0" by (rule demo_workbase)
  define wb where "wb = wb0\<lparr>gw_id := 1, gw_gentime := 1760000001, gw_network_diff := F64 1\<rparr>"
  define user where "user = \<lparr> us_txnbin = [], us_btcaddress = False, us_userwbs = [] \<rparr>"
  obtain su where su: "submission_diff (F64 1) (cc_btcsolo demo_pool) (us_userwbs (generate_userwb_for wb user)) (replicate 4 7) wb
      (bin2hex (replicate 8 9)) 1760000007 0x20000000 True (hex8 42) = Some su"
    by (simp add: submission_diff_def user_coinb2_def demo_pool_def Let_def)
  have c: "cc_nonce1length demo_pool \<le> length (replicate 4 (7 :: byte))" "length (replicate 8 (9 :: byte)) = cc_nonce2length demo_pool"
    "[0x76] = (if cc_btcsolo demo_pool then [] else cc_txnbin demo_pool)" "\<not> cc_btcsolo demo_pool"
    "ga_version demo_answer = 0x20000000" by (simp_all add: demo_pool_def demo_answer_def)
  obtain cb where "su_coinbase su = ser_tx cb" and "su_swap su = block_header (share_version (ga_version demo_answer) 0x20000000 True)
      (rev (replicate 32 0)) (sv2_merkle_root_from_txids (gen_hash (ser_stripped cb) # map snd [])) 1760000007 0x1d00ffff 42"
    using pool_block_of_template [OF b demo_displays list_all2_Nil [THEN iffD2, OF refl] wb_def demo_pool_ok c(1-3) _ _ _ su] c(4)
    by fastforce
  then show ?thesis by (auto simp: share_version_def)
qed



text \<open>
  C3. A share of the pool's own work is credited at most once: over any sequence of new workbases
  (with their ageing and purging of share hashes), shares of either kind, sessions opened and
  closed and difficulties changed, no workbase and hash are credited twice.
\<close>

theorem shares_credited_once:
  assumes "acct_run solo cfg (sdata_init users enonce1 first_id) cs sd"
  shows "distinct cs"
  using acct_run_ok [OF assms acct_ok_init] by (simp add: acct_ok_def)

definition demo_diffs :: diff_config where
  "demo_diffs = \<lparr> dc_mindiff = 1, dc_startdiff = 0, dc_highdiff = 1000, dc_maxdiff = 0, dc_serverurls = 1,
     dc_server_highdiff = None \<rparr>"

text \<open>A session held to no difficulty, and its first share.\<close>

lemma demo_submit:
  obtains s2 ans s3 h v p t b where "acct_run False demo_diffs (sdata_init [] 0 1) [] s2"
    and "stratifier_sv2_submit_share False 7 1 1760000000 42 0x20000000 [] s2 = (ans, s3)" and "sa_error ans = None"
    and "s3 = s2\<lparr>sd_shares := sd_shares s2 @ [(h, 1)]\<rparr>"
    and "\<And>wb. wb \<in> set (sd_workbases s2) \<Longrightarrow> header_of wb v p t b"
proof -
  obtain wb where b: "build_workbase demo_pool (1760000001, 5) demo_answer [] = Some wb" by (rule demo_workbase)
  note hd = build_workbase_header [OF b demo_displays]
  have t: "gw_ntime32 wb = 1760000000" and n2: "gw_enonce2varlen wb = 8"
    using hd build_workbase_some [OF b] by (auto simp: header_of_def demo_answer_def demo_pool_def)
  let ?s0 = "sdata_init [] 0 1"
  let ?wb = "wb\<lparr>gw_gentime := 1760000001, gw_network_diff := base_network_diff (gw_headerbin wb), gw_id := 1, gw_readcount := 0\<rparr>"
  obtain nb s1 where s1: "add_base False 1760000001 wb ?s0 = (nb, s1)" by force
  then have f1: "sd_workbases s1 = [?wb]" and b1: "sd_blockchange_id s1 \<le> 1" and e1: "sd_shares s1 = []" "sd_instances s1 = []"
    by (auto simp: add_base_def Let_def sdata_init_def purge_share_hashtable_def split: if_splits)
  have z: "sane_diff_int64 (F64 0) = Some 0" by (simp add: sane_diff_int64_def f64_isfinite_def)
  let ?c = "\<lparr> si_id = 7, si_enonce1bin = c_buf 16 [1, 2, 3, 4], si_authorised = True, si_diff = 0, si_old_diff = 0,
    si_diff_change_job_id = 0, si_user = 0 \<rparr>"
  obtain r s2 where s2: "stratifier_sv2_open_session False demo_diffs 7 [1, 2, 3, 4] (F64 0) (Some 0) s1 = Some (r, s2)"
    and i2: "s2 = s1\<lparr>sd_instances := [?c]\<rparr>"
    by (simp add: stratifier_sv2_open_session_def z e1 demo_diffs_def)
  let ?nd = "case current_workbase s2 of None \<Rightarrow> F64 0 | Some cur \<Rightarrow> gw_network_diff cur"
  obtain su where su: "submission_diff ?nd False (user_table s2 ?c) (c_buf 16 [1, 2, 3, 4]) ?wb (replicate 16 0x30)
      1760000000 0x20000000 True (hex8 42) = Some su"
    by (simp add: submission_diff_def user_coinb2_def Let_def)
  have p: "su_hash su = gen_hash (su_swap su)" "su_diff su = diff_from_target (su_hash su)"
    using submission_parts [OF su] by (simp_all add: user_coinb2_def)
  obtain x where "su_diff su = F64 x" "0 \<le> x"
    using diff_from_target_nonneg [of "su_hash su"] by (metis p length_gen_hash')
  then have d: "f64_le (required_diff ?c 1) (su_diff su)"
    by (simp add: required_diff_def Let_def f64_of_int_def f64_round_def f64_mag_def f64_le_def) linarith
  obtain ans s3 where s3: "stratifier_sv2_submit_share False 7 1 1760000000 42 0x20000000 [] s2 = (ans, s3)" by force
  have q: "find_workbase s2 1 = Some ?wb" "sd_blockchange_id s2 \<le> 1" "ref_instance_by_id s2 7 = Some ?c" "sd_shares s2 = []"
    using f1 b1 e1 by (simp_all add: i2 find_workbase_def ref_instance_by_id_def)
  have a: "sa_error ans = None" "s3 = s2\<lparr>sd_shares := sd_shares s2 @ [(su_hash su, 1)]\<rparr>"
    using s3 su d q by (auto simp: stratifier_sv2_submit_share_def Let_def share_nonce2_def n2 t new_share_def)
  have "acct_run False demo_diffs ?s0 [] s2"
    using acct_run.step [OF acct_run.step [OF acct_run.start acct_step.base [OF s1]] acct_step.open_session [OF s2]] by simp
  moreover have "header_of w (ga_version demo_answer) (replicate 32 0) (ga_curtime demo_answer) 0x1d00ffff"
    if "w \<in> set (sd_workbases s2)" for w
    using that hd f1 by (simp add: i2 header_of_def)
  ultimately show thesis using s3 a that by blast
qed

lemma shares_credited_once_witness:
  "\<exists>cs sd. acct_run False demo_diffs (sdata_init [] 0 1) cs sd \<and> cs \<noteq> [] \<and> distinct cs"
proof -
  obtain s2 ans s3 h where r: "acct_run False demo_diffs (sdata_init [] 0 1) [] s2"
    and s: "stratifier_sv2_submit_share False 7 1 1760000000 42 0x20000000 [] s2 = (ans, s3)" "sa_error ans = None"
      "s3 = s2\<lparr>sd_shares := sd_shares s2 @ [(h, 1)]\<rparr>" by (rule demo_submit)
  have "acct_run False demo_diffs (sdata_init [] 0 1) [(1, h)] s3"
    using acct_run.step [OF r acct_step.credit [OF s(1,2)], of h] s(3) by simp
  then show ?thesis using shares_credited_once by blast
qed



text \<open>
  C5. The header a miner builds from its work is the header the pool hashes: version, previous hash,
  merkle path, both parts of the coinbase and target bits are those of the header of the share,
  which is in consensus byte order, and they agree with what the job declaration side is told of
  the tip.
\<close>

theorem miner_header_is_pool_header:
  assumes "header_of wb v prev t nbits" and "length (gw_merklebin wb) \<le> GENWORK_MAX_MERKLE_DEPTH"
    and "stratifier_sv2_snapshot_work solo (Some wb) (Some user) = (Some snap, Some user')"
    and "submission_diff cnd solo (us_userwbs user') enonce1 wb nonce2 ntime version True (hex8 nonce) = Some su"
  shows "su_swap su = block_header version (ws_prevhash snap)
      (sv2_merkle_root_from_path
        (gen_hash (ws_coinb1 snap @ take (gw_enonce1constlen wb + ws_enonce1varlen snap) enonce1 @
          hex_field (ws_enonce2varlen snap) nonce2 @ ws_coinb2 snap)) (ws_merklebin snap))
      ntime (ws_nbits snap) nonce \<and>
    ws_wb_id snap = gw_id wb \<and> ws_version snap = v \<and> ws_ntime snap = t \<and> ws_prevhash snap = rev prev \<and>
    ws_nbits snap = nbits \<and> stratifier_sv2_tip_for_jd (Some wb) = Some (v, ws_prevhash snap, t, ws_nbits snap)"
  by (rule snapshot_header [OF assms])

lemma demo_snapshot:
  obtains wb snap where "header_of wb 0x20000000 (replicate 32 0) 1760000000 0x1d00ffff"
    and "length (gw_merklebin wb) \<le> GENWORK_MAX_MERKLE_DEPTH"
    and "stratifier_sv2_snapshot_work False (Some wb) (Some \<lparr> us_txnbin = [], us_btcaddress = False, us_userwbs = [] \<rparr>) =
      (Some snap, Some \<lparr> us_txnbin = [], us_btcaddress = False, us_userwbs = [] \<rparr>)"
    and "gw_enonce1constlen wb = 0" and "gw_enonce1varlen wb = 4" and "gw_enonce2varlen wb = 8"
    and "ws_enonce1varlen snap = 4" and "ws_enonce2varlen snap = 8"
proof -
  obtain wb where b: "build_workbase demo_pool (1760000001, 5) demo_answer [] = Some wb" by (rule demo_workbase)
  have h: "header_of wb 0x20000000 (replicate 32 0) 1760000000 0x1d00ffff"
    using build_workbase_header [OF b demo_displays] by (simp add: demo_answer_def)
  let ?user = "\<lparr> us_txnbin = [], us_btcaddress = False, us_userwbs = [] \<rparr>"
  obtain parts :: coinbase_parts and tw :: txn_work where p: "gw_coinb1bin wb = cp_coinb1 parts" "gw_coinb2bin wb = cp_coinb2 parts"
      "gw_enonce1constlen wb = 0" "gw_enonce1varlen wb = 4" "gw_enonce2varlen wb = 8"
    and sz: "length (cp_coinb1 parts) \<le> 92" "length (cp_coinb2 parts) \<le> 76"
    and tw: "wb_merkle_bin_txns [] = Some tw" "gw_merklebin wb = tw_merklebin tw"
  proof (rule build_workbase_some [OF b], goal_cases)
    case (1 gbt tw parts)
    then show ?thesis using generate_coinbase_sizes [OF 1(4)] by (intro 1(1) [of parts tw]) (simp_all add: demo_pool_def btcsig_push_def)
  qed
  have m: "length (gw_merklebin wb) \<le> GENWORK_MAX_MERKLE_DEPTH"
    by (rule wb_merkle_some [OF tw(1)]) (simp add: tw(2))
  obtain snap where "stratifier_sv2_snapshot_work False (Some wb) (Some ?user) = (Some snap, Some ?user)"
    "ws_enonce1varlen snap = 4" "ws_enonce2varlen snap = 8"
    using sz by (simp add: stratifier_sv2_snapshot_work_def Let_def user_coinb2_def p)
  then show thesis using h m p(3-5) by (intro that [of wb snap])
qed

lemma demo_submission:
  obtains su where "submission_diff (F64 1) False (us_userwbs \<lparr> us_txnbin = [], us_btcaddress = False, us_userwbs = [] \<rparr>)
    [1, 2, 3, 4] wb nonce2 1760000007 0x20000000 True (hex8 42) = Some su"
  by (simp add: submission_diff_def user_coinb2_def Let_def)

lemma miner_header_is_pool_header_witness:
  "\<exists>(su :: submission) (snap :: sv2_work_snap). su_swap su = block_header 0x20000000 (ws_prevhash snap)
      (sv2_merkle_root_from_path (gen_hash (ws_coinb1 snap @ [1, 2, 3, 4] @ replicate 8 5 @ ws_coinb2 snap)) (ws_merklebin snap))
      1760000007 (ws_nbits snap) 42 \<and> ws_prevhash snap = replicate 32 0"
proof -
  obtain wb snap where w: "header_of wb 0x20000000 (replicate 32 0) 1760000000 0x1d00ffff"
    "length (gw_merklebin wb) \<le> GENWORK_MAX_MERKLE_DEPTH"
    "stratifier_sv2_snapshot_work False (Some wb) (Some \<lparr> us_txnbin = [], us_btcaddress = False, us_userwbs = [] \<rparr>) =
      (Some snap, Some \<lparr> us_txnbin = [], us_btcaddress = False, us_userwbs = [] \<rparr>)"
    "gw_enonce1constlen wb = 0" "gw_enonce1varlen wb = 4" "gw_enonce2varlen wb = 8"
    "ws_enonce1varlen snap = 4" "ws_enonce2varlen snap = 8" by (rule demo_snapshot)
  obtain su where su: "submission_diff (F64 1) False (us_userwbs \<lparr> us_txnbin = [], us_btcaddress = False, us_userwbs = [] \<rparr>)
    [1, 2, 3, 4] wb (bin2hex (replicate 8 5)) 1760000007 0x20000000 True (hex8 42) = Some su" by (rule demo_submission)
  show ?thesis
    using miner_header_is_pool_header [OF w(1-3) su] w(4-) by (auto simp: hex_field_bin2hex intro!: exI [of _ su] exI [of _ snap])
qed





section \<open>Difficulties and targets\<close>





text \<open>
  C10. The network difficulty of compact target bits is difficulty one over the number they stand for,
  rounded once.
\<close>

theorem nbits_difficulty_exact:
  assumes "3 \<le> s" and "s \<le> 32" and "m = uint b1 * 65536 + uint b2 * 256 + uint b3" and "0 < m"
  shows "diff_from_nbits [of_nat s, b1, b2, b3] = f64_round (diff_one / of_int (m * 256 ^ (s - 3)))"
  by (rule diff_from_nbits_compact [OF assms])

lemma nbits_difficulty_exact_witness: "diff_from_nbits [of_nat 29, 0, 0xff, 0xff] = f64_round (diff_one / of_int (65535 * 256 ^ (29 - 3)))"
  by (rule nbits_difficulty_exact) simp_all

text \<open>
  C11. Whatever hash rate, target and floor a client names, the difficulty chosen for its channel is
  from 1 to 10^15, so its target and the integer the session is held to are computed without a
  trap, that integer within 9/8; and the difficulty is not below that of the largest target
  the client can work with.
\<close>

theorem channel_difficulty_in_range:
  assumes "diff_config_ok cfg" and "fl = F64 f"
  shows "\<exists>w tgt k. choose_channel_diff cfg hashrate max_target fl = F64 w \<and> 1 \<le> w \<and> w \<le> 10 ^ 15 \<and>
    target_from_diff (F64 w) = Some tgt \<and> sane_diff_int64 (F64 w) = Some k \<and> 1 \<le> k \<and>
    w - 1 / 8 < of_int k \<and> of_int k \<le> w + 9 / 8 \<and>
    (\<forall>s. diff_from_target max_target = F64 s \<and> 0 < s \<longrightarrow> s \<le> w \<or> w = 10 ^ 15)"
proof -
  obtain w where w: "choose_channel_diff cfg hashrate max_target fl = F64 w" "1 \<le> w" "w \<le> 10 ^ 15" by (rule choose_range)
  obtain tgt where t: "target_from_diff (F64 w) = Some tgt" using target_from_diff_some [of w] w by auto
  obtain k where k: "sane_diff_int64 (F64 w) = Some k" "w - 1 / 8 < of_int k" "of_int k \<le> w + 9 / 8" "1 \<le> k"
    by (rule sane_diff_near [OF w(2,3)])
  have "\<forall>s. diff_from_target max_target = F64 s \<and> 0 < s \<longrightarrow> s \<le> w \<or> w = 10 ^ 15"
    using choose_not_easier [OF assms _ _ w(1)] by blast
  with w t k show ?thesis by blast
qed

lemma channel_difficulty_in_range_witness:
  "\<exists>w tgt. choose_channel_diff demo_diffs 0x7f800000 (replicate 32 0) (F64 0) = F64 w \<and> 1 \<le> w \<and> target_from_diff (F64 w) = Some tgt"
  using channel_difficulty_in_range [of demo_diffs "F64 0" 0 "0x7f800000" "replicate 32 0"]
  by (auto simp: diff_config_ok_def demo_diffs_def)

text \<open>
  C12. A difficulty with a fraction is held to the next integer: a hash at its advertised target is
  refused as difficulty-too-low, though it meets the target the miner was sent.
\<close>

theorem fractional_difficulty_refused:
  assumes "1 \<le> d" and "d \<le> 10 ^ 15" and "sane_diff_int64 (F64 d) = Some k" and "d * (1 + 1 / 2 ^ 50) < of_int k"
    and "target_from_diff (F64 d) = Some tgt"
    and "ref_instance_by_id sd i = Some client" and "si_authorised client" and "si_diff client = k" and "si_old_diff client = k"
  shows "target_cmp_le tgt tgt \<le> 0 \<and>
    stratifier_sv2_account_share i w tgt (diff_from_target tgt) sd = ((Some (ascii ''difficulty-too-low''), False), sd)"
proof -
  have d64: "d \<le> 2 ^ 64" using assms(2) by simp
  have len: "length tgt = 32" using target_from_diff_some [OF assms(1) d64] assms(5) by simp
  obtain s where s: "diff_from_target tgt = F64 s" "s \<le> d * (1 + 1 / 2 ^ 50)"
    by (rule share_misses_target [OF assms(1) d64 assms(5) len order_refl])
  obtain k' where k': "sane_diff_int64 (F64 d) = Some k'" "of_int k' \<le> d + 9 / 8" "1 \<le> k'"
    by (rule sane_diff_near [OF assms(1,2)])
  have kb: "of_int k \<le> d + 9 / 8" "1 \<le> k" using k' assms(3) by simp_all
  have "(of_int k :: rat) \<le> of_int (2 ^ 53)" using kb(1) assms(2) by simp
  then have "k \<le> 2 ^ 53" unfolding of_int_le_iff .
  then have e: "f64_of_int k = F64 (of_int k)"
    using kb(2) by (intro int_rep_exact int_repI [of k k 0]) auto
  have lt: "s < of_int k" using assms(4) s(2) by (rule le_less_trans [rotated])
  have "target_cmp_le tgt tgt \<le> 0" using target_cmp_le_sgn [OF len len] by (simp add: sgn_if split: if_splits)
  then show ?thesis
    using assms(6-9) lt by (simp add: stratifier_sv2_account_share_def Let_def required_diff_def e s(1) f64_le_def)
qed

lemma fractional_difficulty_refused_witness:
  "\<exists>tgt sd. target_from_diff (F64 (3 / 2)) = Some tgt \<and> target_cmp_le tgt tgt \<le> 0 \<and>
    stratifier_sv2_account_share 7 1 tgt (diff_from_target tgt) sd = ((Some (ascii ''difficulty-too-low''), False), sd)"
proof -
  obtain tgt where t: "target_from_diff (F64 (3 / 2)) = Some tgt" using target_from_diff_some [of "3 / 2"] by auto
  obtain k where k: "sane_diff_int64 (F64 (3 / 2)) = Some k" "(3 / 2 :: rat) - 1 / 8 < of_int k" by (rule sane_diff_near [of "3 / 2"]) auto
  have "(1 :: rat) < of_int k" using k(2) by linarith
  then have "2 \<le> k" by simp
  then have "(2 :: rat) \<le> of_int k" by simp
  then have big: "(3 / 2 :: rat) * (1 + 1 / 2 ^ 50) < of_int k" by (rule less_le_trans [rotated]) simp
  let ?c = "\<lparr> si_id = 7, si_enonce1bin = [], si_authorised = True, si_diff = k, si_old_diff = k,
    si_diff_change_job_id = 0, si_user = 0 \<rparr>"
  let ?sd = "sdata_init [] 0 1\<lparr>sd_instances := [?c]\<rparr>"
  have "ref_instance_by_id ?sd 7 = Some ?c" by (simp add: ref_instance_by_id_def)
  from fractional_difficulty_refused [OF _ _ k(1) big t this] t show ?thesis by auto
qed

text \<open>
  C13. A header-only channel is sent its merkle root with every word flipped, while the share is
  hashed over the root itself: the two agree only for a root all of whose words read the same
  both ways.
\<close>

theorem standard_root_not_hashed:
  assumes "header_of wb v prev t nbits" and "length (gw_merklebin wb) \<le> GENWORK_MAX_MERKLE_DEPTH"
    and "1 \<le> gw_enonce1varlen wb" and "gw_enonce1constlen wb = 0"
    and "stratifier_sv2_snapshot_work solo (Some wb) (Some user) = (Some snap, Some user')"
    and "submission_diff cnd solo (us_userwbs user') enonce1 wb (bin2hex (replicate (gw_enonce2varlen wb) 0))
      ntime version True (hex8 nonce) = Some su"
  shows "\<exists>r. length r = 32 \<and> su_swap su = block_header version (rev prev) r ntime nbits nonce \<and>
    stratifier_sv2_merkle_root enonce1 snap = flip_words r \<and>
    (stratifier_sv2_merkle_root enonce1 snap = r \<longleftrightarrow> (\<forall>k<8. take 4 (drop (4 * k) r) = rev (take 4 (drop (4 * k) r))))"
proof -
  let ?r = "sv2_merkle_root_from_path (gen_hash (ws_coinb1 snap @ take (ws_enonce1varlen snap) enonce1 @
      replicate (ws_enonce2varlen snap) 0 @ ws_coinb2 snap)) (ws_merklebin snap)"
  have n: "1 \<le> ws_enonce1varlen snap" "ws_enonce2varlen snap = gw_enonce2varlen wb"
    using assms(3) by (rule_tac snapshot_some [OF assms(5)], simp)+
  have l: "length ?r = 32" by (simp add: length_root)
  have h: "su_swap su = block_header version (rev prev) ?r ntime nbits nonce"
    using snapshot_header [OF assms(1,2,5,6)] assms(4) n by (simp add: hex_field_bin2hex)
  have f: "stratifier_sv2_merkle_root enonce1 snap = flip_words ?r" by (rule standard_root_flipped [OF n(1)])
  show ?thesis using l h f flip_words_same [OF l] by metis
qed

lemma standard_root_not_hashed_witness:
  "\<exists>(su :: submission) (snap :: sv2_work_snap) r. su_swap su = block_header 0x20000000 (replicate 32 0) r 1760000007 0x1d00ffff 42 \<and>
    stratifier_sv2_merkle_root [1, 2, 3, 4] snap = flip_words r"
proof -
  obtain wb snap where w: "header_of wb 0x20000000 (replicate 32 0) 1760000000 0x1d00ffff"
    "length (gw_merklebin wb) \<le> GENWORK_MAX_MERKLE_DEPTH"
    "stratifier_sv2_snapshot_work False (Some wb) (Some \<lparr> us_txnbin = [], us_btcaddress = False, us_userwbs = [] \<rparr>) =
      (Some snap, Some \<lparr> us_txnbin = [], us_btcaddress = False, us_userwbs = [] \<rparr>)"
    "gw_enonce1constlen wb = 0" "gw_enonce1varlen wb = 4" by (rule demo_snapshot)
  have one: "1 \<le> gw_enonce1varlen wb" by (simp add: w(5))
  obtain su where su: "submission_diff (F64 1) False (us_userwbs \<lparr> us_txnbin = [], us_btcaddress = False, us_userwbs = [] \<rparr>)
    [1, 2, 3, 4] wb (bin2hex (replicate (gw_enonce2varlen wb) 0)) 1760000007 0x20000000 True (hex8 42) = Some su" by (rule demo_submission)
  show ?thesis
    using standard_root_not_hashed [OF w(1,2) one w(4,3) su] by auto
qed

section \<open>Shares of custom jobs, and changing difficulties\<close>

text \<open>
  C14. A share of a custom job can be credited again: it is not bound to its workbase, so once the
  oldest workbase is aged out, with the hashes of its shares, the same share is accepted a second
  time, also while the tip has not changed.
\<close>

theorem custom_share_replayed:
  assumes "stratifier_sv2_account_share i w h sdiff sd = ((None, b), sd1)" and "w \<noteq> 0"
    and "sd_workbases sd1 = old # rest" and "rest \<noteq> []" and "gw_id old = w" and "gw_readcount old = 0"
    and "gw_gentime old < now - 600" and "w \<noteq> sd_workbase_id sd1" and "add_base solo now wb sd1 = (nb, sd2)"
  shows "(\<not> nb \<longrightarrow> sd_blockchange_id sd2 = sd_blockchange_id sd1) \<and>
    (\<exists>b' sd3. stratifier_sv2_account_share i w h sdiff sd2 = ((None, b'), sd3))"
  using account_again [OF assms] by (rule_tac add_base_parts [OF assms(9)]) simp

definition demo_genwork :: "int \<Rightarrow> int \<Rightarrow> genwork" where
  "demo_genwork i t = \<lparr> gw_id = i, gw_readcount = 0, gw_gentime = t, gw_diff = F64 1, gw_network_diff = F64 1,
     gw_version = 0x20000000, gw_prevhash = [], gw_ntime = [], gw_ntime32 = 0, gw_bbversion = [], gw_nbit = [],
     gw_height = 1, gw_txns = 0, gw_txn_data = [], gw_merklebin = [], gw_coinb1bin = [], gw_enonce1constlen = 0,
     gw_enonce1varlen = 4, gw_enonce2varlen = 8, gw_coinb2bin = [], gw_coinb3bin = [], gw_headerbin = [] \<rparr>"

definition demo_tables :: sdata_t where
  "demo_tables = \<lparr> sd_instances = [\<lparr> si_id = 7, si_enonce1bin = [], si_authorised = True, si_diff = 1, si_old_diff = 1,
       si_diff_change_job_id = 0, si_user = 0 \<rparr>],
     sd_users = [], sd_workbases = [demo_genwork 1 0, demo_genwork 2 300], sd_current = Some 2, sd_workbase_id = 3,
     sd_blockchange_id = 1, sd_lasthash = [], sd_shares = [], sd_enonce1_64 = 0 \<rparr>"

lemma f64_of_one [simp]: "f64_of_int 1 = F64 1"
  using int_rep_exact [of 1] int_repI [of 1 1 0] by simp

lemma custom_share_replayed_witness:
  "\<exists>sd1 sd2 b b' sd3. stratifier_sv2_account_share 7 1 [1] (F64 5) demo_tables = ((None, b), sd1) \<and>
    add_base False 700 (demo_genwork 0 0) sd1 = (False, sd2) \<and>
    stratifier_sv2_account_share 7 1 [1] (F64 5) sd2 = ((None, b'), sd3)"
proof -
  obtain b sd1 where a: "stratifier_sv2_account_share 7 1 [1] (F64 5) demo_tables = ((None, b), sd1)"
    by (simp add: stratifier_sv2_account_share_def ref_instance_by_id_def demo_tables_def required_diff_def f64_le_def new_share_def Let_def)
  then have sd1: "sd1 = demo_tables\<lparr>sd_shares := [([1], 1)]\<rparr>"
    using account_accepted [OF a] by (simp add: demo_tables_def)
  obtain nb sd2 where ad: "add_base False 700 (demo_genwork 0 0) sd1 = (nb, sd2)" by force
  then have "\<not> nb" by (auto simp: add_base_def Let_def sd1 demo_tables_def demo_genwork_def)
  moreover have "\<exists>b' sd3. stratifier_sv2_account_share 7 1 [1] (F64 5) sd2 = ((None, b'), sd3)"
    using custom_share_replayed [OF a _ _ _ _ _ _ _ ad, of "demo_genwork 1 0" "[demo_genwork 2 300]"]
    by (simp add: sd1 demo_tables_def demo_genwork_def)
  ultimately show ?thesis using a ad by auto
qed

text \<open>
  C15. After a difficulty changes, a share of work no newer than the tip's current workbase is held to
  the smaller of the old and the new difficulty, and a share of later work to the new one.
\<close>

theorem difficulty_change_grace:
  assumes "stratifier_sv2_set_diff i (F64 d) sd = Some sd'" and "ref_instance_by_id sd i = Some client" and "0 < i"
    and "1 \<le> d" and "d \<le> 10 ^ 15" and "current_workbase sd = Some cur" and "w \<noteq> 0"
  shows "\<exists>client' k. ref_instance_by_id sd' i = Some client' \<and> sane_diff_int64 (F64 d) = Some k \<and>
    required_diff client' w = (if w \<le> gw_id cur \<and> 0 < si_diff client
      then (if f64_lt (f64_of_int k) (f64_of_int (si_diff client)) then f64_of_int k else f64_of_int (si_diff client))
      else f64_of_int k)"
  by (rule required_after_set_diff [OF assms])

lemma difficulty_change_grace_witness:
  "\<exists>sd' client' k. stratifier_sv2_set_diff 7 (F64 1000) demo_tables = Some sd' \<and>
    ref_instance_by_id sd' 7 = Some client' \<and> sane_diff_int64 (F64 1000) = Some k \<and> required_diff client' 3 = f64_of_int k"
proof -
  obtain k where k: "sane_diff_int64 (F64 1000) = Some k" "1 \<le> k" by (rule sane_diff_near [of 1000]) auto
  obtain sd' where s: "stratifier_sv2_set_diff 7 (F64 1000) demo_tables = Some sd'"
    using k by (simp add: stratifier_sv2_set_diff_def)
  have c: "ref_instance_by_id demo_tables 7 = Some (hd (sd_instances demo_tables))"
    "current_workbase demo_tables = Some (demo_genwork 2 300)"
    by (simp_all add: ref_instance_by_id_def current_workbase_def find_workbase_def demo_tables_def demo_genwork_def)
  show ?thesis
    using difficulty_change_grace [OF s c(1) _ _ _ c(2), of 3] s by (auto simp: demo_genwork_def)
qed

text \<open>
  C16. A difficulty set by the share rate is at least one and at most the maximum configured and the
  network difficulty, and not below the minimum unless the network difficulty is.
\<close>

theorem vardiff_in_bounds:
  assumes "vardiff_target dsps cur fl mindiff maxdiff (F64 n) = Some k" and "k \<noteq> 0"
    and "0 \<le> mindiff" and "0 < maxdiff" and "maxdiff \<le> 2 ^ 53"
  shows "1 \<le> k \<and> of_int k \<le> n \<and> k \<le> maxdiff \<and> (min mindiff maxdiff \<le> k \<or> n < of_int (k + 1))"
  by (rule vardiff_range [OF assms])

lemma vardiff_in_bounds_witness:
  "\<exists>k. vardiff_target (F64 0) 1 0 42 1000000 (F64 5000) = Some k \<and> 42 \<le> k \<and> k \<le> 5000"
proof -
  have z: "f64_round 0 = F64 0" by (simp add: f64_round_def f64_mag_def)
  have "f64_of_int 42 = F64 42" using int_rep_exact [of 42] int_repI [of 42 42 0] by simp
  moreover have "\<not> f64_lt (f64_round (15 / 100)) (F64 0)"
    using mag_small [of "15 / 100"] f64_mag_nonneg [of "15 / 100"] by simp
  moreover obtain c where "f64_round (333 / 100) = F64 c" using mag_small [of "333 / 100"] by auto
  ultimately have "vardiff_target (F64 0) 1 0 42 1000000 (F64 5000) = Some 42"
    by (simp add: vardiff_target_def vardiff_clamp_def Let_def z f64_lround_def f64_to_i64_def rat_trunc_def)
  from vardiff_in_bounds [OF this] this show ?thesis by simp
qed

section \<open>The encrypted transport\<close>

text \<open>
  C17. Frames encrypted one after the other by one peer (\<open>sv2_conn_encrypt\<close>), cut into socket
  reads at any byte positions, are handed out by the other peer's \<open>sv2_conn_feed\<close> in order, each
  once and unchanged, no read is refused and the buffer is empty at the end.  This holds for
  every AEAD with the documented laws, every payload bound \<open>P\<close> up to the frame maximum with the
  receive ceiling the code computes from it, and as long as the sender's nonce counter stays
  below the watermark.
\<close>

theorem transport_delivers_stream:
  assumes "aead_laws seal opn" and "unat P \<le> 0xffffff"
    and "ns_handshake_done (cn_noise tx)"
    and "room_for (ns_send_cs (cn_noise tx)) (total_ops fs)"
    and "ns_handshake_done (cn_noise rx)" and "\<not> ns_hdr_pending (cn_noise rx)"
    and "ns_recv_cs (cn_noise rx) = ns_send_cs (cn_noise tx)" and "cn_rx rx = []"
    and "conn_ok rx" and "cn_rx_max rx = sv2_rx_max_for_payload P"
    and "list_all (\<lambda>f. valid_frame f \<and> payload_len f \<le> unat P) fs"
    and "encrypt_all seal tx fs = Some (concat segs)"
    and "list_all (\<lambda>d. length d \<le> SV2_RX_READ_CHUNK) segs"
  shows "\<exists>rx'. feed_segments opn rx segs = Some (True, fs, rx') \<and> cn_rx rx' = []"
  by (rule noise_stream_delivered [OF assms])

lemma transport_delivers_stream_witness:
  "\<exists>rx'. feed_segments plain_open (sv2_conn_new demo_session) demo_segments =
    Some (True, [demo_frame], rx') \<and> cn_rx rx' = []"
  by (rule transport_delivers_stream [where seal = plain_seal and P = "of_nat SV2_MAX_MINING_PAYLOAD"
        and tx = "sv2_conn_new demo_session"])
     (simp_all only: plain_aead demo_sealed,
      simp_all add: sv2_conn_new_def demo_session_def demo_segments_def demo_frame_valid
        room_for_def total_ops_def nonce_limit_eq cs_init_key_def conn_ok_def SV2_RX_CAP_INITIAL_def
        SV2_RX_READ_CHUNK_def SV2_MAX_MINING_PAYLOAD_def sv2_rx_max_for_payload_def)

section \<open>The handshake throttle\<close>

text \<open>
  C18. In every interleaving of reservations and releases, no address is granted more than 59
  handshakes in any 60 consecutive seconds, whatever other addresses do to the table.
\<close>

theorem handshake_rate_limited:
  assumes "hs_reach st granted clock"
  shows "length (filter (\<lambda>(b, t). b = addr \<and> T \<le> t \<and> t < T + 60) granted) \<le> 59"
  by (rule hs_reach_rate [OF assms])

lemma handshake_rate_limited_witness:
  "\<exists>st. hs_reach st [([49], 5)] 5 \<and>
    length (filter (\<lambda>(b, t). b = [49] \<and> 0 \<le> t \<and> t < 0 + 60) [([49 :: byte], 5 :: int)]) \<le> 59"
proof -
  obtain st where "sv2_handshake_try_reserve [49] 5 hs_init = (True, st)"
    using demo_reserve by (metis (full_types) prod.collapse)
  from hs_reach.reserve [OF hs_reach.start, of 0 5 "[49]", OF _ _ this]
  have "hs_reach st [([49], 5)] 5" by simp
  from this handshake_rate_limited [OF this, of "[49]" 0] show ?thesis by blast
qed

section \<open>Merkle branches\<close>

text \<open>
  C19. The branch \<open>cashstratum_merkle_branch\<close> computes in place, without knowing leaf zero, folds
  with every coinbase txid to the root of the full list of leaves as
  \<open>sv2_merkle_root_from_txids\<close> computes it, and has at most 32 steps.
\<close>

theorem merkle_branch_is_root:
  assumes "cashstratum_merkle_branch hashes (Suc (length txids)) = Some branch"
    and "length hashes = length txids + 2"
    and "\<And>j. j < length txids \<Longrightarrow> hashes ! Suc j = txids ! j"
  shows "sv2_merkle_root_from_path coinbase branch = sv2_merkle_root_from_txids (coinbase # txids) \<and>
    length branch = merkle_required (Suc (length txids)) \<and> length branch \<le> GENWORK_MAX_MERKLE_DEPTH"
  by (rule merkle_branch_root [OF assms])

lemma merkle_branch_is_root_witness:
  "\<exists>branch. cashstratum_merkle_branch [[], [1], [2], []] 3 = Some branch \<and>
    sv2_merkle_root_from_path [0] branch = sv2_merkle_root_from_txids [[0], [1], [2]]"
proof -
  obtain branch where b: "cashstratum_merkle_branch [[], [1], [2], []] 3 = Some branch"
    using merkle_branch_some_iff [of "[[], [1], [2], []]" 3] by auto
  then have b': "cashstratum_merkle_branch [[], [1], [2], []] (Suc (length [[1], [2 :: byte]])) = Some branch"
    by (simp add: numeral_3_eq_3)
  have rows: "[[], [1], [2], []] ! Suc j = [[1], [2 :: byte]] ! j" if "j < length [[1], [2 :: byte]]" for j
    using that by (auto simp: less_Suc_eq)
  have "sv2_merkle_root_from_path [0] branch = sv2_merkle_root_from_txids ([0] # [[1], [2]])"
    using merkle_branch_is_root [OF b' _ rows, of "[0]"] by simp
  with b show ?thesis by blast
qed

section \<open>Coinbases\<close>

text \<open>
  C20. A declared prefix, any extranonce that fills the hole and the declared suffix make a
  transaction whose txid, legacy or with the BIP141 witness, is the double hash of the coinbase
  that \<open>sv2_cb_assemble\<close> builds for the custom job of the same specification.
\<close>

theorem declared_coinbase_txid:
  assumes "wf_spec spec" and "sv2_cb_declare_parts spec = Some (pre, suf)"
    and "length en1 = unat l1" and "length ext = unat l2"
    and "unat l1 + unat l2 = unat (cs_hole_len spec)"
    and "outputs_of (cs_outputs spec) = Some (outs, [])" and "length outs \<le> 100000"
    and "sv2_cb_assemble outsz (cs_version spec) (cs_nsequence spec) (cs_locktime spec)
      (cs_ssig_prefix spec, cs_ssig_prefix_len spec) (en1, l1) (ext, l2)
      (cs_outputs spec, cs_outputs_len spec) = Some cb"
  shows "sv2_bitcoin_txid (pre @ en1 @ ext @ suf) = Some (gen_hash cb)"
  by (rule declared_txid [OF assms])

lemma declared_coinbase_txid_witness:
  "\<exists>pre suf cb. sv2_cb_declare_parts demo_spec = Some (pre, suf) \<and>
    sv2_bitcoin_txid (pre @ [1, 2, 3, 4] @ [5, 6, 7, 8] @ suf) = Some (gen_hash cb)"
proof -
  obtain pre suf where p: "sv2_cb_declare_parts demo_spec = Some (pre, suf)"
    using demo_parts by blast
  obtain cb where "sv2_cb_assemble 200 (cs_version demo_spec) (cs_nsequence demo_spec)
      (cs_locktime demo_spec) (cs_ssig_prefix demo_spec, cs_ssig_prefix_len demo_spec)
      ([1, 2, 3, 4], 4) ([5, 6, 7, 8], 4) (cs_outputs demo_spec, cs_outputs_len demo_spec) = Some cb"
    using demo_asm by blast
  from declared_coinbase_txid [OF demo_wf p _ _ _ _ _ this, where outs = "[(100, [0x51], 1)]"]
  have "sv2_bitcoin_txid (pre @ [1, 2, 3, 4] @ [5, 6, 7, 8] @ suf) = Some (gen_hash cb)"
    using demo_outputs_read by (simp add: demo_spec_def)
  with p show ?thesis by blast
qed

text \<open>
  C21. The outputs \<open>sv2_cb_build_outputs\<close> writes are exactly: the pool's first script with what
  the fixed outputs leave of \<open>value\<close>, the pool's other outputs unchanged, then the commitment; the
  payouts add up to \<open>value\<close>, no unit more or less.
\<close>

theorem built_outputs_conserve_value:
  assumes "sv2_cb_build_outputs outsz payouts value commitment clen = Some out"
    and "read_seq read_output (if clen \<noteq> 0 then 1 else 0) (take (unat clen) commitment) = Some (cs, [])"
  shows "\<exists>v0 s0 l0 outs q.
    outputs_of payouts = Some ((v0, s0, l0) # outs, q) \<and>
    outputs_of out = Some ((value - of_nat (out_value outs), s0, l0) # outs @ cs, []) \<and>
    out_value outs \<le> unat value \<and>
    out_value ((value - of_nat (out_value outs), s0, l0) # outs) = unat value"
  by (rule build_outputs_reads_back [OF assms])

lemma built_outputs_conserve_value_witness:
  "\<exists>out v0 s0 l0 outs q. sv2_cb_build_outputs 200 demo_payouts 100 demo_commitment 10 = Some out \<and>
    outputs_of demo_payouts = Some ((v0, s0, l0) # outs, q) \<and>
    out_value ((100 - of_nat (out_value outs), s0, l0) # outs) = 100"
proof -
  obtain out where out: "sv2_cb_build_outputs 200 demo_payouts 100 demo_commitment 10 = Some out"
    using demo_build by blast
  have "unat (100 :: u64) = 100" by simp
  with built_outputs_conserve_value [OF out demo_comm] out show ?thesis by metis
qed

section \<open>The job declaration server\<close>

text \<open>
  C22. In every state the server reaches, for any surroundings and any random values: the token
  count and byte total are exact and within 4096 tokens, 512 MiB and 64 MiB per client; a declared
  token holds a complete template whose transactions hash to the declared wtxids and whose block
  fits 4 MiB, and accounts for exactly what it retains, an undeclared one holds nothing; the
  transaction cache has each transaction once under its hash, within 65536 entries and 256 MiB;
  the coalesce table, the waiting declarations (128, 8 per client) and the validation queue (4,
  the number of checks in flight) are within their limits; clients are distinct and have one
  reference between messages.
\<close>

theorem jd_tables_consistent:
  assumes "jd_reach E F st"
  shows "jd_token_count st = int (length (jd_tokens st)) \<and> length (jd_tokens st) \<le> 4096 \<and>
    unat (jd_token_snapshot_bytes st) = held (jd_tokens st) \<and> held (jd_tokens st) \<le> 2 ^ 29 \<and>
    (\<forall>cid. held_by cid (jd_tokens st) \<le> 2 ^ 26) \<and>
    list_all (\<lambda>t. if tk_declared t then material_ok t \<and> unat (tk_snapshot_bytes t) = retained t
      else tk_snapshot_bytes t = 0) (jd_tokens st) \<and>
    tx_cache_count st = int (length (tx_cache st)) \<and> length (tx_cache st) \<le> 65536 \<and>
    unat (tx_cache_bytes st) = cached (tx_cache st) \<and> cached (tx_cache st) \<le> 2 ^ 28 \<and>
    list_all (\<lambda>e. ce_wtxid e = gen_hash (ce_raw e)) (tx_cache st) \<and> distinct (map ce_wtxid (tx_cache st)) \<and>
    length (jd_coalesce st) \<le> 256 \<and> distinct (map co_thash (jd_coalesce st)) \<and>
    list_all pend_ok (pending_declares st) \<and> length (pending_declares st) \<le> 128 \<and>
    (\<forall>cid. pending_count_client_locked cid st \<le> 8) \<and>
    list_all pend_ok (jd_validate_q st) \<and> length (jd_validate_q st) \<le> 4 \<and>
    jd_checkblock_inflight st = int (length (jd_validate_q st)) \<and>
    distinct (map jc_client_id (jd_clients st)) \<and> list_all (\<lambda>c. jc_refs c = 1) (jd_clients st)"
  using reach_ok [OF assms]
  by (simp add: jd_ok_def tables_ok_def queue_ok_def clients_ok_def tokens_exact_def tokens_bounded_def
      cache_ok_def cache_exact_def coalesce_ok_def token_sound_def list_all_iff)

lemma jd_tables_consistent_witness:
  "\<exists>st :: jd_state. jd_tokens st = [demo_t1] \<and> jd_validate_q st = [demo_pending] \<and> jd_checkblock_inflight st = 1 \<and>
    unat (jd_token_snapshot_bytes st) = held [demo_t1]"
proof -
  obtain addr st where r: "jd_reach (pool_pays pool_script) (\<lambda>draws _. set draws \<subseteq> {demo_token}) st" "demo_s3 st"
    by (rule demo_run)
  show ?thesis
    by (rule exI [of _ st]) (use jd_tables_consistent [OF r(1)] r(2) in \<open>simp add: demo_s3_def\<close>)
qed



text \<open>
  C24. Every frame, in every state the server reaches, is handled to the end, and so is every
  queued validation: the loops that make room and that draw a token end, as long as the random
  generator still has more different values than the table has places.
\<close>

theorem jd_handlers_return:
  assumes "jd_reach E F st" and "distinct draws" and "4096 < length draws"
  shows "(\<exists>reply st'. sv2_jd_handle_frame env draws cid frame st = Some (reply, st')) \<and>
    (\<exists>reply st'. jd_validate_process env draws i st = Some (reply, st'))"
proof -
  have ok: "jd_ok (\<lambda>_. True) token_sound st" by (rule reach_ok [OF assms(1)])
  then have "base.ok st" by (simp add: jd_ok_def)
  moreover have d: "fresh_draws draws" using assms(2,3) by (simp add: fresh_draws_def)
  ultimately show ?thesis using frame_ends [OF ok d] validate_ends [of st draws env i] by fastforce
qed

lemma jd_handlers_return_witness:
  "\<exists>st. demo_s3 st \<and> (\<exists>reply st'. sv2_jd_handle_frame (demo_env []) (map (\<lambda>n. replicate n 0) [0..<5000]) 1
    (framed SV2_MSG_DECLARE_MINING_JOB declare_payload) st = Some (reply, st'))"
proof -
  obtain addr st where r: "jd_reach (pool_pays pool_script) (\<lambda>draws _. set draws \<subseteq> {demo_token}) st" "demo_s3 st"
    by (rule demo_run)
  have "distinct (map (\<lambda>n. replicate n (0 :: byte)) [0..<5000])"
    by (simp add: distinct_map inj_on_def)
  from jd_handlers_return [OF r(1) this, of "demo_env []" 1] r(2) show ?thesis by force
qed

text \<open>
  C25. A queued declaration whose candidate block assembles and is accepted by the node is
  answered with success, and its token becomes a declared one that holds exactly the declared
  template, provided the client still has the undeclared token and room for what it retains.
\<close>

theorem jd_checked_template_declared:
  assumes "jd_reach E F st" and "i < length (jd_validate_q st)" and "p = jd_validate_q st ! i"
    and "length (pd_token p) \<le> 255"
    and "enonce_tries env p = el # els" and "assemble_candidate_block env p el = Some block"
    and "env_svc_ready env" and "env_check_block env block = Some (True, reason)"
    and "s = expire_old_tokens_locked (env_now2 env) st"
    and "find_token_locked (pd_token p) (jd_tokens s) = Some j"
    and "tk_client_id (jd_tokens s ! j) = pd_client_id p" and "\<not> tk_declared (jd_tokens s ! j)"
    and "token_snapshot_may_add_locked (pd_client_id p) (pending_snapshot_bytes p) s"
  shows "\<exists>bs st'. jd_validate_process env draws i st = Some (Some bs, st') \<and>
    carries SV2_MSG_DECLARE_MINING_JOB_SUCCESS sv2_decode_declare_mining_job_success
      (declare_success_message (pd_request_id p) (pd_token p)) bs \<and>
    find_token_locked (pd_token p) (jd_tokens st') = Some j \<and> holds_template p el (jd_tokens st' ! j)"
proof -
  have "pend_ok p" using reach_ok [OF assms(1)] assms(2,3) by (simp add: jd_ok_def queue_ok_def)
  from validated [OF assms(2,3) this assms(4-13)] show ?thesis .
qed

lemma jd_checked_template_declared_witness:
  "\<exists>addr st bs st'. demo_s3 st \<and> jd_validate_process (demo_env addr) [] 0 st = Some (Some bs, st') \<and>
    holds_template demo_pending 12 (jd_tokens st' ! 0)"
proof -
  obtain addr :: bytes and st where r: "jd_reach (pool_pays pool_script) (\<lambda>draws _. set draws \<subseteq> {demo_token}) st"
    and q: "demo_s3 st"
    by (rule demo_run)
  obtain block where b: "assemble_candidate_block (demo_env addr) demo_pending 12 = Some block"
    using demo_assembled by blast
  have qi: "0 < length (jd_validate_q st)" "demo_pending = jd_validate_q st ! 0" using q by (simp_all add: demo_s3_def)
  have e: "env_svc_ready (demo_env addr)" "env_check_block (demo_env addr) block = Some (True, [])"
    "expire_old_tokens_locked 100 st = expire_old_tokens_locked (env_now2 (demo_env addr)) st"
    by (simp_all add: demo_env_def)
  have t: "tk_client_id (jd_tokens (expire_old_tokens_locked 100 st) ! 0) = pd_client_id demo_pending"
    "\<not> tk_declared (jd_tokens (expire_old_tokens_locked 100 st) ! 0)"
    using demo_kept(1) [OF q] by (simp_all add: demo_t1_def demo_pending_def)
  from jd_checked_template_declared [OF r qi demo_pend_ok(2) demo_tries b e demo_kept(2) [OF q] t demo_kept(3) [OF q]]
  show ?thesis using q by blast
qed

text \<open>
  C26. Whatever a frame is and whatever the state, the reply is nothing or exactly one frame of one
  of the six message types the server sends, without extension, as long as its header says and
  at most 65536 bytes of payload.
\<close>

theorem jd_reply_is_frame:
  assumes "sv2_jd_handle_frame env draws cid frame st = Some (Some bs, st')"
  shows "\<exists>h. sv2_decode_header bs = Some h \<and> fr_extension_type h = 0 \<and> fr_msg_type h \<in>
      {SV2_MSG_SETUP_CONNECTION_SUCCESS, SV2_MSG_SETUP_CONNECTION_ERROR,
       SV2_MSG_ALLOCATE_MINING_JOB_TOKEN_SUCCESS, SV2_MSG_PROVIDE_MISSING_TRANSACTIONS,
       SV2_MSG_DECLARE_MINING_JOB_SUCCESS, SV2_MSG_DECLARE_MINING_JOB_ERROR} \<and>
    length bs = SV2_FRAME_HEADER_LEN + unat (fr_msg_length h) \<and> unat (fr_msg_length h) \<le> 65536"
  using sent_handle_frame [OF assms] by (simp add: sent_def server_types_def)

lemma jd_reply_is_frame_witness:
  "\<exists>h. sv2_decode_header [0, 0, 1, 6, 0, 0, 2, 0, 0, 0, 0, 0] = Some h \<and> unat (fr_msg_length h) = 6"
  using jd_reply_is_frame [OF demo_setup_step] by (auto simp: SV2_FRAME_HEADER_LEN_def)

text \<open>
  C27. What a client of a shared pool does is accepted: it builds its coinbase outputs from the
  list it was handed with its token, so that the whole claimable value goes to the pool's script
  and commitments carry no value, and declares prefix and suffix of the coinbase; the server
  derives the hole the client left and finds the coinbase funded.
\<close>

theorem jd_handed_out_accepted:
  assumes "pool_pays script env" and "wf_spec spec" and "sv2_cb_declare_parts spec = Some (pre, suf)"
    and "sv2_cb_build_outputs outsz (build_allocate_outputs env 64 user) amount commitment clen = Some (cs_outputs spec)"
    and "read_seq read_output (if clen \<noteq> 0 then 1 else 0) (take (unat clen) commitment) = Some (cs, [])"
    and "\<forall>(v, s, l)\<in>set cs. v = 0" and "amount \<noteq> 0" and "pool_min_payout env \<le> amount"
  shows "derive_coinbase_enonce_len pre = Some (cs_hole_len spec) \<and> declare_funded env pre suf script"
  using client_coinbase_allowed [OF assms] derived_gap_is_hole [OF assms(2,3)] by blast

lemma jd_handed_out_accepted_witness:
  "\<exists>env pre suf. sv2_cb_declare_parts (demo_spec\<lparr>cs_outputs := demo_built, cs_outputs_len := 45\<rparr>) =
    Some (pre, suf) \<and> declare_funded env pre suf pool_script"
proof -
  let ?spec = "demo_spec\<lparr>cs_outputs := demo_built, cs_outputs_len := 45\<rparr>"
  obtain addr where a: "bch_address_to_script addr bitcoincash = Some pool_script"
    by (rule demo_run)
  have parts: "\<exists>pre suf. sv2_cb_declare_parts ?spec = Some (pre, suf)"
    by (simp add: sv2_cb_declare_parts_def demo_spec_def Let_def SV2_CB_MAX_SCRIPTSIG_def UINT16_MAX_def
        sv2_compact_size_len_def)
  then obtain pre suf where p: "sv2_cb_declare_parts ?spec = Some (pre, suf)" by blast
  have wf: "wf_spec ?spec"
    by (simp add: wf_spec_def demo_spec_def demo_built_def pool_script_def)
  have b: "sv2_cb_build_outputs 200 (build_allocate_outputs (demo_env addr) 64 []) 5000000000 demo_commitment 10 =
      Some (cs_outputs ?spec)"
    unfolding demo_outputs(2) [OF a] using demo_builds by (simp add: demo_commitment_def)
  have m: "pool_min_payout (demo_env addr) \<le> 5000000000" by (rule pool_min_payout_le)
  from jd_handed_out_accepted [OF demo_outputs(1) [OF a] wf p b demo_comm _ _ m] p show ?thesis by auto
qed

text \<open>
  The templates tried for a solution are the eight newest declared ones of the client, newest
  first, and of equally old ones those that stand first in the table.
\<close>

theorem jd_newest_templates_first:
  "push_candidates cid toks = take 8 (sort_key (\<lambda>t. - tk_created t)
    (filter (\<lambda>t. tk_client_id t = cid \<and> tk_declared t \<and> tk_coinbase_tx_prefix t \<noteq> None) toks))"
  using push_candidates_newest [of cid toks] by (simp add: own_declared_def [abs_def])

text \<open>
  C28. A solved block rebuilt for a declared token of a reachable state is the block of that
  template: the header with the merkle root of coinbase and transactions, the count, the coinbase
  with the miner's extranonce in the gap, and the transactions in declared order; it is refused
  only if one of them does not parse.
\<close>

theorem jd_rebuilt_block:
  assumes "jd_reach E F st" and "find_token_locked token (jd_tokens st) = Some i" and "t = jd_tokens st ! i"
    and "tk_declared t" and "token \<noteq> []" and "length en = unat (tk_enonce_len t)" and "en \<noteq> []"
  shows "sv2_jd_rebuild_solved_block token en version ntime nonce nbits prev_hash st = Some block \<longleftrightarrow>
    (let txs = (the (tk_coinbase_tx_prefix t) @ en @ tk_coinbase_tx_suffix t) # map the (tk_tx_raws t)
     in \<exists>ids. map sv2_bitcoin_txid txs = map Some ids \<and>
       block = block_header (if version \<noteq> 0 then version else tk_version t) prev_hash
           (sv2_merkle_root_from_txids ids) ntime nbits nonce @
         sv2_write_compact_size (of_nat (length ids)) @ concat txs)"
proof -
  have "i < length (jd_tokens st)" using find_token_Some [OF assms(2)] by blast
  then have "material_ok t"
    using reach_ok [OF assms(1)] assms(3,4) by (simp add: jd_ok_def tables_ok_def token_sound_def)
  from rebuild_declared [OF assms(2-4) this assms(5-7)] show ?thesis .
qed

lemma jd_rebuilt_block_witness:
  "\<exists>st block. sv2_jd_rebuild_solved_block demo_token (replicate 12 0) 0 1 2 3 (replicate 32 0) st = Some block"
proof -
  obtain addr st tok where r: "jd_reach (pool_pays pool_script) (\<lambda>draws _. set draws \<subseteq> {demo_token}) st"
    and f: "find_token_locked demo_token (jd_tokens st) = Some 0" "tok = jd_tokens st ! 0"
    and h: "holds_template demo_pending 12 tok"
    by (rule demo_declared)
  obtain t0 where t0: "sv2_bitcoin_txid (demo_prefix @ replicate 12 0 @ demo_suffix) = Some t0"
    using demo_txid by blast
  have tok: "tk_declared tok" "tk_enonce_len tok = 12" "tk_coinbase_tx_prefix tok = Some demo_prefix"
    "tk_coinbase_tx_suffix tok = demo_suffix" "tk_tx_raws tok = []"
    using h by (simp_all add: holds_template_def demo_pending_def)
  have "demo_token \<noteq> []" "length (replicate 12 (0 :: byte)) = unat (tk_enonce_len tok)" "replicate 12 (0 :: byte) \<noteq> []"
    by (simp_all add: demo_token_def tok)
  from jd_rebuilt_block [OF r f tok(1) this, of 0 1 2 3 "replicate 32 0"] show ?thesis
    by (auto simp: tok t0 Let_def Cons_eq_map_conv)
qed

text \<open>
  An answer that brings every missing transaction ends the wait of a declaration: it leaves
  the waiting list complete and goes to validation, or is refused because its transactions are
  more than a block may hold.
\<close>

theorem jd_answer_completes:
  assumes "jd_ok (\<lambda>_. True) token_sound st"
    and "find_client cid st = Some c" and "jc_setup_ok c"
    and "sv2_decode_provide_missing_transactions_success payload = Some m"
    and "first_index (\<lambda>p. pd_client_id p = cid \<and> pd_request_id p = pms_request_id m \<and> pd_awaiting_missing p)
      (pending_declares st) = Some i" and "p = pending_declares st ! i"
    and "\<forall>k<pd_wtxid_count p. pd_tx_raws p ! k = None \<longrightarrow>
      (\<exists>tx\<in>set (pms_transactions m). tx \<noteq> [] \<and> gen_hash tx = wtxid_at (pd_wtxid_list p) k)"
  shows "\<exists>stored q s. fills p q \<and> pend_ok q \<and> (stored \<longrightarrow> pending_txs_complete q) \<and>
    pending_declares s = remove_nth i (pending_declares st) \<and>
    handle_provide_missing_success env draws cid payload st =
      (if stored then start_declare_validation env draws q s
       else Some (error_declare (pd_request_id p) (ascii ''invalid-template'') s))"
  by (rule answered [OF assms])

lemma jd_answer_completes_witness:
  "\<exists>stored q s. fills waiting q \<and> (stored \<longrightarrow> pending_txs_complete q) \<and> pending_declares s = [] \<and>
    handle_provide_missing_success (demo_env []) [] 1 answer_payload waiting_state =
      (if stored then start_declare_validation (demo_env []) [] q s
       else Some (error_declare 9 (ascii ''invalid-template'') s))"
proof -
  have c: "find_client 1 waiting_state = Some demo_c1" "jc_setup_ok demo_c1"
    by (simp_all add: find_client_def waiting_state_def demo_s1_def demo_c1_def new_client_def)
  have i: "first_index (\<lambda>p. pd_client_id p = 1 \<and> pd_request_id p = 9 \<and> pd_awaiting_missing p)
      (pending_declares waiting_state) = Some 0"
    by (simp add: waiting_state_def waiting_def demo_pending_def)
  have "\<forall>k<pd_wtxid_count waiting. pd_tx_raws waiting ! k = None \<longrightarrow>
      (\<exists>tx\<in>set [[1, 2, 3]]. tx \<noteq> [] \<and> gen_hash tx = wtxid_at (pd_wtxid_list waiting) k)"
    by (simp add: waiting_def wtxid_at_def)
  moreover have w: "pending_declares waiting_state ! 0 = waiting" "remove_nth 0 (pending_declares waiting_state) = []"
    "pd_request_id waiting = 9"
    by (simp_all add: waiting_state_def remove_nth_def waiting_def demo_pending_def)
  ultimately show ?thesis
    using jd_answer_completes [OF waiting_ok c answer_decoded, of 0 waiting "demo_env []" "[]"] i
    unfolding w sv2_provide_missing_transactions_success.simps by blast
qed

text \<open>
  When a client leaves, exactly its entry, its tokens and its waiting declarations go, the
  others stay in order, and the token counters are exact afterwards.
\<close>

theorem jd_drop_client_exact:
  assumes "jd_reach E F st" and "st' = sv2_jd_drop_client cid st"
  shows "jd_clients st' = filter (\<lambda>c. jc_client_id c \<noteq> cid) (jd_clients st) \<and>
    jd_tokens st' = filter (\<lambda>t. tk_client_id t \<noteq> cid) (jd_tokens st) \<and>
    pending_declares st' = filter (\<lambda>p. pd_client_id p \<noteq> cid) (pending_declares st) \<and>
    jd_token_count st' = int (length (jd_tokens st')) \<and>
    unat (jd_token_snapshot_bytes st') = held (jd_tokens st')"
  by (rule dropped [OF reach_ok [OF assms(1)] assms(2)])

lemma jd_drop_client_exact_witness:
  "\<exists>st. jd_tokens st = [demo_t1] \<and> jd_tokens (sv2_jd_drop_client 1 st) = [] \<and>
    jd_token_count (sv2_jd_drop_client 1 st) = 0"
proof -
  obtain addr st where "jd_reach (pool_pays pool_script) (\<lambda>draws _. set draws \<subseteq> {demo_token}) st" "demo_s3 st"
    by (rule demo_run)
  then show ?thesis
    using jd_drop_client_exact [of _ _ st "sv2_jd_drop_client 1 st" 1] by (auto simp: demo_s3_def demo_t1_def)
qed

text \<open>
  C29. The payout is checked at the extranonce length derived from the prefix only.  A coinbase
  exists that passes the payout check of a shared pool with its script, and whose block is then
  also tried with the configured length of four and eight bytes; read at that length its only
  output of value pays somebody else and nothing goes to the pool.
\<close>

theorem jd_payout_other_length:
  assumes "tk_has_payout tok" and "tk_payout_script tok = pool_script"
  shows "payout_allowed (shared_4_8 env) tok two_faced_declare \<and>
    enonce_tries (shared_4_8 env) (new_pending cid now two_faced_declare) = [8, 12] \<and>
    coinbase_spendable (two_faced_prefix @ replicate 12 0 @ two_faced_suffix) pool_script = Some (0, 0x1000000)"
  using two_faced_allowed [OF assms] two_faced_tries two_faced_sums(2) by blast

lemma jd_payout_other_length_witness: "payout_allowed (shared_4_8 (demo_env [])) demo_t1 two_faced_declare"
  using jd_payout_other_length [of demo_t1 "demo_env []"] by (simp add: demo_t1_def)

section \<open>Transactions\<close>

text \<open>
  C30. Parsing the serialisation of any well-formed transaction, with any bytes after it, finds
  its exact length, its wtxid as the double hash of the whole serialisation and its txid as the
  double hash of the serialisation without marker, flag and witness.
\<close>

theorem tx_parse_of_serialised:
  assumes "wf_tx t"
  shows "sv2_bitcoin_tx_parse (ser_tx t @ rest) = Some
    \<lparr> tp_len = length (ser_tx t), tp_txid = gen_hash (ser_stripped t), tp_wtxid = gen_hash (ser_tx t) \<rparr>"
  by (rule sv2_bitcoin_tx_parse_serialised [OF assms])

lemma tx_parse_of_serialised_witness:
  "wf_tx demo_tx \<and> map_option tp_len (sv2_bitcoin_tx_parse (ser_tx demo_tx @ [1, 2])) =
    Some (length (ser_tx demo_tx))"
  using tx_parse_of_serialised [OF demo_tx_wf, of "[1, 2]"] demo_tx_wf by simp

text \<open>
  On any bytes, a successful walk yields boundaries that cut the buffer in order into
  version, marker, body, witness, four lock-time bytes and the rest, all inside the buffer.
\<close>

theorem tx_walk_within_buffer:
  assumes "tx_walk tx = Some b"
  shows "\<exists>mark body wit lock rest.
    tx = take 4 tx @ mark @ body @ wit @ lock @ rest \<and> length (take 4 tx) = 4 \<and>
    length mark = (if tb_witness b then 2 else 0) \<and>
    tb_vin_start b = body @ wit @ lock @ rest \<and> tb_vout_end b = wit @ lock @ rest \<and>
    tb_locktime b = lock @ rest \<and> length lock = 4 \<and> (tb_witness b \<or> wit = []) \<and>
    tb_len b = length tx - length rest \<and> tb_len b \<le> length tx"
  by (rule tx_walk_bounds [OF assms])

lemma tx_walk_within_buffer_witness:
  "\<exists>b. tx_walk (ser_tx demo_tx) = Some b \<and> tb_len b \<le> length (ser_tx demo_tx)"
proof -
  obtain b where b: "tx_walk (ser_tx demo_tx) = Some b"
    using tx_walk_serialised [OF demo_tx_wf, of "[]"] by simp
  with tx_walk_within_buffer [OF b] show ?thesis by blast
qed

section \<open>Hashing\<close>



section \<open>Nonces\<close>



section \<open>The tip ring\<close>

text \<open>
  C33. After any tips were recorded in a fresh ring, the ring stands for the bounded history of
  those tips (a repeat of the newest ignored, the last eight kept), and \<open>sv2_tip_relation\<close>,
  \<open>sv2_tip_plausible\<close> and \<open>sv2_tip_newest\<close> answer what that history says.
\<close>

theorem tip_ring_is_history:
  "let r = foldl (\<lambda>r (h, b, t). sv2_tip_push r h b t) tip_ring_zero tips;
       hist = fold tips_push tips []
   in ring_inv r \<and> ring_hist r = hist \<and> length hist \<le> 8 \<and>
      (\<forall>p. sv2_tip_relation r p = tips_relation hist p) \<and>
      (\<forall>b t. sv2_tip_plausible r b t = tips_plausible hist b t) \<and>
      sv2_tip_newest r = (case hist of [] \<Rightarrow> None | t # _ \<Rightarrow> Some (fst t))"
proof -
  let ?r = "foldl (\<lambda>r (h, b, t). sv2_tip_push r h b t) tip_ring_zero tips"
  have inv: "ring_inv ?r"
    using ring.inv_pushes [OF ring_inv_zero, of tips] by (simp add: ring.pushes_def)
  have hist: "ring_hist ?r = fold tips_push tips []"
    using ring.hist_pushes [OF ring_inv_zero, of tips] ring.hist_empty by (simp add: ring.pushes_def)
  have len: "length (ring_hist ?r) \<le> 8"
    using ring.hist_length [of tips] by (simp add: ring.pushes_def)
  show ?thesis
    using inv hist len ring.relation [OF inv] ring.plausible [OF inv] ring_newest [OF inv]
    by (simp add: Let_def)
qed

text \<open>
  With up to eight tips recorded, no two neighbours equal, the pool's tip is \<open>SAME\<close> exactly
  if it is the last one, \<open>BEHIND\<close> exactly if it is an earlier one and \<open>AHEAD\<close> exactly if it is none.
\<close>

theorem tip_relation_exact:
  assumes "tips \<noteq> []" and "length tips \<le> 8" and "distinct_adj (map fst tips)"
  shows "sv2_tip_relation (foldl (\<lambda>r (h, b, t). sv2_tip_push r h b t) tip_ring_zero tips) p =
    (if p = fst (last tips) then SV2_TIP_SAME
     else if p \<in> fst ` set tips then SV2_TIP_BEHIND else SV2_TIP_AHEAD)"
  using ring.relation_of_recorded [OF assms, of p] by (simp add: ring.pushes_def)

lemma tip_relation_exact_witness:
  "sv2_tip_relation (foldl (\<lambda>r (h, b, t). sv2_tip_push r h b t) tip_ring_zero
    [([1], 5, 10), ([2], 5, 20)]) [1] = SV2_TIP_BEHIND"
  using tip_relation_exact [of "[([1], 5, 10), ([2], 5, 20)]" "[1]"] by simp

section \<open>Messages\<close>

text \<open>
  C34. What the decoder of DeclareMiningJob accepts is canonical: re-encoding the message gives
  back the very bytes it was read from (up to bytes after the message), and the message respects
  every array bound of the structure.
\<close>

theorem declare_job_canonical:
  assumes "sv2_decode_declare_mining_job p = Some m"
    and "sv2_declare_mining_job_encoded_size m \<le> SV2_MAX_JD_PAYLOAD"
  shows "ok_declare_mining_job m \<and>
    (\<exists>enc rest. p = enc @ rest \<and> sv2_encode_declare_mining_job (length p) m = Some enc)"
  by (rule declare_decode_canonical [OF assms])

lemma declare_job_canonical_witness:
  "\<exists>p enc rest. sv2_decode_declare_mining_job p = Some demo_declare \<and> p = enc @ rest \<and>
    sv2_encode_declare_mining_job (length p) demo_declare = Some enc"
proof -
  obtain p where p: "sv2_decode_declare_mining_job (p @ []) = Some demo_declare"
    using m_declare.message_roundtrip [OF demo_ok(2) order_refl, of "[]"] by blast
  have "sv2_declare_mining_job_encoded_size demo_declare \<le> SV2_MAX_JD_PAYLOAD"
    using demo_ok(2) by (simp add: ok_declare_mining_job_def)
  from declare_job_canonical [OF p this] p show ?thesis by blast
qed

text \<open>
  Two well-formed SetCustomMiningJob messages whose encodings start the same stream of bytes
  are the same message, and every encoding decodes to its message whatever follows it.
\<close>

theorem custom_job_prefix_free:
  assumes "ok_set_custom_mining_job m" and "ok_set_custom_mining_job m'"
    and "sv2_encode_set_custom_mining_job b m = Some bs"
    and "sv2_encode_set_custom_mining_job b' m' = Some bs'" and "bs @ r = bs' @ r'"
  shows "m = m' \<and> r = r' \<and> sv2_decode_set_custom_mining_job (bs @ r) = Some m"
  using m_custom.message_prefix_free [OF assms] m_custom.decode_encode [OF assms(1,3)] by simp

lemma custom_job_prefix_free_witness:
  "\<exists>bs. sv2_encode_set_custom_mining_job 1000 demo_custom = Some bs \<and>
    sv2_decode_set_custom_mining_job (bs @ [1]) = Some demo_custom"
proof -
  have "sv2_set_custom_mining_job_encoded_size demo_custom \<le> 1000"
    by (simp add: sv2_set_custom_mining_job_encoded_size_def demo_custom_def)
  then obtain bs where "sv2_encode_set_custom_mining_job 1000 demo_custom = Some bs"
    using m_custom.encode_fits [OF demo_ok(3)] by blast
  from custom_job_prefix_free [OF demo_ok(3) demo_ok(3) this this refl, of "[1]"] this show ?thesis
    by blast
qed

text \<open>
  C35. A NewExtendedMiningJob encoded, framed by \<open>sv2_build_frame\<close> and read back through
  \<open>sv2_decode_header\<close> is the message that was sent, with its extension and message type and a
  frame of exactly the length the header announces.
\<close>

theorem ext_job_framed_roundtrip:
  assumes "ok_new_extended_mining_job m"
    and "sv2_encode_new_extended_mining_job bufsz m = Some bs" and "length bs \<le> 0x00FFFFFF"
  shows "\<exists>frame h. sv2_build_frame ext t bs (of_nat (length bs)) = Some frame \<and>
    sv2_decode_header frame = Some h \<and> fr_extension_type h = ext \<and> fr_msg_type h = t \<and>
    length frame = SV2_FRAME_HEADER_LEN + unat (fr_msg_length h) \<and>
    sv2_decode_new_extended_mining_job (drop SV2_FRAME_HEADER_LEN frame) = Some m"
  using m_new_ext_job.framed_roundtrip [OF assms(1,2)] m_new_ext_job.encode_length [OF assms(1,2)]
    assms(3) by simp

lemma ext_job_framed_roundtrip_witness:
  "\<exists>bs frame. sv2_encode_new_extended_mining_job 200 demo_ext_job = Some bs \<and>
    sv2_build_frame 0x8000 0x1f bs (of_nat (length bs)) = Some frame \<and>
    sv2_decode_new_extended_mining_job (drop SV2_FRAME_HEADER_LEN frame) = Some demo_ext_job"
proof -
  obtain bs where bs: "sv2_encode_new_extended_mining_job 200 demo_ext_job = Some bs" "length bs = 58"
    using m_new_ext_job.encode_fits [OF demo_ok(4), of 200] by (auto simp: demo_ext_job_def)
  then have "length bs \<le> 0x00FFFFFF" by simp
  from ext_job_framed_roundtrip [OF demo_ok(4) bs(1) this, of "0x8000" "0x1f"] bs(1)
  show ?thesis by blast
qed

text \<open>
  SetupConnection: the encoder needs exactly the sum of its fields, refuses any smaller
  buffer, and its output decodes to the message whatever follows it.
\<close>

theorem setup_connection_roundtrip:
  assumes "ok_setup_connection m"
  shows "(sv2_encode_setup_connection bufsz m = None \<longleftrightarrow>
      bufsz < 16 + strlen (sc_endpoint_host m) + strlen (sc_vendor m) +
        strlen (sc_hardware_version m) + strlen (sc_firmware m) + strlen (sc_device_id m)) \<and>
    (\<forall>bs rest. sv2_encode_setup_connection bufsz m = Some bs \<longrightarrow>
      sv2_decode_setup_connection (bs @ rest) = Some m)"
  using m_setup.encode_succeeds_iff [OF assms, of bufsz] m_setup.decode_encode [OF assms]
  by (auto simp: not_le)

lemma setup_connection_roundtrip_witness:
  "sv2_encode_setup_connection 19 demo_setup = None \<and>
    (\<exists>bs. sv2_encode_setup_connection 20 demo_setup = Some bs \<and>
      sv2_decode_setup_connection bs = Some demo_setup)"
proof -
  have len: "16 + strlen (sc_endpoint_host demo_setup) + strlen (sc_vendor demo_setup) +
      strlen (sc_hardware_version demo_setup) + strlen (sc_firmware demo_setup) +
      strlen (sc_device_id demo_setup) = 20"
    by (simp add: demo_setup_def strlen_c_buf)
  have a: "sv2_encode_setup_connection 19 demo_setup = None"
    using setup_connection_roundtrip [OF demo_ok(1), of 19] unfolding len by simp
  obtain bs where bs: "sv2_encode_setup_connection 20 demo_setup = Some bs"
    using setup_connection_roundtrip [OF demo_ok(1), of 20] unfolding len by auto
  then have "sv2_decode_setup_connection (bs @ []) = Some demo_setup"
    using setup_connection_roundtrip [OF demo_ok(1), of 20] by blast
  with a bs show ?thesis by auto
qed

text \<open>
  ProvideMissingTransactions.Success: an accepted payload yields at most 25000
  transactions, each of at most four megabytes and of the length recorded for it, and together
  with the prefixes they take no more bytes than the payload has.
\<close>

theorem missing_txs_bounded:
  assumes "sv2_decode_provide_missing_transactions_success payload = Some m"
  shows "unat (pms_tx_count m) \<le> 25000 \<and> length (pms_transactions m) = unat (pms_tx_count m) \<and>
    length (pms_tx_lens m) = unat (pms_tx_count m) \<and>
    (\<forall>i < unat (pms_tx_count m). length (pms_transactions m ! i) = unat (pms_tx_lens m ! i) \<and>
       pms_tx_lens m ! i \<le> SV2_MAX_TX_BYTES) \<and>
    6 + (\<Sum>tx\<leftarrow>pms_transactions m. 3 + length tx) \<le> length payload"
  by (rule missing_decode_bounds [OF assms])

lemma missing_txs_bounded_witness:
  "\<exists>payload. sv2_decode_provide_missing_transactions_success payload = Some demo_missing \<and>
    6 + (\<Sum>tx\<leftarrow>pms_transactions demo_missing. 3 + length tx) \<le> length payload"
proof -
  obtain bs where d: "sv2_decode_provide_missing_transactions_success (bs @ []) = Some demo_missing"
    using m_missing_ok.message_roundtrip [OF demo_ok(5) order_refl, of "[]"] by blast
  from missing_txs_bounded [OF d] d show ?thesis by blast
qed

section \<open>Bounds and refusals\<close>

text \<open>
  C36. Whatever bytes a peer sends, \<open>sv2_conn_feed\<close> returns, and the reassembly buffer stays
  within its capacity and the capacity within the connection's ceiling.
\<close>

theorem conn_feed_stays_bounded:
  assumes "conn_ok c"
  shows "\<exists>ok frames c'. sv2_conn_feed opn c data = Some (ok, frames, c') \<and>
    length (cn_rx c') \<le> cn_rx_cap c' \<and> cn_rx_cap c' \<le> cn_rx_max c' \<and> cn_rx_max c' = cn_rx_max c"
  using conn_feed_bounded [OF assms, of opn data] by (auto simp: conn_ok_def)

lemma conn_feed_stays_bounded_witness:
  "\<exists>ok frames c'. sv2_conn_feed plain_open (sv2_conn_new demo_session) (replicate 9000 0) =
    Some (ok, frames, c') \<and> cn_rx_cap c' \<le> cn_rx_max c'"
proof -
  have "conn_ok (sv2_conn_new demo_session)"
    by (simp add: conn_ok_def sv2_conn_new_def sv2_rx_max_for_payload_def SV2_RX_CAP_INITIAL_def
        SV2_RX_READ_CHUNK_def SV2_MAX_MINING_PAYLOAD_def)
  from conn_feed_stays_bounded [OF this, of plain_open "replicate 9000 0"] show ?thesis by blast
qed

text \<open>
  In every interleaving, at most 256 handshakes hold a slot, and a reservation while all
  are held is refused and changes nothing.
\<close>

theorem handshake_slots_bounded:
  assumes "hs_reach st granted clock"
  shows "g_hs_global_inflight st \<le> 256 \<and>
    (g_hs_global_inflight st = 256 \<longrightarrow> sv2_handshake_try_reserve addr now st = (False, st))"
  using hs_reach_inflight [OF assms]
  by (simp add: sv2_handshake_try_reserve_def SV2_HS_MAX_GLOBAL_def)

lemma handshake_slots_bounded_witness: "g_hs_global_inflight hs_init \<le> 256"
  using handshake_slots_bounded [OF hs_reach.start] by blast

text \<open>
  A payout blob whose fixed outputs claim more than the coinbase may is refused, for every
  buffer and commitment.
\<close>

theorem overclaiming_payouts_refused:
  assumes "outputs_of payouts = Some (o0 # outs, q)" and "unat value < out_value outs"
  shows "sv2_cb_build_outputs outsz payouts value commitment clen = None"
  by (rule build_outputs_overclaim [OF assms])

lemma overclaiming_payouts_refused_witness:
  "sv2_cb_build_outputs 200 demo_payouts 29 demo_commitment 10 = None"
proof (rule overclaiming_payouts_refused)
  show "outputs_of demo_payouts = Some ((0, [0x51], 1) # [(30, [0x52], 1)], [])"
    by (simp add: outputs_of_def demo_payouts_def sv2_read_compact_size_def read_output_def
        sv2_have_bytes_def Let_def)
qed (simp add: out_value_def)

text \<open>
  The coinbase assembled for a custom job is the declared one with the extranonce in the
  hole, less marker, flag and witness.
\<close>

theorem assembled_matches_declared:
  assumes "wf_spec spec" and "sv2_cb_declare_parts spec = Some (pre, suf)"
    and "length en1 = unat l1" and "length ext = unat l2"
    and "unat l1 + unat l2 = unat (cs_hole_len spec)"
    and "50 + unat (cs_ssig_prefix_len spec) + unat (cs_hole_len spec) +
      unat (cs_outputs_len spec) \<le> outsz"
  shows "sv2_cb_assemble outsz (cs_version spec) (cs_nsequence spec) (cs_locktime spec)
      (cs_ssig_prefix spec, cs_ssig_prefix_len spec) (en1, l1) (ext, l2)
      (cs_outputs spec, cs_outputs_len spec) =
    Some (take 4 pre @ drop (if cs_witness_reserved spec = None then 4 else 6) pre @ en1 @ ext @
      take (4 + unat (cs_outputs_len spec)) suf @ drop (length suf - 4) suf)"
  using declared_is_assembled [OF assms(1,2,3,4,5)] assms(6) by simp

lemma assembled_matches_declared_witness:
  "\<exists>cb. sv2_cb_assemble 200 (cs_version demo_spec) (cs_nsequence demo_spec)
      (cs_locktime demo_spec) (cs_ssig_prefix demo_spec, cs_ssig_prefix_len demo_spec)
      ([1, 2, 3, 4], 4) ([5, 6, 7, 8], 4) (cs_outputs demo_spec, cs_outputs_len demo_spec) = Some cb"
proof -
  obtain pre suf where "sv2_cb_declare_parts demo_spec = Some (pre, suf)" using demo_parts by blast
  from assembled_matches_declared [OF demo_wf this, of "[1, 2, 3, 4]" 4 "[5, 6, 7, 8]" 4 200]
  show ?thesis by (simp add: demo_spec_def)
qed




text \<open>
  The coinbase assembled for a custom job is never called malformed: its verdict is the one
  of the sequence number and lock time it was built from.
\<close>

theorem assembled_coinbase_finality:
  assumes "sv2_cb_assemble outsz ver nseq lock (ssig, l0) (en1, l1) (ext, l2) (outs, l3) = Some cb"
    and "unat l0 + unat l1 + unat l2 < 253"
    and "length ssig = unat l0" and "length en1 = unat l1" and "length ext = unat l2"
    and "length outs = unat l3"
  shows "coinbase_finality cb height =
    (if lock = 0 \<or> nseq = 0xffffffff \<or> (uint lock < 500000000 \<and> uint lock < height) then CBF_FINAL
     else if uint lock < 500000000 then CBF_NONFINAL else CBF_UNKNOWN, nseq, lock)"
  by (rule assembled_finality [OF assms])

lemma assembled_coinbase_finality_witness:
  "\<exists>cb. sv2_cb_assemble 200 2 7 900 ([3, 1, 2, 3], 4) ([1], 1) ([2], 1) (demo_outputs, 11) = Some cb \<and>
    coinbase_finality cb 901 = (CBF_FINAL, 7, 900)"
proof -
  obtain cb where cb:
    "sv2_cb_assemble 200 2 7 900 ([3, 1, 2, 3], 4) ([1], 1) ([2], 1) (demo_outputs, 11) = Some cb"
    by (auto simp: sv2_cb_assemble_def Let_def)
  from assembled_coinbase_finality [OF cb, of 901] cb show ?thesis by (simp add: demo_outputs_def)
qed

text \<open>
  A branch is refused exactly for an empty list of leaves or more than \<open>2 ^ 32\<close> of them.
\<close>

theorem merkle_branch_refused_iff:
  "cashstratum_merkle_branch hashes leaves = None \<longleftrightarrow> leaves = 0 \<or> 2 ^ 32 < leaves"
  using merkle_branch_some_iff [of hashes leaves]
  by (cases "cashstratum_merkle_branch hashes leaves") auto

text \<open>
  Output \<open>idx\<close> of a blob is the one a full read of the blob has at that index; an index
  outside the list is refused.
\<close>

theorem output_at_is_nth:
  assumes "outputs_of blob = Some (outs, q)" and "1 \<le> length outs" and "length outs \<le> 16"
  shows "sv2_cb_output_at blob idx =
    (if 0 \<le> idx \<and> idx < int (length outs) then Some (outs ! nat idx) else None)"
  by (rule output_at_nth [OF assms])

lemma output_at_is_nth_witness:
  "sv2_cb_output_at demo_outputs 0 = Some (100, [0x51], 1) \<and> sv2_cb_output_at demo_outputs 1 = None"
  using output_at_is_nth [OF demo_outputs_read, of 0] output_at_is_nth [OF demo_outputs_read, of 1]
  by simp

text \<open>
  A CompactSize is read back whatever follows it, takes the announced number of bytes, and
  no encoding starts another.
\<close>

theorem compact_size_roundtrip:
  "sv2_read_compact_size (sv2_write_compact_size n @ r) = Some (n, r) \<and>
   length (sv2_write_compact_size n) = sv2_compact_size_len n \<and>
   (sv2_write_compact_size m @ s = sv2_write_compact_size n @ r) = (m = n \<and> s = r)"
  using compact_rt [of n r] length_write_compact [of n] wcs.wr_prefix_free [where x = m and y = n and r = s and s = r] by auto

text \<open>
  A socket that has no channel 120 seconds after it was accepted is expired whatever state
  its handshake is in, provided its setup came within the setup limit; one with a channel never is.
\<close>

theorem pre_session_reaped:
  assumes "accept_time + 120 < now" and "setup_time \<le> accept_time + 60"
  shows "fst (sv2_pre_session_expired hs setup_time has_channel accept_time now) \<longleftrightarrow> \<not> has_channel"
  by (rule pre_session_bound [OF assms])

lemma pre_session_reaped_witness: "fst (sv2_pre_session_expired False 50 False 10 131)"
  using pre_session_reaped [of 10 131 50 False False] by simp

text \<open>
  For a script of 253 to 255 bytes, which \<open>sv2_cb_assemble\<close> accepts, the length byte it
  writes is not a CompactSize of that length but the marker of a longer one.
\<close>

theorem assembled_long_script_misread:
  assumes "sv2_cb_assemble outsz ver nseq lock (ssig, l0) (en1, l1) (ext, l2) (outs, l3) = Some cb"
    and "253 \<le> unat l0 + unat l1 + unat l2"
  shows "cb ! 41 = of_nat (unat l0 + unat l1 + unat l2) \<and> 0xfd \<le> cb ! 41 \<and>
    sv2_write_compact_size (of_nat (unat l0 + unat l1 + unat l2)) \<noteq> [cb ! 41]"
proof -
  have b: "cb ! 41 = of_nat (unat l0 + unat l1 + unat l2)" "0xfd \<le> cb ! 41"
    using assemble_long_script [OF assms] by auto
  have "sv2_read_compact_size [cb ! 41] = None"
    using b(2) by (auto simp: sv2_read_compact_size_def have_n_def)
  then have "sv2_write_compact_size n \<noteq> [cb ! 41]" for n
    using compact_rt [of n "[]"] by auto
  with b show ?thesis by simp
qed

lemma assembled_long_script_misread_witness:
  "\<exists>cb. sv2_cb_assemble 400 2 0 0 (replicate 253 1, 253) ([], 0) ([], 0) (demo_outputs, 11) = Some cb \<and>
    cb ! 41 = 0xfd"
proof -
  obtain cb where cb:
    "sv2_cb_assemble 400 2 0 0 (replicate 253 1, 253) ([], 0) ([], 0) (demo_outputs, 11) = Some cb"
    by (auto simp: sv2_cb_assemble_def Let_def)
  from assembled_long_script_misread [OF cb] cb show ?thesis by simp
qed

text \<open>
  On a legacy transaction followed by other bytes, \<open>sv2_bitcoin_txid\<close> hashes those bytes
  too, where \<open>sv2_bitcoin_tx_parse\<close> hashes the transaction only.
\<close>

theorem txid_of_trailing_bytes:
  assumes "wf_tx t" and "\<not> bt_segwit t"
  shows "sv2_bitcoin_txid (ser_tx t @ rest) = Some (gen_hash (ser_tx t @ rest)) \<and>
    map_option tp_txid (sv2_bitcoin_tx_parse (ser_tx t @ rest)) = Some (gen_hash (ser_tx t))"
  using assms tx_walk_serialised [OF assms(1), of rest] sv2_bitcoin_tx_parse_serialised [OF assms(1), of rest]
  by (simp add: sv2_bitcoin_txid_def ser_tx_def ser_stripped_def ser_witness_def)

lemma txid_of_trailing_bytes_witness:
  "sv2_bitcoin_txid (ser_tx (demo_tx\<lparr>bt_segwit := False\<rparr>) @ [1]) =
    Some (gen_hash (ser_tx (demo_tx\<lparr>bt_segwit := False\<rparr>) @ [1]))"
proof -
  have "wf_tx (demo_tx\<lparr>bt_segwit := False\<rparr>)" "\<not> bt_segwit (demo_tx\<lparr>bt_segwit := False\<rparr>)"
    using demo_tx_wf by (simp_all add: wf_tx_def)
  from txid_of_trailing_bytes [OF this, of "[1]"] show ?thesis by simp
qed

section \<open>Payout addresses\<close>

text \<open>
  C38. \<open>cashaddr_decode_checked\<close> accepts an address exactly when its case is consistent and its
  payload, in lower case, is the cash address encoding of twenty bytes of hash and a version
  byte of the right type under the wanted prefix; the hash it returns is the one encoded.
\<close>

theorem cashaddr_accepted_iff:
  assumes "length prefix \<le> 90"
  shows "cashaddr_decode_checked addr prefix = Some (h, t) \<longleftrightarrow>
    case_is_consistent addr \<and>
    (\<exists>p v. cashaddr_payload_of addr prefix = Some p \<and> length h = 20 \<and> version_is v t \<and>
      map tolower p = cashaddr_encode prefix v h)"
  by (rule cashaddr_decode_iff [OF assms])

lemma cashaddr_accepted_iff_witness:
  "length bitcoincash \<le> 90 \<and> case_is_consistent demo_payload \<and> length demo_hash20 = 20"
proof -
  have l: "length bitcoincash \<le> 90" by (simp add: bitcoincash_def)
  from cashaddr_accepted_iff [OF l, of demo_payload demo_hash20 False] demo_address_lower l
  show ?thesis by blast
qed



text \<open>
  The decoder looks at the type bits of the version byte and not at the size bits: for each
  type, the address of twenty bytes of hash is accepted under all eight version bytes of that
  type, with and without the prefix, and under no other version byte.
\<close>

theorem cashaddr_size_bits_ignored:
  assumes "length h = 20" and "length prefix \<le> 90"
    and "\<forall>c\<in>set prefix. c \<noteq> 0x3a \<and> \<not> (0x41 \<le> c \<and> c \<le> 0x5a)"
    and "unat v div 8 = (if t then 1 else 0)"
  shows "cashaddr_decode_checked (prefix @ 0x3a # cashaddr_encode prefix v h) prefix = Some (h, t) \<and>
    cashaddr_decode_checked (cashaddr_encode prefix v h) prefix = Some (h, t)"
  using cashaddr_roundtrip [OF assms(1) _ assms(2,3)] assms(4) by (simp add: version_is_iff)

lemma cashaddr_size_bits_ignored_witness:
  "cashaddr_decode_checked (cashaddr_encode bitcoincash 7 demo_hash20) bitcoincash =
    Some (demo_hash20, False)"
proof -
  have "length demo_hash20 = 20" and "length bitcoincash \<le> 90"
    and "\<forall>c\<in>set bitcoincash. c \<noteq> 0x3a \<and> \<not> (0x41 \<le> c \<and> c \<le> 0x5a)"
    by (simp_all add: demo_hash20_def bitcoincash_def)
  from cashaddr_size_bits_ignored [OF this, of 7 False] show ?thesis by simp
qed

text \<open>
  C40. The legacy address \<open>txn_to_address\<close> prints for a pay-to-key-hash or pay-to-script-hash
  output, into any buffer of at least 36 bytes, is read by \<open>bch_address_to_script\<close> back to the
  very script, when the configured prefix and the reference address name the same chain.
\<close>

theorem address_script_roundtrip:
  assumes "length h = 20" and "36 \<le> alen"
    and "strcaseeq prefix bitcoincash \<longleftrightarrow> fst (address_chain ref) = hrp_bc"
  shows "\<exists>s. txn_to_address alen (pays is_p2sh h) ref = Some s \<and>
    bch_address_to_script s prefix = Some (pays is_p2sh h)"
  by (rule script_address_script [OF assms])

lemma address_script_roundtrip_witness:
  "\<exists>s. txn_to_address 128 (hash160_to_p2pkh_script demo_hash20) [] = Some s \<and>
    bch_address_to_script s bitcoincash = Some (hash160_to_p2pkh_script demo_hash20)"
proof -
  have "length demo_hash20 = 20" by (simp add: demo_hash20_def)
  moreover have "strcaseeq bitcoincash bitcoincash \<longleftrightarrow> fst (address_chain []) = hrp_bc" by code_simp
  ultimately show ?thesis
    using address_script_roundtrip [of demo_hash20 128 bitcoincash "[]" False] by (simp add: pays_def)
qed

text \<open>
  Where the strict Base58 decoder accepts, the older table-driven \<open>b58tobin\<close>, which works in
  seven 32-bit words, computes the same twenty-five bytes.
\<close>

theorem base58_decoders_agree:
  assumes "bch_b58decode_strict s = Some out"
  shows "b58tobin s = out"
  by (rule b58tobin_strict [OF assms])

lemma base58_decoders_agree_witness: "b58tobin [0x32, 0x31] = replicate 24 0 @ [58]"
proof -
  have "bch_b58decode_strict [0x32, 0x31] = Some (replicate 24 0 @ [58])" by code_simp
  from base58_decoders_agree [OF this] show ?thesis .
qed

text \<open>
  Leading ones are not counted: putting any number of them before an accepted legacy
  address, up to a hundred characters, leaves the script it pays unchanged.
\<close>

theorem legacy_leading_ones:
  assumes "bch_b58decode_strict s = Some out" and "n + length s \<le> 100" and "n + length s \<noteq> 42"
    and "length s \<noteq> 42"
  shows "bch_address_to_script (replicate n 0x31 @ s) prefix = bch_address_to_script s prefix"
  by (rule leading_ones_paid [OF assms])

lemma legacy_leading_ones_witness:
  "\<exists>s. bch_b58decode_strict s \<noteq> None \<and>
    bch_address_to_script (replicate 3 0x31 @ s) bitcoincash = bch_address_to_script s bitcoincash"
proof -
  have "length demo_hash20 = 20" by (simp add: demo_hash20_def)
  from b58check_encode_payload [OF this refl, of 64 0] obtain s out where
    "length s \<le> 35" "bch_b58decode_strict s = Some out" by blast
  with legacy_leading_ones [of s out 3 bitcoincash] show ?thesis by auto
qed

end
